(* ===== verification/Skali_Prelude.thy ===== *)
theory Skali_Prelude
  imports Main "HOL-Library.AList" "HOL-Library.Char_ord" "HOL-Library.List_Lexorder"
    "HOL-Library.Multiset" "HOL-Library.Product_Lexorder"
begin

text \<open>
  Shared vocabulary of the development: Go maps as association lists, Go's
  comparator-driven sorting, instants and durations, 64-bit integers, and
  the two generic interfaces the components instantiate (a strict weak
  order for every sort, a transition system for every state machine).

  A Go \<^verbatim>\<open>map[K]V\<close> is an association list with distinct keys. The order of
  the list stands for the order in which a \<^verbatim>\<open>range\<close> loop visits the entries:
  Go leaves it unspecified, so every theorem is about all orders. A nil map
  is the empty list, which reads the same.
\<close>

named_theorems gomap_simps "rewriting Go map reads after writes"
named_theorems cluster_defs "unfolding the small accessors of the cluster state"

section \<open>Go maps\<close>

type_synonym ('k, 'v) gomap = "('k \<times> 'v) list"

abbreviation mget :: "('k, 'v) gomap \<Rightarrow> 'k \<Rightarrow> 'v option" where
  "mget m k \<equiv> map_of m k"

abbreviation mput :: "'k \<Rightarrow> 'v \<Rightarrow> ('k, 'v) gomap \<Rightarrow> ('k, 'v) gomap" where
  "mput k v m \<equiv> AList.update k v m"

abbreviation mdel :: "'k \<Rightarrow> ('k, 'v) gomap \<Rightarrow> ('k, 'v) gomap" where
  "mdel k m \<equiv> AList.delete k m"

abbreviation mkeys :: "('k, 'v) gomap \<Rightarrow> 'k list" where
  "mkeys m \<equiv> map fst m"

abbreviation mvals :: "('k, 'v) gomap \<Rightarrow> 'v list" where
  "mvals m \<equiv> map snd m"

definition gomap_ok :: "('k, 'v) gomap \<Rightarrow> bool" where
  "gomap_ok m = distinct (mkeys m)"

text \<open>\<^verbatim>\<open>m[k]\<close> in an expression: the zero value when the key is absent.\<close>

definition mget_or :: "'v \<Rightarrow> ('k, 'v) gomap \<Rightarrow> 'k \<Rightarrow> 'v" where
  "mget_or zero m k = (case mget m k of None \<Rightarrow> zero | Some v \<Rightarrow> v)"

lemma gomap_ok_Nil [simp]: "gomap_ok []"
  by (simp add: gomap_ok_def)

lemma gomap_ok_singleton [simp]: "gomap_ok [(k, v)]"
  by (simp add: gomap_ok_def)

lemma gomap_ok_mput [simp, intro]: "gomap_ok m \<Longrightarrow> gomap_ok (mput k v m)"
  by (simp add: gomap_ok_def distinct_update)

lemma gomap_ok_mdel [simp, intro]: "gomap_ok m \<Longrightarrow> gomap_ok (mdel k m)"
  by (simp add: gomap_ok_def distinct_delete)

lemma mget_mput [gomap_simps, simp]:
  "mget (mput k v m) k' = (if k' = k then Some v else mget m k')"
  by (simp add: update_conv')

lemma mget_mdel [gomap_simps, simp]:
  "mget (mdel k m) k' = (if k' = k then None else mget m k')"
  by (simp add: delete_conv')

lemma mget_or_mput [gomap_simps, simp]:
  "mget_or z (mput k v m) k' = (if k' = k then v else mget_or z m k')"
  by (simp add: mget_or_def)

lemma gomap_ok_mem: "gomap_ok m \<Longrightarrow> (k, v) \<in> set m \<longleftrightarrow> mget m k = Some v"
  by (auto simp: gomap_ok_def intro: map_of_is_SomeI map_of_SomeD)

lemma mget_or_Some [simp]: "mget m k = Some v \<Longrightarrow> mget_or z m k = v"
  by (simp add: mget_or_def)

lemma mget_or_None [simp]: "mget m k = None \<Longrightarrow> mget_or z m k = z"
  by (simp add: mget_or_def)

text \<open>What a map holds does not depend on the order in which it is visited.\<close>

lemma gomap_perm_mget:
  assumes "gomap_ok m" and "mset m' = mset m"
  shows "mget m' k = mget m k"
proof -
  have "gomap_ok m'"
    using assms unfolding gomap_ok_def by (metis mset_map mset_eq_imp_distinct_iff)
  moreover have "set m' = set m" using assms(2) by (rule mset_eq_setD)
  ultimately show ?thesis
    using gomap_ok_mem [OF assms(1)] gomap_ok_mem [of m'] by (metis not_Some_eq)
qed

text \<open>Mapping the values of a Go map keeps its keys.\<close>

lemma mget_map_values [simp]:
  "mget (map (\<lambda>(k, v). (k, f k v)) m) k' = map_option (f k') (mget m k')"
  by (induction m) auto

lemma mget_map_snd:
  "mget (map (\<lambda>kv. (fst kv, f kv)) m) k' = map_option (\<lambda>v. f (k', v)) (mget m k')"
  by (induction m) auto

lemma mkeys_map_values [simp]: "mkeys (map (\<lambda>(k, v). (k, f k v)) m) = mkeys m"
  by (induction m) auto

section \<open>Sorting with a Go comparator\<close>

text \<open>
  \<^verbatim>\<open>sort.Slice\<close>, \<^verbatim>\<open>sort.SliceStable\<close> and \<^verbatim>\<open>slices.SortFunc\<close> take the
  comparator of the call site. They are modelled by one stable insertion
  sort over that comparator; where the comparator separates all elements
  (as the ones of the cluster state do on validated revisions) every
  sorting algorithm yields the same list.
\<close>

fun insert_by :: "('a \<Rightarrow> 'a \<Rightarrow> bool) \<Rightarrow> 'a \<Rightarrow> 'a list \<Rightarrow> 'a list" where
  "insert_by lt x [] = [x]"
| "insert_by lt x (y # ys) =
     (if lt y x then y # insert_by lt x ys else x # y # ys)"

definition sort_by :: "('a \<Rightarrow> 'a \<Rightarrow> bool) \<Rightarrow> 'a list \<Rightarrow> 'a list" where
  "sort_by lt xs = foldr (insert_by lt) xs []"

lemma mset_insert_by [simp]: "mset (insert_by lt x ys) = add_mset x (mset ys)"
  by (induction ys) auto

lemma sort_by_Nil [simp]: "sort_by lt [] = []"
  by (simp add: sort_by_def)

lemma sort_by_Cons: "sort_by lt (x # xs) = insert_by lt x (sort_by lt xs)"
  by (simp add: sort_by_def)

lemma mset_sort_by [simp]: "mset (sort_by lt xs) = mset xs"
  by (induction xs) (auto simp: sort_by_Cons)

lemma set_sort_by [simp]: "set (sort_by lt xs) = set xs"
  using mset_sort_by [of lt xs] by (metis set_mset_mset)

lemma length_sort_by [simp]: "length (sort_by lt xs) = length xs"
  using mset_sort_by [of lt xs] by (metis size_mset)

lemma distinct_sort_by [simp]: "distinct (sort_by lt xs) = distinct xs"
  using mset_sort_by [of lt xs] by (metis mset_eq_imp_distinct_iff)

lemma sort_by_eq_Nil_iff [simp]: "sort_by lt xs = [] \<longleftrightarrow> xs = []"
  using length_sort_by [of lt xs] by (metis length_0_conv)

text \<open>The contract of a comparator: a strict weak order on the elements sorted.\<close>

locale comparator =
  fixes lt :: "'a \<Rightarrow> 'a \<Rightarrow> bool" and A :: "'a set"
  assumes asym: "x \<in> A \<Longrightarrow> y \<in> A \<Longrightarrow> lt x y \<Longrightarrow> \<not> lt y x"
    and neg_trans: "x \<in> A \<Longrightarrow> y \<in> A \<Longrightarrow> z \<in> A \<Longrightarrow>
      \<not> lt x y \<Longrightarrow> \<not> lt y z \<Longrightarrow> \<not> lt x z"
begin

lemma sorted_insert_by:
  assumes "insert x (set ys) \<subseteq> A" and "sorted_wrt (\<lambda>a b. \<not> lt b a) ys"
  shows "sorted_wrt (\<lambda>a b. \<not> lt b a) (insert_by lt x ys)"
  using assms
proof (induction ys)
  case Nil
  then show ?case by simp
next
  case (Cons y ys)
  have ins: "set (insert_by lt x ys) = insert x (set ys)"
    by (metis mset_insert_by set_mset_add_mset_insert set_mset_mset)
  show ?case
  proof (cases "lt y x")
    case True
    then show ?thesis
      using Cons ins asym [of y x] by auto
  next
    case False
    have "\<not> lt z x" if z: "z \<in> set ys" for z
    proof -
      have "\<not> lt z y" using Cons.prems z by auto
      then show ?thesis using neg_trans [of z y x] False Cons.prems z by auto
    qed
    then show ?thesis using Cons.prems False by auto
  qed
qed

lemma sorted_sort_by:
  "set xs \<subseteq> A \<Longrightarrow> sorted_wrt (\<lambda>a b. \<not> lt b a) (sort_by lt xs)"
  by (induction xs) (auto simp: sort_by_Cons intro!: sorted_insert_by)

lemma sort_by_hd_least:
  assumes "set xs \<subseteq> A" and "sort_by lt xs = y # ys" and "z \<in> set xs"
  shows "\<not> lt z y"
proof -
  have "sorted_wrt (\<lambda>a b. \<not> lt b a) (y # ys)"
    using sorted_sort_by [OF assms(1)] assms(2) by simp
  moreover have "z \<in> set (y # ys)"
    using assms(2,3) set_sort_by [of lt xs] by simp
  moreover have "\<not> lt y y"
  proof -
    have "y \<in> A" using assms(1,2) set_sort_by [of lt xs] by auto
    then show ?thesis using asym by blast
  qed
  ultimately show ?thesis by auto
qed

end

text \<open>A comparator that agrees with the order of a key meets the contract.\<close>

lemma comparator_by_key:
  assumes "\<And>a b. a \<in> A \<Longrightarrow> b \<in> A \<Longrightarrow> lt a b \<longleftrightarrow> key a < (key b :: 'k :: linorder)"
  shows "comparator lt A"
proof
  show "\<not> lt y x" if "x \<in> A" "y \<in> A" "lt x y" for x y
    using that by (simp add: assms order_less_not_sym)
  show "\<not> lt x z" if "x \<in> A" "y \<in> A" "z \<in> A" "\<not> lt x y" "\<not> lt y z" for x y z
    using that by (simp add: assms not_less)
qed

lemma mvals_mem: "gomap_ok m \<Longrightarrow> v \<in> set (mvals m) \<longleftrightarrow> (\<exists>k. mget m k = Some v)"
  by (force simp: gomap_ok_mem [symmetric])

lemma sorted_concat_map:
  assumes "sorted (map g xs)" and "\<And>x a. x \<in> set xs \<Longrightarrow> a \<in> set (f x) \<Longrightarrow> rank a = g x"
  shows "sorted (map rank (concat (map f xs)))"
  using assms
proof (induction xs)
  case (Cons x xs)
  have "map rank (f x) = replicate (length (f x)) (g x)"
    using Cons.prems(2) by (intro replicate_eqI) auto
  then have "sorted (map rank (f x))" by simp
  moreover have "rank a \<le> rank b" if "a \<in> set (f x)" "b \<in> set (concat (map f xs))" for a b
  proof -
    from that obtain y where y: "y \<in> set xs" "b \<in> set (f y)" by auto
    then have "rank a = g x" "rank b = g y" using Cons.prems(2) that by auto
    then show ?thesis using Cons.prems(1) y by simp
  qed
  ultimately show ?case using Cons by (auto simp: sorted_append)
qed simp

lemma sorted_append_bound:
  assumes "sorted (map f xs)" and "sorted (map f ys)"
    and "\<And>a. a \<in> set xs \<Longrightarrow> f a \<le> c" and "\<And>b. b \<in> set ys \<Longrightarrow> c \<le> f b"
  shows "sorted (map f (xs @ ys))"
  using assms by (auto simp: sorted_append intro: order_trans)

lemma count_values:
  assumes "gomap_ok m"
  shows "length (filter P (mvals m)) = card {k. \<exists>v. mget m k = Some v \<and> P v}"
proof -
  have "length (filter P (mvals m)) = length (filter (\<lambda>kv. P (snd kv)) m)"
    by (simp add: filter_map comp_def)
  also have "\<dots> = card (set (mkeys (filter (\<lambda>kv. P (snd kv)) m)))"
    using assms distinct_card [of "mkeys (filter (\<lambda>kv. P (snd kv)) m)"]
    by (simp add: gomap_ok_def distinct_map_filter)
  also have "set (mkeys (filter (\<lambda>kv. P (snd kv)) m)) = {k. \<exists>v. mget m k = Some v \<and> P v}"
    by (force simp: gomap_ok_mem [OF assms, symmetric])
  finally show ?thesis .
qed

lemma mput_fresh: "k \<notin> set (mkeys m) \<Longrightarrow> mput k v m = m @ [(k, v)]"
  by (induction m) auto

lemma mem_mput:
  "gomap_ok m \<Longrightarrow> (k', v') \<in> set (mput k v m) \<longleftrightarrow> (if k' = k then v' = v else (k', v') \<in> set m)"
  by (auto simp: gomap_ok_mem)

lemma mput_keys: "fst ` set (mput k v m) = insert k (fst ` set m)"
  by (induction m) auto

lemma find_SomeD: "find P xs = Some x \<Longrightarrow> x \<in> set xs \<and> P x"
  by (induction xs) (auto split: if_splits)

section \<open>Transition systems\<close>

text \<open>
  The contract every stateful component proves: its initial states satisfy
  an invariant and each of its steps keeps it.
\<close>

locale transition_system =
  fixes init :: "'s \<Rightarrow> bool" and step :: "'s \<Rightarrow> 's \<Rightarrow> bool" and inv :: "'s \<Rightarrow> bool"
  assumes inv_init: "init s \<Longrightarrow> inv s"
    and inv_step: "inv s \<Longrightarrow> step s t \<Longrightarrow> inv t"
begin

lemma inv_steps:
  assumes "step\<^sup>*\<^sup>* s t" and "inv s"
  shows "inv t"
  using assms by (induction rule: rtranclp_induct) (auto intro: inv_step)

lemma inv_reachable: "init s \<Longrightarrow> step\<^sup>*\<^sup>* s t \<Longrightarrow> inv t"
  by (blast intro: inv_steps inv_init)

end

section \<open>Results\<close>

text \<open>A step that ends at the first error, and errors wrapped on the way out.\<close>

definition bind_r :: "'e + 'a \<Rightarrow> ('a \<Rightarrow> 'e + 'b) \<Rightarrow> 'e + 'b" where
  "bind_r r f = (case r of Inl e \<Rightarrow> Inl e | Inr x \<Rightarrow> f x)"

definition map_err :: "('e \<Rightarrow> 'f) \<Rightarrow> 'e + 'a \<Rightarrow> 'f + 'a" where
  "map_err w r = (case r of Inl e \<Rightarrow> Inl (w e) | Inr x \<Rightarrow> Inr x)"

lemma map_err_Inr [simp]: "map_err w r = Inr x \<longleftrightarrow> r = Inr x"
  by (simp add: map_err_def split: sum.splits)

lemma result_simps [simp]:
  "bind_r (Inr x) f = f x" "bind_r (Inl e) f = Inl e" "map_err w (Inl e) = Inl (w e)" "map_err w (Inr y) = Inr y"
  by (simp_all add: bind_r_def map_err_def)

lemma bind_r_Inr: "bind_r r f = Inr y \<longleftrightarrow> (\<exists>x. r = Inr x \<and> f x = Inr y)"
  by (simp add: bind_r_def split: sum.splits)

lemma bind_r_Inl: "bind_r r k = Inl e \<longleftrightarrow> r = Inl e \<or> (\<exists>x. r = Inr x \<and> k x = Inl e)"
  by (cases r) (auto simp: bind_r_def)

lemma map_err_Inl: "map_err w r = Inl e \<longleftrightarrow> (\<exists>e'. r = Inl e' \<and> e = w e')"
  by (cases r) (auto simp: map_err_def)

section \<open>Instants, durations and 64-bit integers\<close>

text \<open>
  A \<^verbatim>\<open>time.Time\<close> is the number of nanoseconds since Go's zero time, January 1
  of year 1 UTC, so \<^verbatim>\<open>IsZero\<close> is equality with 0. \<^verbatim>\<open>Sub\<close> saturates at the range
  of a \<^verbatim>\<open>time.Duration\<close>, an int64 of nanoseconds.
\<close>

type_synonym gotime = int
type_synonym duration = int

definition second :: duration where "second = 1000000000"
definition minute_d :: duration where "minute_d = 60 * second"

definition int64_max :: int where "int64_max = 9223372036854775807"
definition int64_min :: int where "int64_min = - 9223372036854775808"

text \<open>Two's complement wrap-around of an int64 result.\<close>

definition wrap64 :: "int \<Rightarrow> int" where
  "wrap64 x = (x + 9223372036854775808) mod 18446744073709551616 - 9223372036854775808"

definition is_int64 :: "int \<Rightarrow> bool" where
  "is_int64 x \<longleftrightarrow> int64_min \<le> x \<and> x \<le> int64_max"

lemma wrap64_id: "is_int64 x \<Longrightarrow> wrap64 x = x"
  by (simp add: is_int64_def wrap64_def int64_min_def int64_max_def)

lemma wrap64_range: "is_int64 (wrap64 x)"
proof -
  have "0 \<le> (x + 9223372036854775808) mod 18446744073709551616"
    and "(x + 9223372036854775808) mod 18446744073709551616 < 18446744073709551616"
    by simp_all
  then show ?thesis
    unfolding is_int64_def wrap64_def int64_min_def int64_max_def by linarith
qed

text \<open>Go's integer division truncates towards zero.\<close>

definition quot :: "int \<Rightarrow> int \<Rightarrow> int" where
  "quot a b = sgn a * sgn b * (\<bar>a\<bar> div \<bar>b\<bar>)"

lemma quot_nonneg: "0 \<le> a \<Longrightarrow> 0 < b \<Longrightarrow> quot a b = a div b"
  by (cases "a = 0") (simp_all add: quot_def)

definition is_zero :: "gotime \<Rightarrow> bool" where "is_zero t \<longleftrightarrow> t = 0"

definition time_sub :: "gotime \<Rightarrow> gotime \<Rightarrow> duration" where
  "time_sub t u = max int64_min (min int64_max (t - u))"

text \<open>\<^verbatim>\<open>now.UTC().Truncate(time.Second)\<close>\<close>

definition truncate_s :: "gotime \<Rightarrow> gotime" where
  "truncate_s t = t - t mod second"

lemma time_sub_gt:
  "is_int64 d \<Longrightarrow> d \<noteq> int64_max \<Longrightarrow> time_sub t u > d \<longleftrightarrow> t - u > d"
  by (auto simp: time_sub_def is_int64_def)

lemma truncate_s_le: "truncate_s t \<le> t" and truncate_s_gt: "t - second < truncate_s t"
  by (simp_all add: truncate_s_def second_def)

end
