(* ===== verification/Go_Strings.thy ===== *)
theory Go_Strings
  imports Skali_Prelude
begin

text \<open>
  The part of Go's \<^verbatim>\<open>strings\<close> and \<^verbatim>\<open>strconv\<close> packages the modelled code
  uses. A Go string is a byte sequence, here a list of characters; the
  order of the library on lists of characters is Go's byte-wise string
  comparison. White space is Unicode white space in its UTF-8 encoding, as
  \<^verbatim>\<open>strings.TrimSpace\<close> and \<^verbatim>\<open>strings.Fields\<close> read it.
\<close>

section \<open>Cutting and joining\<close>

definition has_prefix :: "string \<Rightarrow> string \<Rightarrow> bool" where
  "has_prefix p s \<longleftrightarrow> take (length p) s = p"

text \<open>\<^verbatim>\<open>strings.CutPrefix\<close>\<close>

definition cut_prefix :: "string \<Rightarrow> string \<Rightarrow> string option" where
  "cut_prefix p s = (if has_prefix p s then Some (drop (length p) s) else None)"

text \<open>\<^verbatim>\<open>strings.TrimPrefix\<close> and \<^verbatim>\<open>strings.TrimSuffix\<close>\<close>

definition trim_prefix :: "string \<Rightarrow> string \<Rightarrow> string" where
  "trim_prefix p s = (if has_prefix p s then drop (length p) s else s)"

definition trim_suffix :: "string \<Rightarrow> string \<Rightarrow> string" where
  "trim_suffix p s = rev (trim_prefix (rev p) (rev s))"

text \<open>\<^verbatim>\<open>strings.Cut\<close> with a one-byte separator: before, after, found.\<close>

fun cut_at :: "char \<Rightarrow> string \<Rightarrow> string \<times> string \<times> bool" where
  "cut_at c [] = ([], [], False)"
| "cut_at c (x # xs) =
     (if x = c then ([], xs, True)
      else case cut_at c xs of (a, b, f) \<Rightarrow> (x # a, b, f))"

text \<open>\<^verbatim>\<open>strings.Split\<close> with a one-byte separator.\<close>

fun split_at :: "char \<Rightarrow> string \<Rightarrow> string list" where
  "split_at c [] = [[]]"
| "split_at c (x # xs) =
     (if x = c then [] # split_at c xs
      else case split_at c xs of [] \<Rightarrow> [[x]] | w # ws \<Rightarrow> (x # w) # ws)"

fun join_with :: "string \<Rightarrow> string list \<Rightarrow> string" where
  "join_with sep [] = []"
| "join_with sep [w] = w"
| "join_with sep (w # v # ws) = w @ sep @ join_with sep (v # ws)"

lemma split_at_nonempty [simp]: "split_at c s \<noteq> []"
  by (induction s) (auto split: list.splits)

lemma join_split_at: "join_with [c] (split_at c s) = s"
proof (induction s)
  case Nil
  then show ?case by simp
next
  case (Cons x xs)
  obtain w ws where "split_at c xs = w # ws"
    by (metis neq_Nil_conv split_at_nonempty)
  then show ?case using Cons by (cases ws) auto
qed

lemma cut_at_found: "cut_at c s = (a, b, True) \<Longrightarrow> s = a @ c # b \<and> c \<notin> set a"
  by (induction s arbitrary: a) (auto split: if_splits prod.splits)

lemma cut_at_missing: "cut_at c s = (a, b, False) \<Longrightarrow> a = s \<and> b = [] \<and> c \<notin> set s"
  by (induction s arbitrary: a) (auto split: if_splits prod.splits)

lemma cut_at_append: "c \<notin> set a \<Longrightarrow> cut_at c (a @ c # b) = (a, b, True)"
  by (induction a) auto

lemma cut_at_absent: "c \<notin> set s \<Longrightarrow> cut_at c s = (s, [], False)"
  by (induction s) auto

section \<open>White space\<close>

text \<open>The UTF-8 encodings of the Unicode white space characters.\<close>

definition space_seqs :: "string list" where
  "space_seqs =
     [[CHR 0x09], [CHR 0x0A], [CHR 0x0B], [CHR 0x0C], [CHR 0x0D], [CHR 0x20],
      [CHR 0xC2, CHR 0x85], [CHR 0xC2, CHR 0xA0], [CHR 0xE1, CHR 0x9A, CHR 0x80],
      [CHR 0xE2, CHR 0x80, CHR 0x80], [CHR 0xE2, CHR 0x80, CHR 0x81],
      [CHR 0xE2, CHR 0x80, CHR 0x82], [CHR 0xE2, CHR 0x80, CHR 0x83],
      [CHR 0xE2, CHR 0x80, CHR 0x84], [CHR 0xE2, CHR 0x80, CHR 0x85],
      [CHR 0xE2, CHR 0x80, CHR 0x86], [CHR 0xE2, CHR 0x80, CHR 0x87],
      [CHR 0xE2, CHR 0x80, CHR 0x88], [CHR 0xE2, CHR 0x80, CHR 0x89],
      [CHR 0xE2, CHR 0x80, CHR 0x8A], [CHR 0xE2, CHR 0x80, CHR 0xA8],
      [CHR 0xE2, CHR 0x80, CHR 0xA9], [CHR 0xE2, CHR 0x80, CHR 0xAF],
      [CHR 0xE2, CHR 0x81, CHR 0x9F], [CHR 0xE3, CHR 0x80, CHR 0x80]]"

definition space_len :: "string list \<Rightarrow> string \<Rightarrow> nat" where
  "space_len seqs s = (case find (\<lambda>w. has_prefix w s) seqs of None \<Rightarrow> 0 | Some w \<Rightarrow> length w)"

function trim_left :: "string list \<Rightarrow> string \<Rightarrow> string" where
  "trim_left seqs s =
     (let n = space_len seqs s
      in if n = 0 \<or> s = [] then s else trim_left seqs (drop n s))"
  by pat_completeness auto
termination
  by (relation "measure (\<lambda>(seqs, s). length s)") auto

declare trim_left.simps [simp del]

definition trim_space :: "string \<Rightarrow> string" where
  "trim_space s = rev (trim_left (map rev space_seqs) (rev (trim_left space_seqs s)))"

text \<open>\<^verbatim>\<open>strings.Fields\<close>: the maximal runs between white space.\<close>

function fields_acc :: "string \<Rightarrow> string \<Rightarrow> string list" where
  "fields_acc acc s =
     (if s = [] then (if acc = [] then [] else [rev acc])
      else let n = space_len space_seqs s in
        if n = 0 then fields_acc (hd s # acc) (tl s)
        else (if acc = [] then [] else [rev acc]) @ fields_acc [] (drop n s))"
  by pat_completeness auto
termination
  by (relation "measure (\<lambda>(acc, s). length s)") auto

declare fields_acc.simps [simp del]

definition fields :: "string \<Rightarrow> string list" where
  "fields s = fields_acc [] s"

lemma fields_acc_nonempty: "w \<in> set (fields_acc acc s) \<Longrightarrow> w \<noteq> []"
proof (induction acc s rule: fields_acc.induct)
  case (1 acc s)
  then show ?case
    by (subst (asm) fields_acc.simps) (auto simp: Let_def split: if_splits)
qed

lemma fields_nonempty: "w \<in> set (fields s) \<Longrightarrow> w \<noteq> []"
  by (simp add: fields_def fields_acc_nonempty)

section \<open>Digits and numbers\<close>

definition is_digit :: "char \<Rightarrow> bool" where
  "is_digit c \<longleftrightarrow> 48 \<le> (of_char c :: nat) \<and> (of_char c :: nat) \<le> 57"

definition digit_val :: "char \<Rightarrow> int" where
  "digit_val c = of_char c - 48"

definition digits_val :: "string \<Rightarrow> int" where
  "digits_val s = foldl (\<lambda>n c. 10 * n + digit_val c) 0 s"

text \<open>
  \<^verbatim>\<open>strconv.Atoi\<close> and \<^verbatim>\<open>strconv.ParseInt(s, 10, 64)\<close>: an optional sign, at
  least one digit, nothing else, and a result that fits an int64.
\<close>

definition atoi :: "string \<Rightarrow> int option" where
  "atoi s =
     (let neg = (case s of c # _ \<Rightarrow> c = CHR ''-'' | [] \<Rightarrow> False);
          body = (case s of c # cs \<Rightarrow> if c = CHR ''-'' \<or> c = CHR ''+'' then cs else s | [] \<Rightarrow> []);
          v = (if neg then - digits_val body else digits_val body)
      in if body \<noteq> [] \<and> list_all is_digit body \<and> is_int64 v then Some v else None)"

definition digit_char :: "nat \<Rightarrow> char" where
  "digit_char d = char_of (48 + d)"

fun show_nat :: "nat \<Rightarrow> string" where
  "show_nat n = (if n < 10 then [digit_char n] else show_nat (n div 10) @ [digit_char (n mod 10)])"

declare show_nat.simps [simp del]

text \<open>\<^verbatim>\<open>strconv.FormatInt(v, 10)\<close>\<close>

definition format_int :: "int \<Rightarrow> string" where
  "format_int v = (if v < 0 then CHR ''-'' # show_nat (nat (- v)) else show_nat (nat v))"

lemma digit_char_is_digit [simp]: "d < 10 \<Longrightarrow> is_digit (digit_char d)"
  by (simp add: is_digit_def digit_char_def of_char_of)

lemma digit_val_digit_char [simp]: "d < 10 \<Longrightarrow> digit_val (digit_char d) = int d"
proof -
  assume "d < 10"
  then have "(of_char (digit_char d) :: nat) = 48 + d"
    by (simp add: digit_char_def of_char_of)
  then have "(of_char (digit_char d) :: int) = int (48 + d)"
    by (metis of_nat_of_char)
  then show ?thesis by (simp add: digit_val_def)
qed

lemma digits_val_snoc: "digits_val (s @ [c]) = 10 * digits_val s + digit_val c"
  by (simp add: digits_val_def)

lemma show_nat_digits: "list_all is_digit (show_nat n)"
proof (induction n rule: show_nat.induct)
  case (1 n)
  then show ?case by (subst show_nat.simps) (auto simp: list_all_append)
qed

lemma show_nat_nonempty [simp]: "show_nat n \<noteq> []"
  by (subst show_nat.simps) auto

lemma digits_val_show_nat: "digits_val (show_nat n) = int n"
proof (induction n rule: show_nat.induct)
  case (1 n)
  show ?case
  proof (cases "n < 10")
    case True
    then show ?thesis by (subst show_nat.simps) (simp add: digits_val_def)
  next
    case False
    then have "digits_val (show_nat n) = 10 * int (n div 10) + int (n mod 10)"
      using "1" by (subst show_nat.simps) (simp add: digits_val_snoc)
    then show ?thesis by presburger
  qed
qed

lemma is_digit_not_sign: "is_digit c \<Longrightarrow> c \<noteq> CHR ''-'' \<and> c \<noteq> CHR ''+''"
  by (auto simp: is_digit_def)

text \<open>Formatting and parsing an int64 round-trips.\<close>

lemma atoi_digits:
  assumes "s \<noteq> []" "list_all is_digit s" "digits_val s \<le> int64_max"
  shows "atoi s = Some (digits_val s)"
proof -
  obtain c cs where s: "s = c # cs" using assms(1) by (cases s) auto
  have c: "c \<noteq> CHR ''-''" "c \<noteq> CHR ''+''"
    using assms(2) s is_digit_not_sign by auto
  have "0 \<le> digits_val t" if "list_all is_digit t" for t
    using that
  proof (induction t rule: rev_induct)
    case Nil
    then show ?case by (simp add: digits_val_def)
  next
    case (snoc d t)
    have "(48::nat) \<le> of_char d" using snoc.prems by (simp add: is_digit_def)
    then have "(48::int) \<le> of_char d"
      by (metis of_nat_le_iff of_nat_numeral of_nat_of_char)
    then show ?case using snoc by (simp add: digits_val_snoc digit_val_def)
  qed
  then have "is_int64 (digits_val s)"
    using assms(2,3) by (simp add: is_int64_def int64_min_def order_trans [of _ 0])
  then show ?thesis using s c assms(2) by (simp add: atoi_def Let_def)
qed

lemma atoi_show_nat: "int n \<le> int64_max \<Longrightarrow> atoi (show_nat n) = Some (int n)"
  using atoi_digits [of "show_nat n"] by (simp add: show_nat_digits digits_val_show_nat)

text \<open>Scanning a printed number out of a longer string.\<close>

lemma takeWhile_show_nat: "rest = [] \<or> \<not> is_digit (hd rest) \<Longrightarrow>
   takeWhile is_digit (show_nat n @ rest) = show_nat n"
  using show_nat_digits [of n]
  by (cases rest) (auto simp: list_all_iff takeWhile_eq_all_conv takeWhile_append2)

lemma takeWhile_show_nat': "takeWhile is_digit (show_nat n) = show_nat n"
  using takeWhile_show_nat [of "[]" n] by simp

lemma dropWhile_show_nat: "rest = [] \<or> \<not> is_digit (hd rest) \<Longrightarrow>
   dropWhile is_digit (show_nat n @ rest) = rest"
  using show_nat_digits [of n]
  by (cases rest) (auto simp: list_all_iff dropWhile_append3 dropWhile_append2)

lemma no_digit_dot [simp]: "\<not> is_digit (CHR ''.'')" "\<not> is_digit (CHR ''-'')"
  by (simp_all add: is_digit_def)

lemma dot_not_in_show [simp]: "CHR ''.'' \<notin> set (show_nat n)" "CHR ''-'' \<notin> set (show_nat n)"
  using show_nat_digits [of n] by (auto simp: list_all_iff is_digit_def)

lemma cut_at_show: "cut_at (CHR ''.'') (show_nat n @ CHR ''.'' # s) = (show_nat n, s, True)"
  by (rule cut_at_append) simp

text \<open>Strings that neither begin nor end like white space are left alone.\<close>

lemma space_len_0: "list_all (\<lambda>w. w \<noteq> [] \<and> hd w \<noteq> c) seqs \<Longrightarrow> space_len seqs (c # s) = 0"
proof -
  assume a: "list_all (\<lambda>w. w \<noteq> [] \<and> hd w \<noteq> c) seqs"
  have "\<not> has_prefix w (c # s)" if "w \<in> set seqs" for w
    using a that by (cases w) (auto simp: has_prefix_def list_all_iff)
  then have "find (\<lambda>w. has_prefix w (c # s)) seqs = None"
    by (auto simp: find_None_iff)
  then show ?thesis by (simp add: space_len_def)
qed

lemma trim_left_id: "list_all (\<lambda>w. w \<noteq> [] \<and> hd w \<noteq> c) seqs \<Longrightarrow> trim_left seqs (c # s) = c # s"
  by (subst trim_left.simps) (simp add: space_len_0)

definition plain_ends :: "string \<Rightarrow> bool" where
  "plain_ends s \<longleftrightarrow> s \<noteq> [] \<and> list_all (\<lambda>w. hd w \<noteq> hd s) space_seqs \<and>
     list_all (\<lambda>w. last w \<noteq> last s) space_seqs"

lemma space_seqs_nonempty: "list_all (\<lambda>w. w \<noteq> []) space_seqs"
  by (simp add: space_seqs_def)

lemma trim_space_id: "plain_ends s \<Longrightarrow> trim_space s = s"
proof -
  assume p: "plain_ends s"
  obtain c cs where s: "s = c # cs" using p by (cases s) (auto simp: plain_ends_def)
  obtain d ds where r: "rev s = d # ds" using p by (cases "rev s") (auto simp: plain_ends_def)
  have d: "d = last s" using r by (metis hd_rev list.sel(1))
  have l: "trim_left space_seqs s = s"
    using p space_seqs_nonempty unfolding s by (intro trim_left_id) (auto simp: plain_ends_def list_all_iff)
  have "trim_left (map rev space_seqs) (rev s) = rev s"
    using p space_seqs_nonempty unfolding r
    by (intro trim_left_id) (auto simp: plain_ends_def list_all_iff d hd_rev)
  then show ?thesis by (simp add: trim_space_def l)
qed

lemma digit_last_ok: "is_digit c \<Longrightarrow> list_all (\<lambda>w. last w \<noteq> c) space_seqs"
  by (auto simp: space_seqs_def is_digit_def)

text \<open>
  \<^verbatim>\<open>strings.ToLower\<close>, as far as its result can be ASCII. It maps rune by rune with
  \<^verbatim>\<open>unicode.ToLower\<close>, which never yields two runes: the ASCII letters, and the two
  other code points whose lower case is an ASCII letter, U+0130 (to i) and
  U+212A (to k). Other bytes are left as they are.
\<close>

definition to_lower_char :: "char \<Rightarrow> char" where
  "to_lower_char c =
     (if 65 \<le> (of_char c :: nat) \<and> (of_char c :: nat) \<le> 90
      then char_of ((of_char c :: nat) + 32) else c)"

function to_lower :: "string \<Rightarrow> string" where
  "to_lower s =
     (if s = [] then []
      else if has_prefix [CHR 0xC4, CHR 0xB0] s then CHR ''i'' # to_lower (drop 2 s)
      else if has_prefix [CHR 0xE2, CHR 0x84, CHR 0xAA] s then CHR ''k'' # to_lower (drop 3 s)
      else to_lower_char (hd s) # to_lower (tl s))"
  by pat_completeness auto
termination
  by (relation "measure length") auto

declare to_lower.simps [simp del]

end
