(* ===== verification/Naming.thy ===== *)
theory Naming
  imports Go_Strings
begin

text \<open>
  The package \<^verbatim>\<open>internal/naming\<close>: the identifier grammar of keys, names and
  environment variables. The hand-written checks are modelled branch by
  branch; the exported JSON Schema patterns are written as predicates on
  strings, and the theorems show that check and pattern agree.
\<close>

datatype name_error =
    NameEmpty | NameTooLong nat | NameStart | NameChars | NameEnd

definition is_lower :: "char \<Rightarrow> bool" where
  "is_lower c \<longleftrightarrow> 97 \<le> (of_char c :: nat) \<and> (of_char c :: nat) \<le> 122"

definition is_upper :: "char \<Rightarrow> bool" where
  "is_upper c \<longleftrightarrow> 65 \<le> (of_char c :: nat) \<and> (of_char c :: nat) \<le> 90"

definition key_char :: "char \<Rightarrow> bool" where
  "key_char c \<longleftrightarrow> is_lower c \<or> is_digit c \<or> c = CHR ''-''"

definition env_char :: "char \<Rightarrow> bool" where
  "env_char c \<longleftrightarrow> is_upper c \<or> is_lower c \<or> is_digit c \<or> c = CHR ''_''"

definition CheckKey :: "string \<Rightarrow> name_error + unit" where
  "CheckKey value =
     (if value = [] then Inl NameEmpty
      else if length value > 63 then Inl (NameTooLong (length value))
      else if \<not> is_lower (hd value) then Inl NameStart
      else if \<not> list_all key_char value then Inl NameChars
      else if last value = CHR ''-'' then Inl NameEnd
      else Inr ())"

definition CheckEnvName :: "string \<Rightarrow> name_error + unit" where
  "CheckEnvName value =
     (if value = [] then Inl NameEmpty
      else if is_digit (hd value) then Inl NameStart
      else if \<not> list_all env_char value then Inl NameChars
      else Inr ())"

text \<open>\<^verbatim>\<open>^[a-z](?:[a-z0-9-]{0,61}[a-z0-9])?$\<close> as a predicate: the first letter, and
  optionally at most 61 inner bytes closed by an alphanumeric one.\<close>

definition KeyPattern :: "string \<Rightarrow> bool" where
  "KeyPattern s =
     (case s of [] \<Rightarrow> False
      | c # rest \<Rightarrow> is_lower c \<and>
          (rest = [] \<or>
           length (butlast rest) \<le> 61 \<and> list_all key_char (butlast rest) \<and>
           (is_lower (last rest) \<or> is_digit (last rest))))"

text \<open>\<^verbatim>\<open>^[A-Za-z_][A-Za-z0-9_]*$\<close>\<close>

definition EnvNamePattern :: "string \<Rightarrow> bool" where
  "EnvNamePattern s =
     (case s of [] \<Rightarrow> False
      | c # rest \<Rightarrow> (is_upper c \<or> is_lower c \<or> c = CHR ''_'') \<and> list_all env_char rest)"

lemma is_lower_not_dash: "is_lower c \<Longrightarrow> c \<noteq> CHR ''-''"
  by (auto simp: is_lower_def)

lemma key_char_no_dash: "key_char c \<Longrightarrow> c \<noteq> CHR ''-'' \<longleftrightarrow> is_lower c \<or> is_digit c"
  by (auto simp: key_char_def is_lower_def is_digit_def)

lemma CheckKey_iff:
  "CheckKey value = Inr () \<longleftrightarrow>
     value \<noteq> [] \<and> length value \<le> 63 \<and> is_lower (hd value) \<and>
     list_all key_char value \<and> last value \<noteq> CHR ''-''"
  by (auto simp: CheckKey_def)

text \<open>
  The checks and the published patterns agree exactly: \<open>CheckKey\<close> accepts
  a string if and only if \<open>KeyPattern\<close> matches it, and \<open>CheckEnvName\<close> if and
  only if \<open>EnvNamePattern\<close> does.
\<close>

theorem name_checks_match_patterns:
  "(CheckKey s = Inr () \<longleftrightarrow> KeyPattern s) \<and> (CheckEnvName s = Inr () \<longleftrightarrow> EnvNamePattern s)"
proof (cases s)
  case Nil
  then show ?thesis by (simp add: CheckKey_def CheckEnvName_def KeyPattern_def EnvNamePattern_def)
next
  case (Cons c rest)
  have env: "CheckEnvName s = Inr () \<longleftrightarrow> EnvNamePattern s"
    by (auto simp: Cons CheckEnvName_def EnvNamePattern_def env_char_def is_digit_def
        is_lower_def is_upper_def)
  have key: "CheckKey s = Inr () \<longleftrightarrow> KeyPattern s"
  proof (cases rest rule: rev_cases)
    case Nil
    then show ?thesis
      by (auto simp: Cons CheckKey_iff KeyPattern_def key_char_def dest: is_lower_not_dash)
  next
    case (snoc mid d)
    then show ?thesis
      using key_char_no_dash [of d]
      by (auto simp: Cons CheckKey_iff KeyPattern_def key_char_def)
  qed
  from key env show ?thesis by simp
qed

end
