(* ===== verification/Layout.thy ===== *)
theory Layout
  imports Naming
begin

text \<open>
  The package \<^verbatim>\<open>internal/layout\<close>: node roles and capabilities, the database
  availability tier they imply, the node labels that make a layout durable
  inside the cluster, and the validation of a layout document.
\<close>

section \<open>Vocabulary\<close>

abbreviation CapabilityApplication :: string where "CapabilityApplication \<equiv> ''application''"
abbreviation CapabilityDatabase :: string where "CapabilityDatabase \<equiv> ''database''"
abbreviation CapabilityObjectStorage :: string where "CapabilityObjectStorage \<equiv> ''object-storage''"
abbreviation CapabilityRegistry :: string where "CapabilityRegistry \<equiv> ''registry''"
abbreviation CapabilityEdge :: string where "CapabilityEdge \<equiv> ''edge''"

definition Capabilities :: "string list" where
  "Capabilities =
     [CapabilityApplication, CapabilityDatabase, CapabilityObjectStorage,
      CapabilityRegistry, CapabilityEdge]"

definition RequiredCapabilities :: "string list" where
  "RequiredCapabilities =
     [CapabilityApplication, CapabilityDatabase, CapabilityRegistry, CapabilityEdge]"

abbreviation RoleServer :: string where "RoleServer \<equiv> ''server''"
abbreviation RoleAgent :: string where "RoleAgent \<equiv> ''agent''"

record LayoutNode =
  ln_Role :: string
  ln_Capabilities :: "string list"

record Layout =
  ly_Version :: string
  ly_Name :: string
  ly_Nodes :: "(string, LayoutNode) gomap"

section \<open>Tiers and topology\<close>

datatype Tier = TierSingle | TierAsynchronous | TierSynchronous

definition DeriveTier :: "nat \<Rightarrow> Tier" where
  "DeriveTier databaseNodes =
     (if databaseNodes \<ge> 3 then TierSynchronous
      else if databaseNodes = 2 then TierAsynchronous
      else TierSingle)"

fun TierInstances :: "Tier \<Rightarrow> nat" where
  "TierInstances TierSynchronous = 3"
| "TierInstances TierAsynchronous = 2"
| "TierInstances TierSingle = 1"

record Topology_r =
  tp_Servers :: nat
  tp_Agents :: nat
  tp_Capable :: "(string, nat) gomap"
  tp_DatabaseTier :: Tier

fun topology_loop :: "nat \<Rightarrow> nat \<Rightarrow> (string, nat) gomap \<Rightarrow> LayoutNode list \<Rightarrow>
    nat \<times> nat \<times> (string, nat) gomap" where
  "topology_loop servers agents capable [] = (servers, agents, capable)"
| "topology_loop servers agents capable (node # nodes) =
     (let capable' = foldl (\<lambda>m c. mput c (mget_or 0 m c + 1) m) capable (ln_Capabilities node)
      in if ln_Role node = RoleServer
         then topology_loop (servers + 1) agents capable' nodes
         else topology_loop servers (agents + 1) capable' nodes)"

definition Topology :: "Layout \<Rightarrow> Topology_r" where
  "Topology l =
     (case topology_loop 0 0 [] (mvals (ly_Nodes l)) of (servers, agents, capable) \<Rightarrow>
        \<lparr>tp_Servers = servers, tp_Agents = agents, tp_Capable = capable,
         tp_DatabaseTier = DeriveTier (mget_or 0 capable CapabilityDatabase)\<rparr>)"

section \<open>Labels\<close>

definition CapabilityLabelPrefix :: string where
  "CapabilityLabelPrefix = ''skali.dev/capability-''"

abbreviation CapabilityLabelValue :: string where "CapabilityLabelValue \<equiv> ''true''"

abbreviation ControlPlaneLabel :: string where
  "ControlPlaneLabel \<equiv> ''node-role.kubernetes.io/control-plane''"

definition CapabilityLabel :: "string \<Rightarrow> string" where
  "CapabilityLabel capability = CapabilityLabelPrefix @ capability"

definition CapabilityLabels :: "string list \<Rightarrow> (string, string) gomap" where
  "CapabilityLabels capabilities =
     foldl (\<lambda>labels c. mput (CapabilityLabel c) CapabilityLabelValue labels) [] capabilities"

definition CapabilitiesFromLabels :: "(string, string) gomap \<Rightarrow> string list" where
  "CapabilitiesFromLabels labels =
     filter (\<lambda>c. mget_or [] labels (CapabilityLabel c) = CapabilityLabelValue) Capabilities"

definition RoleFromLabels :: "(string, string) gomap \<Rightarrow> string" where
  "RoleFromLabels labels = (if mget labels ControlPlaneLabel \<noteq> None then RoleServer else RoleAgent)"

definition UnionCapabilities :: "(string, LayoutNode) gomap \<Rightarrow> string list" where
  "UnionCapabilities nodes =
     (let seen = remdups (concat (map ln_Capabilities (mvals nodes)));
          known = filter (\<lambda>c. c \<in> set seen) Capabilities;
          unknown = filter (\<lambda>c. c \<notin> set Capabilities) seen
      in known @ sort unknown)"

definition PriorityClassFor :: "string \<Rightarrow> string" where
  "PriorityClassFor priority = (if priority = ''high'' then ''skali-high'' else ''skali-normal'')"

section \<open>Validating a layout document\<close>

text \<open>
  A diagnostic is the path it points at and its cause; the position lookup
  of \<^verbatim>\<open>yamldoc\<close> and the wording of the message are left out.
\<close>

datatype layout_problem =
    BadVersion string | BadName name_error | NoNodes | BadNodeKey name_error
  | AgentWithoutWork | RoleMissing | RoleUnknown | CapUnknown string | CapDuplicate string
  | ServerCount nat | CapMissing string

type_synonym diagnostic = "string \<times> layout_problem"

fun check_node_caps :: "string \<Rightarrow> nat \<Rightarrow> string list \<Rightarrow> string list \<Rightarrow>
    diagnostic list \<times> string list" where
  "check_node_caps path index seen [] = ([], seen)"
| "check_node_caps path index seen (c # cs) =
     (let here = path @ ''.capabilities['' @ show_nat index @ '']'' in
      if c \<notin> set Capabilities then
        (case check_node_caps path (index + 1) seen cs of (ds, s) \<Rightarrow> ((here, CapUnknown c) # ds, s))
      else if c \<in> set seen then
        (case check_node_caps path (index + 1) seen cs of (ds, s) \<Rightarrow> ((here, CapDuplicate c) # ds, s))
      else check_node_caps path (index + 1) (c # seen) cs)"

definition check_node_role :: "string \<Rightarrow> LayoutNode \<Rightarrow> diagnostic list \<times> nat" where
  "check_node_role path node =
     (if ln_Role node = RoleServer then ([], 1)
      else if ln_Role node = RoleAgent then
        (if ln_Capabilities node = [] then [(path, AgentWithoutWork)] else [], 0)
      else if ln_Role node = [] then ([(path @ ''.role'', RoleMissing)], 0)
      else ([(path @ ''.role'', RoleUnknown)], 0))"

fun validate_loop :: "(string \<times> LayoutNode) list \<Rightarrow> diagnostic list \<times> nat \<times> string list" where
  "validate_loop [] = ([], 0, [])"
| "validate_loop ((key, node) # rest) =
     (let path = ''nodes.'' @ key;
          keyd = (case CheckKey key of Inl e \<Rightarrow> [(path, BadNodeKey e)] | Inr _ \<Rightarrow> [])
      in case check_node_role path node of (roled, s) \<Rightarrow>
         case check_node_caps path 0 [] (ln_Capabilities node) of (capd, caps) \<Rightarrow>
         case validate_loop rest of (ds, servers, capable) \<Rightarrow>
           (keyd @ roled @ capd @ ds, s + servers, caps @ capable))"

definition sorted_nodes :: "(string, LayoutNode) gomap \<Rightarrow> (string \<times> LayoutNode) list" where
  "sorted_nodes nodes = sort_key fst nodes"

definition Validate :: "Layout \<Rightarrow> diagnostic list" where
  "Validate l =
     (let head = (if ly_Version l \<noteq> ''1'' then [(''version'', BadVersion (ly_Version l))] else [])
               @ (case CheckKey (ly_Name l) of Inl e \<Rightarrow> [(''name'', BadName e)] | Inr _ \<Rightarrow> [])
      in if ly_Nodes l = [] then head @ [(''nodes'', NoNodes)]
         else case validate_loop (sorted_nodes (ly_Nodes l)) of (ds, servers, capable) \<Rightarrow>
           head @ ds
           @ (if servers \<noteq> 1 \<and> servers \<noteq> 3 then [(''nodes'', ServerCount servers)] else [])
           @ map (\<lambda>c. (''nodes'', CapMissing c))
               (filter (\<lambda>c. c \<notin> set capable) RequiredCapabilities))"

section \<open>Properties\<close>

lemma TierInstances_DeriveTier: "DeriveTier (TierInstances t) = t"
  by (cases t) (simp_all add: DeriveTier_def)

lemma DeriveTier_instances_fit: "0 < n \<Longrightarrow> TierInstances (DeriveTier n) \<le> n"
  by (auto simp: DeriveTier_def)

lemma CapabilityLabel_inj [simp]: "CapabilityLabel a = CapabilityLabel b \<longleftrightarrow> a = b"
  by (simp add: CapabilityLabel_def)

lemma mget_CapabilityLabels:
  "mget (CapabilityLabels cs) (CapabilityLabel c) =
     (if c \<in> set cs then Some CapabilityLabelValue else None)"
  unfolding CapabilityLabels_def
  by (induction cs rule: rev_induct) auto

text \<open>
  Labels lose nothing the layout vocabulary knows: the capabilities read
  back from the labels stamped for a node are exactly its known
  capabilities, once each and in display order, and the tier derived from a
  deployed instance count is the tier that asked for that count.
\<close>

theorem labels_and_tiers_roundtrip:
  "CapabilitiesFromLabels (CapabilityLabels cs) = filter (\<lambda>c. c \<in> set cs) Capabilities \<and>
   DeriveTier (TierInstances t) = t"
  by (simp add: CapabilitiesFromLabels_def mget_or_def mget_CapabilityLabels
      TierInstances_DeriveTier)

lemma check_node_caps_ok:
  "check_node_caps path i seen cs = ([], s) \<longleftrightarrow>
     set cs \<subseteq> set Capabilities \<and> distinct cs \<and> set cs \<inter> set seen = {} \<and> s = rev cs @ seen"
  by (induction cs arbitrary: i seen s) (auto simp: Let_def split: prod.splits)

definition layout_node_ok :: "string \<Rightarrow> LayoutNode \<Rightarrow> bool" where
  "layout_node_ok key node \<longleftrightarrow>
     CheckKey key = Inr () \<and>
     (ln_Role node = RoleServer \<or> ln_Role node = RoleAgent \<and> ln_Capabilities node \<noteq> []) \<and>
     set (ln_Capabilities node) \<subseteq> set Capabilities \<and> distinct (ln_Capabilities node)"

definition layout_ok :: "Layout \<Rightarrow> bool" where
  "layout_ok l \<longleftrightarrow>
     ly_Version l = ''1'' \<and> CheckKey (ly_Name l) = Inr () \<and>
     (\<forall>(key, node) \<in> set (ly_Nodes l). layout_node_ok key node) \<and>
     length (filter (\<lambda>(key, node). ln_Role node = RoleServer) (ly_Nodes l)) \<in> {1, 3} \<and>
     (\<forall>c \<in> set RequiredCapabilities.
        \<exists>(key, node) \<in> set (ly_Nodes l). c \<in> set (ln_Capabilities node))"

lemma validate_loop_ok:
  "fst (validate_loop ns) = [] \<longleftrightarrow> (\<forall>(key, node) \<in> set ns. layout_node_ok key node)"
proof (induction ns)
  case Nil
  then show ?case by simp
next
  case (Cons kn ns)
  obtain key node where kn: "kn = (key, node)" by (cases kn)
  have key: "(case CheckKey key of Inl e \<Rightarrow> [(p, BadNodeKey e)] | Inr _ \<Rightarrow> []) = []
      \<longleftrightarrow> CheckKey key = Inr ()" for p
    by (simp split: sum.splits)
  have role: "fst (check_node_role p node) = [] \<longleftrightarrow>
      ln_Role node = RoleServer \<or> ln_Role node = RoleAgent \<and> ln_Capabilities node \<noteq> []" for p
    by (simp add: check_node_role_def)
  have caps: "fst (check_node_caps p 0 [] cs) = [] \<longleftrightarrow>
      set cs \<subseteq> set Capabilities \<and> distinct cs" for p cs
    using check_node_caps_ok [of p 0 "[]" cs] by (cases "check_node_caps p 0 [] cs") auto
  have "fst (validate_loop (kn # ns)) = [] \<longleftrightarrow>
      CheckKey key = Inr () \<and> fst (check_node_role (''nodes.'' @ key) node) = [] \<and>
      fst (check_node_caps (''nodes.'' @ key) 0 [] (ln_Capabilities node)) = [] \<and>
      fst (validate_loop ns) = []"
    by (simp only: kn validate_loop.simps Let_def case_prod_beta fst_conv append_is_Nil_conv key)
  then show ?case
    unfolding role caps Cons.IH 
    by (simp only: kn layout_node_ok_def [of key node] list.set ball_simps prod.case conj_assoc)
qed

lemma validate_loop_counts:
  assumes "\<forall>(key, node) \<in> set ns. layout_node_ok key node"
  shows "fst (snd (validate_loop ns)) = length (filter (\<lambda>(key, node). ln_Role node = RoleServer) ns) \<and>
    set (snd (snd (validate_loop ns))) = (\<Union>(key, node) \<in> set ns. set (ln_Capabilities node))"
  using assms
proof (induction ns)
  case Nil
  then show ?case by simp
next
  case (Cons kn ns)
  obtain key node where kn: "kn = (key, node)" by (cases kn)
  have ok: "layout_node_ok key node" using Cons.prems by (simp add: kn)
  have caps: "check_node_caps p 0 [] (ln_Capabilities node) = ([], rev (ln_Capabilities node))" for p
    using ok check_node_caps_ok [of p 0 "[]" "ln_Capabilities node"]
    by (simp add: layout_node_ok_def)
  have role: "check_node_role p node = ([], if ln_Role node = RoleServer then 1 else 0)" for p
    using ok unfolding layout_node_ok_def check_node_role_def by (elim conjE disjE) simp_all
  obtain ds n c where v: "validate_loop ns = (ds, n, c)" by (cases "validate_loop ns") auto
  have IH: "n = length (filter (\<lambda>(key, node). ln_Role node = RoleServer) ns) \<and>
      set c = (\<Union>(key, node) \<in> set ns. set (ln_Capabilities node))"
    using Cons by (simp add: v)
  show ?case by (simp add: kn caps role v IH Let_def)
qed

lemma mset_sorted_nodes: "mset (sorted_nodes ns) = mset ns"
  by (simp add: sorted_nodes_def)

text \<open>
  C29. \<open>Validate\<close> is sound and complete: it reports nothing exactly for the
  layouts that meet the written rules (version and names, roles, known and
  unrepeated capabilities, one or three servers, every required capability
  carried by some node).
\<close>

theorem Validate_sound_complete: "Validate l = [] \<longleftrightarrow> layout_ok l"
proof -
  let ?ns = "sorted_nodes (ly_Nodes l)"
  have s: "set ?ns = set (ly_Nodes l)"
    by (metis mset_sorted_nodes set_mset_mset)
  have f: "length (filter P ?ns) = length (filter P (ly_Nodes l))" for P
    by (metis mset_filter mset_sorted_nodes size_mset)
  obtain ds servers capable where v: "validate_loop ?ns = (ds, servers, capable)"
    by (cases "validate_loop ?ns") auto
  have ds: "ds = [] \<longleftrightarrow> (\<forall>(key, node) \<in> set (ly_Nodes l). layout_node_ok key node)"
    using validate_loop_ok [of ?ns] by (simp add: v s)
  have counts: "ds = [] \<Longrightarrow>
      servers = length (filter (\<lambda>(key, node). ln_Role node = RoleServer) (ly_Nodes l)) \<and>
      set capable = (\<Union>(key, node) \<in> set (ly_Nodes l). set (ln_Capabilities node))"
    using validate_loop_counts [of ?ns] ds by (simp add: v s f)
  have head: "(case CheckKey n of Inl e \<Rightarrow> [(''name'', BadName e)] | Inr _ \<Rightarrow> []) = []
      \<longleftrightarrow> CheckKey n = Inr ()" for n
    by (auto split: sum.splits)
  show ?thesis
  proof (cases "ly_Nodes l = []")
    case True
    then show ?thesis by (simp add: Validate_def layout_ok_def)
  next
    case False
    then have "Validate l = [] \<longleftrightarrow> ly_Version l = ''1'' \<and> CheckKey (ly_Name l) = Inr () \<and>
        ds = [] \<and> (servers = 1 \<or> servers = 3) \<and>
        (\<forall>c \<in> set RequiredCapabilities. c \<in> set capable)"
      by (auto simp: Validate_def v head filter_empty_conv)
    then show ?thesis
      using counts ds unfolding layout_ok_def by fastforce
  qed
qed

end
