(* ===== verification/Version.thy ===== *)
theory Version
  imports Go_Strings
begin

text \<open>
  The package \<^verbatim>\<open>internal/version\<close>: which strings name a tagged release, and the
  order on releases every update decision of the cluster state rests on.
  The regular expressions are written as the deterministic scanners they
  denote (each digit run is delimited by a dot, a dash or the end).
\<close>

section \<open>Release names\<close>

definition digit_run :: "string \<Rightarrow> string \<times> string" where
  "digit_run s = (takeWhile is_digit s, dropWhile is_digit s)"

text \<open>One or more digits followed by the byte \<open>c\<close>: the rest after it.\<close>

definition digits_then :: "char \<Rightarrow> string \<Rightarrow> string option" where
  "digits_then c s =
     (case digit_run s of (ds, rest) \<Rightarrow>
        if ds = [] then None
        else case rest of [] \<Rightarrow> None | x # xs \<Rightarrow> if x = c then Some xs else None)"

definition all_digits :: "string \<Rightarrow> bool" where
  "all_digits s \<longleftrightarrow> s \<noteq> [] \<and> list_all is_digit s"

text \<open>\<^verbatim>\<open>(alpha|beta|rc)\.[0-9]+\<close> to the end: the stage's rank and the number.\<close>

definition prerelease_match :: "string \<Rightarrow> (int \<times> string) option" where
  "prerelease_match s =
     (case cut_prefix ''alpha.'' s of
        Some n \<Rightarrow> if all_digits n then Some (0, n) else None
      | None \<Rightarrow>
     (case cut_prefix ''beta.'' s of
        Some n \<Rightarrow> if all_digits n then Some (1, n) else None
      | None \<Rightarrow>
     (case cut_prefix ''rc.'' s of
        Some n \<Rightarrow> if all_digits n then Some (2, n) else None
      | None \<Rightarrow> None)))"

definition IsRelease :: "string \<Rightarrow> bool" where
  "IsRelease v =
     (case cut_prefix ''v'' v of None \<Rightarrow> False
      | Some s \<Rightarrow>
     (case digits_then (CHR ''.'') s of None \<Rightarrow> False
      | Some s1 \<Rightarrow>
     (case digits_then (CHR ''.'') s1 of None \<Rightarrow> False
      | Some s2 \<Rightarrow>
     (case digit_run s2 of (ds, rest) \<Rightarrow>
        ds \<noteq> [] \<and>
        (case rest of [] \<Rightarrow> True
         | x # suffix \<Rightarrow> x = CHR ''-'' \<and> prerelease_match suffix \<noteq> None)))))"

definition IsPrerelease :: "string \<Rightarrow> bool" where
  "IsPrerelease v \<longleftrightarrow> IsRelease v \<and> CHR ''-'' \<in> set v"

definition ReleasesDiffer :: "string \<Rightarrow> string \<Rightarrow> bool" where
  "ReleasesDiffer a b \<longleftrightarrow> IsRelease a \<and> IsRelease b \<and> a \<noteq> b"

definition PublishedSkalidRepo :: string where
  "PublishedSkalidRepo = ''ghcr.io/hinkolas/skalid:''"

definition PublishedSkalidImage :: "string \<Rightarrow> string" where
  "PublishedSkalidImage v = PublishedSkalidRepo @ v"

definition PublishedSkalidVersion :: "string \<Rightarrow> string option" where
  "PublishedSkalidVersion img =
     (case cut_prefix PublishedSkalidRepo img of
        None \<Rightarrow> None
      | Some tag \<Rightarrow> if IsRelease tag then Some tag else None)"

definition ReleaseRepo :: string where
  "ReleaseRepo = ''Hinkolas/skali''"

definition ReleaseAssetURL :: "string \<Rightarrow> string \<Rightarrow> string \<Rightarrow> string" where
  "ReleaseAssetURL base v asset =
     trim_suffix ''/'' base @ ''/'' @ ReleaseRepo @ ''/releases/download/'' @ v @ ''/'' @ asset"

definition ReleasePageURL :: "string \<Rightarrow> string \<Rightarrow> string" where
  "ReleasePageURL base v =
     trim_suffix ''/'' base @ ''/'' @ ReleaseRepo @ ''/releases/tag/'' @ v"

section \<open>The order on releases\<close>

text \<open>\<^verbatim>\<open>strings.SplitN(s, ".", 3)\<close>\<close>

fun splitn :: "nat \<Rightarrow> char \<Rightarrow> string \<Rightarrow> string list" where
  "splitn 0 c s = []"
| "splitn (Suc 0) c s = [s]"
| "splitn (Suc (Suc n)) c s =
     (case cut_at c s of (a, b, found) \<Rightarrow> if found then a # splitn (Suc n) c b else [s])"

text \<open>
  The loop of \<^verbatim>\<open>parseCore\<close>: every segment contributes its leading digits and
  the first segment without a readable number stops it. The result is the
  list of numbers read so far.
\<close>

fun core_segments :: "string list \<Rightarrow> int list" where
  "core_segments [] = []"
| "core_segments (seg # segs) =
     (case atoi (takeWhile is_digit seg) of
        None \<Rightarrow> []
      | Some v \<Rightarrow> v # core_segments segs)"

text \<open>\<^verbatim>\<open>parts [3]int\<close> starts as zeros; \<^verbatim>\<open>ok\<close> when a major number was read.\<close>

definition parseCore :: "string \<Rightarrow> (int \<times> int \<times> int) \<times> bool" where
  "parseCore s =
     (let vs = core_segments (splitn 3 (CHR ''.'') (trim_prefix ''v'' (trim_space s)));
          get = (\<lambda>i. if i < length vs then vs ! i else 0)
      in ((get 0, get 1, get 2), vs \<noteq> []))"

text \<open>
  \<^verbatim>\<open>parsePrerelease\<close>: \<open>None\<close> is \<^verbatim>\<open>ok = false\<close>, \<open>Some None\<close> a plain release,
  \<open>Some (Some (stage, number))\<close> the rank of a prerelease.
\<close>

definition parsePrerelease :: "string \<Rightarrow> (int \<times> int) option option" where
  "parsePrerelease s =
     (case cut_at (CHR ''-'') (trim_space s) of (_, suffix, found) \<Rightarrow>
        if \<not> found then Some None
        else case prerelease_match suffix of
          None \<Rightarrow> None
        | Some (stage, n) \<Rightarrow>
            (case atoi n of None \<Rightarrow> None | Some v \<Rightarrow> Some (Some (stage, v))))"

definition Older :: "string \<Rightarrow> string \<Rightarrow> bool" where
  "Older a b =
     (case (parseCore a, parseCore b) of
        (((a0, a1, a2), okA), ((b0, b1, b2), okB)) \<Rightarrow>
          if \<not> okA \<or> \<not> okB then False
          else if a0 \<noteq> b0 then a0 < b0
          else if a1 \<noteq> b1 then a1 < b1
          else if a2 \<noteq> b2 then a2 < b2
          else case (parsePrerelease a, parsePrerelease b) of
              (None, _) \<Rightarrow> False
            | (_, None) \<Rightarrow> False
            | (Some preA, Some preB) \<Rightarrow>
                (case (preA, preB) of
                   (None, _) \<Rightarrow> False
                 | (Some _, None) \<Rightarrow> True
                 | (Some (sA, nA), Some (sB, nB)) \<Rightarrow>
                     if sA \<noteq> sB then sA < sB
                     else if nA \<noteq> nB then nA < nB
                     else False))"

section \<open>What the order guarantees\<close>

text \<open>
  The rank of a version string: its core numbers and, last, the position of
  its prerelease, a plain release coming after every prerelease.
\<close>

definition pre_rank :: "(int \<times> int) option \<Rightarrow> int \<times> int \<times> int" where
  "pre_rank p = (case p of None \<Rightarrow> (1, 0, 0) | Some (s, n) \<Rightarrow> (0, s, n))"

definition core_lt :: "int \<times> int \<times> int \<Rightarrow> int \<times> int \<times> int \<Rightarrow> bool" where
  "core_lt x y = (case (x, y) of ((a0, a1, a2), (b0, b1, b2)) \<Rightarrow>
     a0 < b0 \<or> a0 = b0 \<and> (a1 < b1 \<or> a1 = b1 \<and> a2 < b2))"

lemma core_lt_irrefl [simp]: "\<not> core_lt x x"
  by (auto simp: core_lt_def split: prod.splits)

lemma core_lt_trans: "core_lt x y \<Longrightarrow> core_lt y z \<Longrightarrow> core_lt x z"
  by (auto simp: core_lt_def split: prod.splits)

lemma core_lt_linear: "core_lt x y \<or> x = y \<or> core_lt y x"
  by (cases x, cases y) (auto simp: core_lt_def)

lemma Older_eq:
  "Older a b \<longleftrightarrow>
     snd (parseCore a) \<and> snd (parseCore b) \<and>
     (core_lt (fst (parseCore a)) (fst (parseCore b)) \<or>
      fst (parseCore a) = fst (parseCore b) \<and>
      (\<exists>p q. parsePrerelease a = Some p \<and> parsePrerelease b = Some q \<and>
             core_lt (pre_rank p) (pre_rank q)))"
  by (cases "parseCore a", cases "parseCore b")
     (auto simp: Older_def core_lt_def pre_rank_def split: option.splits prod.splits)

text \<open>
  The release a tag writes: three numbers and an optional prerelease (stage
  0, 1, 2 for alpha, beta, rc and a number). \<open>precedes\<close> is the precedence of
  the releases themselves, which knows nothing of strings.
\<close>

definition stage_name :: "nat \<Rightarrow> string" where
  "stage_name s = (if s = 0 then ''alpha'' else if s = 1 then ''beta'' else ''rc'')"

definition pre_name :: "(nat \<times> nat) option \<Rightarrow> string" where
  "pre_name p = (case p of None \<Rightarrow> [] | Some (s, n) \<Rightarrow> ''-'' @ stage_name s @ ''.'' @ show_nat n)"

definition release_name :: "nat \<times> nat \<times> nat \<Rightarrow> (nat \<times> nat) option \<Rightarrow> string" where
  "release_name v p = (case v of (a, b, c) \<Rightarrow>
     ''v'' @ show_nat a @ ''.'' @ show_nat b @ ''.'' @ show_nat c @ pre_name p)"

definition readable_pre :: "(nat \<times> nat) option \<Rightarrow> bool" where
  "readable_pre p = (case p of None \<Rightarrow> True | Some (s, n) \<Rightarrow> s \<le> 2 \<and> int n \<le> int64_max)"

definition readable_core :: "nat \<times> nat \<times> nat \<Rightarrow> bool" where
  "readable_core v = (case v of (a, b, c) \<Rightarrow> int a \<le> int64_max \<and> int b \<le> int64_max \<and> int c \<le> int64_max)"

definition precedes :: "nat \<times> nat \<times> nat \<Rightarrow> (nat \<times> nat) option \<Rightarrow> nat \<times> nat \<times> nat \<Rightarrow> (nat \<times> nat) option \<Rightarrow> bool" where
  "precedes v p w q = (case (v, w) of ((a, b, c), (d, e, f)) \<Rightarrow>
     a < d \<or> a = d \<and> (b < e \<or> b = e \<and> (c < f \<or> c = f \<and>
      (case (p, q) of (None, _) \<Rightarrow> False | (Some _, None) \<Rightarrow> True
       | (Some (s, n), Some (t, m)) \<Rightarrow> s < t \<or> s = t \<and> n < m))))"

lemma digits_then_show: "\<not> is_digit c \<Longrightarrow> digits_then c (show_nat n @ c # rest) = Some rest"
  by (simp add: digits_then_def digit_run_def takeWhile_show_nat dropWhile_show_nat)

lemma prerelease_match_name: "prerelease_match (stage_name s @ ''.'' @ show_nat n) = Some (int (min s 2), show_nat n)"
  by (auto simp: prerelease_match_def stage_name_def cut_prefix_def has_prefix_def all_digits_def show_nat_digits)

lemma IsRelease_release_name: "IsRelease (release_name v p)"
proof -
  obtain a b c where v: "v = (a, b, c)" by (cases v)
  have hd: "pre_name p = [] \<or> \<not> is_digit (hd (pre_name p))"
    by (auto simp: pre_name_def split: option.splits)
  show ?thesis
    using hd
    by (auto simp: v release_name_def IsRelease_def cut_prefix_def has_prefix_def digits_then_show digit_run_def
         takeWhile_show_nat dropWhile_show_nat pre_name_def prerelease_match_name [simplified] split: option.splits)
qed

lemma plain_ends_release: "plain_ends (release_name v p)"
proof -
  obtain a b c where v: "v = (a, b, c)" by (cases v)
  have "is_digit (last (show_nat n))" for n
    using show_nat_digits [of n] by (auto simp: list_all_iff)
  then have "is_digit (last (release_name v p))"
    by (auto simp: v release_name_def pre_name_def split: option.splits)
  then show ?thesis
    unfolding plain_ends_def
    by (auto simp: digit_last_ok) (auto simp: release_name_def v space_seqs_def)
qed

lemma parseCore_release_name:
  assumes "int a \<le> int64_max" "int b \<le> int64_max" "int c \<le> int64_max"
  shows "parseCore (release_name (a, b, c) p) = ((int a, int b, int c), True)"
proof -
  have hd: "pre_name p = [] \<or> \<not> is_digit (hd (pre_name p))"
    by (auto simp: pre_name_def split: option.splits)
  have "trim_prefix ''v'' (trim_space (release_name (a, b, c) p)) =
      show_nat a @ ''.'' @ show_nat b @ ''.'' @ show_nat c @ pre_name p"
    by (simp add: trim_space_id plain_ends_release) (simp add: release_name_def trim_prefix_def has_prefix_def)
  then have "splitn 3 (CHR ''.'') (trim_prefix ''v'' (trim_space (release_name (a, b, c) p))) =
      [show_nat a, show_nat b, show_nat c @ pre_name p]"
    by (simp add: numeral_3_eq_3 cut_at_show)
  then show ?thesis
    using assms hd
    by (simp add: parseCore_def Let_def takeWhile_show_nat takeWhile_show_nat' atoi_show_nat)
qed

lemma parsePrerelease_release_name:
  assumes "case p of None \<Rightarrow> True | Some (s, n) \<Rightarrow> s \<le> 2 \<and> int n \<le> int64_max"
  shows "parsePrerelease (release_name (a, b, c) p) = Some (map_option (\<lambda>(s, n). (int s, int n)) p)"
proof (cases p)
  case None
  then have "CHR ''-'' \<notin> set (release_name (a, b, c) p)"
    by (simp add: release_name_def pre_name_def)
  then show ?thesis using None
    by (simp add: parsePrerelease_def trim_space_id plain_ends_release cut_at_absent)
next
  case (Some q)
  obtain s n where q: "q = (s, n)" by (cases q)
  have "release_name (a, b, c) p = (''v'' @ show_nat a @ ''.'' @ show_nat b @ ''.'' @ show_nat c)
      @ CHR ''-'' # (stage_name s @ ''.'' @ show_nat n)"
    by (simp add: release_name_def pre_name_def Some q)
  then have "cut_at (CHR ''-'') (release_name (a, b, c) p) =
      (''v'' @ show_nat a @ ''.'' @ show_nat b @ ''.'' @ show_nat c, stage_name s @ ''.'' @ show_nat n, True)"
    by (simp only:) (rule cut_at_append, simp)
  then show ?thesis using assms
    by (simp add: parsePrerelease_def trim_space_id plain_ends_release Some q
        prerelease_match_name [simplified] atoi_show_nat min_def)
qed
lemma pre_rank_int: "core_lt (pre_rank (map_option (\<lambda>(s, n). (int s, int n)) p))
    (pre_rank (map_option (\<lambda>(s, n). (int s, int n)) q)) \<longleftrightarrow>
    (case (p, q) of (None, _) \<Rightarrow> False | (Some _, None) \<Rightarrow> True
       | (Some (s, n), Some (t, m)) \<Rightarrow> s < t \<or> s = t \<and> n < m)"
  by (auto simp: pre_rank_def core_lt_def split: option.splits)

text \<open>
  C28. \<open>Older\<close> decides the precedence of releases: for every pair of releases
  written as tags (numbers within an int64), both tags pass \<open>IsRelease\<close> and
  the first is older exactly when it precedes the second (alpha before beta
  before rc before the plain release, numbers compared as numbers).
\<close>

theorem Older_decides_precedence:
  assumes "readable_core v" "readable_core w" "readable_pre p" "readable_pre q"
  shows "IsRelease (release_name v p) \<and> IsRelease (release_name w q) \<and>
    (Older (release_name v p) (release_name w q) \<longleftrightarrow> precedes v p w q)"
proof -
  obtain a b c d e f where vw: "v = (a, b, c)" "w = (d, e, f)" by (cases v, cases w)
  show ?thesis
    using assms unfolding vw readable_core_def readable_pre_def
    by (simp add: IsRelease_release_name Older_eq parseCore_release_name
        parsePrerelease_release_name pre_rank_int precedes_def) (auto simp: core_lt_def)
qed

theorem Older_decides_precedence_witness:
  "Older (release_name (0, 1, 0) (Some (2, 9))) (release_name (0, 1, 0) (Some (2, 11)))"
  using Older_decides_precedence [of "(0, 1, 0)" "(0, 1, 0)" "Some (2, 9)" "Some (2, 11)"]
  by (simp add: readable_core_def readable_pre_def int64_max_def precedes_def)

text \<open>
  On arbitrary strings, readable or not, \<open>Older\<close> is a strict order:
  irreflexive, asymmetric and transitive, so a sequence of accepted updates
  can never lead back to a version already left.
\<close>

theorem Older_strict_order:
  "\<not> Older a a \<and> (Older a b \<longrightarrow> \<not> Older b a) \<and> (Older a b \<longrightarrow> Older b c \<longrightarrow> Older a c)"
  unfolding Older_eq by (auto dest: core_lt_trans)

theorem Older_strict_order_witness:
  "\<not> Older ''v0.2.0'' ''v0.1.0'' \<and> Older ''v0.1.0'' ''v0.2.0''"
proof -
  have "Older ''v0.1.0'' ''v0.2.0''" by code_simp
  with Older_strict_order [of "''v0.1.0''" "''v0.2.0''" "''v0.2.0''"] show ?thesis by blast
qed

lemma PublishedSkalidVersion_image:
  "PublishedSkalidVersion (PublishedSkalidImage v) = (if IsRelease v then Some v else None)"
  by (simp add: PublishedSkalidVersion_def PublishedSkalidImage_def cut_prefix_def has_prefix_def)

end
