(* ===== verification/Cluster_Types.thy ===== *)
theory Cluster_Types
  imports Layout Version
begin

text \<open>
  The installer-owned cluster state of \<^verbatim>\<open>internal/clusterstate/types.go\<close>: the
  coordination document, its immutable revisions, the candidate edits, and
  the validation every revision passes before it is recorded.

  Functions that mutate a \<^verbatim>\<open>*State\<close> return the new state beside their result,
  on errors too: the Go code may have written some fields before it fails
  (\<^verbatim>\<open>Store.Update\<close> then throws the document away). A freshly generated UUID
  (\<^verbatim>\<open>uuid.NewString\<close>, a third-party package) is an argument.
\<close>

section \<open>Vocabulary\<close>

abbreviation NodeDesiredPresent :: string where "NodeDesiredPresent \<equiv> ''present''"

abbreviation NodePhaseActive :: string where "NodePhaseActive \<equiv> ''active''"
abbreviation NodePhaseDraining :: string where "NodePhaseDraining \<equiv> ''draining''"
abbreviation NodePhaseUninstalling :: string where "NodePhaseUninstalling \<equiv> ''uninstalling''"
abbreviation NodePhaseAwaitingCleanup :: string where
  "NodePhaseAwaitingCleanup \<equiv> ''awaiting-node-cleanup''"
abbreviation NodePhaseRemoved :: string where "NodePhaseRemoved \<equiv> ''removed''"
abbreviation NodePhaseCancelled :: string where "NodePhaseCancelled \<equiv> ''cancelled''"
abbreviation NodePhaseAwaitingApply :: string where "NodePhaseAwaitingApply \<equiv> ''awaiting-apply''"
abbreviation NodePhaseFailed :: string where "NodePhaseFailed \<equiv> ''failed''"

abbreviation OperationPending :: string where "OperationPending \<equiv> ''pending''"
abbreviation OperationAdding :: string where "OperationAdding \<equiv> ''adding-nodes''"
abbreviation OperationUpgrading :: string where "OperationUpgrading \<equiv> ''upgrading-nodes''"
abbreviation OperationActivating :: string where "OperationActivating \<equiv> ''activating-topology''"
abbreviation OperationInitializing :: string where
  "OperationInitializing \<equiv> ''awaiting-platform-initialization''"
abbreviation OperationRemoving :: string where "OperationRemoving \<equiv> ''removing-nodes''"
abbreviation OperationRebalancing :: string where "OperationRebalancing \<equiv> ''rebalancing-workloads''"
abbreviation OperationVerifying :: string where "OperationVerifying \<equiv> ''verifying''"
abbreviation OperationComplete :: string where "OperationComplete \<equiv> ''complete''"
abbreviation OperationFailed :: string where "OperationFailed \<equiv> ''failed''"

section \<open>The document\<close>

record PlatformState =
  ps_Enabled :: bool
  ps_RegistryNode :: string
  ps_Version :: string

record RevisionNode =
  rn_ID :: string
  rn_Name :: string
  rn_Role :: string
  rn_Capabilities :: "string list"
  rn_Desired :: string

record Revision =
  rv_ID :: string
  rv_Parent :: string
  rv_Sequence :: int
  rv_Nodes :: "(string, RevisionNode) gomap"
  rv_Platform :: PlatformState
  rv_CreatedAt :: gotime

record Node =
  nd_ID :: string
  nd_InstallationID :: string
  nd_Name :: string
  nd_Role :: string
  nd_Capabilities :: "string list"
  nd_NodeIP :: string
  nd_Coordinator :: string
  nd_AgentVersion :: string
  nd_K3sVersion :: string
  nd_Phase :: string
  nd_LastAction :: string
  nd_LastError :: string
  nd_LastSeen :: gotime
  nd_EnrolledAt :: gotime
  nd_UpdatedAt :: gotime

record NodeStep =
  ns_Action :: string
  ns_Phase :: string
  ns_AttemptID :: string
  ns_ClusterPrepared :: bool
  ns_LastError :: string
  ns_UpdatedAt :: gotime

record Operation =
  op_ID :: string
  op_FromRevision :: string
  op_TargetRevision :: string
  op_Phase :: string
  op_RebalanceWorkloads :: bool
  op_EtcdSnapshot :: string
  op_TopologyActivated :: bool
  op_NodeSteps :: "(string, NodeStep) gomap"
  op_UpgradePreflight :: bool
  op_LastError :: string
  op_StartedAt :: gotime
  op_UpdatedAt :: gotime
  op_CompletedAt :: gotime

record CoordinatorReport =
  cr_Version :: string
  cr_LastSeen :: gotime

record ReleaseUpdate =
  ru_Version :: string
  ru_K3s :: string

record UpdateJournal =
  uj_Operations :: "(string, ReleaseUpdate) gomap"
  uj_Coordinators :: "(string, CoordinatorReport) gomap"

record State =
  st_Updates :: UpdateJournal
  st_Version :: int
  st_Cluster :: string
  st_Sequence :: int
  st_ConvergedRevision :: string
  st_TargetRevision :: string
  st_CandidateRevision :: string
  st_CurrentOperation :: string
  st_Decommissioning :: bool
  st_ReconciliationPaused :: bool
  st_Platform :: PlatformState
  st_Revisions :: "(string, Revision) gomap"
  st_Nodes :: "(string, Node) gomap"
  st_Operations :: "(string, Operation) gomap"
  st_CreatedAt :: gotime
  st_UpdatedAt :: gotime

text \<open>The zero values Go reads for an absent map key.\<close>

definition zero_platform :: PlatformState where
  "zero_platform = \<lparr>ps_Enabled = False, ps_RegistryNode = [], ps_Version = []\<rparr>"

definition zero_rnode :: RevisionNode where
  "zero_rnode = \<lparr>rn_ID = [], rn_Name = [], rn_Role = [], rn_Capabilities = [], rn_Desired = []\<rparr>"

definition zero_revision :: Revision where
  "zero_revision = \<lparr>rv_ID = [], rv_Parent = [], rv_Sequence = 0, rv_Nodes = [],
     rv_Platform = zero_platform, rv_CreatedAt = 0\<rparr>"

definition zero_node :: Node where
  "zero_node = \<lparr>nd_ID = [], nd_InstallationID = [], nd_Name = [], nd_Role = [],
     nd_Capabilities = [], nd_NodeIP = [], nd_Coordinator = [], nd_AgentVersion = [],
     nd_K3sVersion = [], nd_Phase = [], nd_LastAction = [], nd_LastError = [],
     nd_LastSeen = 0, nd_EnrolledAt = 0, nd_UpdatedAt = 0\<rparr>"

definition zero_report :: CoordinatorReport where
  "zero_report = \<lparr>cr_Version = [], cr_LastSeen = 0\<rparr>"

definition zero_update :: ReleaseUpdate where
  "zero_update = \<lparr>ru_Version = [], ru_K3s = []\<rparr>"

text \<open>
  Every error the package constructs, with the data its message carries, in
  three groups: revisions and their validation, the operation journal, and
  release updates and node removal.
\<close>

datatype rev_error =
    RevisionMissing string string | NoTargetRevision | CandidateBaseMissing string
  | RevEmpty | RevIdentity | RevNameUsed string | RevRole string string
  | RevCapUnknown string string | RevCapRepeated string string | RevNoServer
  | RevMissingCaps "string list" | RevVersion string | RevRegistry

datatype op_error =
    CurrentOperationMissing | NoActiveOperation | ActiveOperationMissing
  | NoRemoval string | NoNodeAction string | StaleAttempt
  | NotEnrolled string | NotAwaitingCleanup string
  | PlatformTooEarly | InitDisabled | InitTooEarly | IncompleteNodeActions

datatype update_error =
    ErrOperationActive | PlatformUninitialized | TopologyStaged | NodeNotActive string
  | NodeSilent string | NotARelease string | NotNewer string string
  | Downgrade string string | NodeRuns string string string
  | AlreadyAbsent string | NotInCandidate string | HoldsRegistry

datatype setup_error =
    SeedIdentity | SeedRole
  | LayoutCluster string string | LayoutNotEnrolled string | LayoutRole string string string
  | PlanRoleChange string string string | PlanRegistry

datatype cerr = RevE rev_error | OpE op_error | UpE update_error | SetE setup_error

section \<open>Reading revisions\<close>

definition lookup_revision :: "State \<Rightarrow> string \<Rightarrow> string \<Rightarrow> cerr + Revision" where
  "lookup_revision s rid kind =
     (case mget (st_Revisions s) rid of
        None \<Rightarrow> Inl (RevE (RevisionMissing kind rid))
      | Some r \<Rightarrow> Inr r)"

definition Candidate :: "State \<Rightarrow> cerr + Revision" where
  "Candidate s = lookup_revision s (st_CandidateRevision s) ''candidate''"

definition Converged :: "State \<Rightarrow> cerr + Revision" where
  "Converged s = lookup_revision s (st_ConvergedRevision s) ''converged''"

definition Target :: "State \<Rightarrow> cerr + Revision" where
  "Target s =
     (if st_TargetRevision s = [] then Inl (RevE NoTargetRevision)
      else lookup_revision s (st_TargetRevision s) ''target'')"

section \<open>Validating a revision\<close>

fun validate_caps :: "string \<Rightarrow> string list \<Rightarrow> string list \<Rightarrow> string list \<Rightarrow> cerr + string list" where
  "validate_caps name seen capable [] = Inr capable"
| "validate_caps name seen capable (c # cs) =
     (if c \<notin> set Capabilities then Inl (RevE (RevCapUnknown name c))
      else if c \<in> set seen then Inl (RevE (RevCapRepeated name c))
      else validate_caps name (c # seen) (c # capable) cs)"

fun validate_nodes :: "(string, string) gomap \<Rightarrow> nat \<Rightarrow> string list \<Rightarrow>
    (string \<times> RevisionNode) list \<Rightarrow> cerr + nat \<times> string list" where
  "validate_nodes names servers capable [] = Inr (servers, capable)"
| "validate_nodes names servers capable ((nid, node) # rest) =
     (if nid = [] \<or> rn_ID node \<noteq> nid \<or> rn_Name node = [] then Inl (RevE RevIdentity)
      else if mget_or [] names (rn_Name node) \<noteq> [] \<and> mget_or [] names (rn_Name node) \<noteq> nid
        then Inl (RevE (RevNameUsed (rn_Name node)))
      else if rn_Role node \<noteq> RoleServer \<and> rn_Role node \<noteq> RoleAgent
        then Inl (RevE (RevRole (rn_Name node) (rn_Role node)))
      else case validate_caps (rn_Name node) [] capable (rn_Capabilities node) of
          Inl e \<Rightarrow> Inl e
        | Inr capable' \<Rightarrow>
            validate_nodes (mput (rn_Name node) nid names)
              (if rn_Role node = RoleServer then servers + 1 else servers) capable' rest)"

definition validateRevision :: "(string, RevisionNode) gomap \<Rightarrow> PlatformState \<Rightarrow> cerr + unit" where
  "validateRevision nodes platform =
     (if nodes = [] then Inl (RevE RevEmpty)
      else case validate_nodes [] 0 [] nodes of
          Inl e \<Rightarrow> Inl e
        | Inr (servers, capable) \<Rightarrow>
            (let missing = filter (\<lambda>c. c \<notin> set capable) RequiredCapabilities in
             if servers = 0 then Inl (RevE RevNoServer)
             else if ps_Enabled platform \<and> missing \<noteq> [] then Inl (RevE (RevMissingCaps missing))
             else if ps_Version platform \<noteq> [] \<and> \<not> IsRelease (ps_Version platform)
               then Inl (RevE (RevVersion (ps_Version platform)))
             else if ps_RegistryNode platform \<noteq> [] \<and>
                 (case mget nodes (ps_RegistryNode platform) of
                    None \<Rightarrow> True
                  | Some node \<Rightarrow> CapabilityRegistry \<notin> set (rn_Capabilities node))
               then Inl (RevE RevRegistry)
             else Inr ()))"

section \<open>Sorted views\<close>

definition rnode_less :: "RevisionNode \<Rightarrow> RevisionNode \<Rightarrow> bool" where
  "rnode_less a b =
     (if rn_Role a \<noteq> rn_Role b then rn_Role a = RoleServer
      else if rn_Name a = rn_Name b then rn_ID a < rn_ID b
      else rn_Name a < rn_Name b)"

definition SortedRevisionNodes :: "(string, RevisionNode) gomap \<Rightarrow> RevisionNode list" where
  "SortedRevisionNodes nodes = sort_by rnode_less (mvals nodes)"

definition FindNodeByName :: "(string, RevisionNode) gomap \<Rightarrow> string \<Rightarrow> RevisionNode option" where
  "FindNodeByName nodes name = find (\<lambda>n. rn_Name n = name) (SortedRevisionNodes nodes)"

definition node_less :: "Node \<Rightarrow> Node \<Rightarrow> bool" where
  "node_less a b =
     (if nd_Role a \<noteq> nd_Role b then nd_Role a = RoleServer
      else if nd_Name a = nd_Name b then nd_ID a < nd_ID b
      else nd_Name a < nd_Name b)"

definition SortedNodes :: "(string, Node) gomap \<Rightarrow> Node list" where
  "SortedNodes nodes = sort_by node_less (mvals nodes)"

section \<open>Seeding and editing\<close>

definition revisionNode :: "Node \<Rightarrow> RevisionNode" where
  "revisionNode node =
     \<lparr>rn_ID = nd_ID node, rn_Name = nd_Name node, rn_Role = nd_Role node,
      rn_Capabilities = sort (nd_Capabilities node), rn_Desired = NodeDesiredPresent\<rparr>"

definition NewSeedState :: "string \<Rightarrow> string \<Rightarrow> Node \<Rightarrow> gotime \<Rightarrow> cerr + State" where
  "NewSeedState revisionID cluster seed now =
     (if cluster = [] \<or> nd_ID seed = [] \<or> nd_Name seed = [] \<or> nd_InstallationID seed = []
        then Inl (SetE SeedIdentity)
      else if nd_Role seed \<noteq> RoleServer then Inl (SetE SeedRole)
      else
        let now' = truncate_s now;
            seed' = seed\<lparr>nd_Phase := NodePhaseActive, nd_EnrolledAt := now', nd_UpdatedAt := now'\<rparr>;
            revision = \<lparr>rv_ID = revisionID, rv_Parent = [], rv_Sequence = 1,
              rv_Nodes = [(nd_ID seed', revisionNode seed')], rv_Platform = zero_platform,
              rv_CreatedAt = now'\<rparr>
        in Inr \<lparr>st_Updates = \<lparr>uj_Operations = [], uj_Coordinators = []\<rparr>,
             st_Version = 1, st_Cluster = cluster, st_Sequence = 1,
             st_ConvergedRevision = revisionID, st_TargetRevision = [],
             st_CandidateRevision = revisionID, st_CurrentOperation = [],
             st_Decommissioning = False, st_ReconciliationPaused = False,
             st_Platform = zero_platform,
             st_Revisions = [(revisionID, revision)],
             st_Nodes = [(nd_ID seed', seed')], st_Operations = [],
             st_CreatedAt = now', st_UpdatedAt = now'\<rparr>)"

text \<open>
  \<^verbatim>\<open>EditCandidate\<close> takes a closure that edits the copied node map and platform;
  a closure may also write the state it captured and report a value, so it
  is a function of the state.
\<close>

type_synonym 'r candidate_edit =
  "State \<Rightarrow> (string, RevisionNode) gomap \<Rightarrow> PlatformState \<Rightarrow>
   (cerr + (string, RevisionNode) gomap \<times> PlatformState \<times> 'r) \<times> State"

definition EditCandidate :: "string \<Rightarrow> gotime \<Rightarrow> 'r candidate_edit \<Rightarrow> State \<Rightarrow>
    (cerr + Revision \<times> 'r) \<times> State" where
  "EditCandidate newID now edit s =
     (let baseID = (if st_TargetRevision s \<noteq> [] \<and> st_CandidateRevision s = st_ConvergedRevision s
                    then st_TargetRevision s else st_CandidateRevision s)
      in case mget (st_Revisions s) baseID of
           None \<Rightarrow> (Inl (RevE (CandidateBaseMissing baseID)), s)
         | Some base \<Rightarrow>
             (case edit s (rv_Nodes base) (rv_Platform base) of
                (Inl e, s1) \<Rightarrow> (Inl e, s1)
              | (Inr (nodes, platform, r), s1) \<Rightarrow>
                  (case validateRevision nodes platform of
                     Inl e \<Rightarrow> (Inl e, s1)
                   | Inr _ \<Rightarrow>
                       let now' = truncate_s now;
                           seq = wrap64 (st_Sequence s1 + 1);
                           revision = \<lparr>rv_ID = newID, rv_Parent = rv_ID base, rv_Sequence = seq,
                             rv_Nodes = nodes, rv_Platform = platform, rv_CreatedAt = now'\<rparr>
                       in (Inr (revision, r),
                           s1\<lparr>st_Sequence := seq,
                              st_Revisions := mput newID revision (st_Revisions s1),
                              st_CandidateRevision := newID,
                              st_UpdatedAt := now'\<rparr>))))"

text \<open>The hosts a layout may refer to: enrolled and not on their way out.\<close>

definition add_known :: "(string, Node) gomap \<Rightarrow> Node \<Rightarrow> (string, Node) gomap" where
  "add_known known node =
     (if nd_Phase node \<noteq> NodePhaseRemoved \<and> nd_Phase node \<noteq> NodePhaseCancelled \<and>
         nd_Phase node \<noteq> NodePhaseUninstalling
      then mput (nd_Name node) node known else known)"

definition known_nodes :: "(string, Node) gomap \<Rightarrow> (string, Node) gomap" where
  "known_nodes nodes = foldl add_known [] (mvals nodes)"

fun layout_replacement :: "(string, Node) gomap \<Rightarrow> (string, RevisionNode) gomap \<Rightarrow>
    (string \<times> LayoutNode) list \<Rightarrow> cerr + (string, RevisionNode) gomap" where
  "layout_replacement known acc [] = Inr acc"
| "layout_replacement known acc ((name, wanted) # rest) =
     (case mget known name of
        None \<Rightarrow> Inl (SetE (LayoutNotEnrolled name))
      | Some enrolled \<Rightarrow>
          if nd_Role enrolled \<noteq> ln_Role wanted
          then Inl (SetE (LayoutRole name (nd_Role enrolled) (ln_Role wanted)))
          else layout_replacement known
            (mput (nd_ID enrolled)
               \<lparr>rn_ID = nd_ID enrolled, rn_Name = name, rn_Role = ln_Role wanted,
                rn_Capabilities = ln_Capabilities wanted, rn_Desired = NodeDesiredPresent\<rparr> acc)
            rest)"

definition ReplaceCandidateLayout :: "string \<Rightarrow> Layout \<Rightarrow> gotime \<Rightarrow> State \<Rightarrow>
    (cerr + Revision) \<times> State" where
  "ReplaceCandidateLayout newID desired now s =
     (if ly_Name desired \<noteq> st_Cluster s then (Inl (SetE (LayoutCluster (ly_Name desired) (st_Cluster s))), s)
      else
        let known = known_nodes (st_Nodes s);
            edit = (\<lambda>s1 nodes platform.
              (case layout_replacement known [] (ly_Nodes desired) of
                 Inl e \<Rightarrow> (Inl e, s1)
               | Inr replacement \<Rightarrow> (Inr (replacement, platform, ()), s1)))
        in case EditCandidate newID now edit s of
             (Inl e, s1) \<Rightarrow> (Inl e, s1)
           | (Inr (revision, _), s1) \<Rightarrow> (Inr revision, s1))"

section \<open>Validation, sorting and edits are correct\<close>

text \<open>The conditions a revision must meet, stated without the loop that tests them.\<close>

definition rnode_ok :: "string \<Rightarrow> RevisionNode \<Rightarrow> bool" where
  "rnode_ok nid node \<longleftrightarrow>
     nid \<noteq> [] \<and> rn_ID node = nid \<and> rn_Name node \<noteq> [] \<and>
     (rn_Role node = RoleServer \<or> rn_Role node = RoleAgent) \<and>
     set (rn_Capabilities node) \<subseteq> set Capabilities \<and> distinct (rn_Capabilities node)"

definition rnodes_ok :: "(string, RevisionNode) gomap \<Rightarrow> bool" where
  "rnodes_ok nodes \<longleftrightarrow>
     (\<forall>(nid, node) \<in> set nodes. rnode_ok nid node) \<and>
     (\<forall>(i, n) \<in> set nodes. \<forall>(j, m) \<in> set nodes. rn_Name n = rn_Name m \<longrightarrow> i = j)"

definition has_server :: "(string, RevisionNode) gomap \<Rightarrow> bool" where
  "has_server nodes \<longleftrightarrow> (\<exists>(nid, node) \<in> set nodes. rn_Role node = RoleServer)"

definition carries :: "(string, RevisionNode) gomap \<Rightarrow> string \<Rightarrow> bool" where
  "carries nodes c \<longleftrightarrow> (\<exists>(nid, node) \<in> set nodes. c \<in> set (rn_Capabilities node))"

definition valid_revision :: "(string, RevisionNode) gomap \<Rightarrow> PlatformState \<Rightarrow> bool" where
  "valid_revision nodes platform \<longleftrightarrow>
     rnodes_ok nodes \<and> has_server nodes \<and>
     (ps_Enabled platform \<longrightarrow> (\<forall>c \<in> set RequiredCapabilities. carries nodes c)) \<and>
     (ps_Version platform = [] \<or> IsRelease (ps_Version platform)) \<and>
     (ps_RegistryNode platform = [] \<or>
        (\<exists>node. mget nodes (ps_RegistryNode platform) = Some node \<and>
                CapabilityRegistry \<in> set (rn_Capabilities node)))"

lemma validate_caps_eq:
  "validate_caps name seen capable cs = Inr r \<longleftrightarrow>
     set cs \<subseteq> set Capabilities \<and> distinct cs \<and> set cs \<inter> set seen = {} \<and> r = rev cs @ capable"
  by (induction cs arbitrary: seen capable) auto

lemma validate_nodes_eq:
  assumes "[] \<notin> ran (mget names)"
  shows "validate_nodes names servers capable ns = Inr r \<longleftrightarrow>
     (\<forall>(i, n) \<in> set ns. rnode_ok i n \<and> mget names (rn_Name n) \<in> {None, Some i}) \<and>
     (\<forall>(i, n) \<in> set ns. \<forall>(j, m) \<in> set ns. rn_Name n = rn_Name m \<longrightarrow> i = j) \<and>
     r = (servers + length (filter (\<lambda>(i, n). rn_Role n = RoleServer) ns),
          concat (rev (map (\<lambda>(i, n). rev (rn_Capabilities n)) ns)) @ capable)"
  using assms
proof (induction ns arbitrary: names servers capable)
  case Nil
  then show ?case by auto
next
  case (Cons inode ns)
  obtain i n where kn: "inode = (i, n)" by (cases inode)
  have other: "mget_or [] names (rn_Name n) \<noteq> [] \<and> mget_or [] names (rn_Name n) \<noteq> i \<longleftrightarrow>
      mget names (rn_Name n) \<notin> {None, Some i}"
    using Cons.prems by (auto simp: mget_or_def ran_def split: option.splits)
  show ?case
  proof (cases "rnode_ok i n \<and> mget names (rn_Name n) \<in> {None, Some i}")
    case False
    have "validate_nodes names servers capable ((i, n) # ns) \<noteq> Inr r"
    proof (cases "i = [] \<or> rn_ID n \<noteq> i \<or> rn_Name n = [] \<or>
        mget names (rn_Name n) \<notin> {None, Some i} \<or>
        rn_Role n \<noteq> RoleServer \<and> rn_Role n \<noteq> RoleAgent")
      case True
      then show ?thesis by (elim disjE) (simp_all add: other)
    next
      case ok: False
      then have "validate_caps (rn_Name n) [] capable (rn_Capabilities n) \<noteq> Inr x" for x
        using False by (auto simp: validate_caps_eq rnode_ok_def)
      then obtain e where "validate_caps (rn_Name n) [] capable (rn_Capabilities n) = Inl e"
        by (metis sumE)
      then show ?thesis using ok by (simp add: other)
    qed
    then show ?thesis using False unfolding kn by auto
  next
    case True
    have nm: "[] \<notin> ran (mget (mput (rn_Name n) i names))"
      using Cons.prems True by (auto simp: ran_def rnode_ok_def)
    have caps: "validate_caps (rn_Name n) [] capable (rn_Capabilities n) = Inr (rev (rn_Capabilities n) @ capable)"
      using True by (simp add: validate_caps_eq rnode_ok_def)
    have step: "validate_nodes names servers capable ((i, n) # ns) =
        validate_nodes (mput (rn_Name n) i names)
          (if rn_Role n = RoleServer then servers + 1 else servers)
          (rev (rn_Capabilities n) @ capable) ns"
      using True other unfolding rnode_ok_def by (auto simp: caps)
    have compat: "(mget names (rn_Name m) \<in> {None, Some j} \<and> (rn_Name m = rn_Name n \<longrightarrow> j = i)) \<longleftrightarrow>
        mget (mput (rn_Name n) i names) (rn_Name m) \<in> {None, Some j}" if "rnode_ok j m" for j m
      using True by auto
    show ?thesis
      unfolding kn step Cons.IH [OF nm]
      using True compat by (auto 4 3)
  qed
qed

lemma validate_nodes_ok:
  "validate_nodes [] 0 [] nodes = Inr r \<longleftrightarrow>
     rnodes_ok nodes \<and>
     r = (length (filter (\<lambda>(i, n). rn_Role n = RoleServer) nodes),
          concat (rev (map (\<lambda>(i, n). rev (rn_Capabilities n)) nodes)))"
  using validate_nodes_eq [of "[]" 0 "[]" nodes r]
  by (simp add: rnodes_ok_def split_beta)

lemma carries_iff:
  "c \<in> set (concat (rev (map (\<lambda>(i, n). rev (rn_Capabilities n)) nodes))) \<longleftrightarrow> carries nodes c"
  by (auto simp: carries_def split_beta)

lemma has_server_iff:
  "length (filter (\<lambda>(i, n). rn_Role n = RoleServer) nodes) = 0 \<longleftrightarrow> \<not> has_server nodes"
  by (auto simp: has_server_def filter_empty_conv)

text \<open>
  The validation accepts exactly the revisions that meet the stated
  conditions, whatever order the node map is visited in.
\<close>

lemma validateRevision_iff: "validateRevision nodes platform = Inr () \<longleftrightarrow> valid_revision nodes platform"
proof (cases "nodes \<noteq> [] \<and> rnodes_ok nodes")
  case True
  then have "validate_nodes [] 0 [] nodes =
      Inr (length (filter (\<lambda>(i, n). rn_Role n = RoleServer) nodes),
           concat (rev (map (\<lambda>(i, n). rev (rn_Capabilities n)) nodes)))"
    by (simp only: validate_nodes_ok simp_thms)
  then have "validateRevision nodes platform = Inr () \<longleftrightarrow>
        has_server nodes \<and>
        (ps_Enabled platform \<longrightarrow> (\<forall>c \<in> set RequiredCapabilities. carries nodes c)) \<and>
        (ps_Version platform = [] \<or> IsRelease (ps_Version platform)) \<and>
        (ps_RegistryNode platform = [] \<or>
          (\<exists>node. mget nodes (ps_RegistryNode platform) = Some node \<and>
             CapabilityRegistry \<in> set (rn_Capabilities node)))"
    using True
    by (simp only: validateRevision_def Let_def sum.case prod.case has_server_iff carries_iff)
       (simp add: filter_empty_conv split: option.splits)
  then show ?thesis using True by (simp only: valid_revision_def simp_thms)
next
  case False
  then have "validateRevision nodes platform \<noteq> Inr ()"
  proof (cases "nodes = []")
    case ne: False
    then have "validate_nodes [] 0 [] nodes \<noteq> Inr r" for r
      using False by (simp only: validate_nodes_ok simp_thms)
    then obtain e where "validate_nodes [] 0 [] nodes = Inl e" by (metis sumE)
    then show ?thesis using ne by (simp add: validateRevision_def)
  qed (simp add: validateRevision_def)
  moreover have "\<not> valid_revision nodes platform"
    using False unfolding valid_revision_def has_server_def by (cases "nodes = []") simp_all
  ultimately show ?thesis by blast
qed

text \<open>On validated nodes the role-then-name comparator is a strict weak order.\<close>

definition known_roles :: "RevisionNode set" where
  "known_roles = {n. rn_Role n = RoleServer \<or> rn_Role n = RoleAgent}"

lemma rnode_less_key:
  "a \<in> known_roles \<Longrightarrow> b \<in> known_roles \<Longrightarrow>
   rnode_less a b \<longleftrightarrow>
     (rn_Role a \<noteq> RoleServer, rn_Name a, rn_ID a) < (rn_Role b \<noteq> RoleServer, rn_Name b, rn_ID b)"
  unfolding known_roles_def mem_Collect_eq
  by (elim disjE) (auto simp: rnode_less_def)

interpretation rnode_order: comparator rnode_less known_roles
  by (rule comparator_by_key) (rule rnode_less_key)

text \<open>What a successful edit did, as an elimination rule for the client proofs.\<close>

lemma EditCandidate_Inr:
  assumes "EditCandidate newID now edit s = (Inr (revision, r), s')"
  obtains base nodes platform s1 where
    "mget (st_Revisions s) (if st_TargetRevision s \<noteq> [] \<and> st_CandidateRevision s = st_ConvergedRevision s
       then st_TargetRevision s else st_CandidateRevision s) = Some base"
    "edit s (rv_Nodes base) (rv_Platform base) = (Inr (nodes, platform, r), s1)"
    "valid_revision nodes platform"
    "revision = \<lparr>rv_ID = newID, rv_Parent = rv_ID base, rv_Sequence = wrap64 (st_Sequence s1 + 1),
       rv_Nodes = nodes, rv_Platform = platform, rv_CreatedAt = truncate_s now\<rparr>"
    "s' = s1\<lparr>st_Sequence := wrap64 (st_Sequence s1 + 1),
       st_Revisions := mput newID revision (st_Revisions s1),
       st_CandidateRevision := newID, st_UpdatedAt := truncate_s now\<rparr>"
  using assms
  by (auto simp: EditCandidate_def Let_def validateRevision_iff [symmetric]
      split: option.splits prod.splits sum.splits if_splits)

text \<open>
  The edits of the package write no field of the captured state but its
  node table.
\<close>

definition edits_nodes_only :: "'r candidate_edit \<Rightarrow> bool" where
  "edits_nodes_only edit \<longleftrightarrow> (\<forall>s nodes platform. \<exists>m. snd (edit s nodes platform) = s\<lparr>st_Nodes := m\<rparr>)"

definition candidate_base :: "State \<Rightarrow> string" where
  "candidate_base s =
     (if st_TargetRevision s \<noteq> [] \<and> st_CandidateRevision s = st_ConvergedRevision s
      then st_TargetRevision s else st_CandidateRevision s)"

lemma EditCandidate_Inr':
  assumes "EditCandidate newID now edit s = (Inr (revision, r), s')" and "edits_nodes_only edit"
  obtains base nodes platform m where
    "mget (st_Revisions s) (candidate_base s) = Some base"
    "edit s (rv_Nodes base) (rv_Platform base) = (Inr (nodes, platform, r), s\<lparr>st_Nodes := m\<rparr>)"
    "valid_revision nodes platform"
    "revision = \<lparr>rv_ID = newID, rv_Parent = rv_ID base, rv_Sequence = wrap64 (st_Sequence s + 1),
       rv_Nodes = nodes, rv_Platform = platform, rv_CreatedAt = truncate_s now\<rparr>"
    "s' = s\<lparr>st_Sequence := wrap64 (st_Sequence s + 1),
       st_Revisions := mput newID revision (st_Revisions s),
       st_CandidateRevision := newID, st_Nodes := m, st_UpdatedAt := truncate_s now\<rparr>"
proof -
  from assms(1) obtain base nodes platform s1 where *:
    "mget (st_Revisions s) (candidate_base s) = Some base"
    "edit s (rv_Nodes base) (rv_Platform base) = (Inr (nodes, platform, r), s1)"
    "valid_revision nodes platform"
    "revision = \<lparr>rv_ID = newID, rv_Parent = rv_ID base, rv_Sequence = wrap64 (st_Sequence s1 + 1),
       rv_Nodes = nodes, rv_Platform = platform, rv_CreatedAt = truncate_s now\<rparr>"
    "s' = s1\<lparr>st_Sequence := wrap64 (st_Sequence s1 + 1),
       st_Revisions := mput newID revision (st_Revisions s1),
       st_CandidateRevision := newID, st_UpdatedAt := truncate_s now\<rparr>"
    by (rule EditCandidate_Inr) (simp add: candidate_base_def)
  from assms(2) obtain m where "s1 = s\<lparr>st_Nodes := m\<rparr>"
    unfolding edits_nodes_only_def using *(2) by (metis snd_conv)
  with * show ?thesis by (intro that [of base nodes platform m]) simp_all
qed

text \<open>
  A successful candidate edit records one new, valid revision whose
  parent is the revision it was based on, makes it the candidate, and leaves
  every existing revision, the converged and target pointers and the
  operation journal as they were.
\<close>

theorem candidate_edit_appends_revision:
  assumes "edits_nodes_only edit" and "mget (st_Revisions s) newID = None"
    and "EditCandidate newID now edit s = (Inr (revision, r), s')"
  shows "valid_revision (rv_Nodes revision) (rv_Platform revision) \<and>
    Candidate s' = Inr revision \<and>
    (\<exists>base. mget (st_Revisions s) (candidate_base s) = Some base \<and> rv_Parent revision = rv_ID base) \<and>
    (\<forall>rid old. mget (st_Revisions s) rid = Some old \<longrightarrow> mget (st_Revisions s') rid = Some old) \<and>
    st_ConvergedRevision s' = st_ConvergedRevision s \<and> st_TargetRevision s' = st_TargetRevision s \<and>
    st_CurrentOperation s' = st_CurrentOperation s \<and> st_Operations s' = st_Operations s"
  using assms(3,1)
proof (rule EditCandidate_Inr')
  fix base nodes platform m
  assume "mget (st_Revisions s) (candidate_base s) = Some base"
    and "valid_revision nodes platform"
    and "revision = \<lparr>rv_ID = newID, rv_Parent = rv_ID base, rv_Sequence = wrap64 (st_Sequence s + 1),
       rv_Nodes = nodes, rv_Platform = platform, rv_CreatedAt = truncate_s now\<rparr>"
    and "s' = s\<lparr>st_Sequence := wrap64 (st_Sequence s + 1),
       st_Revisions := mput newID revision (st_Revisions s),
       st_CandidateRevision := newID, st_Nodes := m, st_UpdatedAt := truncate_s now\<rparr>"
  then show ?thesis using assms(2) by (auto simp: Candidate_def lookup_revision_def)
qed

definition layout_edit :: "State \<Rightarrow> Layout \<Rightarrow> unit candidate_edit" where
  "layout_edit s desired = (\<lambda>s1 nodes platform.
      (case layout_replacement (known_nodes (st_Nodes s)) [] (ly_Nodes desired) of
         Inl e \<Rightarrow> (Inl e, s1)
       | Inr replacement \<Rightarrow> (Inr (replacement, platform, ()), s1)))"

lemma layout_edit_frame: "edits_nodes_only (layout_edit s desired)"
proof -
  have "snd (layout_edit s desired s1 nodes platform) = s1\<lparr>st_Nodes := st_Nodes s1\<rparr>" for s1 nodes platform
    by (simp add: layout_edit_def split: sum.split)
  then show ?thesis unfolding edits_nodes_only_def by blast
qed

lemma foldl_add_known_sound:
  "mget (foldl add_known [] ns) name = Some node \<Longrightarrow> nd_Name node = name \<and> node \<in> set ns \<and>
     nd_Phase node \<notin> {NodePhaseRemoved, NodePhaseCancelled, NodePhaseUninstalling}"
  by (induction ns rule: rev_induct) (auto simp: add_known_def split: if_splits)

lemma known_nodes_sound:
  "mget (known_nodes nodes) name = Some node \<Longrightarrow> nd_Name node = name \<and> node \<in> set (mvals nodes) \<and>
     nd_Phase node \<notin> {NodePhaseRemoved, NodePhaseCancelled, NodePhaseUninstalling}"
  unfolding known_nodes_def by (rule foldl_add_known_sound)

lemma layout_replacement_sound:
  assumes "layout_replacement known acc ls = Inr rs"
    and "(i, rn) \<in> set rs"
  shows "(i, rn) \<in> set acc \<or>
    (\<exists>wanted enrolled. (rn_Name rn, wanted) \<in> set ls \<and> mget known (rn_Name rn) = Some enrolled \<and>
       i = nd_ID enrolled \<and> rn_ID rn = i \<and> nd_Role enrolled = ln_Role wanted \<and>
       rn_Role rn = ln_Role wanted \<and> rn_Capabilities rn = ln_Capabilities wanted)"
  using assms
proof (induction ls arbitrary: acc)
  case Nil
  then show ?case by simp
next
  case (Cons l ls)
  obtain name wanted where l: "l = (name, wanted)" by (cases l)
  from Cons.prems l obtain enrolled where e: "mget known name = Some enrolled"
      "nd_Role enrolled = ln_Role wanted" 
    by (auto split: option.splits if_splits)
  let ?new = "\<lparr>rn_ID = nd_ID enrolled, rn_Name = name, rn_Role = ln_Role wanted,
                rn_Capabilities = ln_Capabilities wanted, rn_Desired = NodeDesiredPresent\<rparr>"
  from Cons.prems l e have "layout_replacement known (mput (nd_ID enrolled) ?new acc) ls = Inr rs" by simp
  from Cons.IH [OF this Cons.prems(2)] show ?case
  proof
    assume "(i, rn) \<in> set (mput (nd_ID enrolled) ?new acc)"
    then have "(i, rn) \<in> set acc \<or> i = nd_ID enrolled \<and> rn = ?new"
      by (induction acc) (auto split: if_splits)
    then show ?thesis using e l by auto
  next
    assume "\<exists>wanted enrolled. (rn_Name rn, wanted) \<in> set ls \<and> mget known (rn_Name rn) = Some enrolled \<and>
       i = nd_ID enrolled \<and> rn_ID rn = i \<and> nd_Role enrolled = ln_Role wanted \<and>
       rn_Role rn = ln_Role wanted \<and> rn_Capabilities rn = ln_Capabilities wanted"
    then show ?thesis by auto
  qed
qed

lemma ReplaceCandidateLayout_edit:
  "ReplaceCandidateLayout newID desired now s =
     (if ly_Name desired \<noteq> st_Cluster s then (Inl (SetE (LayoutCluster (ly_Name desired) (st_Cluster s))), s)
      else case EditCandidate newID now (layout_edit s desired) s of
             (Inl e, s1) \<Rightarrow> (Inl e, s1)
           | (Inr (revision, _), s1) \<Rightarrow> (Inr revision, s1))"
  by (simp add: ReplaceCandidateLayout_def layout_edit_def Let_def)

text \<open>
  C27. Importing a layout never invents, re-roles or brings back a host: every
  node of the recorded revision is keyed by the immutable id of an enrolled
  host with the same name and role whose phase is none of removed, cancelled
  and uninstalling, and it carries the capabilities the layout asks for.
\<close>

theorem layout_import_keeps_identities:
  assumes "ReplaceCandidateLayout newID desired now s = (Inr revision, s')"
    and "(i, rn) \<in> set (rv_Nodes revision)"
  shows "ly_Name desired = st_Cluster s \<and>
    (\<exists>wanted enrolled. (rn_Name rn, wanted) \<in> set (ly_Nodes desired) \<and>
       enrolled \<in> set (mvals (st_Nodes s)) \<and> nd_Name enrolled = rn_Name rn \<and> nd_ID enrolled = i \<and>
       nd_Phase enrolled \<notin> {NodePhaseRemoved, NodePhaseCancelled, NodePhaseUninstalling} \<and> rn_ID rn = i \<and>
       nd_Role enrolled = rn_Role rn \<and> rn_Role rn = ln_Role wanted \<and>
       rn_Capabilities rn = ln_Capabilities wanted)"
proof -
  from assms(1) have n: "ly_Name desired = st_Cluster s"
    and e: "EditCandidate newID now (layout_edit s desired) s = (Inr (revision, ()), s')"
    by (auto simp: ReplaceCandidateLayout_edit split: if_splits prod.splits sum.splits)
  have "layout_replacement (known_nodes (st_Nodes s)) [] (ly_Nodes desired) = Inr (rv_Nodes revision)"
    using e layout_edit_frame
    by (rule EditCandidate_Inr') (simp add: layout_edit_def split: sum.splits)
  from layout_replacement_sound [OF this assms(2)] obtain wanted enrolled
    where w: "(rn_Name rn, wanted) \<in> set (ly_Nodes desired)"
      and k: "mget (known_nodes (st_Nodes s)) (rn_Name rn) = Some enrolled"
      and r: "i = nd_ID enrolled" "rn_ID rn = nd_ID enrolled" "nd_Role enrolled = ln_Role wanted"
        "rn_Role rn = ln_Role wanted" "rn_Capabilities rn = ln_Capabilities wanted"
    by auto
  show ?thesis
    using n known_nodes_sound [OF k]
    by (intro conjI exI [of _ wanted] exI [of _ enrolled]) (simp_all only: w r simp_thms)
qed

section \<open>A concrete cluster\<close>

definition ex_time :: gotime where "ex_time = 63900000000 * second"

definition ex_host :: "string \<Rightarrow> string \<Rightarrow> string \<Rightarrow> string list \<Rightarrow> Node" where
  "ex_host nid name role caps =
     zero_node\<lparr>nd_ID := nid, nd_InstallationID := ''inst-'' @ nid, nd_Name := name, nd_Role := role,
       nd_Capabilities := caps, nd_Phase := NodePhaseActive, nd_LastSeen := ex_time\<rparr>"

definition ex_seeded :: State where
  "ex_seeded = projr (NewSeedState ''r1'' ''prod'' (ex_host ''n1'' ''alpha'' RoleServer Capabilities) ex_time)"

definition ex_edit :: "unit candidate_edit" where
  "ex_edit = (\<lambda>s nodes platform. (Inr (nodes, platform\<lparr>ps_Enabled := True\<rparr>, ()), s))"

definition ex_edited :: "Revision \<times> State" where
  "ex_edited = (let (r, s) = EditCandidate ''r2'' ex_time ex_edit ex_seeded in (fst (projr r), s))"

definition ex_layout :: Layout where
  "ex_layout = \<lparr>ly_Version = ''1'', ly_Name = ''prod'',
     ly_Nodes = [(''alpha'', \<lparr>ln_Role = RoleServer, ln_Capabilities = [''database'']\<rparr>)]\<rparr>"

definition ex_imported :: "Revision \<times> State" where
  "ex_imported = (let (r, s) = ReplaceCandidateLayout ''r2'' ex_layout ex_time ex_seeded in (projr r, s))"

lemma ex_edit_result:
  "EditCandidate ''r2'' ex_time ex_edit ex_seeded = (Inr (fst ex_edited, ()), snd ex_edited)"
  by code_simp

lemma ex_layout_result:
  "ReplaceCandidateLayout ''r2'' ex_layout ex_time ex_seeded = (Inr (fst ex_imported), snd ex_imported)"
  by code_simp

lemma ex_edit_frame: "edits_nodes_only ex_edit"
proof -
  have "snd (ex_edit s nodes platform) = s\<lparr>st_Nodes := st_Nodes s\<rparr>" for s nodes platform
    by (simp add: ex_edit_def)
  then show ?thesis unfolding edits_nodes_only_def by blast
qed

lemma ex_edit_fresh: "mget (st_Revisions ex_seeded) ''r2'' = None"
  by code_simp

lemma ex_layout_node: "(''n1'', snd (hd (rv_Nodes (fst ex_imported)))) \<in> set (rv_Nodes (fst ex_imported))"
  by code_simp

text \<open>
  C26. \<^verbatim>\<open>validateRevision\<close> accepts a node map and platform exactly when every
  node has a non-empty id equal to its key, a name no other node has, a
  known role and known, non-repeated capabilities; some node is a server;
  an enabled platform has every required capability on some node; a recorded
  version is a release; and the registry node is a node of the revision that
  carries the registry capability. The verdict does not depend on the order
  in which the map is visited.
\<close>

theorem validateRevision_exact:
  assumes "gomap_ok nodes" and "mset visited = mset nodes"
  shows "validateRevision visited platform = Inr () \<longleftrightarrow>
     (\<forall>(nid, node) \<in> set nodes. nid \<noteq> [] \<and> rn_ID node = nid \<and> rn_Name node \<noteq> [] \<and>
        rn_Role node \<in> {RoleServer, RoleAgent} \<and>
        set (rn_Capabilities node) \<subseteq> set Capabilities \<and> distinct (rn_Capabilities node)) \<and>
     (\<forall>(i, n) \<in> set nodes. \<forall>(j, m) \<in> set nodes. rn_Name n = rn_Name m \<longrightarrow> i = j) \<and>
     (\<exists>(nid, node) \<in> set nodes. rn_Role node = RoleServer) \<and>
     (ps_Enabled platform \<longrightarrow>
        (\<forall>c \<in> set RequiredCapabilities. \<exists>(nid, node) \<in> set nodes. c \<in> set (rn_Capabilities node))) \<and>
     (ps_Version platform = [] \<or> IsRelease (ps_Version platform)) \<and>
     (ps_RegistryNode platform = [] \<or>
        (\<exists>node. mget nodes (ps_RegistryNode platform) = Some node \<and>
           CapabilityRegistry \<in> set (rn_Capabilities node)))"
  using mset_eq_setD [OF assms(2)]
  by (simp only: validateRevision_iff valid_revision_def rnodes_ok_def rnode_ok_def has_server_def
      carries_def gomap_perm_mget [OF assms] insert_iff empty_iff simp_thms conj_assoc)

theorem validateRevision_exact_witness:
  "gomap_ok (rv_Nodes (fst ex_edited)) \<and>
   validateRevision (rv_Nodes (fst ex_edited)) (rv_Platform (fst ex_edited)) = Inr () \<and>
   (\<exists>(nid, node) \<in> set (rv_Nodes (fst ex_edited)). rn_Role node = RoleServer)"
proof -
  have ok: "gomap_ok (rv_Nodes (fst ex_edited))"
    and v: "validateRevision (rv_Nodes (fst ex_edited)) (rv_Platform (fst ex_edited)) = Inr ()"
    by code_simp+
  show ?thesis
    using ok v validateRevision_exact [OF ok refl, of "rv_Platform (fst ex_edited)"] by blast
qed

theorem candidate_edit_witness:
  "edits_nodes_only ex_edit \<and> mget (st_Revisions ex_seeded) ''r2'' = None \<and>
   valid_revision (rv_Nodes (fst ex_edited)) (rv_Platform (fst ex_edited)) \<and>
   Candidate (snd ex_edited) = Inr (fst ex_edited) \<and>
   st_ConvergedRevision (snd ex_edited) = st_ConvergedRevision ex_seeded"
  using candidate_edit_appends_revision [OF ex_edit_frame ex_edit_fresh ex_edit_result]
    ex_edit_frame ex_edit_fresh by blast

theorem layout_import_witness:
  "\<exists>wanted enrolled. (''alpha'', wanted) \<in> set (ly_Nodes ex_layout) \<and>
       enrolled \<in> set (mvals (st_Nodes ex_seeded)) \<and> nd_ID enrolled = ''n1'' \<and>
       nd_Role enrolled = ln_Role wanted"
proof -
  have nm: "rn_Name (snd (hd (rv_Nodes (fst ex_imported)))) = ''alpha''" by code_simp
  show ?thesis
    using layout_import_keeps_identities [OF ex_layout_result ex_layout_node] unfolding nm
    by (elim conjE exE) (rule exI, rule exI, intro conjI, assumption, assumption, simp_all)
qed

end
