(* ===== verification/Cluster_Plan.thy ===== *)
theory Cluster_Plan
  imports Cluster_Types
begin

text \<open>
  Planning, \<^verbatim>\<open>internal/clusterstate/plan.go\<close>: the difference between the
  converged revision and a target, as an ordered list of actions with
  warnings. Warnings are values that carry what their message prints.
\<close>

section \<open>Plans\<close>

datatype ActionKind =
    ActionAddServer | ActionAddAgent | ActionChangeCapabilities | ActionUpgradeNode
  | ActionMoveWorkloads | ActionReconcilePlatform | ActionRemoveAgent | ActionRemoveServer
  | ActionRebalanceWorkloads

record Action =
  ac_Kind :: ActionKind
  ac_NodeID :: string
  ac_NodeName :: string
  ac_Role :: string
  ac_From :: "string list"
  ac_To :: "string list"
  ac_Destructive :: bool
  ac_Detail :: string

datatype plan_warning =
    AgentFailed string string | NoFirstHeartbeat string | StaleHeartbeat string duration
  | EvenServers nat

record Plan =
  pl_FromRevision :: string
  pl_TargetRevision :: string
  pl_Actions :: "Action list"
  pl_Warnings :: "plan_warning list"
  pl_Destructive :: bool
  pl_DatabaseTierFrom :: Tier
  pl_DatabaseTierTo :: Tier
  pl_RebalanceWorkloads :: bool

definition zero_action :: "ActionKind \<Rightarrow> Action" where
  "zero_action kind = \<lparr>ac_Kind = kind, ac_NodeID = [], ac_NodeName = [], ac_Role = [],
     ac_From = [], ac_To = [], ac_Destructive = False, ac_Detail = []\<rparr>"

fun tier_name :: "Tier \<Rightarrow> string" where
  "tier_name TierSingle = ''single''"
| "tier_name TierAsynchronous = ''asynchronous''"
| "tier_name TierSynchronous = ''synchronous''"

section \<open>Helpers\<close>

definition SameStrings :: "string list \<Rightarrow> string list \<Rightarrow> bool" where
  "SameStrings left right \<longleftrightarrow> sort left = sort right"

definition tier :: "(string, RevisionNode) gomap \<Rightarrow> Tier" where
  "tier nodes =
     DeriveTier (length (filter (\<lambda>node. CapabilityDatabase \<in> set (rn_Capabilities node)) (mvals nodes)))"

definition removesAny :: "string list \<Rightarrow> string list \<Rightarrow> bool" where
  "removesAny from to \<longleftrightarrow> list_ex (\<lambda>value. value \<notin> set to) from"

definition topologyChanged :: "Action list \<Rightarrow> bool" where
  "topologyChanged actions \<longleftrightarrow>
     list_ex (\<lambda>a. ac_Kind a \<in> {ActionAddServer, ActionAddAgent, ActionChangeCapabilities,
       ActionRemoveAgent, ActionRemoveServer}) actions"

definition Empty :: "Plan \<Rightarrow> bool" where
  "Empty p \<longleftrightarrow> pl_Actions p = []"

text \<open>\<^verbatim>\<open>Duration.Round(time.Second)\<close> of a positive duration: half rounds up, saturating.\<close>

definition round_s :: "duration \<Rightarrow> duration" where
  "round_s d =
     (let r = d mod second in
      if r + r < second then d - r else min int64_max (d + second - r))"

section \<open>Building a plan\<close>

text \<open>Additions and capability changes, servers first; a role change is refused.\<close>

definition add_action :: "RevisionNode \<Rightarrow> Action" where
  "add_action node =
     (zero_action (if rn_Role node = RoleServer then ActionAddServer else ActionAddAgent))
       \<lparr>ac_NodeID := rn_ID node, ac_NodeName := rn_Name node, ac_Role := rn_Role node,
        ac_To := rn_Capabilities node\<rparr>"

definition capability_actions :: "RevisionNode \<Rightarrow> RevisionNode \<Rightarrow> Action list" where
  "capability_actions old node =
     (if SameStrings (rn_Capabilities old) (rn_Capabilities node) then []
      else (zero_action ActionChangeCapabilities)
             \<lparr>ac_NodeID := rn_ID node, ac_NodeName := rn_Name node,
              ac_From := rn_Capabilities old, ac_To := rn_Capabilities node\<rparr>
           # (if removesAny (rn_Capabilities old) (rn_Capabilities node)
              then [(zero_action ActionMoveWorkloads)
                     \<lparr>ac_NodeID := rn_ID node, ac_NodeName := rn_Name node,
                      ac_Detail := ''move workloads that no longer match the node's capabilities''\<rparr>]
              else []))"

fun plan_additions :: "(string, RevisionNode) gomap \<Rightarrow> Action list \<Rightarrow> RevisionNode list \<Rightarrow>
    cerr + Action list" where
  "plan_additions from actions [] = Inr actions"
| "plan_additions from actions (node # nodes) =
     (case mget from (rn_ID node) of
        None \<Rightarrow> plan_additions from (actions @ [add_action node]) nodes
      | Some old \<Rightarrow>
          if rn_Role old \<noteq> rn_Role node
          then Inl (SetE (PlanRoleChange (rn_Name node) (rn_Role old) (rn_Role node)))
          else plan_additions from (actions @ capability_actions old node) nodes)"

definition upgrade_action :: "string \<Rightarrow> string \<Rightarrow> RevisionNode \<Rightarrow> Action" where
  "upgrade_action old new node =
     (zero_action ActionUpgradeNode)
       \<lparr>ac_NodeID := rn_ID node, ac_NodeName := rn_Name node, ac_Role := rn_Role node,
        ac_From := [old], ac_To := [new], ac_Detail := ''hostd and k3s to '' @ new\<rparr>"

definition plan_upgrades :: "Revision \<Rightarrow> Revision \<Rightarrow> Action list" where
  "plan_upgrades from target =
     map (upgrade_action (ps_Version (rv_Platform from)) (ps_Version (rv_Platform target)))
       (filter (\<lambda>node. mget (rv_Nodes from) (rn_ID node) \<noteq> None)
         (SortedRevisionNodes (rv_Nodes target)))"

definition remove_action :: "RevisionNode \<Rightarrow> Action" where
  "remove_action node =
     (zero_action (if rn_Role node = RoleServer then ActionRemoveServer else ActionRemoveAgent))
       \<lparr>ac_NodeID := rn_ID node, ac_NodeName := rn_Name node, ac_Role := rn_Role node,
        ac_From := rn_Capabilities node, ac_Destructive := True\<rparr>"

definition removal_less :: "Action \<Rightarrow> Action \<Rightarrow> bool" where
  "removal_less a b \<longleftrightarrow> ac_Kind a = ActionRemoveAgent \<and> ac_Kind b = ActionRemoveServer"

definition plan_removals :: "Revision \<Rightarrow> Revision \<Rightarrow> Action list" where
  "plan_removals from target =
     sort_by removal_less
       (map remove_action
         (filter (\<lambda>node. mget (rv_Nodes target) (rn_ID node) = None)
           (SortedRevisionNodes (rv_Nodes from))))"

text \<open>Warnings from observed node state, one look per affected node.\<close>

definition node_warnings :: "gotime \<Rightarrow> Node \<Rightarrow> plan_warning list" where
  "node_warnings updatedAt node =
     (if nd_Phase node = NodePhaseFailed
        then [AgentFailed (nd_Name node) (trim_space (nd_LastError node))]
      else if is_zero (nd_LastSeen node) then [NoFirstHeartbeat (nd_Name node)]
      else if time_sub updatedAt (nd_LastSeen node) > 30 * second
        then [StaleHeartbeat (nd_Name node) (round_s (time_sub updatedAt (nd_LastSeen node)))]
      else [])"

fun reach_warnings :: "State \<Rightarrow> string list \<Rightarrow> Action list \<Rightarrow> plan_warning list" where
  "reach_warnings s affected [] = []"
| "reach_warnings s affected (a # as) =
     (if ac_NodeID a = [] \<or> ac_NodeID a \<in> set affected then reach_warnings s affected as
      else (case mget (st_Nodes s) (ac_NodeID a) of
              None \<Rightarrow> []
            | Some node \<Rightarrow> node_warnings (st_UpdatedAt s) node)
           @ reach_warnings s (ac_NodeID a # affected) as)"

definition version_changed :: "Revision \<Rightarrow> Revision \<Rightarrow> bool" where
  "version_changed from target \<longleftrightarrow>
     ps_Version (rv_Platform target) \<noteq> [] \<and>
     ps_Version (rv_Platform target) \<noteq> ps_Version (rv_Platform from)"

text \<open>The platform is reconciled once after the nodes, when anything it depends on changed.\<close>

definition plan_reconcile :: "Revision \<Rightarrow> Revision \<Rightarrow> Action list \<Rightarrow> Action list" where
  "plan_reconcile from target actions =
     (if ps_Enabled (rv_Platform target) \<and>
         (\<not> ps_Enabled (rv_Platform from) \<or> version_changed from target \<or>
          tier (rv_Nodes from) \<noteq> tier (rv_Nodes target) \<or> topologyChanged actions)
      then [(zero_action ActionReconcilePlatform)
             \<lparr>ac_Detail :=
               (if version_changed from target
                then ''move the platform bundle to '' @ ps_Version (rv_Platform target)
                else ''reconcile platform once at database tier '' @ tier_name (tier (rv_Nodes target)))\<rparr>]
      else [])"

definition plan_rebalance :: "bool \<Rightarrow> Action list" where
  "plan_rebalance rebalance =
     (if rebalance
      then [(zero_action ActionRebalanceWorkloads)
             \<lparr>ac_Detail := ''roll eligible managed Deployments one at a time'',
              ac_Destructive := True\<rparr>]
      else [])"

definition server_warning :: "Revision \<Rightarrow> plan_warning list" where
  "server_warning target =
     (let servers = length (filter (\<lambda>node. rn_Role node = RoleServer) (mvals (rv_Nodes target)))
      in if servers > 1 \<and> servers mod 2 = 0 then [EvenServers servers] else [])"

definition BuildPlan :: "State \<Rightarrow> Revision \<Rightarrow> Revision \<Rightarrow> bool \<Rightarrow> cerr + Plan" where
  "BuildPlan s from target rebalance =
     (case validateRevision (rv_Nodes target) (rv_Platform target) of
        Inl e \<Rightarrow> Inl e
      | Inr _ \<Rightarrow>
     (case plan_additions (rv_Nodes from) [] (SortedRevisionNodes (rv_Nodes target)) of
        Inl e \<Rightarrow> Inl e
      | Inr additions \<Rightarrow>
        let upgraded = additions @ (if version_changed from target then plan_upgrades from target else []);
            removals = plan_removals from target;
            actions = upgraded @ plan_reconcile from target upgraded @ removals @ plan_rebalance rebalance
        in if ps_RegistryNode (rv_Platform target) \<noteq> [] \<and>
              mget (rv_Nodes target) (ps_RegistryNode (rv_Platform target)) = None
           then Inl (SetE PlanRegistry)
           else Inr \<lparr>pl_FromRevision = rv_ID from, pl_TargetRevision = rv_ID target,
                  pl_Actions = actions,
                  pl_Warnings = reach_warnings s [] actions @ server_warning target,
                  pl_Destructive = (removals \<noteq> [] \<or> rebalance),
                  pl_DatabaseTierFrom = tier (rv_Nodes from),
                  pl_DatabaseTierTo = tier (rv_Nodes target),
                  pl_RebalanceWorkloads = rebalance\<rparr>))"

text \<open>\<^verbatim>\<open>Plan.String\<close>: the table the CLI prints; \<^verbatim>\<open>%-26s\<close> pads on the right.\<close>

fun kind_name :: "ActionKind \<Rightarrow> string" where
  "kind_name ActionAddServer = ''add-server''"
| "kind_name ActionAddAgent = ''add-agent''"
| "kind_name ActionChangeCapabilities = ''change-capabilities''"
| "kind_name ActionUpgradeNode = ''upgrade-node''"
| "kind_name ActionMoveWorkloads = ''move-required-workloads''"
| "kind_name ActionReconcilePlatform = ''reconcile-platform''"
| "kind_name ActionRemoveAgent = ''remove-agent''"
| "kind_name ActionRemoveServer = ''remove-server''"
| "kind_name ActionRebalanceWorkloads = ''rebalance-workloads''"

definition action_line :: "Action \<Rightarrow> string" where
  "action_line a =
     (let k = kind_name (ac_Kind a) in k @ replicate (26 - length k) (CHR '' ''))
     @ (if ac_NodeName a \<noteq> [] then '' '' @ ac_NodeName a else [])
     @ (if ac_From a \<noteq> [] \<or> ac_To a \<noteq> []
        then '' '' @ join_with '','' (ac_From a) @ '' -> '' @ join_with '','' (ac_To a) else [])
     @ (if ac_Detail a \<noteq> [] then ''  '' @ ac_Detail a else [])
     @ [CHR 0x0A]"

definition plan_String :: "Plan \<Rightarrow> string" where
  "plan_String p = concat (map action_line (pl_Actions p))"

section \<open>The shape of a plan\<close>

definition node_actions :: "(string, RevisionNode) gomap \<Rightarrow> RevisionNode \<Rightarrow> Action list" where
  "node_actions from node =
     (case mget from (rn_ID node) of
        None \<Rightarrow> [add_action node]
      | Some old \<Rightarrow> capability_actions old node)"

definition keeps_roles :: "Revision \<Rightarrow> Revision \<Rightarrow> bool" where
  "keeps_roles from target \<longleftrightarrow>
     (\<forall>node \<in> set (mvals (rv_Nodes target)). \<forall>old.
        mget (rv_Nodes from) (rn_ID node) = Some old \<longrightarrow> rn_Role old = rn_Role node)"

lemma plan_additions_eq:
  "plan_additions from actions nodes = Inr r \<longleftrightarrow>
     (\<forall>node \<in> set nodes. \<forall>old. mget from (rn_ID node) = Some old \<longrightarrow> rn_Role old = rn_Role node) \<and>
     r = actions @ concat (map (node_actions from) nodes)"
  by (induction nodes arbitrary: actions) (auto simp: node_actions_def split: option.splits)

lemma set_SortedRevisionNodes [simp]: "set (SortedRevisionNodes nodes) = set (mvals nodes)"
  by (simp add: SortedRevisionNodes_def)

lemma valid_registry:
  "valid_revision nodes platform \<Longrightarrow> ps_RegistryNode platform \<noteq> [] \<Longrightarrow>
   mget nodes (ps_RegistryNode platform) \<noteq> None"
  by (auto simp: valid_revision_def)

definition additions_part :: "Revision \<Rightarrow> Revision \<Rightarrow> Action list" where
  "additions_part from target =
     concat (map (node_actions (rv_Nodes from)) (SortedRevisionNodes (rv_Nodes target)))"

definition upgrades_part :: "Revision \<Rightarrow> Revision \<Rightarrow> Action list" where
  "upgrades_part from target = (if version_changed from target then plan_upgrades from target else [])"

lemma plan_additions_part:
  "plan_additions (rv_Nodes from) [] (SortedRevisionNodes (rv_Nodes target)) = Inr r \<longleftrightarrow>
     keeps_roles from target \<and> r = additions_part from target"
  by (simp add: plan_additions_eq keeps_roles_def additions_part_def)

definition expected_plan :: "State \<Rightarrow> Revision \<Rightarrow> Revision \<Rightarrow> bool \<Rightarrow> Plan" where
  "expected_plan s from target rebalance =
     (let upgraded = additions_part from target @ upgrades_part from target;
          actions = upgraded @ plan_reconcile from target upgraded @ plan_removals from target
            @ plan_rebalance rebalance
      in \<lparr>pl_FromRevision = rv_ID from, pl_TargetRevision = rv_ID target, pl_Actions = actions,
          pl_Warnings = reach_warnings s [] actions @ server_warning target,
          pl_Destructive = (plan_removals from target \<noteq> [] \<or> rebalance),
          pl_DatabaseTierFrom = tier (rv_Nodes from),
          pl_DatabaseTierTo = tier (rv_Nodes target),
          pl_RebalanceWorkloads = rebalance\<rparr>)"

lemma BuildPlan_iff:
  "BuildPlan s from target rebalance = Inr p \<longleftrightarrow>
     valid_revision (rv_Nodes target) (rv_Platform target) \<and> keeps_roles from target \<and>
     p = expected_plan s from target rebalance"
proof (cases "valid_revision (rv_Nodes target) (rv_Platform target)")
  case valid: True
  then have v: "validateRevision (rv_Nodes target) (rv_Platform target) = Inr ()"
    by (simp add: validateRevision_iff)
  note reg = valid_registry [OF valid]
  show ?thesis
  proof (cases "keeps_roles from target")
    case True
    then have "plan_additions (rv_Nodes from) [] (SortedRevisionNodes (rv_Nodes target)) =
        Inr (additions_part from target)"
      by (simp add: plan_additions_part)
    then show ?thesis
      using valid v True reg
      by (auto simp add: BuildPlan_def expected_plan_def upgrades_part_def Let_def)
  next
    case False
    then obtain e where
      "plan_additions (rv_Nodes from) [] (SortedRevisionNodes (rv_Nodes target)) = Inl e"
      using plan_additions_part by (metis sumE)
    then show ?thesis using v False by (simp add: BuildPlan_def)
  qed
next
  case False
  then obtain e where "validateRevision (rv_Nodes target) (rv_Platform target) = Inl e"
    using validateRevision_iff by (metis old.unit.exhaust sumE)
  then show ?thesis using False by (simp add: BuildPlan_def)
qed

section \<open>A plan is the difference of its revisions\<close>

lemma SameStrings_iff: "SameStrings a b \<longleftrightarrow> mset a = mset b"
  unfolding SameStrings_def by (metis mset_sort properties_for_sort sorted_sort)

lemma rnodes_get: "rnodes_ok nodes \<Longrightarrow> mget nodes nid = Some node \<Longrightarrow> rn_ID node = nid"
  by (auto simp: rnodes_ok_def rnode_ok_def dest!: map_of_SomeD)

definition planned :: "Plan \<Rightarrow> ActionKind set \<Rightarrow> string \<Rightarrow> bool" where
  "planned p kinds nid \<longleftrightarrow> (\<exists>a \<in> set (pl_Actions p). ac_Kind a \<in> kinds \<and> ac_NodeID a = nid)"

lemma action_fields [simp]:
  "ac_Kind (add_action n) = (if rn_Role n = RoleServer then ActionAddServer else ActionAddAgent)"
  "ac_NodeID (add_action n) = rn_ID n"
  "ac_Kind (upgrade_action u v n) = ActionUpgradeNode"
  "ac_NodeID (upgrade_action u v n) = rn_ID n"
  "ac_Kind (remove_action n) = (if rn_Role n = RoleServer then ActionRemoveServer else ActionRemoveAgent)"
  "ac_NodeID (remove_action n) = rn_ID n"
  by (simp_all add: add_action_def upgrade_action_def remove_action_def zero_action_def)

lemma capability_actions_mem:
  "a \<in> set (capability_actions old n) \<Longrightarrow>
     ac_Kind a \<in> {ActionChangeCapabilities, ActionMoveWorkloads} \<and> ac_NodeID a = rn_ID n"
  by (auto simp: capability_actions_def zero_action_def split: if_splits)

lemma capability_actions_change:
  "(\<exists>a \<in> set (capability_actions old n). ac_Kind a = ActionChangeCapabilities \<and> ac_NodeID a = nid) \<longleftrightarrow>
     rn_ID n = nid \<and> mset (rn_Capabilities old) \<noteq> mset (rn_Capabilities n)"
  by (auto simp: capability_actions_def zero_action_def SameStrings_iff)

lemma plan_reconcile_mem:
  "a \<in> set (plan_reconcile from target xs) \<Longrightarrow> ac_Kind a = ActionReconcilePlatform"
  by (auto simp: plan_reconcile_def zero_action_def split: if_splits)

lemma plan_rebalance_mem: "a \<in> set (plan_rebalance r) \<Longrightarrow> ac_Kind a = ActionRebalanceWorkloads"
  by (auto simp: plan_rebalance_def zero_action_def split: if_splits)

lemma additions_part_ex:
  assumes "gomap_ok (rv_Nodes target)"
  shows "(\<exists>a \<in> set (additions_part from target). P a) \<longleftrightarrow>
    (\<exists>nid n. mget (rv_Nodes target) nid = Some n \<and> (\<exists>a \<in> set (node_actions (rv_Nodes from) n). P a))"
proof -
  have "(\<exists>a \<in> set (additions_part from target). P a) \<longleftrightarrow>
      (\<exists>n \<in> set (mvals (rv_Nodes target)). \<exists>a \<in> set (node_actions (rv_Nodes from) n). P a)"
    by (auto simp: additions_part_def)
  also have "\<dots> \<longleftrightarrow> (\<exists>nid n. mget (rv_Nodes target) nid = Some n \<and>
      (\<exists>a \<in> set (node_actions (rv_Nodes from) n). P a))"
    by (meson assms mvals_mem)
  finally show ?thesis .
qed

lemma upgrades_part_ex:
  assumes "gomap_ok (rv_Nodes target)" and "rnodes_ok (rv_Nodes target)"
  shows "(\<exists>a \<in> set (upgrades_part from target). P a) \<longleftrightarrow> version_changed from target \<and>
    (\<exists>nid n. mget (rv_Nodes target) nid = Some n \<and> mget (rv_Nodes from) nid \<noteq> None \<and>
       P (upgrade_action (ps_Version (rv_Platform from)) (ps_Version (rv_Platform target)) n))"
proof -
  let ?u = "upgrade_action (ps_Version (rv_Platform from)) (ps_Version (rv_Platform target))"
  have "(\<exists>a \<in> set (plan_upgrades from target). P a) \<longleftrightarrow>
      (\<exists>n \<in> set (mvals (rv_Nodes target)). mget (rv_Nodes from) (rn_ID n) \<noteq> None \<and> P (?u n))"
    by (auto simp: plan_upgrades_def)
  also have "\<dots> \<longleftrightarrow> (\<exists>nid n. mget (rv_Nodes target) nid = Some n \<and>
      mget (rv_Nodes from) (rn_ID n) \<noteq> None \<and> P (?u n))"
    by (meson assms(1) mvals_mem)
  also have "\<dots> \<longleftrightarrow> (\<exists>nid n. mget (rv_Nodes target) nid = Some n \<and>
      mget (rv_Nodes from) nid \<noteq> None \<and> P (?u n))"
    by (metis rnodes_get [OF assms(2)])
  finally show ?thesis by (cases "version_changed from target") (simp_all add: upgrades_part_def)
qed

lemma removals_ex:
  assumes "gomap_ok (rv_Nodes from)" and "rnodes_ok (rv_Nodes from)"
  shows "(\<exists>a \<in> set (plan_removals from target). P a) \<longleftrightarrow>
    (\<exists>nid n. mget (rv_Nodes from) nid = Some n \<and> mget (rv_Nodes target) nid = None \<and> P (remove_action n))"
proof -
  have "(\<exists>a \<in> set (plan_removals from target). P a) \<longleftrightarrow>
      (\<exists>n \<in> set (mvals (rv_Nodes from)). mget (rv_Nodes target) (rn_ID n) = None \<and> P (remove_action n))"
    by (auto simp: plan_removals_def)
  also have "\<dots> \<longleftrightarrow> (\<exists>nid n. mget (rv_Nodes from) nid = Some n \<and>
      mget (rv_Nodes target) (rn_ID n) = None \<and> P (remove_action n))"
    by (meson assms(1) mvals_mem)
  finally show ?thesis by (metis rnodes_get [OF assms(2)])
qed

lemma node_actions_add:
  "(\<exists>a \<in> set (node_actions from n). ac_Kind a \<in> {ActionAddServer, ActionAddAgent} \<and> ac_NodeID a = nid) \<longleftrightarrow>
     rn_ID n = nid \<and> mget from nid = None"
  by (auto simp: node_actions_def dest: capability_actions_mem split: option.splits)

lemma node_actions_change:
  "(\<exists>a \<in> set (node_actions from n). ac_Kind a \<in> {ActionChangeCapabilities} \<and> ac_NodeID a = nid) \<longleftrightarrow>
     rn_ID n = nid \<and> (\<exists>old. mget from nid = Some old \<and> mset (rn_Capabilities old) \<noteq> mset (rn_Capabilities n))"
  by (cases "mget from (rn_ID n)") (auto simp: node_actions_def capability_actions_change)

lemma node_actions_kinds:
  "a \<in> set (node_actions from n) \<Longrightarrow>
     ac_Kind a \<in> {ActionAddServer, ActionAddAgent, ActionChangeCapabilities, ActionMoveWorkloads}"
  by (auto simp: node_actions_def dest: capability_actions_mem split: option.splits if_splits)

lemma additions_part_kinds:
  "a \<in> set (additions_part from target) \<Longrightarrow>
     ac_Kind a \<in> {ActionAddServer, ActionAddAgent, ActionChangeCapabilities, ActionMoveWorkloads}"
  by (auto simp: additions_part_def dest: node_actions_kinds)

lemma upgrades_part_kinds: "a \<in> set (upgrades_part from target) \<Longrightarrow> ac_Kind a = ActionUpgradeNode"
  by (auto simp: upgrades_part_def plan_upgrades_def split: if_splits)

lemma removals_kinds:
  "a \<in> set (plan_removals from target) \<Longrightarrow> ac_Kind a \<in> {ActionRemoveAgent, ActionRemoveServer}"
  by (auto simp: plan_removals_def)

lemma expected_actions:
  "pl_Actions (expected_plan s from target r) =
     additions_part from target @ upgrades_part from target
     @ plan_reconcile from target (additions_part from target @ upgrades_part from target)
     @ plan_removals from target @ plan_rebalance r"
  by (simp add: expected_plan_def Let_def)

lemma planned_additions:
  assumes "kinds \<subseteq> {ActionAddServer, ActionAddAgent, ActionChangeCapabilities, ActionMoveWorkloads}"
  shows "planned (expected_plan s from target r) kinds nid \<longleftrightarrow>
    (\<exists>a \<in> set (additions_part from target). ac_Kind a \<in> kinds \<and> ac_NodeID a = nid)"
  using assms unfolding planned_def expected_actions set_append
  by (auto dest!: upgrades_part_kinds removals_kinds plan_reconcile_mem plan_rebalance_mem)

lemma planned_upgrades:
  "planned (expected_plan s from target r) {ActionUpgradeNode} nid \<longleftrightarrow>
    (\<exists>a \<in> set (upgrades_part from target). ac_Kind a = ActionUpgradeNode \<and> ac_NodeID a = nid)"
  unfolding planned_def expected_actions set_append
  by (auto dest!: additions_part_kinds removals_kinds plan_reconcile_mem plan_rebalance_mem)

lemma planned_removals:
  "planned (expected_plan s from target r) {ActionRemoveAgent, ActionRemoveServer} nid \<longleftrightarrow>
    (\<exists>a \<in> set (plan_removals from target). ac_Kind a \<in> {ActionRemoveAgent, ActionRemoveServer} \<and> ac_NodeID a = nid)"
  unfolding planned_def expected_actions set_append
  by (auto dest!: additions_part_kinds upgrades_part_kinds plan_reconcile_mem plan_rebalance_mem)

text \<open>
  C20. A plan is exactly the difference between its revisions: a host is added
  if and only if it is only in the target, its capabilities are changed if
  and only if it is in both with different capability multisets, it is
  upgraded if and only if it is in both and the target moves the version,
  and it is removed if and only if it is only in the source.
\<close>

theorem plan_is_the_difference:
  assumes "BuildPlan s from target rebalance = Inr p"
    and "gomap_ok (rv_Nodes target)" and "gomap_ok (rv_Nodes from)" and "rnodes_ok (rv_Nodes from)"
  shows "(planned p {ActionAddServer, ActionAddAgent} nid \<longleftrightarrow>
       mget (rv_Nodes target) nid \<noteq> None \<and> mget (rv_Nodes from) nid = None) \<and>
    (planned p {ActionChangeCapabilities} nid \<longleftrightarrow>
       (\<exists>old new. mget (rv_Nodes from) nid = Some old \<and> mget (rv_Nodes target) nid = Some new \<and>
          mset (rn_Capabilities old) \<noteq> mset (rn_Capabilities new))) \<and>
    (planned p {ActionUpgradeNode} nid \<longleftrightarrow> version_changed from target \<and>
       mget (rv_Nodes target) nid \<noteq> None \<and> mget (rv_Nodes from) nid \<noteq> None) \<and>
    (planned p {ActionRemoveAgent, ActionRemoveServer} nid \<longleftrightarrow>
       mget (rv_Nodes from) nid \<noteq> None \<and> mget (rv_Nodes target) nid = None)"
proof -
  from assms(1) have ok: "rnodes_ok (rv_Nodes target)" and p: "p = expected_plan s from target rebalance"
    by (simp_all add: BuildPlan_iff valid_revision_def)
  note tget = rnodes_get [OF ok] and fget = rnodes_get [OF assms(4)]
  have "planned p {ActionAddServer, ActionAddAgent} nid \<longleftrightarrow>
       mget (rv_Nodes target) nid \<noteq> None \<and> mget (rv_Nodes from) nid = None"
    unfolding p
    by (subst planned_additions)
       (simp, simp only: additions_part_ex [OF assms(2)] node_actions_add, auto dest: tget)
  moreover have "planned p {ActionChangeCapabilities} nid \<longleftrightarrow>
       (\<exists>old new. mget (rv_Nodes from) nid = Some old \<and> mget (rv_Nodes target) nid = Some new \<and>
          mset (rn_Capabilities old) \<noteq> mset (rn_Capabilities new))"
    unfolding p
    by (subst planned_additions)
       (simp, simp only: additions_part_ex [OF assms(2)] node_actions_change, auto dest: tget)
  moreover have "planned p {ActionUpgradeNode} nid \<longleftrightarrow> version_changed from target \<and>
       mget (rv_Nodes target) nid \<noteq> None \<and> mget (rv_Nodes from) nid \<noteq> None"
    unfolding p planned_upgrades upgrades_part_ex [OF assms(2) ok] using tget by auto
  moreover have "planned p {ActionRemoveAgent, ActionRemoveServer} nid \<longleftrightarrow>
       mget (rv_Nodes from) nid \<noteq> None \<and> mget (rv_Nodes target) nid = None"
    unfolding p planned_removals removals_ex [OF assms(3,4)] using fget by auto
  ultimately show ?thesis by blast
qed

section \<open>The order of a plan\<close>

definition agent_flag :: "Revision \<Rightarrow> string \<Rightarrow> nat" where
  "agent_flag target nid =
     (if rn_Role (mget_or zero_rnode (rv_Nodes target) nid) = RoleServer then 0 else 1)"

fun kind_stage :: "ActionKind \<Rightarrow> nat" where
  "kind_stage ActionUpgradeNode = 2"
| "kind_stage ActionReconcilePlatform = 4"
| "kind_stage ActionRemoveAgent = 5"
| "kind_stage ActionRemoveServer = 6"
| "kind_stage ActionRebalanceWorkloads = 7"
| "kind_stage _ = 0"

definition plan_rank :: "Revision \<Rightarrow> Action \<Rightarrow> nat" where
  "plan_rank target a =
     (if kind_stage (ac_Kind a) \<le> 2 then kind_stage (ac_Kind a) + agent_flag target (ac_NodeID a)
      else kind_stage (ac_Kind a))"

interpretation removal_order: comparator removal_less "{a. ac_Kind a \<in> {ActionRemoveAgent, ActionRemoveServer}}"
  by (rule comparator_by_key [where key = "\<lambda>a. ac_Kind a = ActionRemoveServer"])
     (auto simp: removal_less_def)

lemma sorted_roles:
  assumes "rnodes_ok nodes"
  shows "sorted (map (\<lambda>n. if rn_Role n = RoleServer then c else Suc c) (SortedRevisionNodes nodes))"
proof -
  have known: "set (mvals nodes) \<subseteq> known_roles"
    using assms by (auto simp: rnodes_ok_def rnode_ok_def known_roles_def)
  from rnode_order.sorted_sort_by [OF this]
  have "sorted_wrt (\<lambda>a b. \<not> rnode_less b a) (SortedRevisionNodes nodes)"
    by (simp add: SortedRevisionNodes_def)
  then show ?thesis unfolding sorted_map
    by (rule sorted_wrt_mono_rel [rotated])
       (use known in \<open>auto simp: rnode_less_def known_roles_def split: if_splits\<close>)
qed

lemma agent_flag_eq:
  assumes "rnodes_ok (rv_Nodes target)" "gomap_ok (rv_Nodes target)" "n \<in> set (mvals (rv_Nodes target))"
  shows "agent_flag target (rn_ID n) = (if rn_Role n = RoleServer then 0 else 1)"
proof -
  from assms(2,3) obtain k where "mget (rv_Nodes target) k = Some n" by (auto simp: mvals_mem simp del: set_map)
  with rnodes_get [OF assms(1) this] show ?thesis by (simp add: agent_flag_def)
qed

lemma node_actions_id: "a \<in> set (node_actions from n) \<Longrightarrow> ac_NodeID a = rn_ID n"
  by (auto simp: node_actions_def dest: capability_actions_mem split: option.splits)

lemma additions_sorted:
  assumes "rnodes_ok (rv_Nodes target)" "gomap_ok (rv_Nodes target)"
  shows "sorted (map (plan_rank target) (additions_part from target))"
  unfolding additions_part_def
proof (rule sorted_concat_map)
  show "sorted (map (\<lambda>n. if rn_Role n = RoleServer then 0 else Suc 0) (SortedRevisionNodes (rv_Nodes target)))"
    by (rule sorted_roles [OF assms(1)])
  fix n a assume n: "n \<in> set (SortedRevisionNodes (rv_Nodes target))"
    and a: "a \<in> set (node_actions (rv_Nodes from) n)"
  then show "plan_rank target a = (if rn_Role n = RoleServer then 0 else Suc 0)"
    using node_actions_kinds [OF a] node_actions_id [OF a] agent_flag_eq [OF assms]
    by (auto simp: plan_rank_def simp del: set_map)
qed

lemma upgrades_sorted:
  assumes "rnodes_ok (rv_Nodes target)" "gomap_ok (rv_Nodes target)"
  shows "sorted (map (plan_rank target) (upgrades_part from target))"
proof -
  let ?k = "filter (\<lambda>node. mget (rv_Nodes from) (rn_ID node) \<noteq> None) (SortedRevisionNodes (rv_Nodes target))"
  have "map (plan_rank target) (plan_upgrades from target) =
      map (\<lambda>n. if rn_Role n = RoleServer then 2 else Suc 2) ?k"
    using agent_flag_eq [OF assms] by (simp add: plan_upgrades_def plan_rank_def del: set_map)
  moreover have "sorted (map (\<lambda>n. if rn_Role n = RoleServer then 2 else Suc 2) ?k)"
    using sorted_roles [OF assms(1), of 2] by (rule sorted_filter)
  ultimately show ?thesis by (simp add: upgrades_part_def)
qed

lemma removals_sorted: "sorted (map (plan_rank target) (plan_removals from target))"
proof -
  have "sorted_wrt (\<lambda>a b. \<not> removal_less b a) (plan_removals from target)"
    unfolding plan_removals_def by (rule removal_order.sorted_sort_by) auto
  then show ?thesis unfolding sorted_map
    by (rule sorted_wrt_mono_rel [rotated])
       (fastforce simp: plan_rank_def removal_less_def dest!: removals_kinds)
qed

lemma part_ranks:
  "a \<in> set (additions_part from target) \<Longrightarrow> plan_rank t a \<le> 1"
  "a \<in> set (upgrades_part from target) \<Longrightarrow> 2 \<le> plan_rank t a \<and> plan_rank t a \<le> 3"
  "a \<in> set (plan_reconcile from target xs) \<Longrightarrow> plan_rank t a = 4"
  "a \<in> set (plan_removals from target) \<Longrightarrow> 5 \<le> plan_rank t a \<and> plan_rank t a \<le> 6"
  "a \<in> set (plan_rebalance r) \<Longrightarrow> plan_rank t a = 7"
  by (auto simp: plan_rank_def agent_flag_def dest!: additions_part_kinds upgrades_part_kinds
      plan_reconcile_mem removals_kinds plan_rebalance_mem)

lemma singleton_parts_sorted:
  "sorted (map (plan_rank t) (plan_reconcile from target xs))"
  "sorted (map (plan_rank t) (plan_rebalance r))"
  by (simp_all add: plan_reconcile_def plan_rebalance_def)

text \<open>
  C21. The actions of a plan come in execution order: server additions and
  changes, agent additions and changes, server upgrades, agent upgrades, the
  platform, agent removals, server removals, the rebalance.
\<close>

theorem plan_order:
  assumes "BuildPlan s from target rebalance = Inr p" and "gomap_ok (rv_Nodes target)"
  shows "sorted (map (plan_rank target) (pl_Actions p))"
proof -
  from assms(1) have ok: "rnodes_ok (rv_Nodes target)" and p: "p = expected_plan s from target rebalance"
    by (simp_all add: BuildPlan_iff valid_revision_def)
  let ?rank = "plan_rank target"
  have "sorted (map ?rank (plan_removals from target @ plan_rebalance rebalance))"
    by (rule sorted_append_bound [where c = 6])
       (auto simp: removals_sorted singleton_parts_sorted dest: part_ranks [where t = target])
  then have "sorted (map ?rank (plan_reconcile from target xs
      @ plan_removals from target @ plan_rebalance rebalance))" for xs
    by (rule sorted_append_bound [where c = 4, OF singleton_parts_sorted(1)])
       (auto dest: part_ranks [where t = target])
  then have "sorted (map ?rank (upgrades_part from target @ plan_reconcile from target xs
      @ plan_removals from target @ plan_rebalance rebalance))" for xs
    by (rule sorted_append_bound [where c = 3, OF upgrades_sorted [OF ok assms(2)]])
       (auto dest: part_ranks [where t = target])
  then show ?thesis
    unfolding p expected_actions
    by (rule sorted_append_bound [where c = 1, OF additions_sorted [OF ok assms(2)]])
       (auto dest: part_ranks [where t = target])
qed

section \<open>When there is nothing to do\<close>

definition same_hosts :: "Revision \<Rightarrow> Revision \<Rightarrow> bool" where
  "same_hosts from target \<longleftrightarrow>
     (\<forall>nid new. mget (rv_Nodes target) nid = Some new \<longrightarrow>
        (\<exists>old. mget (rv_Nodes from) nid = Some old \<and>
           mset (rn_Capabilities old) = mset (rn_Capabilities new))) \<and>
     (\<forall>nid. mget (rv_Nodes target) nid = None \<longrightarrow> mget (rv_Nodes from) nid = None)"

lemma same_hosts_carrier:
  assumes "same_hosts from target"
  shows "(\<exists>v. mget (rv_Nodes from) k = Some v \<and> c \<in> set (rn_Capabilities v)) \<longleftrightarrow>
    (\<exists>v. mget (rv_Nodes target) k = Some v \<and> c \<in> set (rn_Capabilities v))"
proof (cases "mget (rv_Nodes target) k")
  case None
  then show ?thesis using assms by (simp add: same_hosts_def)
next
  case (Some new)
  with assms obtain old where "mget (rv_Nodes from) k = Some old"
    "mset (rn_Capabilities old) = mset (rn_Capabilities new)"
    unfolding same_hosts_def by blast
  then show ?thesis using Some by (auto dest: mset_eq_setD)
qed

lemma same_hosts_tier:
  assumes "same_hosts from target" "gomap_ok (rv_Nodes from)" "gomap_ok (rv_Nodes target)"
  shows "tier (rv_Nodes from) = tier (rv_Nodes target)"
  unfolding tier_def count_values [OF assms(2)] count_values [OF assms(3)]
    same_hosts_carrier [OF assms(1)] ..

lemma no_additions:
  assumes "gomap_ok (rv_Nodes target)" and "rnodes_ok (rv_Nodes target)"
  shows "additions_part from target = [] \<longleftrightarrow>
    (\<forall>nid new. mget (rv_Nodes target) nid = Some new \<longrightarrow>
       (\<exists>old. mget (rv_Nodes from) nid = Some old \<and> mset (rn_Capabilities old) = mset (rn_Capabilities new)))"
proof -
  have node: "node_actions (rv_Nodes from) n = [] \<longleftrightarrow>
      (\<exists>old. mget (rv_Nodes from) (rn_ID n) = Some old \<and> mset (rn_Capabilities old) = mset (rn_Capabilities n))" for n
    by (auto simp: node_actions_def capability_actions_def SameStrings_iff split: option.splits)
  have "additions_part from target = [] \<longleftrightarrow>
      (\<forall>n \<in> set (mvals (rv_Nodes target)). node_actions (rv_Nodes from) n = [])"
    by (auto simp: additions_part_def)
  also have "\<dots> \<longleftrightarrow> (\<forall>nid new. mget (rv_Nodes target) nid = Some new \<longrightarrow> node_actions (rv_Nodes from) new = [])"
    by (meson assms(1) mvals_mem)
  finally show ?thesis unfolding node by (metis rnodes_get [OF assms(2)])
qed

lemma no_removals:
  assumes "gomap_ok (rv_Nodes from)" and "rnodes_ok (rv_Nodes from)"
  shows "plan_removals from target = [] \<longleftrightarrow>
    (\<forall>nid. mget (rv_Nodes target) nid = None \<longrightarrow> mget (rv_Nodes from) nid = None)"
  using removals_ex [OF assms, of target "\<lambda>_. True"] by (cases "plan_removals from target") auto

lemma same_hosts_iff:
  assumes "gomap_ok (rv_Nodes target)" "rnodes_ok (rv_Nodes target)"
    and "gomap_ok (rv_Nodes from)" "rnodes_ok (rv_Nodes from)"
  shows "same_hosts from target \<longleftrightarrow> additions_part from target = [] \<and> plan_removals from target = []"
  unfolding no_additions [OF assms(1,2)] no_removals [OF assms(3,4)] same_hosts_def ..

lemma upgrades_needed:
  assumes "gomap_ok (rv_Nodes target)" "rnodes_ok (rv_Nodes target)"
    and "rv_Nodes target \<noteq> []" and same: "same_hosts from target"
  shows "upgrades_part from target = [] \<longleftrightarrow> \<not> version_changed from target"
proof -
  define k where "k = fst (hd (rv_Nodes target))"
  from assms(3) have "mget (rv_Nodes target) k \<noteq> None"
    unfolding k_def by (simp add: map_of_eq_None_iff)
  moreover from this same have "mget (rv_Nodes from) k \<noteq> None"
    unfolding same_hosts_def by (elim conjE) (cases "mget (rv_Nodes target) k", simp, force)
  ultimately have "(\<exists>a \<in> set (upgrades_part from target). True) \<longleftrightarrow> version_changed from target"
    unfolding upgrades_part_ex [OF assms(1,2)] by blast
  then show ?thesis by (cases "upgrades_part from target") auto
qed

text \<open>
  A plan is empty exactly when there is nothing to do: the same hosts with
  the same capabilities, no new version, no newly enabled platform and no
  requested rebalance.
\<close>

theorem plan_empty_iff_nothing_changed:
  assumes "BuildPlan s from target rebalance = Inr p"
    and "gomap_ok (rv_Nodes target)" and "gomap_ok (rv_Nodes from)" and "rnodes_ok (rv_Nodes from)"
  shows "Empty p \<longleftrightarrow> same_hosts from target \<and> \<not> version_changed from target \<and>
    (ps_Enabled (rv_Platform target) \<longrightarrow> ps_Enabled (rv_Platform from)) \<and> \<not> rebalance"
proof -
  from assms(1) have ok: "rnodes_ok (rv_Nodes target)" and p: "p = expected_plan s from target rebalance"
    and server: "rv_Nodes target \<noteq> []"
    by (auto simp: BuildPlan_iff valid_revision_def has_server_def)
  have "plan_reconcile from target [] = [] \<longleftrightarrow>
      (ps_Enabled (rv_Platform target) \<longrightarrow> ps_Enabled (rv_Platform from))"
    if "same_hosts from target" "\<not> version_changed from target"
    using that same_hosts_tier [OF that(1) assms(3,2)]
    by (auto simp: plan_reconcile_def topologyChanged_def)
  moreover have "plan_rebalance rebalance = [] \<longleftrightarrow> \<not> rebalance" by (simp add: plan_rebalance_def)
  ultimately show ?thesis
    using same_hosts_iff [OF assms(2) ok assms(3,4)] upgrades_needed [OF assms(2) ok server]
    unfolding Empty_def p expected_actions append_is_Nil_conv
    by (metis append_Nil)
qed

lemma destructive_parts:
  "a \<in> set (additions_part from target) \<Longrightarrow> \<not> ac_Destructive a"
  "a \<in> set (upgrades_part from target) \<Longrightarrow> \<not> ac_Destructive a"
  "a \<in> set (plan_reconcile from target xs) \<Longrightarrow> \<not> ac_Destructive a"
  "a \<in> set (plan_removals from target) \<Longrightarrow> ac_Destructive a"
  "a \<in> set (plan_rebalance r) \<Longrightarrow> ac_Destructive a"
  by (auto simp: additions_part_def node_actions_def add_action_def capability_actions_def
      upgrades_part_def plan_upgrades_def upgrade_action_def plan_reconcile_def plan_removals_def
      remove_action_def plan_rebalance_def zero_action_def split: option.splits if_splits)

text \<open>
  C22. The destructive flag of a plan is set exactly when one of its actions is
  destructive, a plan never removes the node that holds the registry data,
  and some server of the target survives every plan.
\<close>

theorem plan_destruction:
  assumes "BuildPlan s from target rebalance = Inr p"
    and "gomap_ok (rv_Nodes target)" and "gomap_ok (rv_Nodes from)" and "rnodes_ok (rv_Nodes from)"
  shows "(pl_Destructive p \<longleftrightarrow> (\<exists>a \<in> set (pl_Actions p). ac_Destructive a)) \<and>
    (planned p {ActionRemoveAgent, ActionRemoveServer} nid \<longrightarrow>
       nid \<noteq> ps_RegistryNode (rv_Platform target)) \<and>
    (\<exists>server node. mget (rv_Nodes target) server = Some node \<and> rn_Role node = RoleServer \<and>
       \<not> planned p {ActionRemoveAgent, ActionRemoveServer} server)"
proof -
  from assms(1) have valid: "valid_revision (rv_Nodes target) (rv_Platform target)"
    and p: "p = expected_plan s from target rebalance"
    by (simp_all add: BuildPlan_iff)
  have removed: "planned p {ActionRemoveAgent, ActionRemoveServer} n \<Longrightarrow>
      mget (rv_Nodes target) n = None \<and> n \<noteq> []" for n
    unfolding p planned_removals removals_ex [OF assms(3,4)] using assms(4)
    by (auto simp: rnodes_ok_def rnode_ok_def dest: map_of_SomeD)
  have "rebalance \<longleftrightarrow> (\<exists>a. a \<in> set (plan_rebalance rebalance))"
    by (simp add: plan_rebalance_def)
  moreover have "plan_removals from target \<noteq> [] \<longleftrightarrow> (\<exists>a. a \<in> set (plan_removals from target))"
    by (cases "plan_removals from target") auto
  ultimately have "pl_Destructive p \<longleftrightarrow>
      (\<exists>a. a \<in> set (plan_removals from target) \<or> a \<in> set (plan_rebalance rebalance))"
    unfolding p expected_plan_def Let_def Plan.select_convs by blast
  also have "\<dots> \<longleftrightarrow> (\<exists>a \<in> set (pl_Actions p). ac_Destructive a)"
    unfolding p expected_actions set_append using destructive_parts by blast
  finally have "pl_Destructive p \<longleftrightarrow> (\<exists>a \<in> set (pl_Actions p). ac_Destructive a)" .
  moreover have "nid \<noteq> ps_RegistryNode (rv_Platform target)"
    if "planned p {ActionRemoveAgent, ActionRemoveServer} nid"
    using removed [OF that] valid_registry [OF valid] by auto
  moreover from valid obtain server node where
    "mget (rv_Nodes target) server = Some node" "rn_Role node = RoleServer"
    using gomap_ok_mem [OF assms(2)] by (auto simp: valid_revision_def has_server_def)
  ultimately show ?thesis using removed by (metis option.distinct(1))
qed

section \<open>A concrete plan\<close>

definition ex_rnode :: "string \<Rightarrow> string \<Rightarrow> string \<Rightarrow> string list \<Rightarrow> string \<times> RevisionNode" where
  "ex_rnode nid name role caps =
     (nid, \<lparr>rn_ID = nid, rn_Name = name, rn_Role = role, rn_Capabilities = caps,
       rn_Desired = NodeDesiredPresent\<rparr>)"

definition ex_revision :: "string \<Rightarrow> (string, RevisionNode) gomap \<Rightarrow> string \<Rightarrow> Revision" where
  "ex_revision rid nodes version =
     \<lparr>rv_ID = rid, rv_Parent = [], rv_Sequence = 1, rv_Nodes = nodes,
      rv_Platform = \<lparr>ps_Enabled = True, ps_RegistryNode = ''n1'', ps_Version = version\<rparr>,
      rv_CreatedAt = ex_time\<rparr>"

definition ex_from :: Revision where
  "ex_from = ex_revision ''r1''
     [ex_rnode ''n3'' ''gamma'' RoleAgent [''application''], ex_rnode ''n1'' ''alpha'' RoleServer Capabilities] ''v1.0.0''"

definition ex_target :: Revision where
  "ex_target = ex_revision ''r2''
     [ex_rnode ''n2'' ''beta'' RoleServer [''database''], ex_rnode ''n1'' ''alpha'' RoleServer Capabilities] ''v1.1.0''"

definition ex_plan :: Plan where
  "ex_plan = projr (BuildPlan ex_seeded ex_from ex_target False)"

lemma ex_plan_built: "BuildPlan ex_seeded ex_from ex_target False = Inr ex_plan"
  by code_simp

lemma ex_revisions_ok:
  "gomap_ok (rv_Nodes ex_target)" "gomap_ok (rv_Nodes ex_from)" "rnodes_ok (rv_Nodes ex_from)"
  by code_simp+

theorem plan_is_the_difference_witness:
  "planned ex_plan {ActionAddServer, ActionAddAgent} ''n2'' \<and>
   planned ex_plan {ActionUpgradeNode} ''n1'' \<and>
   planned ex_plan {ActionRemoveAgent, ActionRemoveServer} ''n3''"
proof -
  have "mget (rv_Nodes ex_target) ''n2'' \<noteq> None \<and> mget (rv_Nodes ex_from) ''n2'' = None"
    and "mget (rv_Nodes ex_target) ''n1'' \<noteq> None \<and> mget (rv_Nodes ex_from) ''n1'' \<noteq> None"
    and "mget (rv_Nodes ex_from) ''n3'' \<noteq> None \<and> mget (rv_Nodes ex_target) ''n3'' = None"
    and "version_changed ex_from ex_target"
    by code_simp+
  then show ?thesis
    using plan_is_the_difference [OF ex_plan_built ex_revisions_ok, of "''n1''"]
      plan_is_the_difference [OF ex_plan_built ex_revisions_ok, of "''n2''"]
      plan_is_the_difference [OF ex_plan_built ex_revisions_ok, of "''n3''"]
    by satx
qed

theorem plan_order_witness:
  "sorted (map (plan_rank ex_target) (pl_Actions ex_plan)) \<and> length (pl_Actions ex_plan) = 4"
proof -
  have "length (pl_Actions ex_plan) = 4" by code_simp
  then show ?thesis using plan_order [OF ex_plan_built ex_revisions_ok(1)] by blast
qed

theorem plan_empty_witness:
  "\<not> Empty ex_plan \<and> \<not> (same_hosts ex_from ex_target \<and> \<not> version_changed ex_from ex_target)"
proof -
  have "\<not> Empty ex_plan" by code_simp
  moreover have "ps_Enabled (rv_Platform ex_from)" by code_simp
  ultimately show ?thesis
    using plan_empty_iff_nothing_changed [OF ex_plan_built ex_revisions_ok] by blast
qed

theorem plan_destruction_witness:
  "planned ex_plan {ActionRemoveAgent, ActionRemoveServer} ''n3'' \<and>
   ''n3'' \<noteq> ps_RegistryNode (rv_Platform ex_target) \<and> (\<exists>a \<in> set (pl_Actions ex_plan). ac_Destructive a)"
proof -
  have n: "planned ex_plan {ActionRemoveAgent, ActionRemoveServer} ''n3''"
    and d: "pl_Destructive ex_plan" by code_simp+
  show ?thesis
    using plan_destruction [OF ex_plan_built ex_revisions_ok, of "''n3''"] n d by blast
qed

text \<open>
  \<^verbatim>\<open>topologyChanged\<close> names the removal kinds, but it is asked before the
  removals are appended: a plan that only removes a node carries no
  platform action.
\<close>

lemma removal_alone_plans_no_reconcile:
  "case BuildPlan ex_seeded ex_from (ex_from\<lparr>rv_Nodes := tl (rv_Nodes ex_from)\<rparr>) False of
     Inr p \<Rightarrow> map ac_Kind (pl_Actions p) = [ActionRemoveAgent] \<and>
       topologyChanged (pl_Actions p) \<and> ps_Enabled (rv_Platform ex_from)
   | Inl e \<Rightarrow> False"
  by code_simp

end
