(* ===== verification/Cluster_Operation.thy ===== *)
theory Cluster_Operation
  imports Cluster_Plan
begin

text \<open>
  The operation journal, \<^verbatim>\<open>internal/clusterstate/operation.go\<close>: freezing a
  candidate into a resumable operation, which node steps may run now, the
  reports that move a step, and completing the operation.

  Every mutation takes the state and returns its result beside the state it
  leaves behind, as in \<^verbatim>\<open>Cluster_Types\<close>.
\<close>

abbreviation StepPending :: string where "StepPending \<equiv> ''pending''"
abbreviation StepRunning :: string where "StepRunning \<equiv> ''running''"
abbreviation StepComplete :: string where "StepComplete \<equiv> ''complete''"
abbreviation StepFailed :: string where "StepFailed \<equiv> ''failed''"

abbreviation NodeActionInstall :: string where "NodeActionInstall \<equiv> ''install''"
abbreviation NodeActionCapabilities :: string where "NodeActionCapabilities \<equiv> ''capabilities''"
abbreviation NodeActionUpgrade :: string where "NodeActionUpgrade \<equiv> ''upgrade''"
abbreviation NodeActionRemove :: string where "NodeActionRemove \<equiv> ''remove''"

definition maxParallelAgents :: nat where "maxParallelAgents = 4"

definition zero_step :: NodeStep where
  "zero_step = \<lparr>ns_Action = [], ns_Phase = [], ns_AttemptID = [], ns_ClusterPrepared = False,
     ns_LastError = [], ns_UpdatedAt = 0\<rparr>"

definition zero_operation :: Operation where
  "zero_operation = \<lparr>op_ID = [], op_FromRevision = [], op_TargetRevision = [], op_Phase = [],
     op_RebalanceWorkloads = False, op_EtcdSnapshot = [], op_TopologyActivated = False,
     op_NodeSteps = [], op_UpgradePreflight = False, op_LastError = [], op_StartedAt = 0,
     op_UpdatedAt = 0, op_CompletedAt = 0\<rparr>"

text \<open>\<^verbatim>\<open>state.Operations[operation.ID] = operation\<close>, \<^verbatim>\<open>operation.NodeSteps[id] = step\<close>
  and \<^verbatim>\<open>state.Nodes[id] = node\<close>\<close>

definition put_operation :: "Operation \<Rightarrow> State \<Rightarrow> State" where
  "put_operation oper s = s\<lparr>st_Operations := mput (op_ID oper) oper (st_Operations s)\<rparr>"

definition put_step :: "string \<Rightarrow> NodeStep \<Rightarrow> Operation \<Rightarrow> Operation" where
  "put_step nid step oper = oper\<lparr>op_NodeSteps := mput nid step (op_NodeSteps oper)\<rparr>"

definition put_node :: "string \<Rightarrow> Node \<Rightarrow> State \<Rightarrow> State" where
  "put_node nid node s = s\<lparr>st_Nodes := mput nid node (st_Nodes s)\<rparr>"

section \<open>Reading the journal\<close>

definition currentOperationState :: "State \<Rightarrow> cerr + Operation \<times> Revision \<times> Revision" where
  "currentOperationState s =
     (if st_CurrentOperation s = [] then Inl (OpE NoActiveOperation)
      else case mget (st_Operations s) (st_CurrentOperation s) of
          None \<Rightarrow> Inl (OpE ActiveOperationMissing)
        | Some oper \<Rightarrow>
            (case lookup_revision s (op_TargetRevision oper) ''operation target'' of
               Inl e \<Rightarrow> Inl e
             | Inr target \<Rightarrow>
                 (case lookup_revision s (op_FromRevision oper) ''operation source'' of
                    Inl e \<Rightarrow> Inl e
                  | Inr from \<Rightarrow> Inr (oper, target, from))))"

definition rev_name :: "Revision \<Rightarrow> string \<Rightarrow> string" where
  "rev_name r nid = rn_Name (mget_or zero_rnode (rv_Nodes r) nid)"

definition rev_role :: "Revision \<Rightarrow> string \<Rightarrow> string" where
  "rev_role r nid = rn_Role (mget_or zero_rnode (rv_Nodes r) nid)"

definition sortedSteps :: "Operation \<Rightarrow> Revision \<Rightarrow> string \<Rightarrow> string \<Rightarrow> string list \<Rightarrow> string list" where
  "sortedSteps oper revision action role phases =
     sort_by (\<lambda>a b. rev_name revision a < rev_name revision b)
       (mkeys (filter (\<lambda>(nid, step).
          mget (rv_Nodes revision) nid \<noteq> None \<and> ns_Action step = action \<and>
          \<not> (role \<noteq> [] \<and> rev_role revision nid \<noteq> role) \<and> ns_Phase step \<in> set phases)
        (op_NodeSteps oper)))"

definition sortedRemovalSteps :: "Operation \<Rightarrow> Revision \<Rightarrow> string list" where
  "sortedRemovalSteps oper from =
     (let removals = mkeys (filter (\<lambda>(nid, step). ns_Action step = NodeActionRemove) (op_NodeSteps oper));
          servers = filter (\<lambda>nid. rev_role from nid = RoleServer) removals;
          agents = filter (\<lambda>nid. rev_role from nid \<noteq> RoleServer) removals;
          sortByName = sort_by (\<lambda>a b. rev_name from a < rev_name from b)
      in sortByName agents @ sortByName servers)"

definition allActionComplete :: "Operation \<Rightarrow> string \<Rightarrow> bool" where
  "allActionComplete oper action \<longleftrightarrow>
     list_all (\<lambda>step. \<not> (ns_Action step = action \<and> ns_Phase step \<noteq> StepComplete)) (mvals (op_NodeSteps oper))"

definition hasIncompleteAction :: "Operation \<Rightarrow> string \<Rightarrow> bool" where
  "hasIncompleteAction oper action \<longleftrightarrow>
     list_ex (\<lambda>step. ns_Action step = action \<and> ns_Phase step \<noteq> StepComplete) (mvals (op_NodeSteps oper))"

definition phaseForAction :: "string \<Rightarrow> string" where
  "phaseForAction action =
     (if action = NodeActionInstall then OperationAdding
      else if action = NodeActionCapabilities then OperationActivating
      else if action = NodeActionUpgrade then OperationUpgrading
      else if action = NodeActionRemove then OperationRemoving
      else OperationPending)"

section \<open>Freezing the candidate\<close>

definition step_action :: "ActionKind \<Rightarrow> string option" where
  "step_action kind =
     (case kind of
        ActionAddServer \<Rightarrow> Some NodeActionInstall
      | ActionAddAgent \<Rightarrow> Some NodeActionInstall
      | ActionChangeCapabilities \<Rightarrow> Some NodeActionCapabilities
      | ActionUpgradeNode \<Rightarrow> Some NodeActionUpgrade
      | ActionRemoveServer \<Rightarrow> Some NodeActionRemove
      | ActionRemoveAgent \<Rightarrow> Some NodeActionRemove
      | _ \<Rightarrow> None)"

fun plan_steps :: "gotime \<Rightarrow> (string, NodeStep) gomap \<Rightarrow> Action list \<Rightarrow> (string, NodeStep) gomap" where
  "plan_steps now steps [] = steps"
| "plan_steps now steps (action # actions) =
     (case step_action (ac_Kind action) of
        None \<Rightarrow> plan_steps now steps actions
      | Some stepAction \<Rightarrow>
          plan_steps now
            (mput (ac_NodeID action)
               (zero_step\<lparr>ns_Action := stepAction, ns_Phase := StepPending, ns_UpdatedAt := now\<rparr>) steps)
            actions)"

definition resume_operation :: "Operation \<Rightarrow> gotime \<Rightarrow> State \<Rightarrow> (cerr + Plan \<times> Operation) \<times> State" where
  "resume_operation oper now s =
     (let oper' = (if op_Phase oper = OperationFailed
                   then oper\<lparr>op_Phase := OperationPending, op_LastError := [],
                             op_UpdatedAt := truncate_s now\<rparr>
                   else oper);
          s' = (if op_Phase oper = OperationFailed then put_operation oper' s else s)
      in case Target s' of
           Inl e \<Rightarrow> (Inl e, s')
         | Inr target \<Rightarrow>
             (case lookup_revision s' (op_FromRevision oper') ''operation source'' of
                Inl e \<Rightarrow> (Inl e, s')
              | Inr from \<Rightarrow>
                  (case BuildPlan s' from target (op_RebalanceWorkloads oper') of
                     Inl e \<Rightarrow> (Inl e, s')
                   | Inr plan \<Rightarrow> (Inr (plan, oper'), s'))))"

definition start_operation :: "string \<Rightarrow> bool \<Rightarrow> gotime \<Rightarrow> State \<Rightarrow> (cerr + Plan \<times> Operation) \<times> State" where
  "start_operation newID rebalance now s =
     (case Converged s of
        Inl e \<Rightarrow> (Inl e, s)
      | Inr from \<Rightarrow>
     (case Candidate s of
        Inl e \<Rightarrow> (Inl e, s)
      | Inr target \<Rightarrow>
     (case BuildPlan s from target rebalance of
        Inl e \<Rightarrow> (Inl e, s)
      | Inr plan \<Rightarrow>
          if Empty plan then (Inr (plan, zero_operation), s)
          else
            let now' = truncate_s now;
                oper = zero_operation\<lparr>op_ID := newID, op_FromRevision := rv_ID from,
                  op_TargetRevision := rv_ID target, op_Phase := OperationPending,
                  op_RebalanceWorkloads := rebalance,
                  op_NodeSteps := plan_steps now' [] (pl_Actions plan),
                  op_StartedAt := now', op_UpdatedAt := now'\<rparr>
            in (Inr (plan, oper),
                (put_operation oper s)\<lparr>st_TargetRevision := rv_ID target,
                  st_CurrentOperation := newID, st_UpdatedAt := now'\<rparr>))))"

definition FreezeCandidate :: "string \<Rightarrow> bool \<Rightarrow> gotime \<Rightarrow> State \<Rightarrow> (cerr + Plan \<times> Operation) \<times> State" where
  "FreezeCandidate newID rebalance now s =
     (if st_CurrentOperation s \<noteq> [] then
        (case mget (st_Operations s) (st_CurrentOperation s) of
           None \<Rightarrow> (Inl (OpE CurrentOperationMissing), s)
         | Some oper \<Rightarrow>
             if op_Phase oper \<noteq> OperationComplete then resume_operation oper now s
             else start_operation newID rebalance now s)
      else start_operation newID rebalance now s)"

section \<open>Which steps may run now\<close>

definition expose :: "Operation \<Rightarrow> string \<Rightarrow> (string, NodeStep) gomap \<Rightarrow> (string, NodeStep) gomap" where
  "expose oper nid result = mput nid (mget_or zero_step (op_NodeSteps oper) nid) result"

fun fill_slots :: "Operation \<Rightarrow> nat \<Rightarrow> (string, NodeStep) gomap \<Rightarrow> string list \<Rightarrow> (string, NodeStep) gomap" where
  "fill_slots oper slots result [] = result"
| "fill_slots oper slots result (nid # ids) =
     (if slots = 0 then result else fill_slots oper (slots - 1) (expose oper nid result) ids)"

fun fill_to_limit :: "Operation \<Rightarrow> (string, NodeStep) gomap \<Rightarrow> string list \<Rightarrow> (string, NodeStep) gomap" where
  "fill_to_limit oper result [] = result"
| "fill_to_limit oper result (nid # ids) =
     (if length result \<ge> maxParallelAgents then result
      else fill_to_limit oper (expose oper nid result) ids)"

fun removal_loop :: "Operation \<Rightarrow> Revision \<Rightarrow> (string, NodeStep) gomap \<Rightarrow> string list \<Rightarrow> (string, NodeStep) gomap" where
  "removal_loop oper from result [] = result"
| "removal_loop oper from result (nid # ids) =
     (if ns_Phase (mget_or zero_step (op_NodeSteps oper) nid) \<in> {StepPending, StepRunning, StepFailed} then
        (if rev_role from nid = RoleServer \<and> op_EtcdSnapshot oper \<noteq> StepComplete
         then removal_loop oper from result ids
         else if rev_role from nid = RoleServer then expose oper nid result
         else if length (expose oper nid result) \<ge> maxParallelAgents then expose oper nid result
         else removal_loop oper from (expose oper nid result) ids)
      else removal_loop oper from result ids)"

text \<open>The phases in which the platform step lies behind the operation.\<close>

definition platform_settled :: "Operation \<Rightarrow> Revision \<Rightarrow> bool" where
  "platform_settled oper target \<longleftrightarrow>
     \<not> ps_Enabled (rv_Platform target) \<or> op_Phase oper = OperationRemoving \<or>
     op_Phase oper = OperationRebalancing \<or> op_Phase oper = OperationVerifying \<or>
     op_Phase oper = OperationComplete"

definition runnable_upgrades :: "Operation \<Rightarrow> Revision \<Rightarrow> (string, NodeStep) gomap" where
  "runnable_upgrades oper target =
     (case sortedSteps oper target NodeActionUpgrade [] [StepRunning] of
        nid # _ \<Rightarrow> expose oper nid []
      | [] \<Rightarrow>
     (case sortedSteps oper target NodeActionUpgrade RoleServer [StepPending, StepFailed] of
        nid # _ \<Rightarrow> expose oper nid []
      | [] \<Rightarrow>
     (case sortedSteps oper target NodeActionUpgrade RoleAgent [StepPending, StepFailed] of
        nid # _ \<Rightarrow> expose oper nid []
      | [] \<Rightarrow> [])))"

definition runnable_agents :: "Operation \<Rightarrow> Revision \<Rightarrow> (string, NodeStep) gomap" where
  "runnable_agents oper target =
     (let running = sortedSteps oper target NodeActionInstall RoleAgent [StepRunning]
      in fill_slots oper (maxParallelAgents - length running)
           (foldl (\<lambda>result nid. expose oper nid result) [] running)
           (sortedSteps oper target NodeActionInstall RoleAgent [StepPending, StepFailed]))"

definition runnable_steps :: "Operation \<Rightarrow> Revision \<Rightarrow> Revision \<Rightarrow> (string, NodeStep) gomap" where
  "runnable_steps oper target from =
     (if op_Phase oper = OperationFailed then []
      else case sortedSteps oper target NodeActionInstall RoleServer [StepRunning] of
        nid # _ \<Rightarrow> expose oper nid []
      | [] \<Rightarrow>
     (case sortedSteps oper target NodeActionInstall RoleServer [StepPending, StepFailed] of
        nid # _ \<Rightarrow> expose oper nid []
      | [] \<Rightarrow>
     (let agents = runnable_agents oper target in
      if agents \<noteq> [] then agents
      else if \<not> allActionComplete oper NodeActionInstall then []
      else
        let changes = fill_to_limit oper []
              (sortedSteps oper target NodeActionCapabilities [] [StepPending, StepRunning, StepFailed])
        in if changes \<noteq> [] \<or> \<not> allActionComplete oper NodeActionCapabilities then changes
           else if runnable_upgrades oper target \<noteq> [] \<or> \<not> allActionComplete oper NodeActionUpgrade
             then runnable_upgrades oper target
           else if \<not> platform_settled oper target then []
           else removal_loop oper from [] (sortedRemovalSteps oper from))))"

definition RunnableNodeActions :: "State \<Rightarrow> cerr + (string, NodeStep) gomap" where
  "RunnableNodeActions s =
     (case currentOperationState s of
        Inl e \<Rightarrow> Inl e
      | Inr (oper, target, from) \<Rightarrow> Inr (runnable_steps oper target from))"

section \<open>Reports that move the journal\<close>

definition MarkEtcdSnapshot :: "bool \<Rightarrow> string \<Rightarrow> gotime \<Rightarrow> State \<Rightarrow> (cerr + unit) \<times> State" where
  "MarkEtcdSnapshot succeeded lastError now s =
     (case currentOperationState s of
        Inl e \<Rightarrow> (Inl e, s)
      | Inr (oper, _, _) \<Rightarrow>
          let oper' = (if succeeded
                then oper\<lparr>op_EtcdSnapshot := StepComplete, op_LastError := []\<rparr>
                else oper\<lparr>op_EtcdSnapshot := StepFailed, op_LastError := lastError,
                          op_Phase := OperationFailed\<rparr>)
          in (Inr (), put_operation (oper'\<lparr>op_UpdatedAt := truncate_s now\<rparr>) s))"

definition NeedsEtcdSnapshot :: "State \<Rightarrow> bool" where
  "NeedsEtcdSnapshot s =
     (case currentOperationState s of
        Inl e \<Rightarrow> False
      | Inr (oper, _, from) \<Rightarrow>
          op_EtcdSnapshot oper \<noteq> StepComplete \<and>
          list_ex (\<lambda>(nid, step). ns_Action step = NodeActionRemove \<and> rev_role from nid = RoleServer)
            (op_NodeSteps oper))"

definition MarkTopologyActivated :: "gotime \<Rightarrow> State \<Rightarrow> (cerr + unit) \<times> State" where
  "MarkTopologyActivated now s =
     (case currentOperationState s of
        Inl e \<Rightarrow> (Inl e, s)
      | Inr (oper, _, _) \<Rightarrow>
          (Inr (), put_operation (oper\<lparr>op_TopologyActivated := True, op_Phase := OperationActivating,
             op_UpdatedAt := truncate_s now\<rparr>) s))"

definition MarkNodeRemovalPrepared :: "string \<Rightarrow> gotime \<Rightarrow> State \<Rightarrow> (cerr + unit) \<times> State" where
  "MarkNodeRemovalPrepared nodeID now s =
     (case mget (st_Operations s) (st_CurrentOperation s) of
        None \<Rightarrow> (Inl (OpE NoActiveOperation), s)
      | Some oper \<Rightarrow>
     (case mget (op_NodeSteps oper) nodeID of
        None \<Rightarrow> (Inl (OpE (NoRemoval nodeID)), s)
      | Some step \<Rightarrow>
          if ns_Action step \<noteq> NodeActionRemove then (Inl (OpE (NoRemoval nodeID)), s)
          else
            let now' = truncate_s now;
                step' = step\<lparr>ns_ClusterPrepared := True, ns_LastError := [], ns_UpdatedAt := now'\<rparr>;
                oper' = (put_step nodeID step' oper)\<lparr>op_Phase := OperationRemoving, op_UpdatedAt := now'\<rparr>;
                node = mget_or zero_node (st_Nodes s) nodeID
            in (Inr (), put_node nodeID
                  (node\<lparr>nd_Phase := NodePhaseAwaitingCleanup, nd_LastAction := NodeActionRemove,
                        nd_LastError := [], nd_UpdatedAt := now'\<rparr>)
                  (put_operation oper' s))))"

definition StartNodeAction :: "string \<Rightarrow> string \<Rightarrow> gotime \<Rightarrow> State \<Rightarrow> (cerr + unit) \<times> State" where
  "StartNodeAction nodeID attemptID now s =
     (case mget (st_Operations s) (st_CurrentOperation s) of
        None \<Rightarrow> (Inl (OpE NoActiveOperation), s)
      | Some oper \<Rightarrow>
     (case mget (op_NodeSteps oper) nodeID of
        None \<Rightarrow> (Inl (OpE (NoNodeAction nodeID)), s)
      | Some step \<Rightarrow>
          if ns_Phase step = StepComplete then (Inr (), s)
          else
            let now' = truncate_s now;
                step' = step\<lparr>ns_Phase := StepRunning,
                  ns_AttemptID := (if ns_AttemptID step = [] \<or> ns_Phase step = StepFailed
                                   then attemptID else ns_AttemptID step),
                  ns_LastError := [], ns_UpdatedAt := now'\<rparr>;
                oper' = (put_step nodeID step' oper)\<lparr>op_UpdatedAt := now',
                  op_Phase := phaseForAction (ns_Action step)\<rparr>;
                s' = put_operation oper' s;
                node = mget_or zero_node (st_Nodes s) nodeID
            in (Inr (),
                if ns_Action step = NodeActionRemove
                then put_node nodeID
                  (node\<lparr>nd_Phase := NodePhaseDraining, nd_LastAction := ns_Action step,
                        nd_LastError := [], nd_UpdatedAt := now'\<rparr>) s'
                else s')))"

definition completed_phase :: "bool \<Rightarrow> string \<Rightarrow> string \<Rightarrow> string" where
  "completed_phase succeeded action phase =
     (if succeeded then
        (if action \<in> {NodeActionInstall, NodeActionCapabilities, NodeActionUpgrade} then NodePhaseActive
         else if action = NodeActionRemove then NodePhaseAwaitingCleanup
         else phase)
      else NodePhaseFailed)"

definition CompleteNodeAction :: "string \<Rightarrow> string \<Rightarrow> bool \<Rightarrow> string \<Rightarrow> gotime \<Rightarrow> State \<Rightarrow>
    (cerr + unit) \<times> State" where
  "CompleteNodeAction nodeID attemptID succeeded lastError now s =
     (case mget (st_Operations s) (st_CurrentOperation s) of
        None \<Rightarrow> (Inl (OpE NoActiveOperation), s)
      | Some oper \<Rightarrow>
     (case mget (op_NodeSteps oper) nodeID of
        None \<Rightarrow> (Inl (OpE (NoNodeAction nodeID)), s)
      | Some step \<Rightarrow>
          if ns_AttemptID step \<noteq> [] \<and> attemptID \<noteq> [] \<and> ns_AttemptID step \<noteq> attemptID
          then (Inl (OpE StaleAttempt), s)
          else
            let now' = truncate_s now;
                step' = (if succeeded then step\<lparr>ns_Phase := StepComplete, ns_LastError := []\<rparr>
                         else step\<lparr>ns_Phase := StepFailed, ns_LastError := lastError\<rparr>)
                        \<lparr>ns_UpdatedAt := now'\<rparr>;
                oper1 = (if succeeded then oper
                         else oper\<lparr>op_LastError := lastError, op_Phase := OperationFailed\<rparr>);
                oper' = (put_step nodeID step' oper1)\<lparr>op_UpdatedAt := now'\<rparr>;
                node = mget_or zero_node (st_Nodes s) nodeID
            in (Inr (), put_node nodeID
                  (node\<lparr>nd_LastAction := ns_Action step, nd_LastError := ns_LastError step',
                        nd_UpdatedAt := now',
                        nd_Phase := completed_phase succeeded (ns_Action step) (nd_Phase node)\<rparr>)
                  (put_operation oper' s))))"

definition CompleteNodeCleanup :: "string \<Rightarrow> gotime \<Rightarrow> State \<Rightarrow> (cerr + unit) \<times> State" where
  "CompleteNodeCleanup nodeID now s =
     (case mget (st_Nodes s) nodeID of
        None \<Rightarrow> (Inl (OpE (NotEnrolled nodeID)), s)
      | Some node \<Rightarrow>
          if nd_Phase node \<noteq> NodePhaseUninstalling \<and> nd_Phase node \<noteq> NodePhaseAwaitingCleanup \<and>
             nd_Phase node \<noteq> NodePhaseRemoved
          then (Inl (OpE (NotAwaitingCleanup (nd_Name node))), s)
          else (Inr (), put_node nodeID
                  (node\<lparr>nd_Phase := NodePhaseRemoved, nd_LastAction := ''cleanup'', nd_LastError := [],
                        nd_UpdatedAt := truncate_s now\<rparr>) s))"

definition topology_done :: "Operation \<Rightarrow> bool" where
  "topology_done oper \<longleftrightarrow>
     allActionComplete oper NodeActionInstall \<and> allActionComplete oper NodeActionCapabilities \<and>
     allActionComplete oper NodeActionUpgrade"

definition AdvancePlatform :: "bool \<Rightarrow> string \<Rightarrow> gotime \<Rightarrow> State \<Rightarrow> (cerr + unit) \<times> State" where
  "AdvancePlatform succeeded lastError now s =
     (case currentOperationState s of
        Inl e \<Rightarrow> (Inl e, s)
      | Inr (oper, _, _) \<Rightarrow>
          if \<not> topology_done oper then (Inl (OpE PlatformTooEarly), s)
          else
            let oper' =
                  (if \<not> succeeded then oper\<lparr>op_Phase := OperationFailed, op_LastError := lastError\<rparr>
                   else if hasIncompleteAction oper NodeActionRemove
                     then oper\<lparr>op_Phase := OperationRemoving, op_LastError := []\<rparr>
                   else if op_RebalanceWorkloads oper
                     then oper\<lparr>op_Phase := OperationRebalancing, op_LastError := []\<rparr>
                   else oper\<lparr>op_Phase := OperationVerifying, op_LastError := []\<rparr>)
            in (Inr (), put_operation (oper'\<lparr>op_UpdatedAt := truncate_s now\<rparr>) s))"

definition AwaitPlatformInitialization :: "gotime \<Rightarrow> State \<Rightarrow> (cerr + unit) \<times> State" where
  "AwaitPlatformInitialization now s =
     (case currentOperationState s of
        Inl e \<Rightarrow> (Inl e, s)
      | Inr (oper, target, _) \<Rightarrow>
          if \<not> ps_Enabled (rv_Platform target) then (Inl (OpE InitDisabled), s)
          else if \<not> topology_done oper then (Inl (OpE InitTooEarly), s)
          else (Inr (), put_operation (oper\<lparr>op_Phase := OperationInitializing, op_LastError := [],
                 op_UpdatedAt := truncate_s now\<rparr>) s))"

definition MarkUpgradePreflight :: "gotime \<Rightarrow> State \<Rightarrow> (cerr + unit) \<times> State" where
  "MarkUpgradePreflight now s =
     (case currentOperationState s of
        Inl e \<Rightarrow> (Inl e, s)
      | Inr (oper, _, _) \<Rightarrow>
          (Inr (), put_operation (oper\<lparr>op_UpgradePreflight := True, op_UpdatedAt := truncate_s now\<rparr>) s))"

definition HeartbeatWindow :: duration where "HeartbeatWindow = 2 * minute_d"

fun nodes_ready :: "State \<Rightarrow> gotime \<Rightarrow> RevisionNode list \<Rightarrow> cerr + unit" where
  "nodes_ready s now [] = Inr ()"
| "nodes_ready s now (node # nodes) =
     (case mget (st_Nodes s) (rn_ID node) of
        None \<Rightarrow> Inl (UpE (NodeNotActive (rn_Name node)))
      | Some enrolled \<Rightarrow>
          if nd_Phase enrolled \<noteq> NodePhaseActive then Inl (UpE (NodeNotActive (rn_Name node)))
          else if is_zero (nd_LastSeen enrolled) \<or> time_sub now (nd_LastSeen enrolled) > HeartbeatWindow
            then Inl (UpE (NodeSilent (rn_Name node)))
          else nodes_ready s now nodes)"

definition Updatable :: "State \<Rightarrow> gotime \<Rightarrow> cerr + unit" where
  "Updatable s now =
     (if st_CurrentOperation s \<noteq> [] then Inl (UpE ErrOperationActive)
      else case Converged s of
          Inl e \<Rightarrow> Inl e
        | Inr converged \<Rightarrow>
            if \<not> ps_Enabled (rv_Platform converged) then Inl (UpE PlatformUninitialized)
            else if st_CandidateRevision s \<noteq> st_ConvergedRevision s then Inl (UpE TopologyStaged)
            else nodes_ready s now (SortedRevisionNodes (rv_Nodes converged)))"

definition version_edit :: "string \<Rightarrow> unit candidate_edit" where
  "version_edit target = (\<lambda>s nodes platform. (Inr (nodes, platform\<lparr>ps_Version := target\<rparr>, ()), s))"

definition RequestPlatformVersion :: "string \<Rightarrow> string \<Rightarrow> string \<Rightarrow> gotime \<Rightarrow> State \<Rightarrow>
    (cerr + Plan \<times> Operation) \<times> State" where
  "RequestPlatformVersion revID opID target now s =
     (if \<not> IsRelease target then (Inl (UpE (NotARelease target)), s)
      else case Updatable s now of
          Inl e \<Rightarrow> (Inl e, s)
        | Inr _ \<Rightarrow>
     (case Converged s of
          Inl e \<Rightarrow> (Inl e, s)
        | Inr converged \<Rightarrow>
            if ps_Version (rv_Platform converged) \<noteq> [] \<and>
               \<not> Older (ps_Version (rv_Platform converged)) target
            then (Inl (UpE (NotNewer (ps_Version (rv_Platform converged)) target)), s)
            else case EditCandidate revID now (version_edit target) s of
                (Inl e, s1) \<Rightarrow> (Inl e, s1)
              | (Inr _, s1) \<Rightarrow> FreezeCandidate opID False now s1))"

definition FailOperation :: "string \<Rightarrow> gotime \<Rightarrow> State \<Rightarrow> (cerr + unit) \<times> State" where
  "FailOperation lastError now s =
     (if st_CurrentOperation s = [] then (Inr (), s)
      else case mget (st_Operations s) (st_CurrentOperation s) of
          None \<Rightarrow> (Inl (OpE ActiveOperationMissing), s)
        | Some oper \<Rightarrow>
            if op_Phase oper = OperationComplete then (Inr (), s)
            else (Inr (), put_operation (oper\<lparr>op_Phase := OperationFailed, op_LastError := lastError,
                   op_UpdatedAt := truncate_s now\<rparr>) s))"

definition CompleteOperation :: "gotime \<Rightarrow> State \<Rightarrow> (cerr + unit) \<times> State" where
  "CompleteOperation now s =
     (case currentOperationState s of
        Inl e \<Rightarrow> (Inl e, s)
      | Inr (oper, target, _) \<Rightarrow>
          if list_ex (\<lambda>step. ns_Phase step \<noteq> StepComplete) (mvals (op_NodeSteps oper))
          then (Inl (OpE IncompleteNodeActions), s)
          else
            let now' = truncate_s now;
                oper' = oper\<lparr>op_Phase := OperationComplete, op_LastError := [],
                  op_UpdatedAt := now', op_CompletedAt := now'\<rparr>;
                s1 = (put_operation oper' s)\<lparr>st_ConvergedRevision := rv_ID target,
                  st_Platform := rv_Platform target, st_TargetRevision := [], st_CurrentOperation := []\<rparr>
            in (Inr (),
                (if st_CandidateRevision s1 = rv_ID target
                 then s1\<lparr>st_CandidateRevision := rv_ID target\<rparr> else s1)
                \<lparr>st_UpdatedAt := now'\<rparr>))"

section \<open>What the scheduler exposes\<close>

abbreviation open_phases :: "string set" where
  "open_phases \<equiv> {StepPending, StepRunning, StepFailed}"

definition step_of :: "Operation \<Rightarrow> string \<Rightarrow> NodeStep" where
  "step_of oper nid = mget_or zero_step (op_NodeSteps oper) nid"

definition entries :: "Operation \<Rightarrow> string list \<Rightarrow> (string, NodeStep) gomap" where
  "entries oper ids = map (\<lambda>nid. (nid, step_of oper nid)) ids"

lemma entries_simps [simp]:
  "entries oper [] = []" "length (entries oper ids) = length ids"
  "mkeys (entries oper ids) = ids" "entries oper ids = [] \<longleftrightarrow> ids = []" "[] = entries oper ids \<longleftrightarrow> ids = []"
  by (auto simp: entries_def comp_def)

lemma set_entries: "(nid, step) \<in> set (entries oper ids) \<longleftrightarrow> nid \<in> set ids \<and> step = step_of oper nid"
  by (auto simp: entries_def)

lemma expose_fresh: "nid \<notin> set ids \<Longrightarrow> expose oper nid (entries oper ids) = entries oper (ids @ [nid])"
  by (simp add: expose_def mput_fresh) (simp add: entries_def step_of_def)

lemma expose_Nil: "expose oper nid [] = entries oper [nid]"
  using expose_fresh [of nid "[]" oper] by simp

lemma expose_all:
  "distinct (xs @ ids) \<Longrightarrow>
   foldl (\<lambda>result nid. expose oper nid result) (entries oper xs) ids = entries oper (xs @ ids)"
  by (induction ids arbitrary: xs) (simp_all add: expose_fresh)

lemma fill_slots_eq:
  "distinct (xs @ ids) \<Longrightarrow> fill_slots oper n (entries oper xs) ids = entries oper (xs @ take n ids)"
  by (induction ids arbitrary: xs n) (auto simp: expose_fresh take_Cons' )

lemma fill_to_limit_eq:
  "distinct (xs @ ids) \<Longrightarrow>
   fill_to_limit oper (entries oper xs) ids = entries oper (xs @ take (maxParallelAgents - length xs) ids)"
  by (induction ids arbitrary: xs) (auto simp: expose_fresh take_Cons')

lemma distinct_sortedSteps: "gomap_ok (op_NodeSteps oper) \<Longrightarrow> distinct (sortedSteps oper r a role ps)"
  by (simp add: sortedSteps_def gomap_ok_def distinct_map_filter)

lemma sortedSteps_mem:
  assumes "gomap_ok (op_NodeSteps oper)"
  shows "nid \<in> set (sortedSteps oper r action role phases) \<longleftrightarrow>
    mget (op_NodeSteps oper) nid = Some (step_of oper nid) \<and> mget (rv_Nodes r) nid \<noteq> None \<and>
    ns_Action (step_of oper nid) = action \<and> (role = [] \<or> rev_role r nid = role) \<and>
    ns_Phase (step_of oper nid) \<in> set phases"
proof -
  have "nid \<in> set (sortedSteps oper r action role phases) \<longleftrightarrow>
      (\<exists>step. (nid, step) \<in> set (op_NodeSteps oper) \<and> mget (rv_Nodes r) nid \<noteq> None \<and>
        ns_Action step = action \<and> (role = [] \<or> rev_role r nid = role) \<and> ns_Phase step \<in> set phases)"
    unfolding sortedSteps_def by force
  then show ?thesis
    using assms by (auto simp: gomap_ok_mem step_of_def)
qed

lemma sortedRemovalSteps_mem:
  assumes "gomap_ok (op_NodeSteps oper)"
  shows "nid \<in> set (sortedRemovalSteps oper from) \<longleftrightarrow>
    mget (op_NodeSteps oper) nid = Some (step_of oper nid) \<and> ns_Action (step_of oper nid) = NodeActionRemove"
proof -
  have "nid \<in> set (sortedRemovalSteps oper from) \<longleftrightarrow>
      (\<exists>step. (nid, step) \<in> set (op_NodeSteps oper) \<and> ns_Action step = NodeActionRemove)"
    unfolding sortedRemovalSteps_def Let_def by force
  then show ?thesis using assms by (auto simp: gomap_ok_mem step_of_def)
qed

lemma distinct_sortedRemovalSteps:
  "gomap_ok (op_NodeSteps oper) \<Longrightarrow> distinct (sortedRemovalSteps oper from)"
  by (auto simp: sortedRemovalSteps_def Let_def gomap_ok_def distinct_map_filter)

definition removable :: "Operation \<Rightarrow> Revision \<Rightarrow> string \<Rightarrow> bool" where
  "removable oper from nid \<longleftrightarrow> ns_Phase (step_of oper nid) \<in> open_phases \<and>
     (rev_role from nid = RoleServer \<longrightarrow> op_EtcdSnapshot oper = StepComplete)"

lemma removal_loop_eq:
  assumes "distinct (xs @ ids)" and "length xs < maxParallelAgents"
  shows "\<exists>ys. removal_loop oper from (entries oper xs) ids = entries oper (xs @ ys) \<and>
    set ys \<subseteq> {nid \<in> set ids. removable oper from nid} \<and> distinct (xs @ ys) \<and>
    length (xs @ ys) \<le> maxParallelAgents \<and>
    length (filter (\<lambda>nid. rev_role from nid = RoleServer) ys) \<le> 1 \<and>
    (ys = [] \<longrightarrow> (\<forall>nid \<in> set ids. \<not> removable oper from nid))"
  using assms
proof (induction ids arbitrary: xs)
  case Nil
  then show ?case by auto
next
  case (Cons i ids)
  show ?case
  proof (cases "removable oper from i")
    case False
    then have "removal_loop oper from (entries oper xs) (i # ids) = removal_loop oper from (entries oper xs) ids"
      by (auto simp: removable_def step_of_def)
    moreover have "distinct (xs @ ids)" using Cons.prems(1) by simp
    ultimately show ?thesis using Cons.IH [OF _ Cons.prems(2)] False by fastforce
  next
    case True
    let ?stop = "rev_role from i = RoleServer \<or> maxParallelAgents \<le> Suc (length xs)"
    have fresh: "expose oper i (entries oper xs) = entries oper (xs @ [i])"
      using Cons.prems(1) by (intro expose_fresh) simp
    have step: "removal_loop oper from (entries oper xs) (i # ids) =
        (if ?stop then entries oper (xs @ [i]) else removal_loop oper from (entries oper (xs @ [i])) ids)"
      using True by (auto simp: removable_def step_of_def fresh)
    show ?thesis
    proof (cases ?stop)
      case stop: True
      then show ?thesis using Cons.prems step True by (intro exI [of _ "[i]"]) auto
    next
      case go: False
      then obtain ys where "removal_loop oper from (entries oper (xs @ [i])) ids = entries oper ((xs @ [i]) @ ys)"
        and "set ys \<subseteq> {nid \<in> set ids. removable oper from nid}" and "distinct ((xs @ [i]) @ ys)"
        and "length ((xs @ [i]) @ ys) \<le> maxParallelAgents"
        and "length (filter (\<lambda>nid. rev_role from nid = RoleServer) ys) \<le> 1"
        using Cons.IH [of "xs @ [i]"] Cons.prems by auto
      then show ?thesis using go step True by (intro exI [of _ "i # ys"]) auto
    qed
  qed
qed

text \<open>The scheduler's decision, as a case rule over its branches.\<close>

definition open_steps :: "Operation \<Rightarrow> Revision \<Rightarrow> string \<Rightarrow> string \<Rightarrow> string set" where
  "open_steps oper r action role =
     {nid. mget (op_NodeSteps oper) nid = Some (step_of oper nid) \<and> mget (rv_Nodes r) nid \<noteq> None \<and>
        ns_Action (step_of oper nid) = action \<and> (role = [] \<or> rev_role r nid = role) \<and>
        ns_Phase (step_of oper nid) \<in> open_phases}"

lemma open_steps_eq:
  assumes "gomap_ok (op_NodeSteps oper)"
  shows "set (sortedSteps oper r action role [StepRunning]) \<union>
      set (sortedSteps oper r action role [StepPending, StepFailed]) = open_steps oper r action role"
    and "set (sortedSteps oper r action role [StepPending, StepRunning, StepFailed]) = open_steps oper r action role"
  by (auto simp: sortedSteps_mem [OF assms] open_steps_def)

definition running_agents :: "Operation \<Rightarrow> Revision \<Rightarrow> nat" where
  "running_agents oper target = length (sortedSteps oper target NodeActionInstall RoleAgent [StepRunning])"

lemma runnable_agents_eq:
  assumes ok: "gomap_ok (op_NodeSteps oper)"
  obtains ids where "runnable_agents oper target = entries oper ids" "distinct ids"
    "set ids \<subseteq> open_steps oper target NodeActionInstall RoleAgent"
    "length ids \<le> max maxParallelAgents (running_agents oper target)"
    "ids = [] \<longleftrightarrow> open_steps oper target NodeActionInstall RoleAgent = {}"
proof -
  let ?r = "sortedSteps oper target NodeActionInstall RoleAgent [StepRunning]"
  let ?p = "sortedSteps oper target NodeActionInstall RoleAgent [StepPending, StepFailed]"
  let ?ids = "?r @ take (maxParallelAgents - length ?r) ?p"
  have d: "distinct (?r @ ?p)"
    using ok by (auto simp: distinct_sortedSteps sortedSteps_mem)
  then have d': "distinct ?ids" by (auto dest: in_set_takeD)
  have "runnable_agents oper target = entries oper ?ids"
    unfolding runnable_agents_def Let_def
    using fill_slots_eq [OF d] expose_all [of "[]" ?r oper] d by simp
  moreover note d'
  moreover have "set ?ids \<subseteq> open_steps oper target NodeActionInstall RoleAgent"
    unfolding open_steps_eq(1) [OF ok, symmetric] using set_take_subset by fastforce
  moreover have "length ?ids \<le> max maxParallelAgents (running_agents oper target)"
    by (auto simp: running_agents_def)
  moreover have "?ids = [] \<longleftrightarrow> open_steps oper target NodeActionInstall RoleAgent = {}"
    unfolding open_steps_eq(1) [OF ok, symmetric] by (auto simp: maxParallelAgents_def)
  ultimately show ?thesis by (rule that)
qed

lemma runnable_upgrades_eq:
  assumes ok: "gomap_ok (op_NodeSteps oper)"
  obtains ids where "runnable_upgrades oper target = entries oper ids" "length ids \<le> 1"
    "set ids \<subseteq> open_steps oper target NodeActionUpgrade []"
    "ids = [] \<Longrightarrow> open_steps oper target NodeActionUpgrade RoleServer = {} \<and>
       open_steps oper target NodeActionUpgrade RoleAgent = {}"
proof -
  let ?run = "sortedSteps oper target NodeActionUpgrade [] [StepRunning]"
  let ?srv = "sortedSteps oper target NodeActionUpgrade RoleServer [StepPending, StepFailed]"
  let ?agt = "sortedSteps oper target NodeActionUpgrade RoleAgent [StepPending, StepFailed]"
  let ?ids = "take 1 (?run @ ?srv @ ?agt)"
  have "runnable_upgrades oper target = entries oper ?ids"
    unfolding runnable_upgrades_def by (auto simp: expose_Nil split: list.splits)
  moreover have "length ?ids \<le> 1" by simp
  moreover have "set (?run @ ?srv @ ?agt) \<subseteq> open_steps oper target NodeActionUpgrade []"
    by (auto simp: sortedSteps_mem [OF ok] open_steps_def)
  then have "set ?ids \<subseteq> open_steps oper target NodeActionUpgrade []"
    using set_take_subset by (rule subset_trans [rotated])
  moreover have "open_steps oper target NodeActionUpgrade RoleServer \<union>
      open_steps oper target NodeActionUpgrade RoleAgent \<subseteq> set (?run @ ?srv @ ?agt)"
    by (auto simp: sortedSteps_mem [OF ok] open_steps_def)
  then have "open_steps oper target NodeActionUpgrade RoleServer = {} \<and>
      open_steps oper target NodeActionUpgrade RoleAgent = {}" if "?ids = []"
    using that by (auto simp: take_Cons')
  ultimately show ?thesis by (rule that)
qed

lemma server_installs_first:
  assumes ok: "gomap_ok (op_NodeSteps oper)" and "op_Phase oper \<noteq> OperationFailed"
    and "open_steps oper target NodeActionInstall RoleServer \<noteq> {}"
  shows "\<exists>nid \<in> open_steps oper target NodeActionInstall RoleServer.
    runnable_steps oper target from = entries oper [nid]"
proof -
  let ?run = "sortedSteps oper target NodeActionInstall RoleServer [StepRunning]"
  let ?pend = "sortedSteps oper target NodeActionInstall RoleServer [StepPending, StepFailed]"
  have open_eq: "set ?run \<union> set ?pend = open_steps oper target NodeActionInstall RoleServer"
    by (rule open_steps_eq(1) [OF ok])
  show ?thesis
  proof (cases ?run)
    case (Cons i rest)
    moreover from Cons open_eq have "i \<in> open_steps oper target NodeActionInstall RoleServer" by auto
    ultimately show ?thesis using assms(2) by (auto simp: runnable_steps_def expose_Nil)
  next
    case Nil
    with open_eq assms(3) obtain i rest where c: "?pend = i # rest" by (cases ?pend) auto
    with open_eq have "i \<in> open_steps oper target NodeActionInstall RoleServer" by auto
    then show ?thesis using assms(2) Nil c by (auto simp: runnable_steps_def expose_Nil)
  qed
qed

lemma runnable_changes_eq:
  assumes ok: "gomap_ok (op_NodeSteps oper)"
  obtains ids where
    "fill_to_limit oper []
       (sortedSteps oper target NodeActionCapabilities [] [StepPending, StepRunning, StepFailed]) =
     entries oper ids"
    "distinct ids" "length ids \<le> maxParallelAgents"
    "set ids \<subseteq> open_steps oper target NodeActionCapabilities []"
    "ids = [] \<longleftrightarrow> open_steps oper target NodeActionCapabilities [] = {}"
proof -
  let ?caps = "sortedSteps oper target NodeActionCapabilities [] [StepPending, StepRunning, StepFailed]"
  show ?thesis
    using fill_to_limit_eq [of "[]" ?caps oper] distinct_sortedSteps [OF ok] set_take_subset [of maxParallelAgents ?caps]
    by (intro that [of "take maxParallelAgents ?caps"])
       (auto simp: maxParallelAgents_def open_steps_eq(2) [OF ok, symmetric])
qed

lemma runnable_removals_eq:
  assumes ok: "gomap_ok (op_NodeSteps oper)"
  obtains ids where "removal_loop oper from [] (sortedRemovalSteps oper from) = entries oper ids"
    "distinct ids" "length ids \<le> maxParallelAgents"
    "set ids \<subseteq> {nid \<in> set (sortedRemovalSteps oper from). removable oper from nid}"
    "length (filter (\<lambda>nid. rev_role from nid = RoleServer) ids) \<le> 1"
    "ids = [] \<Longrightarrow> \<forall>nid \<in> set (sortedRemovalSteps oper from). \<not> removable oper from nid"
  using removal_loop_eq [of "[]" "sortedRemovalSteps oper from" oper "from"]
    distinct_sortedRemovalSteps [OF ok] by (auto simp: maxParallelAgents_def)

lemma runnable_cases [consumes 1, case_names failed server agents blocked capabilities upgrade platform removals]:
  assumes ok: "gomap_ok (op_NodeSteps oper)"
  obtains (failed) "op_Phase oper = OperationFailed" "runnable_steps oper target from = []"
  | (server) nid where "op_Phase oper \<noteq> OperationFailed"
      "nid \<in> open_steps oper target NodeActionInstall RoleServer"
      "runnable_steps oper target from = entries oper [nid]"
  | (agents) ids where "op_Phase oper \<noteq> OperationFailed"
      "open_steps oper target NodeActionInstall RoleServer = {}" "ids \<noteq> []" "distinct ids"
      "set ids \<subseteq> open_steps oper target NodeActionInstall RoleAgent"
      "length ids \<le> max maxParallelAgents (running_agents oper target)"
      "runnable_steps oper target from = entries oper ids"
  | (blocked) "op_Phase oper \<noteq> OperationFailed" "\<not> allActionComplete oper NodeActionInstall"
      "open_steps oper target NodeActionInstall RoleServer = {}"
      "open_steps oper target NodeActionInstall RoleAgent = {}" "runnable_steps oper target from = []"
  | (capabilities) ids where "op_Phase oper \<noteq> OperationFailed"
      "allActionComplete oper NodeActionInstall" "distinct ids" "length ids \<le> maxParallelAgents"
      "set ids \<subseteq> open_steps oper target NodeActionCapabilities []"
      "runnable_steps oper target from = entries oper ids"
      "ids = [] \<Longrightarrow> \<not> allActionComplete oper NodeActionCapabilities \<and>
         open_steps oper target NodeActionCapabilities [] = {}"
  | (upgrade) ids where "op_Phase oper \<noteq> OperationFailed"
      "allActionComplete oper NodeActionInstall" "allActionComplete oper NodeActionCapabilities"
      "length ids \<le> 1" "set ids \<subseteq> open_steps oper target NodeActionUpgrade []"
      "runnable_steps oper target from = entries oper ids"
      "ids = [] \<Longrightarrow> \<not> allActionComplete oper NodeActionUpgrade \<and>
         open_steps oper target NodeActionUpgrade RoleServer = {} \<and>
         open_steps oper target NodeActionUpgrade RoleAgent = {}"
  | (platform) "op_Phase oper \<noteq> OperationFailed" "topology_done oper"
      "\<not> platform_settled oper target" "runnable_steps oper target from = []"
  | (removals) ids where "op_Phase oper \<noteq> OperationFailed" "topology_done oper" "platform_settled oper target"
      "distinct ids" "length ids \<le> maxParallelAgents"
      "set ids \<subseteq> {nid \<in> set (sortedRemovalSteps oper from). removable oper from nid}"
      "length (filter (\<lambda>nid. rev_role from nid = RoleServer) ids) \<le> 1"
      "runnable_steps oper target from = entries oper ids"
      "ids = [] \<Longrightarrow> \<forall>nid \<in> set (sortedRemovalSteps oper from). \<not> removable oper from nid"
proof (cases "op_Phase oper = OperationFailed")
  case True
  then show thesis by (intro failed) (simp_all add: runnable_steps_def)
next
  case live: False
  show thesis
  proof (cases "open_steps oper target NodeActionInstall RoleServer = {}")
    case False
    then show thesis using server_installs_first [OF ok live False] server [OF live] by blast
  next
    case noserver: True
    with open_steps_eq(1) [OF ok, of target NodeActionInstall RoleServer]
    have none: "sortedSteps oper target NodeActionInstall RoleServer [StepRunning] = []"
      "sortedSteps oper target NodeActionInstall RoleServer [StepPending, StepFailed] = []" by auto
    obtain ags where ags: "runnable_agents oper target = entries oper ags" "distinct ags"
      "set ags \<subseteq> open_steps oper target NodeActionInstall RoleAgent"
      "length ags \<le> max maxParallelAgents (running_agents oper target)"
      "ags = [] \<longleftrightarrow> open_steps oper target NodeActionInstall RoleAgent = {}"
      using runnable_agents_eq [OF ok] by metis
    obtain ups where ups: "runnable_upgrades oper target = entries oper ups" "length ups \<le> 1"
      "set ups \<subseteq> open_steps oper target NodeActionUpgrade []"
      "ups = [] \<Longrightarrow> open_steps oper target NodeActionUpgrade RoleServer = {} \<and>
         open_steps oper target NodeActionUpgrade RoleAgent = {}"
      using runnable_upgrades_eq [OF ok] by metis
    obtain caps where caps: "fill_to_limit oper []
       (sortedSteps oper target NodeActionCapabilities [] [StepPending, StepRunning, StepFailed]) = entries oper caps"
      "distinct caps" "length caps \<le> maxParallelAgents"
      "set caps \<subseteq> open_steps oper target NodeActionCapabilities []"
      "caps = [] \<longleftrightarrow> open_steps oper target NodeActionCapabilities [] = {}"
      using runnable_changes_eq [OF ok] by metis
    obtain rms where rms: "removal_loop oper from [] (sortedRemovalSteps oper from) = entries oper rms"
      "distinct rms" "length rms \<le> maxParallelAgents"
      "set rms \<subseteq> {nid \<in> set (sortedRemovalSteps oper from). removable oper from nid}"
      "length (filter (\<lambda>nid. rev_role from nid = RoleServer) rms) \<le> 1"
      "rms = [] \<Longrightarrow> \<forall>nid \<in> set (sortedRemovalSteps oper from). \<not> removable oper from nid"
      by (rule runnable_removals_eq [OF ok]) (rule that)
    note run = runnable_steps_def [of oper target "from"] live none ags(1) ups(1) caps(1) rms(1) Let_def
    consider "ags \<noteq> []" | "ags = []" "\<not> allActionComplete oper NodeActionInstall"
      | "ags = []" "allActionComplete oper NodeActionInstall"
          "caps \<noteq> [] \<or> \<not> allActionComplete oper NodeActionCapabilities"
      | "ags = []" "allActionComplete oper NodeActionInstall" "caps = []"
          "allActionComplete oper NodeActionCapabilities" "ups \<noteq> [] \<or> \<not> allActionComplete oper NodeActionUpgrade"
      | "ags = []" "caps = []" "ups = []" "topology_done oper" "\<not> platform_settled oper target"
      | "ags = []" "caps = []" "ups = []" "topology_done oper" "platform_settled oper target"
      unfolding topology_done_def by blast
    then show thesis
    proof cases
      case 1
      then show thesis using agents [OF live noserver _ ags(2-4)] by (simp add: run)
    next
      case 2
      then show thesis using blocked [OF live _ noserver] ags(5) by (simp add: run)
    next
      case 3
      then show thesis using capabilities [OF live _ caps(2-4)] caps(5) by (auto simp: run)
    next
      case 4
      then show thesis using upgrade [OF live _ _ ups(2,3)] ups(4) by (simp add: run)
    next
      case 5
      then show thesis using platform [OF live] by (simp add: run topology_done_def)
    next
      case 6
      then show thesis using removals [OF live _ _ rms(2-5)] rms(6) by (simp add: run topology_done_def)
    qed
  qed
qed

section \<open>The scheduler is safe and never stalls\<close>

lemma RunnableNodeActions_eq:
  "currentOperationState s = Inr (oper, target, from) \<Longrightarrow>
   RunnableNodeActions s = Inr r \<longleftrightarrow> r = runnable_steps oper target from"
  by (auto simp: RunnableNodeActions_def)

lemma open_stepsD:
  "nid \<in> open_steps oper r action role \<Longrightarrow>
     mget (op_NodeSteps oper) nid = Some (step_of oper nid) \<and> ns_Action (step_of oper nid) = action \<and>
     ns_Phase (step_of oper nid) \<in> open_phases \<and> (role \<noteq> [] \<longrightarrow> rev_role r nid = role)"
  by (auto simp: open_steps_def)

lemma removal_stepD:
  assumes "gomap_ok (op_NodeSteps oper)"
    and "nid \<in> {nid \<in> set (sortedRemovalSteps oper from). removable oper from nid}"
  shows "mget (op_NodeSteps oper) nid = Some (step_of oper nid) \<and>
    ns_Action (step_of oper nid) = NodeActionRemove \<and> ns_Phase (step_of oper nid) \<in> open_phases \<and>
    (rev_role from nid = RoleServer \<longrightarrow> op_EtcdSnapshot oper = StepComplete)"
  using assms(2) by (auto simp: sortedRemovalSteps_mem [OF assms(1)] removable_def)

lemma distinct_le_one: "length xs \<le> 1 \<Longrightarrow> distinct xs"
  by (cases xs) auto

lemma exposed_open:
  assumes "currentOperationState s = Inr (oper, target, from)"
    and "RunnableNodeActions s = Inr r" and ok: "gomap_ok (op_NodeSteps oper)" and mem: "(nid, step) \<in> set r"
  shows "mget (op_NodeSteps oper) nid = Some step \<and> ns_Phase step \<in> open_phases"
proof -
  from assms have r: "r = runnable_steps oper target from" by (simp add: RunnableNodeActions_eq)
  show ?thesis
    using ok
  proof (cases rule: runnable_cases [of oper target "from"])
    case (server i)
    then show ?thesis using mem r open_stepsD [OF server(2)] by (simp add: set_entries)
  next
    case (agents ids)
    then show ?thesis using mem r by (auto simp: set_entries dest!: subsetD [OF agents(5)] open_stepsD)
  next
    case (capabilities ids)
    then show ?thesis using mem r by (auto simp: set_entries dest!: subsetD [OF capabilities(5)] open_stepsD)
  next
    case (upgrade ids)
    then show ?thesis using mem r by (auto simp: set_entries dest!: subsetD [OF upgrade(5)] open_stepsD)
  next
    case (removals ids)
    then show ?thesis using mem r by (auto simp: set_entries dest!: subsetD [OF removals(6)] removal_stepD [OF ok])
  qed (use mem r in simp_all)
qed

text \<open>
  C8. The scheduler exposes at most four steps at a time (or the agent
  installations already running, when more are), each once, each an
  unfinished step of the journal as it stands, and nothing while the
  operation is failed.
\<close>

theorem runnable_steps_bounded:
  assumes "currentOperationState s = Inr (oper, target, from)"
    and "RunnableNodeActions s = Inr r" and ok: "gomap_ok (op_NodeSteps oper)"
  shows "distinct (mkeys r) \<and> length r \<le> max maxParallelAgents (running_agents oper target) \<and>
    (op_Phase oper = OperationFailed \<longrightarrow> r = []) \<and>
    (\<forall>(nid, step) \<in> set r. mget (op_NodeSteps oper) nid = Some step \<and> ns_Phase step \<in> open_phases)"
proof -
  from assms have r: "r = runnable_steps oper target from" by (simp add: RunnableNodeActions_eq)
  have "distinct (mkeys r) \<and> length r \<le> max maxParallelAgents (running_agents oper target) \<and>
      (op_Phase oper = OperationFailed \<longrightarrow> r = [])"
    using ok unfolding r
    by (cases rule: runnable_cases [of oper target "from"])
       (auto simp: maxParallelAgents_def distinct_le_one)
  then show ?thesis using exposed_open [OF assms] by blast
qed

text \<open>
  C6. Topology changes run in order: a server installs alone, agents install
  only when no server installation is open, capability changes wait for
  every installation, and upgrades wait for both and run one node at a time.
\<close>

theorem runnable_topology_order:
  assumes "currentOperationState s = Inr (oper, target, from)"
    and "RunnableNodeActions s = Inr r" and ok: "gomap_ok (op_NodeSteps oper)"
    and mem: "(nid, step) \<in> set r"
  shows "(ns_Action step = NodeActionInstall \<and> rev_role target nid = RoleServer \<longrightarrow> r = [(nid, step)]) \<and>
    (ns_Action step = NodeActionInstall \<and> rev_role target nid \<noteq> RoleServer \<longrightarrow>
       open_steps oper target NodeActionInstall RoleServer = {}) \<and>
    (ns_Action step = NodeActionCapabilities \<longrightarrow> allActionComplete oper NodeActionInstall) \<and>
    (ns_Action step = NodeActionUpgrade \<longrightarrow> allActionComplete oper NodeActionInstall \<and>
       allActionComplete oper NodeActionCapabilities \<and> r = [(nid, step)])"
proof -
  from assms have r: "r = runnable_steps oper target from" by (simp add: RunnableNodeActions_eq)
  show ?thesis
    using ok
  proof (cases rule: runnable_cases [of oper target "from"])
    case (server i)
    then show ?thesis using mem r open_stepsD [OF server(2)] by (auto simp: set_entries entries_def)
  next
    case (agents ids)
    then show ?thesis using mem r by (auto simp: set_entries dest!: subsetD [OF agents(5)] open_stepsD)
  next
    case (capabilities ids)
    then show ?thesis using mem r by (auto simp: set_entries dest!: subsetD [OF capabilities(5)] open_stepsD)
  next
    case (upgrade ids)
    then have "ids = [nid]" and s: "step = step_of oper nid"
      using mem r by (cases ids; auto simp: set_entries)+
    with upgrade have "nid \<in> open_steps oper target NodeActionUpgrade []" by simp
    from open_stepsD [OF this] upgrade show ?thesis
      by (simp add: r \<open>ids = [nid]\<close> s) (simp add: entries_def)
  next
    case (removals ids)
    then show ?thesis using mem r by (auto simp: set_entries dest!: subsetD [OF removals(6)] removal_stepD [OF ok])
  qed (use mem r in simp_all)
qed

text \<open>
  C7. Removals run last and guarded: no removal is exposed before every
  installation, capability change and upgrade is complete and the platform
  step (when enabled) is behind; a server is removed only after the etcd
  snapshot, and never two servers at once.
\<close>

theorem runnable_removal_guards:
  assumes "currentOperationState s = Inr (oper, target, from)"
    and "RunnableNodeActions s = Inr r" and ok: "gomap_ok (op_NodeSteps oper)"
  shows "(\<forall>(nid, step) \<in> set r. ns_Action step = NodeActionRemove \<longrightarrow>
       topology_done oper \<and> platform_settled oper target \<and>
       (rev_role from nid = RoleServer \<longrightarrow> op_EtcdSnapshot oper = StepComplete)) \<and>
    length (filter (\<lambda>(nid, step). ns_Action step = NodeActionRemove \<and> rev_role from nid = RoleServer) r) \<le> 1"
proof -
  from assms have r: "r = runnable_steps oper target from" by (simp add: RunnableNodeActions_eq)
  have none: ?thesis if "\<And>nid step. (nid, step) \<in> set r \<Longrightarrow> ns_Action step \<noteq> NodeActionRemove"
  proof -
    from that have "filter (\<lambda>(nid, step). ns_Action step = NodeActionRemove \<and> rev_role from nid = RoleServer) r = []"
      by (auto simp: filter_empty_conv)
    with that show ?thesis by auto
  qed
  show ?thesis
    using ok
  proof (cases rule: runnable_cases [of oper target "from"])
    case (server i)
    then show ?thesis using open_stepsD [OF server(2)] by (intro none) (auto simp: r set_entries)
  next
    case (agents ids)
    then show ?thesis by (intro none) (auto simp: r set_entries dest!: subsetD [OF agents(5)] open_stepsD)
  next
    case (capabilities ids)
    then show ?thesis by (intro none) (auto simp: r set_entries dest!: subsetD [OF capabilities(5)] open_stepsD)
  next
    case (upgrade ids)
    then show ?thesis by (intro none) (auto simp: r set_entries dest!: subsetD [OF upgrade(5)] open_stepsD)
  next
    case (removals ids)
    have "length (filter (\<lambda>(nid, step). ns_Action step = NodeActionRemove \<and> rev_role from nid = RoleServer)
        (entries oper ids)) \<le> length (filter (\<lambda>nid. rev_role from nid = RoleServer) ids)"
      by (induction ids) (auto simp: entries_def)
    with removals show ?thesis
      by (auto simp: r set_entries dest!: subsetD [OF removals(6)] removal_stepD [OF ok])
  qed (simp_all add: r)
qed

text \<open>The journals \<^verbatim>\<open>FreezeCandidate\<close> writes: known actions and phases, on hosts of the revisions.\<close>

definition steps_ok :: "Operation \<Rightarrow> Revision \<Rightarrow> Revision \<Rightarrow> bool" where
  "steps_ok oper target from \<longleftrightarrow> gomap_ok (op_NodeSteps oper) \<and>
     (\<forall>(nid, step) \<in> set (op_NodeSteps oper). ns_Phase step \<in> insert StepComplete open_phases \<and>
        (ns_Action step \<in> {NodeActionInstall, NodeActionCapabilities, NodeActionUpgrade} \<and>
           mget (rv_Nodes target) nid \<noteq> None \<and> rev_role target nid \<in> {RoleServer, RoleAgent} \<or>
         ns_Action step = NodeActionRemove \<and> mget (rv_Nodes from) nid \<noteq> None))"

lemma stepD:
  "steps_ok oper target from \<Longrightarrow> (nid, step) \<in> set (op_NodeSteps oper) \<Longrightarrow>
   ns_Phase step \<in> insert StepComplete open_phases \<and>
   (ns_Action step \<in> {NodeActionInstall, NodeActionCapabilities, NodeActionUpgrade} \<and>
      mget (rv_Nodes target) nid \<noteq> None \<and> rev_role target nid \<in> {RoleServer, RoleAgent} \<or>
    ns_Action step = NodeActionRemove \<and> mget (rv_Nodes from) nid \<noteq> None)"
  unfolding steps_ok_def by blast

lemma allActionComplete_iff:
  assumes "gomap_ok (op_NodeSteps oper)"
  shows "allActionComplete oper action \<longleftrightarrow>
    (\<forall>nid step. mget (op_NodeSteps oper) nid = Some step \<longrightarrow> ns_Action step = action \<longrightarrow> ns_Phase step = StepComplete)"
  by (auto simp: allActionComplete_def list_all_iff gomap_ok_mem [OF assms, symmetric])

lemma all_complete_from_open:
  assumes wf: "steps_ok oper target from"
    and action: "action \<in> {NodeActionInstall, NodeActionCapabilities, NodeActionUpgrade}"
    and none: "open_steps oper target action RoleServer = {}" "open_steps oper target action RoleAgent = {}"
  shows "allActionComplete oper action"
proof -
  have ok: "gomap_ok (op_NodeSteps oper)" using wf by (simp add: steps_ok_def)
  show ?thesis
    unfolding allActionComplete_iff [OF ok]
  proof (intro allI impI, rule ccontr)
    fix nid step
    assume get: "mget (op_NodeSteps oper) nid = Some step" and a: "ns_Action step = action"
      and "ns_Phase step \<noteq> StepComplete"
    moreover have "step_of oper nid = step" using get by (simp add: step_of_def)
    moreover have "(nid, step) \<in> set (op_NodeSteps oper)" using get by (rule map_of_SomeD)
    ultimately have "nid \<in> open_steps oper target action RoleServer \<union> open_steps oper target action RoleAgent"
      using wf action unfolding steps_ok_def open_steps_def by fastforce
    then show False using none by simp
  qed
qed

lemma open_steps_role: "open_steps oper r action [] = {} \<Longrightarrow> open_steps oper r action role = {}"
  by (auto simp: open_steps_def)

lemma stuck_removals:
  assumes "currentOperationState s = Inr (oper, target, from)" and wf: "steps_ok oper target from"
    and "topology_done oper"
    and stuck: "\<forall>nid \<in> set (sortedRemovalSteps oper from). \<not> removable oper from nid"
  shows "list_all (\<lambda>step. ns_Phase step = StepComplete) (mvals (op_NodeSteps oper)) \<or> NeedsEtcdSnapshot s"
proof -
  have ok: "gomap_ok (op_NodeSteps oper)" using wf by (simp add: steps_ok_def)
  have "ns_Phase step = StepComplete \<or> NeedsEtcdSnapshot s"
    if mem: "(nid, step) \<in> set (op_NodeSteps oper)" for nid step
  proof (cases "ns_Action step = NodeActionRemove \<and> ns_Phase step \<noteq> StepComplete")
    case True
    have get: "mget (op_NodeSteps oper) nid = Some step" using mem ok by (simp add: gomap_ok_mem)
    then have so: "step_of oper nid = step" by (simp add: step_of_def)
    have "ns_Phase step \<in> open_phases" using stepD [OF wf mem] True by blast
    moreover have "nid \<in> set (sortedRemovalSteps oper from)"
      using True get so by (simp add: sortedRemovalSteps_mem [OF ok])
    ultimately have "rev_role from nid = RoleServer \<and> op_EtcdSnapshot oper \<noteq> StepComplete"
      using stuck so unfolding removable_def by blast
    then show ?thesis using True mem assms(1) by (auto simp: NeedsEtcdSnapshot_def list_ex_iff)
  next
    case False
    moreover have "step \<in> set (mvals (op_NodeSteps oper))" using mem by force
    ultimately show ?thesis
      using assms(3) stepD [OF wf mem] unfolding topology_done_def allActionComplete_def list_all_iff
      by blast
  qed
  then show ?thesis by (auto simp: list_all_iff)
qed

text \<open>
  While the operation is not failed and no step is exposed, either every
  step is complete, or the platform step is due, or the only removals left
  are servers waiting for the etcd snapshot.
\<close>

lemma runnable_progress:
  assumes "currentOperationState s = Inr (oper, target, from)"
    and "RunnableNodeActions s = Inr []" and "op_Phase oper \<noteq> OperationFailed"
    and wf: "steps_ok oper target from"
  shows "list_all (\<lambda>step. ns_Phase step = StepComplete) (mvals (op_NodeSteps oper)) \<or>
    topology_done oper \<and> \<not> platform_settled oper target \<or>
    topology_done oper \<and> NeedsEtcdSnapshot s"
proof -
  have ok: "gomap_ok (op_NodeSteps oper)" using wf by (simp add: steps_ok_def)
  have r: "runnable_steps oper target from = []" using assms(1,2) by (simp add: RunnableNodeActions_eq)
  note open_complete = all_complete_from_open [OF wf]
  show ?thesis
    using ok
  proof (cases rule: runnable_cases [of oper target "from"])
    case blocked
    then show ?thesis using open_complete [of NodeActionInstall] by simp
  next
    case (capabilities ids)
    then have "ids = []" using r entries_simps(4) by metis
    with capabilities(7) open_steps_role show ?thesis
      using open_complete [of NodeActionCapabilities] by fastforce
  next
    case (upgrade ids)
    then have "ids = []" using r entries_simps(4) by metis
    with upgrade(7) show ?thesis using open_complete [of NodeActionUpgrade] by simp
  next
    case (removals ids)
    then have "\<forall>nid \<in> set (sortedRemovalSteps oper from). \<not> removable oper from nid" using r entries_simps(4) by metis
    from stuck_removals [OF assms(1) wf removals(2) this] show ?thesis using removals(2) by blast
  qed (auto simp: r assms(3))
qed

section \<open>A concrete operation\<close>

definition ex_before :: State where
  "ex_before = ex_seeded\<lparr>st_Revisions := [(''r1'', ex_from), (''r2'', ex_target)],
     st_ConvergedRevision := ''r1'', st_CandidateRevision := ''r2''\<rparr>"

definition ex_active :: State where
  "ex_active = snd (FreezeCandidate ''o1'' False ex_time ex_before)"

definition ex_settled :: State where
  "ex_settled =
     (let s1 = snd (CompleteNodeAction ''n2'' [] True [] ex_time ex_active);
          s2 = snd (CompleteNodeAction ''n1'' [] True [] ex_time s1)
      in snd (AdvancePlatform True [] ex_time s2))"

definition op_state :: "State \<Rightarrow> Operation \<times> Revision \<times> Revision" where
  "op_state s = projr (currentOperationState s)"

lemma ex_active_state:
  "currentOperationState ex_active = Inr (fst (op_state ex_active), fst (snd (op_state ex_active)), snd (snd (op_state ex_active)))"
  "gomap_ok (op_NodeSteps (fst (op_state ex_active)))"
  by code_simp+

lemma ex_settled_state:
  "currentOperationState ex_settled = Inr (fst (op_state ex_settled), fst (snd (op_state ex_settled)), snd (snd (op_state ex_settled)))"
  "gomap_ok (op_NodeSteps (fst (op_state ex_settled)))"
  by code_simp+

lemma ex_active_runnable: "RunnableNodeActions ex_active = Inr (projr (RunnableNodeActions ex_active))"
  by code_simp

lemma ex_settled_runnable: "RunnableNodeActions ex_settled = Inr (projr (RunnableNodeActions ex_settled))"
  by code_simp

theorem runnable_steps_bounded_witness:
  "distinct (mkeys (projr (RunnableNodeActions ex_active))) \<and>
   length (projr (RunnableNodeActions ex_active)) \<le>
     max maxParallelAgents (running_agents (fst (op_state ex_active)) (fst (snd (op_state ex_active)))) \<and>
   mkeys (projr (RunnableNodeActions ex_active)) = [''n2'']"
proof -
  have "mkeys (projr (RunnableNodeActions ex_active)) = [''n2'']" by code_simp
  then show ?thesis
    using runnable_steps_bounded [OF ex_active_state(1) ex_active_runnable ex_active_state(2)] by auto
qed

theorem runnable_topology_order_witness:
  "projr (RunnableNodeActions ex_active) = [(''n2'', snd (hd (projr (RunnableNodeActions ex_active))))]"
proof -
  have "(''n2'', snd (hd (projr (RunnableNodeActions ex_active)))) \<in> set (projr (RunnableNodeActions ex_active))"
    and "ns_Action (snd (hd (projr (RunnableNodeActions ex_active)))) = NodeActionInstall"
    and "rev_role (fst (snd (op_state ex_active))) ''n2'' = RoleServer"
    by code_simp+
  then show ?thesis
    using runnable_topology_order [OF ex_active_state(1) ex_active_runnable ex_active_state(2)] by blast
qed

theorem runnable_removal_guards_witness:
  "mkeys (projr (RunnableNodeActions ex_settled)) = [''n3''] \<and> topology_done (fst (op_state ex_settled))"
proof -
  have "mkeys (projr (RunnableNodeActions ex_settled)) = [''n3'']"
    and "(''n3'', snd (hd (projr (RunnableNodeActions ex_settled)))) \<in> set (projr (RunnableNodeActions ex_settled))"
    and "ns_Action (snd (hd (projr (RunnableNodeActions ex_settled)))) = NodeActionRemove"
    by code_simp+
  then show ?thesis
    using runnable_removal_guards [OF ex_settled_state(1) ex_settled_runnable ex_settled_state(2)] by blast
qed

end
