(* ===== verification/Cluster_Release.thy ===== *)
theory Cluster_Release
  imports Cluster_Operation
begin

text \<open>
  Release updates and node removal: \<^verbatim>\<open>internal/clusterstate/updates.go\<close> and
  \<^verbatim>\<open>internal/clusterstate/removal.go\<close>.
\<close>

section \<open>Release updates\<close>

definition IsReleaseOperation :: "State \<Rightarrow> Operation \<Rightarrow> bool" where
  "IsReleaseOperation s oper =
     (mget (uj_Operations (st_Updates s)) (op_ID oper) \<noteq> None \<or>
      (let from = mget_or zero_revision (st_Revisions s) (op_FromRevision oper);
           target = mget_or zero_revision (st_Revisions s) (op_TargetRevision oper)
       in ps_Version (rv_Platform target) \<noteq> [] \<and>
          ps_Version (rv_Platform target) \<noteq> ps_Version (rv_Platform from)))"

text \<open>The versions a host reports: its agent's, and a server's coordinator's.\<close>

definition installed_versions :: "State \<Rightarrow> string \<Rightarrow> string \<Rightarrow> string list" where
  "installed_versions s nid role =
     nd_AgentVersion (mget_or zero_node (st_Nodes s) nid)
     # (if role = RoleServer
        then [cr_Version (mget_or zero_report (uj_Coordinators (st_Updates s)) nid)] else [])"

definition blocks_release :: "string \<Rightarrow> string \<Rightarrow> bool" where
  "blocks_release target installed \<longleftrightarrow>
     installed \<noteq> [] \<and> (\<not> IsRelease installed \<or> Older target installed)"

fun release_fits :: "State \<Rightarrow> string \<Rightarrow> (string \<times> RevisionNode) list \<Rightarrow> cerr + unit" where
  "release_fits s target [] = Inr ()"
| "release_fits s target ((nid, rnode) # rest) =
     (case find (blocks_release target) (installed_versions s nid (rn_Role rnode)) of
        Some installed \<Rightarrow>
          Inl (UpE (NodeRuns (nd_Name (mget_or zero_node (st_Nodes s) nid)) installed target))
      | None \<Rightarrow> release_fits s target rest)"

definition RequestRelease :: "string \<Rightarrow> string \<Rightarrow> string \<Rightarrow> gotime \<Rightarrow> State \<Rightarrow>
    (cerr + Operation) \<times> State" where
  "RequestRelease revID opID target now s =
     (if \<not> IsRelease target then (Inl (UpE (NotARelease target)), s)
      else case Updatable s now of
          Inl e \<Rightarrow> (Inl e, s)
        | Inr _ \<Rightarrow>
     (case Converged s of
          Inl e \<Rightarrow> (Inl e, s)
        | Inr from \<Rightarrow>
            if ps_Version (rv_Platform from) \<noteq> [] \<and> Older target (ps_Version (rv_Platform from))
            then (Inl (UpE (Downgrade (ps_Version (rv_Platform from)) target)), s)
            else
     (case release_fits s target (rv_Nodes from) of
          Inl e \<Rightarrow> (Inl e, s)
        | Inr _ \<Rightarrow>
     (case EditCandidate revID now (version_edit target) s of
          (Inl e, s1) \<Rightarrow> (Inl e, s1)
        | (Inr (revision, _), s1) \<Rightarrow>
            let oper = zero_operation\<lparr>op_ID := opID, op_FromRevision := rv_ID from,
                  op_TargetRevision := rv_ID revision, op_Phase := OperationPending,
                  op_StartedAt := now, op_UpdatedAt := now,
                  op_NodeSteps := foldl (\<lambda>steps nid. mput nid
                    (zero_step\<lparr>ns_Action := NodeActionUpgrade, ns_Phase := StepPending,
                       ns_UpdatedAt := now\<rparr>) steps) [] (mkeys (rv_Nodes revision))\<rparr>;
                updates = st_Updates s1
            in (Inr oper,
                (put_operation oper s1)\<lparr>
                  st_Updates := updates\<lparr>uj_Operations :=
                    mput opID \<lparr>ru_Version = target, ru_K3s = []\<rparr> (uj_Operations updates)\<rparr>,
                  st_CurrentOperation := opID, st_TargetRevision := rv_ID revision\<rparr>)))))"

fun resume_fits :: "State \<Rightarrow> gotime \<Rightarrow> string \<Rightarrow> (string \<times> RevisionNode) list \<Rightarrow> cerr + unit" where
  "resume_fits s now target [] = Inr ()"
| "resume_fits s now target ((nid, desired) # rest) =
     (let node = mget_or zero_node (st_Nodes s) nid in
      if is_zero (nd_LastSeen node) \<or> time_sub now (nd_LastSeen node) > HeartbeatWindow
      then Inl (UpE (NodeSilent (rn_Name desired)))
      else case find (blocks_release target) (installed_versions s nid (rn_Role desired)) of
          Some installed \<Rightarrow> Inl (UpE (NodeRuns (rn_Name desired) installed target))
        | None \<Rightarrow> resume_fits s now target rest)"

definition drifted :: "State \<Rightarrow> gotime \<Rightarrow> string \<Rightarrow> Revision \<Rightarrow> string \<Rightarrow> bool" where
  "drifted s now pin target nid =
     (let node = mget_or zero_node (st_Nodes s) nid;
          coordinator = mget_or zero_report (uj_Coordinators (st_Updates s)) nid;
          version = ps_Version (rv_Platform target)
      in nd_AgentVersion node \<noteq> version \<or> pin \<noteq> [] \<and> nd_K3sVersion node \<noteq> pin \<or>
         rev_role target nid = RoleServer \<and>
           (cr_Version coordinator \<noteq> version \<or> is_zero (cr_LastSeen coordinator) \<or>
            time_sub now (cr_LastSeen coordinator) > HeartbeatWindow))"

definition revisit :: "State \<Rightarrow> gotime \<Rightarrow> string \<Rightarrow> Revision \<Rightarrow> string \<Rightarrow> NodeStep \<Rightarrow> NodeStep" where
  "revisit s now pin target nid step =
     (if ns_Phase step = StepComplete \<and> ns_Action step = NodeActionUpgrade \<and> drifted s now pin target nid
      then step\<lparr>ns_Phase := StepPending, ns_AttemptID := [], ns_LastError := [], ns_UpdatedAt := now\<rparr>
      else step)"

definition ResumeRelease :: "string \<Rightarrow> gotime \<Rightarrow> State \<Rightarrow> (cerr + Operation) \<times> State" where
  "ResumeRelease opID now s =
     (case mget (st_Operations s) (st_CurrentOperation s) of
        None \<Rightarrow> (Inl (UpE ErrOperationActive), s)
      | Some oper \<Rightarrow>
          if \<not> IsReleaseOperation s oper \<or> op_Phase oper \<noteq> OperationFailed
          then (Inl (UpE ErrOperationActive), s)
          else
            let target = mget_or zero_revision (st_Revisions s) (op_TargetRevision oper) in
            case resume_fits s now (ps_Version (rv_Platform target)) (rv_Nodes target) of
              Inl e \<Rightarrow> (Inl e, s)
            | Inr _ \<Rightarrow>
                (case FreezeCandidate opID (op_RebalanceWorkloads oper) now s of
                   (Inl e, s1) \<Rightarrow> (Inl e, s1)
                 | (Inr (_, resumed), s1) \<Rightarrow>
                     let pin = ru_K3s (mget_or zero_update (uj_Operations (st_Updates s1)) (op_ID oper));
                         resumed' = resumed\<lparr>op_NodeSteps :=
                           map (\<lambda>(nid, step). (nid, revisit s1 now pin target nid step)) (op_NodeSteps resumed)\<rparr>
                     in (Inr resumed', put_operation resumed' s1)))"

section \<open>Staging a removal\<close>

definition active_revision :: "State \<Rightarrow> Revision" where
  "active_revision s =
     mget_or zero_revision (st_Revisions s)
       (if st_TargetRevision s \<noteq> [] then st_TargetRevision s else st_ConvergedRevision s)"

text \<open>
  The loop over the hosts of that name which are no longer in the candidate:
  \<^verbatim>\<open>None\<close> falls through to the edit.
\<close>

fun absent_node :: "string \<Rightarrow> gotime \<Rightarrow> bool \<Rightarrow> Node list \<Rightarrow> State \<Rightarrow> ((cerr + bool) \<times> State) option" where
  "absent_node name now historical [] s = (if historical then Some (Inr True, s) else None)"
| "absent_node name now historical (node # nodes) s =
     (if nd_Name node \<noteq> name then absent_node name now historical nodes s
      else if nd_Phase node = NodePhaseCancelled then absent_node name now True nodes s
      else if nd_Phase node = NodePhaseRemoved then absent_node name now historical nodes s
      else if nd_LastAction node = ''cancel-enrollment'' \<and> nd_Phase node = NodePhaseUninstalling \<and>
              mget (rv_Nodes (active_revision s)) (nd_ID node) = None
        then Some (Inr True, put_node (nd_ID node)
          (node\<lparr>nd_Phase := NodePhaseCancelled, nd_UpdatedAt := truncate_s now\<rparr>) s)
      else Some (Inl (UpE (AlreadyAbsent name)), s))"

definition removal_edit :: "string \<Rightarrow> gotime \<Rightarrow> bool candidate_edit" where
  "removal_edit name now = (\<lambda>s nodes platform.
     (case FindNodeByName nodes name of
        None \<Rightarrow> (Inl (UpE (NotInCandidate name)), s)
      | Some node \<Rightarrow>
          if ps_RegistryNode platform = rn_ID node then (Inl (UpE HoldsRegistry), s)
          else if mget (rv_Nodes (active_revision s)) (rn_ID node) = None then
            (let observed = mget_or zero_node (st_Nodes s) (rn_ID node) in
             (Inr (mdel (rn_ID node) nodes, platform, True),
              put_node (rn_ID node)
                (observed\<lparr>nd_Phase := NodePhaseCancelled, nd_LastAction := ''cancel-enrollment'',
                   nd_LastError := [], nd_UpdatedAt := truncate_s now\<rparr>) s))
          else (Inr (mdel (rn_ID node) nodes, platform, False), s)))"

definition StageNodeRemoval :: "string \<Rightarrow> string \<Rightarrow> gotime \<Rightarrow> State \<Rightarrow> (cerr + bool) \<times> State" where
  "StageNodeRemoval revID name now s =
     (case Candidate s of
        Inl e \<Rightarrow> (Inl e, s)
      | Inr candidate \<Rightarrow>
          (case (if FindNodeByName (rv_Nodes candidate) name = None
                 then absent_node name now False (SortedNodes (st_Nodes s)) s else None) of
             Some result \<Rightarrow> result
           | None \<Rightarrow>
               (case EditCandidate revID now (removal_edit name now) s of
                  (Inl e, s1) \<Rightarrow> (Inl e, s1)
                | (Inr (_, cancelled), s1) \<Rightarrow> (Inr cancelled, s1))))"

end
