(* ===== verification/Cluster_Writers.thy ===== *)
theory Cluster_Writers
  imports Cluster_Release
begin

text \<open>
  The writers of the coordination document outside the reconciler's own
  package files: the enrollment and poll handlers of
  \<^verbatim>\<open>internal/clusterstate/server.go\<close>, the closures that the command line
  (\<^verbatim>\<open>cmd/skali/cluster_*.go\<close>), the installer and the coordinator daemon pass to
  \<^verbatim>\<open>Store.Update\<close>. Each is a function of the document; the time is the caller's
  clock, the identifier of a new revision an argument.
\<close>

datatype writer_error =
    ClusterE cerr
  | NotAwaitingRemoval string | UnknownNode string | OperationInFlight string | NodeNotEnrolled string
  | ClusterDecommissioning | ErrEnrollmentCancelled | RetryMismatch | NoCapability | HostIncomplete
  | NodeIDTaken | InstallationTaken string | NameTaken string | ServerWithoutAddress | IdentityNotActive

section \<open>Commands of the operator\<close>

text \<open>
  \<^verbatim>\<open>cluster node forget\<close>: the first host of that name which is not gone yet is
  written off, together with its removal step.
\<close>

definition forget_step :: "string \<Rightarrow> gotime \<Rightarrow> State \<Rightarrow> State" where
  "forget_step nodeID now s =
     (case mget (st_Operations s) (st_CurrentOperation s) of
        None \<Rightarrow> s
      | Some oper \<Rightarrow>
          (case mget (op_NodeSteps oper) nodeID of
             None \<Rightarrow> s
           | Some step \<Rightarrow>
               if ns_Action step = NodeActionRemove
               then put_operation (put_step nodeID (step\<lparr>ns_Phase := StepComplete,
                   ns_LastError := ''forced forget; local cleanup unconfirmed'',
                   ns_UpdatedAt := truncate_s now\<rparr>) oper) s
               else s))"

definition NodeForget :: "string \<Rightarrow> gotime \<Rightarrow> State \<Rightarrow> (writer_error + unit) \<times> State" where
  "NodeForget name now s =
     (case find (\<lambda>node. nd_Name node = name \<and> nd_Phase node \<noteq> NodePhaseRemoved \<and>
              nd_Phase node \<noteq> NodePhaseCancelled) (SortedNodes (st_Nodes s)) of
        None \<Rightarrow> (Inl (UnknownNode name), s)
      | Some node \<Rightarrow>
          if nd_Phase node \<noteq> NodePhaseFailed \<and> nd_Phase node \<noteq> NodePhaseDraining \<and>
             nd_Phase node \<noteq> NodePhaseAwaitingCleanup \<and> nd_Phase node \<noteq> NodePhaseUninstalling
          then (Inl (NotAwaitingRemoval name), s)
          else
            let s1 = put_node (nd_ID node) (node\<lparr>nd_Phase := NodePhaseRemoved,
                  nd_LastError := ''local cleanup was not confirmed; stale k3s may remain on the host'',
                  nd_UpdatedAt := truncate_s now\<rparr>) s
            in if nd_ID node = [] then (Inl (UnknownNode name), s1)
               else (Inr (), if st_CurrentOperation s1 \<noteq> [] then forget_step (nd_ID node) now s1 else s1))"

text \<open>\<^verbatim>\<open>cluster changes discard\<close>.\<close>

definition DiscardChanges :: "State \<Rightarrow> (writer_error + unit) \<times> State" where
  "DiscardChanges s = (Inr (), s\<lparr>st_CandidateRevision :=
     (if st_TargetRevision s \<noteq> [] then st_TargetRevision s else st_ConvergedRevision s)\<rparr>)"

text \<open>
  \<^verbatim>\<open>cluster uninstall --scope bundle\<close> writes the document twice. It first pauses
  reconciliation, which an operation in flight refuses; when the bundle is
  gone it commits a revision with the platform disabled and makes it the
  converged one. The second write does not look for an operation again.
\<close>

definition PauseForUninstall :: "State \<Rightarrow> (writer_error + unit) \<times> State" where
  "PauseForUninstall s =
     (if st_CurrentOperation s \<noteq> [] then (Inl (OperationInFlight (st_CurrentOperation s)), s)
      else (Inr (), s\<lparr>st_ReconciliationPaused := True\<rparr>))"

definition disable_edit :: "unit candidate_edit" where
  "disable_edit = (\<lambda>s nodes platform.
     (Inr (nodes, platform\<lparr>ps_Enabled := False, ps_RegistryNode := []\<rparr>, ()), s))"

definition UninstallCommit :: "string \<Rightarrow> gotime \<Rightarrow> State \<Rightarrow> (writer_error + unit) \<times> State" where
  "UninstallCommit revID now s =
     (case EditCandidate revID now disable_edit s of
        (Inl e, s1) \<Rightarrow> (Inl (ClusterE e), s1)
      | (Inr (revision, _), s1) \<Rightarrow>
          (Inr (), s1\<lparr>st_ConvergedRevision := rv_ID revision, st_CandidateRevision := rv_ID revision,
             st_Platform := rv_Platform revision, st_ReconciliationPaused := False\<rparr>))"

text \<open>\<^verbatim>\<open>cluster repair\<close> resumes, the final uninstall of the seed decommissions.\<close>

definition ResumeReconciliation :: "State \<Rightarrow> (writer_error + unit) \<times> State" where
  "ResumeReconciliation s = (Inr (), s\<lparr>st_ReconciliationPaused := False\<rparr>)"

definition Decommission :: "State \<Rightarrow> (writer_error + unit) \<times> State" where
  "Decommission s = (Inr (), s\<lparr>st_Decommissioning := True\<rparr>)"

text \<open>Go's \<^verbatim>\<open>net.JoinHostPort\<close>.\<close>

definition JoinHostPort :: "string \<Rightarrow> string \<Rightarrow> string" where
  "JoinHostPort address port =
     (if CHR '':'' \<in> set address then ''['' @ address @ '']:'' @ port else address @ '':'' @ port)"

definition DefaultCoordinatorPort :: string where
  "DefaultCoordinatorPort = ''6444''"

definition coordinator_endpoint :: "string \<Rightarrow> string" where
  "coordinator_endpoint address = ''https://'' @ JoinHostPort address DefaultCoordinatorPort"

definition publishNodeAddresses :: "string \<Rightarrow> string \<Rightarrow> string \<Rightarrow> gotime \<Rightarrow> State \<Rightarrow>
    (writer_error + unit) \<times> State" where
  "publishNodeAddresses nodeID name clusterIP now s =
     (case mget (st_Nodes s) nodeID of
        None \<Rightarrow> (Inl (NodeNotEnrolled name), s)
      | Some node \<Rightarrow> (Inr (), put_node nodeID (node\<lparr>nd_NodeIP := clusterIP,
          nd_Coordinator := coordinator_endpoint clusterIP, nd_UpdatedAt := now\<rparr>) s))"

section \<open>The coordinator daemon\<close>

definition ReportCoordinator :: "string \<Rightarrow> string \<Rightarrow> gotime \<Rightarrow> State \<Rightarrow> (writer_error + unit) \<times> State" where
  "ReportCoordinator nodeID version now s =
     (Inr (), s\<lparr>st_Updates := (st_Updates s)\<lparr>uj_Coordinators :=
        mput nodeID \<lparr>cr_Version = version, cr_LastSeen = now\<rparr> (uj_Coordinators (st_Updates s))\<rparr>\<rparr>)"

definition of_cluster :: "(cerr + 'a) \<times> State \<Rightarrow> (writer_error + 'a) \<times> State" where
  "of_cluster p = (case p of (Inl e, s) \<Rightarrow> (Inl (ClusterE e), s) | (Inr x, s) \<Rightarrow> (Inr x, s))"

text \<open>The metadata of a release names its k3s, where it has metadata.\<close>

definition PinPreflight :: "string option \<Rightarrow> gotime \<Rightarrow> State \<Rightarrow> (writer_error + unit) \<times> State" where
  "PinPreflight k3s now s =
     of_cluster (MarkUpgradePreflight now
       (case mget (uj_Operations (st_Updates s)) (st_CurrentOperation s) of
          None \<Rightarrow> s
        | Some update \<Rightarrow> s\<lparr>st_Updates := (st_Updates s)\<lparr>uj_Operations :=
            mput (st_CurrentOperation s)
              (case k3s of None \<Rightarrow> update | Some v \<Rightarrow> update\<lparr>ru_K3s := v\<rparr>)
              (uj_Operations (st_Updates s))\<rparr>\<rparr>))"

definition put_endpoint :: "gotime \<Rightarrow> State \<Rightarrow> string \<times> string \<Rightarrow> State" where
  "put_endpoint now s p =
     put_node (fst p) ((mget_or zero_node (st_Nodes s) (fst p))
       \<lparr>nd_Coordinator := snd p, nd_UpdatedAt := truncate_s now\<rparr>) s"

definition ActivateTopology :: "(string, string) gomap \<Rightarrow> gotime \<Rightarrow> State \<Rightarrow> (writer_error + unit) \<times> State" where
  "ActivateTopology coordinators now s =
     of_cluster (MarkTopologyActivated now (foldl (put_endpoint now) s coordinators))"

text \<open>The operation is read by its key; an absent one would be Go's zero value.\<close>

definition Rebalanced :: "gotime \<Rightarrow> State \<Rightarrow> (writer_error + unit) \<times> State" where
  "Rebalanced now s =
     (Inr (), put_operation ((mget_or zero_operation (st_Operations s) (st_CurrentOperation s))
        \<lparr>op_Phase := OperationVerifying, op_UpdatedAt := truncate_s now\<rparr>) s)"

section \<open>Enrollment and polling\<close>

record HostFacts =
  hf_InstallationID :: string
  hf_NodeID :: string
  hf_Name :: string
  hf_NodeIP :: string
  hf_Capabilities :: "string list"
  hf_AgentVersion :: string

record AgentReport =
  ar_Phase :: string
  ar_K3sVersion :: string
  ar_AgentVersion :: string
  ar_ActionID :: string
  ar_ActionOK :: bool
  ar_Error :: string

definition sameCapabilities :: "string list \<Rightarrow> string list \<Rightarrow> bool" where
  "sameCapabilities a b \<longleftrightarrow> sort a = sort b"

text \<open>The loop over the known hosts, which Go visits in any order.\<close>

fun identity_loop :: "HostFacts \<Rightarrow> (string \<times> Node) list \<Rightarrow> writer_error + unit" where
  "identity_loop h [] = Inr ()"
| "identity_loop h ((nid, node) # rest) =
     (if (nid = hf_NodeID h \<or> nd_InstallationID node = hf_InstallationID h) \<and>
         (nd_Phase node = NodePhaseCancelled \<or> nd_Phase node = NodePhaseRemoved \<or>
          nd_LastAction node = ''cancel-enrollment'')
      then Inl ErrEnrollmentCancelled
      else if nd_Phase node = NodePhaseRemoved \<or> nd_Phase node = NodePhaseCancelled
      then identity_loop h rest
      else if hf_NodeID h \<noteq> [] \<and> nid = hf_NodeID h
      then (if nd_InstallationID node \<noteq> hf_InstallationID h then Inl NodeIDTaken else Inr ())
      else if nd_InstallationID node = hf_InstallationID h then Inl (InstallationTaken (nd_Name node))
      else if nd_Name node = hf_Name h then Inl (NameTaken (hf_Name h))
      else identity_loop h rest)"

definition validateEnrollmentIdentity :: "State \<Rightarrow> HostFacts \<Rightarrow> writer_error + unit" where
  "validateEnrollmentIdentity s h =
     (if hf_InstallationID h = [] \<or> hf_Name h = [] \<or> hf_AgentVersion h = [] then Inl HostIncomplete
      else identity_loop h (st_Nodes s))"

definition validateEnrollmentHost :: "State \<Rightarrow> HostFacts \<Rightarrow> writer_error + unit" where
  "validateEnrollmentHost s h =
     (if hf_Capabilities h = [] then Inl NoCapability else validateEnrollmentIdentity s h)"

definition validateServerAddress :: "string \<Rightarrow> HostFacts \<Rightarrow> writer_error + unit" where
  "validateServerAddress role h =
     (if role \<noteq> RoleServer \<or> trim_space (hf_NodeIP h) \<noteq> [] then Inr () else Inl ServerWithoutAddress)"

definition enroll_edit :: "Node \<Rightarrow> unit candidate_edit" where
  "enroll_edit node = (\<lambda>s nodes platform. (Inr (mput (nd_ID node) (revisionNode node) nodes, platform, ()), s))"

definition enrolled_node :: "string \<Rightarrow> HostFacts \<Rightarrow> gotime \<Rightarrow> Node" where
  "enrolled_node role h now =
     zero_node\<lparr>nd_ID := hf_NodeID h, nd_InstallationID := hf_InstallationID h, nd_Name := hf_Name h,
       nd_Role := role, nd_Capabilities := hf_Capabilities h, nd_NodeIP := hf_NodeIP h,
       nd_AgentVersion := hf_AgentVersion h, nd_Phase := NodePhaseAwaitingApply,
       nd_EnrolledAt := now, nd_UpdatedAt := now,
       nd_Coordinator := (if role = RoleServer then coordinator_endpoint (hf_NodeIP h) else [])\<rparr>"

text \<open>
  The write of the enroll handler, reached with a named host and the role of
  its invitation.
\<close>

definition enroll :: "string \<Rightarrow> string \<Rightarrow> HostFacts \<Rightarrow> gotime \<Rightarrow> State \<Rightarrow> (writer_error + unit) \<times> State" where
  "enroll revID role h now s =
     (if st_Decommissioning s then (Inl ClusterDecommissioning, s)
      else
        let existing = mget_or zero_node (st_Nodes s) (hf_NodeID h) in
        if mget (st_Nodes s) (hf_NodeID h) \<noteq> None \<and> nd_InstallationID existing = hf_InstallationID h
        then (if nd_Phase existing = NodePhaseCancelled \<or> nd_Phase existing = NodePhaseRemoved \<or>
                 nd_LastAction existing = ''cancel-enrollment''
              then (Inl ErrEnrollmentCancelled, s)
              else if nd_Name existing \<noteq> hf_Name h \<or> nd_NodeIP existing \<noteq> hf_NodeIP h \<or>
                 nd_Role existing \<noteq> role \<or> \<not> sameCapabilities (nd_Capabilities existing) (hf_Capabilities h)
              then (Inl RetryMismatch, s)
              else (Inr (), s))
        else case validateEnrollmentHost s h of
            Inl e \<Rightarrow> (Inl e, s)
          | Inr _ \<Rightarrow>
        (case validateServerAddress role h of
            Inl e \<Rightarrow> (Inl e, s)
          | Inr _ \<Rightarrow>
              let node = enrolled_node role h now in
              (case EditCandidate revID now (enroll_edit node) (put_node (nd_ID node) node s) of
                 (Inl e, s1) \<Rightarrow> (Inl (ClusterE e), s1)
               | (Inr _, s1) \<Rightarrow> (Inr (), s1))))"

text \<open>The write of the poll handler, for an authenticated node.\<close>

definition reported_node :: "AgentReport \<Rightarrow> gotime \<Rightarrow> Node \<Rightarrow> Node" where
  "reported_node r now node =
     node\<lparr>nd_LastSeen := now, nd_K3sVersion := ar_K3sVersion r,
       nd_AgentVersion := (if ar_AgentVersion r \<noteq> [] then ar_AgentVersion r else nd_AgentVersion node),
       nd_Phase := (if ar_Phase r \<noteq> [] \<and> nd_Phase node \<noteq> NodePhaseUninstalling \<and>
           nd_Phase node \<noteq> NodePhaseAwaitingCleanup then ar_Phase r else nd_Phase node),
       nd_LastError := (if ar_Error r \<noteq> [] then ar_Error r else if ar_ActionOK r then []
           else nd_LastError node),
       nd_UpdatedAt := now\<rparr>"

definition poll :: "string \<Rightarrow> AgentReport \<Rightarrow> gotime \<Rightarrow> State \<Rightarrow> (writer_error + unit) \<times> State" where
  "poll nodeID r now s =
     (case mget (st_Nodes s) nodeID of
        None \<Rightarrow> (Inl IdentityNotActive, s)
      | Some node \<Rightarrow>
          if nd_Phase node = NodePhaseRemoved then (Inl IdentityNotActive, s)
          else if nd_Phase node = NodePhaseCancelled
          then (Inr (), put_node nodeID (node\<lparr>nd_LastAction :=
              (if ar_ActionID r = ''cleanup-'' @ nodeID \<and> ar_ActionOK r then ''cleanup-complete''
               else nd_LastAction node), nd_LastSeen := now\<rparr>) s)
          else (Inr (), put_node nodeID (reported_node r now node) s))"

end
