(* ===== verification/Cluster_Machine.thy ===== *)
theory Cluster_Machine
  imports Cluster_Writers
begin

text \<open>
  The coordination document as a state machine. The states are the
  documents, the steps the successful mutations of the package and of its
  callers (a failed mutation is thrown away by \<^verbatim>\<open>Store.Update\<close>, which also
  stamps the document). The identifiers a mutation draws from
  \<^verbatim>\<open>uuid.NewString\<close> are fresh. The theory states the invariant of
  the document, proves that every mutation keeps it, interprets the
  transition-system interface with it, and derives what holds along every
  run.
\<close>

section \<open>The invariant of the document\<close>

definition revisions_ok :: "(string, Revision) gomap \<Rightarrow> bool" where
  "revisions_ok revs \<longleftrightarrow> gomap_ok revs \<and>
     (\<forall>(rid, r) \<in> set revs. rid \<noteq> [] \<and> rv_ID r = rid \<and> gomap_ok (rv_Nodes r) \<and>
        valid_revision (rv_Nodes r) (rv_Platform r))"

definition operations_ok :: "(string, Operation) gomap \<Rightarrow> bool" where
  "operations_ok ops \<longleftrightarrow> gomap_ok ops \<and> (\<forall>(oid, oper) \<in> set ops. oid \<noteq> [] \<and> op_ID oper = oid)"

text \<open>An operation in flight: it leads from the converged to the target revision.\<close>

definition active_ok :: "State \<Rightarrow> Operation \<Rightarrow> bool" where
  "active_ok s oper \<longleftrightarrow>
     op_Phase oper \<noteq> OperationComplete \<and> op_TargetRevision oper = st_TargetRevision s \<and>
     op_FromRevision oper = st_ConvergedRevision s \<and>
     (\<exists>target from. mget (st_Revisions s) (st_TargetRevision s) = Some target \<and>
        mget (st_Revisions s) (st_ConvergedRevision s) = Some from \<and>
        keeps_roles from target \<and> steps_ok oper target from)"

definition cluster_inv :: "State \<Rightarrow> bool" where
  "cluster_inv s \<longleftrightarrow>
     revisions_ok (st_Revisions s) \<and> operations_ok (st_Operations s) \<and> gomap_ok (st_Nodes s) \<and>
     mget (st_Revisions s) (st_ConvergedRevision s) \<noteq> None \<and>
     mget (st_Revisions s) (st_CandidateRevision s) \<noteq> None \<and>
     (if st_CurrentOperation s = [] then st_TargetRevision s = []
      else \<exists>oper. mget (st_Operations s) (st_CurrentOperation s) = Some oper \<and> active_ok s oper)"

lemma revisions_okD:
  assumes "revisions_ok revs" and "mget revs rid = Some r"
  shows "rid \<noteq> []" "rv_ID r = rid" "gomap_ok (rv_Nodes r)" "valid_revision (rv_Nodes r) (rv_Platform r)"
  using assms unfolding revisions_ok_def by (blast dest: map_of_SomeD)+

lemma revisions_ok_mput:
  "revisions_ok revs \<Longrightarrow> rid \<noteq> [] \<Longrightarrow> rv_ID r = rid \<Longrightarrow> gomap_ok (rv_Nodes r) \<Longrightarrow>
   valid_revision (rv_Nodes r) (rv_Platform r) \<Longrightarrow> revisions_ok (mput rid r revs)"
  by (auto simp: revisions_ok_def mem_mput split: if_splits)

lemma operations_okD:
  assumes "operations_ok ops" and "mget ops oid = Some oper"
  shows "oid \<noteq> []" "op_ID oper = oid"
  using assms unfolding operations_ok_def by (blast dest: map_of_SomeD)+

lemma operations_ok_mput:
  "operations_ok ops \<Longrightarrow> oid \<noteq> [] \<Longrightarrow> op_ID oper = oid \<Longrightarrow> operations_ok (mput oid oper ops)"
  by (auto simp: operations_ok_def mem_mput split: if_splits)

text \<open>The parts of the state the invariant reads; node observations and times are free.\<close>

definition same_frame :: "State \<Rightarrow> State \<Rightarrow> bool" where
  "same_frame s t \<longleftrightarrow> st_Revisions t = st_Revisions s \<and> st_ConvergedRevision t = st_ConvergedRevision s \<and>
     st_TargetRevision t = st_TargetRevision s \<and> st_CandidateRevision t = st_CandidateRevision s \<and>
     st_CurrentOperation t = st_CurrentOperation s \<and> gomap_ok (st_Nodes t)"

lemma inv_same_frame:
  "cluster_inv s \<Longrightarrow> same_frame s t \<Longrightarrow> st_Operations t = st_Operations s \<Longrightarrow> cluster_inv t"
  by (auto simp: cluster_inv_def same_frame_def active_ok_def split: if_splits)

text \<open>Rewriting the journal of the operation in flight.\<close>

lemma inv_journal:
  assumes "cluster_inv s" and cur: "mget (st_Operations s) (st_CurrentOperation s) = Some oper"
    and "same_frame s t" and "st_Operations t = mput (op_ID oper') oper' (st_Operations s)"
    and "op_ID oper' = op_ID oper" "op_FromRevision oper' = op_FromRevision oper"
      "op_TargetRevision oper' = op_TargetRevision oper" "op_Phase oper' \<noteq> OperationComplete"
    and steps: "\<And>target from. steps_ok oper target from \<Longrightarrow> steps_ok oper' target from"
  shows "cluster_inv t"
proof -
  have ops: "operations_ok (st_Operations s)" using assms(1) by (simp add: cluster_inv_def)
  note id = operations_okD [OF ops cur]
  have "active_ok s oper" using assms(1) cur id(1) by (simp add: cluster_inv_def)
  then have "active_ok t oper'"
    using assms(3,6-8) steps unfolding active_ok_def same_frame_def by metis
  then show ?thesis
    using assms(1,3,4,5) id operations_ok_mput [OF ops, of "op_ID oper" oper']
    by (auto simp: cluster_inv_def same_frame_def)
qed

lemma current_operation:
  assumes "cluster_inv s" and "currentOperationState s = Inr (oper, target, from)"
  shows "mget (st_Operations s) (st_CurrentOperation s) = Some oper" "active_ok s oper"
    "mget (st_Revisions s) (st_TargetRevision s) = Some target"
    "mget (st_Revisions s) (st_ConvergedRevision s) = Some from"
    "st_CurrentOperation s \<noteq> []" "keeps_roles from target" "steps_ok oper target from"
  using assms
  by (auto simp: currentOperationState_def cluster_inv_def active_ok_def lookup_revision_def
      split: if_splits option.splits)

lemma steps_ok_put_step:
  assumes "steps_ok oper target from" and "mget (op_NodeSteps oper) nid = Some step"
    and "ns_Action step' = ns_Action step" and "ns_Phase step' \<in> insert StepComplete open_phases"
    and "op_NodeSteps oper' = mput nid step' (op_NodeSteps oper)"
  shows "steps_ok oper' target from"
proof -
  have ok: "gomap_ok (op_NodeSteps oper)" using assms(1) by (simp add: steps_ok_def)
  have "(nid, step) \<in> set (op_NodeSteps oper)" using assms(2) by (rule map_of_SomeD)
  note old = stepD [OF assms(1) this]
  have "ns_Phase st \<in> insert StepComplete open_phases \<and>
      (ns_Action st \<in> {NodeActionInstall, NodeActionCapabilities, NodeActionUpgrade} \<and>
         mget (rv_Nodes target) k \<noteq> None \<and> rev_role target k \<in> {RoleServer, RoleAgent} \<or>
       ns_Action st = NodeActionRemove \<and> mget (rv_Nodes from) k \<noteq> None)"
    if "(k, st) \<in> set (op_NodeSteps oper')" for k st
    using that old assms(3,4) stepD [OF assms(1), of k st]
    unfolding assms(5) mem_mput [OF ok] by (cases "k = nid") auto
  then show ?thesis using ok assms(5) unfolding steps_ok_def by (auto simp del: insert_iff)
qed

lemma steps_ok_cong: "op_NodeSteps oper' = op_NodeSteps oper \<Longrightarrow> steps_ok oper' target from = steps_ok oper target from"
  by (simp add: steps_ok_def)

lemma inv_nodes_ok: "cluster_inv s \<Longrightarrow> gomap_ok (st_Nodes s)"
  by (simp add: cluster_inv_def)

text \<open>Reports that only rewrite fields of the operation in flight.\<close>

lemma inv_put_operation:
  assumes "cluster_inv s" and "currentOperationState s = Inr (oper, target, from)"
    and "op_ID oper' = op_ID oper" "op_FromRevision oper' = op_FromRevision oper"
      "op_TargetRevision oper' = op_TargetRevision oper" "op_Phase oper' \<noteq> OperationComplete"
      "op_NodeSteps oper' = op_NodeSteps oper"
  shows "cluster_inv (put_operation oper' s)"
  by (rule inv_journal [OF assms(1) current_operation(1) [OF assms(1,2)], where oper' = oper'])
     (simp_all add: assms(3-) same_frame_def put_operation_def inv_nodes_ok [OF assms(1)]
       steps_ok_cong [OF assms(7)])

lemma active_phase:
  "cluster_inv s \<Longrightarrow> currentOperationState s = Inr (oper, target, from) \<Longrightarrow> op_Phase oper \<noteq> OperationComplete"
  by (drule (1) current_operation(2)) (simp add: active_ok_def)

lemma MarkEtcdSnapshot_inv:
  "cluster_inv s \<Longrightarrow> MarkEtcdSnapshot ok err now s = (Inr u, s') \<Longrightarrow> cluster_inv s'"
  by (cases ok)
     (auto simp: MarkEtcdSnapshot_def Let_def dest: active_phase intro!: inv_put_operation split: sum.splits)

lemma MarkTopologyActivated_inv:
  "cluster_inv s \<Longrightarrow> MarkTopologyActivated now s = (Inr u, s') \<Longrightarrow> cluster_inv s'"
  by (auto simp: MarkTopologyActivated_def intro!: inv_put_operation split: sum.splits)

lemma MarkUpgradePreflight_inv:
  "cluster_inv s \<Longrightarrow> MarkUpgradePreflight now s = (Inr u, s') \<Longrightarrow> cluster_inv s'"
  by (auto simp: MarkUpgradePreflight_def dest: active_phase intro!: inv_put_operation split: sum.splits)

lemma AdvancePlatform_inv:
  "cluster_inv s \<Longrightarrow> AdvancePlatform ok err now s = (Inr u, s') \<Longrightarrow> cluster_inv s'"
  by (auto simp: AdvancePlatform_def Let_def intro!: inv_put_operation split: sum.splits if_splits)

lemma AwaitPlatformInitialization_inv:
  "cluster_inv s \<Longrightarrow> AwaitPlatformInitialization now s = (Inr u, s') \<Longrightarrow> cluster_inv s'"
  by (auto simp: AwaitPlatformInitialization_def intro!: inv_put_operation split: sum.splits if_splits)

text \<open>Reports that move one step of the operation in flight.\<close>

lemma inv_move_step:
  assumes "cluster_inv s" and "mget (st_Operations s) (st_CurrentOperation s) = Some oper"
    and "mget (op_NodeSteps oper) nid = Some step"
    and "op_ID oper' = op_ID oper" "op_FromRevision oper' = op_FromRevision oper"
      "op_TargetRevision oper' = op_TargetRevision oper" "op_Phase oper' \<noteq> OperationComplete"
      "op_NodeSteps oper' = mput nid step' (op_NodeSteps oper)"
    and "ns_Action step' = ns_Action step" "ns_Phase step' \<in> insert StepComplete open_phases"
  shows "cluster_inv (put_operation oper' s)"
proof (rule inv_journal [OF assms(1,2), where oper' = oper'])
  show "steps_ok oper' target from" if "steps_ok oper target from" for target "from"
    using that assms(3,9,10,8) by (rule steps_ok_put_step)
qed (simp_all add: assms(4-8) same_frame_def put_operation_def inv_nodes_ok [OF assms(1)])

lemma inv_put_node: "cluster_inv s \<Longrightarrow> cluster_inv (put_node nid node s)"
  by (rule inv_same_frame [of s]) (simp_all add: same_frame_def put_node_def inv_nodes_ok)

lemma current_phase:
  assumes "cluster_inv s" and "mget (st_Operations s) (st_CurrentOperation s) = Some oper"
  shows "active_ok s oper" "op_Phase oper \<noteq> OperationComplete" "st_CurrentOperation s \<noteq> []"
proof -
  have "operations_ok (st_Operations s)" using assms(1) by (simp add: cluster_inv_def)
  from operations_okD(1) [OF this assms(2)] show "st_CurrentOperation s \<noteq> []" .
  with assms show "active_ok s oper" by (simp add: cluster_inv_def)
  then show "op_Phase oper \<noteq> OperationComplete" by (simp add: active_ok_def)
qed

lemma current_step_phase:
  assumes "cluster_inv s" and "mget (st_Operations s) (st_CurrentOperation s) = Some oper"
    and "mget (op_NodeSteps oper) nid = Some step"
  shows "ns_Phase step \<in> insert StepComplete open_phases"
proof -
  obtain target "from" where "steps_ok oper target from"
    using current_phase(1) [OF assms(1,2)] by (auto simp: active_ok_def)
  from stepD [OF this map_of_SomeD [OF assms(3)]] show ?thesis by blast
qed

lemma phaseForAction_open: "phaseForAction action \<noteq> OperationComplete"
  by (simp add: phaseForAction_def)

lemma MarkNodeRemovalPrepared_inv:
  assumes "cluster_inv s" and "MarkNodeRemovalPrepared nid now s = (Inr u, s')"
  shows "cluster_inv s'"
proof -
  from assms(2) obtain oper step where
    o: "mget (st_Operations s) (st_CurrentOperation s) = Some oper" "mget (op_NodeSteps oper) nid = Some step"
    by (auto simp: MarkNodeRemovalPrepared_def split: option.splits if_splits)
  let ?step = "step\<lparr>ns_ClusterPrepared := True, ns_LastError := [], ns_UpdatedAt := truncate_s now\<rparr>"
  from assms(2) o obtain node where
    "s' = put_node nid node (put_operation ((put_step nid ?step oper)
       \<lparr>op_Phase := OperationRemoving, op_UpdatedAt := truncate_s now\<rparr>) s)"
    by (auto simp: MarkNodeRemovalPrepared_def Let_def split: if_splits)
  then show ?thesis
    using current_step_phase [OF assms(1) o]
    by (auto intro!: inv_put_node inv_move_step [OF assms(1) o, where step' = ?step] simp: put_step_def)
qed

lemma StartNodeAction_inv:
  assumes "cluster_inv s" and "StartNodeAction nid attempt now s = (Inr u, s')"
  shows "cluster_inv s'"
proof -
  from assms(2) obtain oper step where
    o: "mget (st_Operations s) (st_CurrentOperation s) = Some oper" "mget (op_NodeSteps oper) nid = Some step"
    by (auto simp: StartNodeAction_def split: option.splits if_splits)
  let ?step = "step\<lparr>ns_Phase := StepRunning,
     ns_AttemptID := (if ns_AttemptID step = [] \<or> ns_Phase step = StepFailed then attempt else ns_AttemptID step),
     ns_LastError := [], ns_UpdatedAt := truncate_s now\<rparr>"
  let ?oper = "(put_step nid ?step oper)\<lparr>op_UpdatedAt := truncate_s now, op_Phase := phaseForAction (ns_Action step)\<rparr>"
  from assms(2) o obtain node where
    "s' \<in> {s, put_operation ?oper s, put_node nid node (put_operation ?oper s)}"
    by (auto simp: StartNodeAction_def Let_def split: if_splits)
  moreover have "cluster_inv (put_operation ?oper s)"
    by (rule inv_move_step [OF assms(1) o, where step' = ?step]) (simp_all add: put_step_def phaseForAction_open)
  ultimately show ?thesis using assms(1) inv_put_node by auto
qed

lemma CompleteNodeAction_inv:
  assumes "cluster_inv s" and "CompleteNodeAction nid attempt ok err now s = (Inr u, s')"
  shows "cluster_inv s'"
proof -
  from assms(2) obtain oper step where
    o: "mget (st_Operations s) (st_CurrentOperation s) = Some oper" "mget (op_NodeSteps oper) nid = Some step"
    by (auto simp: CompleteNodeAction_def split: option.splits if_splits)
  let ?step = "(if ok then step\<lparr>ns_Phase := StepComplete, ns_LastError := []\<rparr>
     else step\<lparr>ns_Phase := StepFailed, ns_LastError := err\<rparr>)\<lparr>ns_UpdatedAt := truncate_s now\<rparr>"
  let ?oper = "(put_step nid ?step (if ok then oper
     else oper\<lparr>op_LastError := err, op_Phase := OperationFailed\<rparr>))\<lparr>op_UpdatedAt := truncate_s now\<rparr>"
  from assms(2) o obtain node where "s' = put_node nid node (put_operation ?oper s)"
    by (auto simp: CompleteNodeAction_def Let_def split: if_splits)
  moreover have "cluster_inv (put_operation ?oper s)"
    using current_phase(2) [OF assms(1) o(1)]
    by (intro inv_move_step [OF assms(1) o, where step' = ?step]) (simp_all add: put_step_def)
  ultimately show ?thesis using inv_put_node by simp
qed

lemma CompleteNodeCleanup_inv:
  "cluster_inv s \<Longrightarrow> CompleteNodeCleanup nid now s = (Inr u, s') \<Longrightarrow> cluster_inv s'"
  by (auto simp: CompleteNodeCleanup_def intro: inv_put_node split: option.splits if_splits)

lemma FailOperation_inv:
  assumes "cluster_inv s" and "FailOperation err now s = (Inr u, s')"
  shows "cluster_inv s'"
proof (cases "s' = s")
  case False
  with assms(2) obtain oper where o: "mget (st_Operations s) (st_CurrentOperation s) = Some oper"
    and s': "s' = put_operation (oper\<lparr>op_Phase := OperationFailed, op_LastError := err,
                   op_UpdatedAt := truncate_s now\<rparr>) s" (is "_ = put_operation ?oper s")
    by (auto simp: FailOperation_def split: if_splits option.splits)
  show ?thesis
    unfolding s'
    by (rule inv_journal [OF assms(1) o, where oper' = ?oper])
       (simp_all add: same_frame_def put_operation_def inv_nodes_ok [OF assms(1)] steps_ok_def)
qed (simp add: assms(1))

lemma CompleteOperation_Inr:
  assumes "CompleteOperation now s = (Inr u, s')"
  obtains oper target "from" oper' where "currentOperationState s = Inr (oper, target, from)"
    "list_all (\<lambda>step. ns_Phase step = StepComplete) (mvals (op_NodeSteps oper))"
    "op_ID oper' = op_ID oper" "op_Phase oper' = OperationComplete" "op_NodeSteps oper' = op_NodeSteps oper"
    "s' = s\<lparr>st_Operations := mput (op_ID oper) oper' (st_Operations s), st_ConvergedRevision := rv_ID target,
       st_Platform := rv_Platform target, st_TargetRevision := [], st_CurrentOperation := [],
       st_UpdatedAt := truncate_s now\<rparr>"
proof -
  from assms obtain oper target "from" where c: "currentOperationState s = Inr (oper, target, from)"
    and a: "\<not> list_ex (\<lambda>step. ns_Phase step \<noteq> StepComplete) (mvals (op_NodeSteps oper))"
    by (auto simp: CompleteOperation_def split: sum.splits if_splits)
  show ?thesis
    using assms c a
    by (intro that [of oper target "from" "oper\<lparr>op_Phase := OperationComplete, op_LastError := [],
          op_UpdatedAt := truncate_s now, op_CompletedAt := truncate_s now\<rparr>"])
       (auto simp: CompleteOperation_def Let_def put_operation_def list_ex_iff list_all_iff split: if_splits)
qed

lemma CompleteOperation_inv:
  assumes "cluster_inv s" and "CompleteOperation now s = (Inr u, s')"
  shows "cluster_inv s'"
  using assms(2)
proof (rule CompleteOperation_Inr)
  fix oper target "from" oper'
  assume c: "currentOperationState s = Inr (oper, target, from)" and o: "op_ID oper' = op_ID oper"
    and s': "s' = s\<lparr>st_Operations := mput (op_ID oper) oper' (st_Operations s), st_ConvergedRevision := rv_ID target,
       st_Platform := rv_Platform target, st_TargetRevision := [], st_CurrentOperation := [],
       st_UpdatedAt := truncate_s now\<rparr>"
  have revs: "revisions_ok (st_Revisions s)" and ops: "operations_ok (st_Operations s)"
    using assms(1) by (simp_all add: cluster_inv_def)
  have "rv_ID target = st_TargetRevision s"
    by (rule revisions_okD(2) [OF revs current_operation(3) [OF assms(1) c]])
  moreover have "operations_ok (mput (op_ID oper) oper' (st_Operations s))"
    using operations_okD [OF ops current_operation(1) [OF assms(1) c]] o by (intro operations_ok_mput [OF ops]) auto
  ultimately show ?thesis
    using assms(1) current_operation(3) [OF assms(1) c] by (simp add: cluster_inv_def s')
qed

section \<open>Edits and freezing keep the invariant\<close>

definition edit_ok :: "'r candidate_edit \<Rightarrow> bool" where
  "edit_ok edit \<longleftrightarrow>
     (\<forall>s nodes platform nodes' platform' r s'. gomap_ok nodes \<longrightarrow> gomap_ok (st_Nodes s) \<longrightarrow>
        edit s nodes platform = (Inr (nodes', platform', r), s') \<longrightarrow>
        gomap_ok nodes' \<and> (\<exists>m. gomap_ok m \<and> s' = s\<lparr>st_Nodes := m\<rparr>))"

definition fresh_revision :: "string \<Rightarrow> State \<Rightarrow> bool" where
  "fresh_revision rid s \<longleftrightarrow> rid \<noteq> [] \<and> mget (st_Revisions s) rid = None"

definition fresh_operation :: "string \<Rightarrow> State \<Rightarrow> bool" where
  "fresh_operation oid s \<longleftrightarrow> oid \<noteq> [] \<and> mget (st_Operations s) oid = None"

lemma EditCandidate_effect:
  assumes "cluster_inv s" and "edit_ok edit"
    and "EditCandidate rid now edit s = (Inr (revision, r), s')"
  obtains m base nodes platform where "gomap_ok m" "gomap_ok (rv_Nodes revision)"
    "valid_revision (rv_Nodes revision) (rv_Platform revision)" "rv_ID revision = rid"
    "s' = s\<lparr>st_Sequence := wrap64 (st_Sequence s + 1), st_Nodes := m,
       st_Revisions := mput rid revision (st_Revisions s), st_CandidateRevision := rid,
       st_UpdatedAt := truncate_s now\<rparr>"
    "mget (st_Revisions s) (candidate_base s) = Some base"
    "edit s (rv_Nodes base) (rv_Platform base) = (Inr (rv_Nodes revision, rv_Platform revision, r), s\<lparr>st_Nodes := m\<rparr>)"
  using assms(3)
proof (rule EditCandidate_Inr)
  fix base nodes platform s1
  assume base: "mget (st_Revisions s) (if st_TargetRevision s \<noteq> [] \<and> st_CandidateRevision s = st_ConvergedRevision s
       then st_TargetRevision s else st_CandidateRevision s) = Some base"
    and edit: "edit s (rv_Nodes base) (rv_Platform base) = (Inr (nodes, platform, r), s1)"
    and rest: "valid_revision nodes platform"
      "revision = \<lparr>rv_ID = rid, rv_Parent = rv_ID base, rv_Sequence = wrap64 (st_Sequence s1 + 1),
         rv_Nodes = nodes, rv_Platform = platform, rv_CreatedAt = truncate_s now\<rparr>"
      "s' = s1\<lparr>st_Sequence := wrap64 (st_Sequence s1 + 1),
         st_Revisions := mput rid revision (st_Revisions s1),
         st_CandidateRevision := rid, st_UpdatedAt := truncate_s now\<rparr>"
  have "gomap_ok (rv_Nodes base)"
    using base assms(1) by (auto simp: cluster_inv_def dest: revisions_okD)
  with edit assms(1,2) obtain m where "gomap_ok nodes" "gomap_ok m" "s1 = s\<lparr>st_Nodes := m\<rparr>"
    unfolding edit_ok_def by (blast dest: inv_nodes_ok)
  then show thesis
    using rest base edit by (intro that [of m base]) (simp_all add: candidate_base_def)
qed

lemma active_ok_mono:
  assumes "active_ok s oper" and "st_TargetRevision t = st_TargetRevision s"
    and "st_ConvergedRevision t = st_ConvergedRevision s"
    and "\<And>k v. mget (st_Revisions s) k = Some v \<Longrightarrow> mget (st_Revisions t) k = Some v"
  shows "active_ok t oper"
  using assms unfolding active_ok_def by metis

lemma EditCandidate_inv:
  assumes "cluster_inv s" and "edit_ok edit" and "fresh_revision rid s"
    and "EditCandidate rid now edit s = (Inr (revision, r), s')"
  shows "cluster_inv s'"
  using assms(1,2,4)
proof (rule EditCandidate_effect)
  fix m
  assume m: "gomap_ok m" "gomap_ok (rv_Nodes revision)" "rv_ID revision = rid"
     "valid_revision (rv_Nodes revision) (rv_Platform revision)"
    and s': "s' = s\<lparr>st_Sequence := wrap64 (st_Sequence s + 1), st_Nodes := m,
       st_Revisions := mput rid revision (st_Revisions s), st_CandidateRevision := rid,
       st_UpdatedAt := truncate_s now\<rparr>"
  have fresh: "mget (st_Revisions s) k = Some v \<Longrightarrow> mget (st_Revisions s') k = Some v" for k v
    using assms(3) by (auto simp: s' fresh_revision_def)
  have "revisions_ok (st_Revisions s')"
    using assms(1,3) m by (auto simp: s' cluster_inv_def fresh_revision_def intro!: revisions_ok_mput)
  moreover have "active_ok s' oper" if "active_ok s oper" for oper
    using that by (rule active_ok_mono) (simp_all add: fresh, simp_all add: s')
  moreover have "mget (st_Revisions s') (st_ConvergedRevision s') \<noteq> None"
    using assms(1) fresh by (auto simp: cluster_inv_def s')
  ultimately show ?thesis
    using assms(1) m(1) unfolding cluster_inv_def by (auto simp: s' split: if_splits)
qed

lemma gomap_ok_plan_steps: "gomap_ok steps \<Longrightarrow> gomap_ok (plan_steps now steps actions)"
  by (induction actions arbitrary: steps) (auto split: option.splits)

lemma plan_steps_mem:
  assumes "gomap_ok steps" and "(nid, step) \<in> set (plan_steps now steps actions)"
  shows "(nid, step) \<in> set steps \<or>
    (\<exists>a \<in> set actions. step_action (ac_Kind a) = Some (ns_Action step) \<and> ac_NodeID a = nid \<and>
       ns_Phase step = StepPending)"
  using assms
proof (induction actions arbitrary: steps)
  case (Cons a actions)
  show ?case
  proof (cases "step_action (ac_Kind a)")
    case None
    then show ?thesis using Cons by auto
  next
    case (Some act)
    with Cons.prems have "(nid, step) \<in> set (plan_steps now (mput (ac_NodeID a)
        (zero_step\<lparr>ns_Action := act, ns_Phase := StepPending, ns_UpdatedAt := now\<rparr>) steps) actions)" by simp
    from Cons.IH [OF _ this] Cons.prems(1) Some show ?thesis
      by (auto simp: mem_mput split: if_splits)
  qed
qed simp

lemma step_action_kinds:
  "step_action k = Some NodeActionRemove \<longleftrightarrow> k \<in> {ActionRemoveAgent, ActionRemoveServer}"
  "step_action k = Some a \<Longrightarrow> a \<noteq> NodeActionRemove \<Longrightarrow>
     k \<in> {ActionAddServer, ActionAddAgent, ActionChangeCapabilities, ActionUpgradeNode} \<and>
     a \<in> {NodeActionInstall, NodeActionCapabilities, NodeActionUpgrade}"
  by (cases k; auto simp: step_action_def)+

lemma planned_in_target:
  assumes "gomap_ok (rv_Nodes target)" "rnodes_ok (rv_Nodes target)"
    and "a \<in> set (pl_Actions (expected_plan s from target r))" and "ac_NodeID a = nid"
    and "ac_Kind a \<in> {ActionAddServer, ActionAddAgent, ActionChangeCapabilities, ActionUpgradeNode}"
  shows "mget (rv_Nodes target) nid \<noteq> None"
proof (cases "ac_Kind a = ActionUpgradeNode")
  case True
  with assms(3,4) have "planned (expected_plan s from target r) {ActionUpgradeNode} nid"
    by (auto simp: planned_def)
  then show ?thesis
    unfolding planned_upgrades upgrades_part_ex [OF assms(1,2)] using rnodes_get [OF assms(2)] by auto
next
  case False
  let ?kinds = "{ActionAddServer, ActionAddAgent, ActionChangeCapabilities, ActionMoveWorkloads}"
  from False assms(3-5) have "planned (expected_plan s from target r) ?kinds nid"
    by (auto simp: planned_def)
  then obtain k n b where "mget (rv_Nodes target) k = Some n"
      "b \<in> set (node_actions (rv_Nodes from) n)" "ac_NodeID b = nid"
    unfolding planned_additions [OF order_refl] additions_part_ex [OF assms(1)] by blast
  moreover from this have "k = nid" using node_actions_id rnodes_get [OF assms(2)] by metis
  ultimately show ?thesis by simp
qed

lemma rev_role_known:
  assumes "rnodes_ok (rv_Nodes r)" and "mget (rv_Nodes r) nid \<noteq> None"
  shows "rev_role r nid \<in> {RoleServer, RoleAgent}"
proof -
  from assms(2) obtain n where n: "mget (rv_Nodes r) nid = Some n" by auto
  from map_of_SomeD [OF n] assms(1) have "rn_Role n \<in> {RoleServer, RoleAgent}"
    unfolding rnodes_ok_def rnode_ok_def by blast
  with n show ?thesis by (simp add: rev_role_def)
qed

lemma frozen_steps_ok:
  assumes "BuildPlan s from target rebalance = Inr p"
    and "gomap_ok (rv_Nodes target)" "gomap_ok (rv_Nodes from)" "rnodes_ok (rv_Nodes from)"
    and "op_NodeSteps oper = plan_steps now [] (pl_Actions p)"
  shows "steps_ok oper target from"
proof -
  from assms(1) have ok: "rnodes_ok (rv_Nodes target)" and p: "p = expected_plan s from target rebalance"
    by (simp_all add: BuildPlan_iff valid_revision_def)
  note role = rev_role_known [OF ok]
  have step: "ns_Phase step \<in> insert StepComplete open_phases \<and>
        (ns_Action step \<in> {NodeActionInstall, NodeActionCapabilities, NodeActionUpgrade} \<and>
           mget (rv_Nodes target) nid \<noteq> None \<and> rev_role target nid \<in> {RoleServer, RoleAgent} \<or>
         ns_Action step = NodeActionRemove \<and> mget (rv_Nodes from) nid \<noteq> None)"
    if mem: "(nid, step) \<in> set (op_NodeSteps oper)" for nid step
  proof -
    from plan_steps_mem [OF gomap_ok_Nil mem [unfolded assms(5)]] obtain a where
      a: "a \<in> set (pl_Actions p)" "step_action (ac_Kind a) = Some (ns_Action step)" "ac_NodeID a = nid"
      and ph: "ns_Phase step = StepPending" by auto
    show ?thesis
    proof (cases "ns_Action step = NodeActionRemove")
      case True
      with a have "planned p {ActionRemoveAgent, ActionRemoveServer} nid"
        by (auto simp: planned_def step_action_kinds)
      then show ?thesis
        unfolding p planned_removals removals_ex [OF assms(3,4)] using True ph rnodes_get [OF assms(4)] by auto
    next
      case False
      note k = step_action_kinds(2) [OF a(2) False]
      have "mget (rv_Nodes target) nid \<noteq> None"
        using a(1,3) k unfolding p by (intro planned_in_target [OF assms(2) ok]) auto
      then show ?thesis using role k ph by blast
    qed
  qed
  then show ?thesis using assms(5) gomap_ok_plan_steps [OF gomap_ok_Nil] unfolding steps_ok_def by auto
qed

lemma inv_revision:
  assumes "cluster_inv s" and "mget (st_Revisions s) rid = Some r"
  shows "rv_ID r = rid" "rid \<noteq> []" "gomap_ok (rv_Nodes r)" "rnodes_ok (rv_Nodes r)"
    "valid_revision (rv_Nodes r) (rv_Platform r)"
  using assms revisions_okD [of "st_Revisions s" rid r] by (auto simp: cluster_inv_def valid_revision_def)

text \<open>Recording a new operation from the converged to a newly targeted revision.\<close>

lemma inv_new_operation:
  assumes "cluster_inv s" and "st_CurrentOperation s = []" and "fresh_operation oid s"
    and "mget (st_Revisions s) (st_ConvergedRevision s) = Some from"
    and "mget (st_Revisions s) (rv_ID target) = Some target"
    and "op_ID oper = oid" "op_FromRevision oper = rv_ID from" "op_TargetRevision oper = rv_ID target"
      "op_Phase oper \<noteq> OperationComplete"
    and "keeps_roles from target" "steps_ok oper target from"
    and "st_Operations t = mput oid oper (st_Operations s)" "st_CurrentOperation t = oid"
      "st_TargetRevision t = rv_ID target" "st_Revisions t = st_Revisions s"
      "st_ConvergedRevision t = st_ConvergedRevision s" "st_CandidateRevision t = st_CandidateRevision s"
      "gomap_ok (st_Nodes t)"
  shows "cluster_inv t"
proof -
  have "rv_ID from = st_ConvergedRevision s" by (rule inv_revision(1) [OF assms(1,4)])
  then have "active_ok t oper"
    unfolding active_ok_def using assms(4-11,14-16) by simp
  moreover have "operations_ok (st_Operations t)"
    using assms(1,3,6,12) by (auto simp: cluster_inv_def fresh_operation_def intro!: operations_ok_mput)
  ultimately show ?thesis
    using assms(1,3,12-18) by (simp add: cluster_inv_def fresh_operation_def)
qed

lemma start_operation_effect:
  assumes "start_operation oid rebalance now s = (Inr (plan, oper), s')" and "\<not> Empty plan"
  obtains "from" target where "mget (st_Revisions s) (st_ConvergedRevision s) = Some from"
    "mget (st_Revisions s) (st_CandidateRevision s) = Some target"
    "BuildPlan s from target rebalance = Inr plan"
    "oper = zero_operation\<lparr>op_ID := oid, op_FromRevision := rv_ID from,
       op_TargetRevision := rv_ID target, op_Phase := OperationPending, op_RebalanceWorkloads := rebalance,
       op_NodeSteps := plan_steps (truncate_s now) [] (pl_Actions plan),
       op_StartedAt := truncate_s now, op_UpdatedAt := truncate_s now\<rparr>"
    "s' = (put_operation oper s)\<lparr>st_TargetRevision := rv_ID target, st_CurrentOperation := oid,
       st_UpdatedAt := truncate_s now\<rparr>"
proof -
  from assms(1) obtain "from" target where f: "Converged s = Inr from" and t: "Candidate s = Inr target"
    and p: "BuildPlan s from target rebalance = Inr plan"
    by (auto simp: start_operation_def Let_def split: sum.splits if_splits)
  have "mget (st_Revisions s) (st_ConvergedRevision s) = Some from"
    "mget (st_Revisions s) (st_CandidateRevision s) = Some target"
    using f t by (auto simp: Converged_def Candidate_def lookup_revision_def split: option.splits)
  moreover note p
  ultimately show ?thesis
    by (rule that) (use assms in \<open>auto simp: start_operation_def f t p Let_def\<close>)
qed

lemma start_operation_nothing:
  "start_operation oid rebalance now s = (Inr (plan, oper), s') \<Longrightarrow> Empty plan \<Longrightarrow> s' = s"
  by (auto simp: start_operation_def Let_def split: sum.splits if_splits)

lemma start_operation_inv:
  assumes "cluster_inv s" and "st_CurrentOperation s = []" and "fresh_operation oid s"
    and start: "start_operation oid rebalance now s = (Inr (plan, oper), s')"
  shows "cluster_inv s'"
proof (cases "Empty plan")
  case True
  then show ?thesis using start_operation_nothing [OF start] assms(1) by simp
next
  case False
  from start False show ?thesis
  proof (rule start_operation_effect)
    fix "from" target
    assume f: "mget (st_Revisions s) (st_ConvergedRevision s) = Some from"
      and t: "mget (st_Revisions s) (st_CandidateRevision s) = Some target"
      and p: "BuildPlan s from target rebalance = Inr plan"
      and oper: "oper = zero_operation\<lparr>op_ID := oid, op_FromRevision := rv_ID from,
         op_TargetRevision := rv_ID target, op_Phase := OperationPending, op_RebalanceWorkloads := rebalance,
         op_NodeSteps := plan_steps (truncate_s now) [] (pl_Actions plan),
         op_StartedAt := truncate_s now, op_UpdatedAt := truncate_s now\<rparr>"
      and s': "s' = (put_operation oper s)\<lparr>st_TargetRevision := rv_ID target, st_CurrentOperation := oid,
         st_UpdatedAt := truncate_s now\<rparr>"
    note fr = inv_revision [OF assms(1) f] and tr = inv_revision [OF assms(1) t]
    have "steps_ok oper target from"
      by (rule frozen_steps_ok [OF p tr(3) fr(3,4)]) (simp add: oper)
    moreover have "keeps_roles from target" using p by (simp add: BuildPlan_iff)
    ultimately show ?thesis
      by (intro inv_new_operation [OF assms(1,2,3) f, of target oper])
         (simp_all add: s' oper tr(1) t put_operation_def inv_nodes_ok [OF assms(1)])
  qed
qed

lemma resume_operation_effect:
  assumes "resume_operation oper now s = (Inr (plan, oper'), s')"
  shows "s' = s \<and> oper' = oper \<or> s' = put_operation oper' s \<and>
     oper' = oper\<lparr>op_Phase := OperationPending, op_LastError := [], op_UpdatedAt := truncate_s now\<rparr>"
  using assms by (auto simp: resume_operation_def Let_def split: sum.splits if_splits)

lemma FreezeCandidate_inv:
  assumes "cluster_inv s" and "fresh_operation oid s"
    and "FreezeCandidate oid rebalance now s = (Inr (plan, oper), s')"
  shows "cluster_inv s'"
proof (cases "st_CurrentOperation s = []")
  case True
  then show ?thesis using assms start_operation_inv by (auto simp: FreezeCandidate_def)
next
  case False
  then obtain cur where cur: "mget (st_Operations s) (st_CurrentOperation s) = Some cur"
    using assms(1) by (auto simp: cluster_inv_def)
  then have "resume_operation cur now s = (Inr (plan, oper), s')"
    using assms(3) False current_phase(2) [OF assms(1) cur] by (simp add: FreezeCandidate_def)
  from resume_operation_effect [OF this] show ?thesis
  proof (elim disjE conjE)
    assume s': "s' = put_operation oper s"
      and o: "oper = cur\<lparr>op_Phase := OperationPending, op_LastError := [], op_UpdatedAt := truncate_s now\<rparr>"
    show ?thesis
      unfolding s'
      by (rule inv_journal [OF assms(1) cur, where oper' = oper])
         (simp_all add: o same_frame_def put_operation_def inv_nodes_ok [OF assms(1)] steps_ok_def)
  qed (simp add: assms(1))
qed

lemma nodes_frame_refl: "gomap_ok (st_Nodes s) \<Longrightarrow> \<exists>m. gomap_ok m \<and> s = s\<lparr>st_Nodes := m\<rparr>"
  by (rule exI [of _ "st_Nodes s"]) simp

lemma version_edit_ok: "edit_ok (version_edit v)"
  unfolding edit_ok_def version_edit_def by (auto intro: nodes_frame_refl)

lemma RequestPlatformVersion_inv:
  assumes "cluster_inv s" and "fresh_revision rid s" and "fresh_operation oid s"
    and "RequestPlatformVersion rid oid target now s = (Inr (plan, oper), s')"
  shows "cluster_inv s'"
proof -
  from assms(4) obtain revision s1 where e: "EditCandidate rid now (version_edit target) s = (Inr (revision, ()), s1)"
    and f: "FreezeCandidate oid False now s1 = (Inr (plan, oper), s')"
    by (auto simp: RequestPlatformVersion_def split: if_splits sum.splits prod.splits)
  have "cluster_inv s1" by (rule EditCandidate_inv [OF assms(1) version_edit_ok assms(2) e])
  moreover have "fresh_operation oid s1"
    using assms(1) version_edit_ok e
    by (rule EditCandidate_effect) (use assms(3) in \<open>simp add: fresh_operation_def\<close>)
  ultimately show ?thesis using f by (rule FreezeCandidate_inv)
qed
lemma RequestRelease_effect:
  assumes "RequestRelease rid oid target now s = (Inr oper, s')"
  obtains "from" revision s1 where "st_CurrentOperation s = []" "Converged s = Inr from"
    "EditCandidate rid now (version_edit target) s = (Inr (revision, ()), s1)"
    "oper = zero_operation\<lparr>op_ID := oid, op_FromRevision := rv_ID from,
       op_TargetRevision := rv_ID revision, op_Phase := OperationPending, op_StartedAt := now, op_UpdatedAt := now,
       op_NodeSteps := foldl (\<lambda>steps nid. mput nid
         (zero_step\<lparr>ns_Action := NodeActionUpgrade, ns_Phase := StepPending, ns_UpdatedAt := now\<rparr>) steps)
         [] (mkeys (rv_Nodes revision))\<rparr>"
    "s' = (put_operation oper s1)\<lparr>st_Updates := (st_Updates s1)\<lparr>uj_Operations :=
         mput oid \<lparr>ru_Version = target, ru_K3s = []\<rparr> (uj_Operations (st_Updates s1))\<rparr>,
       st_CurrentOperation := oid, st_TargetRevision := rv_ID revision\<rparr>"
    "release_fits s target (rv_Nodes from) = Inr ()" "IsRelease target"
    "ps_Version (rv_Platform from) = [] \<or> \<not> Older target (ps_Version (rv_Platform from))"
  using assms
  by (auto simp: RequestRelease_def Updatable_def Let_def split: if_splits sum.splits prod.splits)

lemma foldl_upgrade_steps:
  "(k, step) \<in> set (foldl (\<lambda>steps nid. mput nid st steps) [] ids) \<Longrightarrow> k \<in> set ids \<and> step = st"
  "gomap_ok (foldl (\<lambda>steps nid. mput nid st steps) [] ids)"
  by (induction ids rule: rev_induct) (auto simp: mem_mput split: if_splits)

lemma same_nodes_keep_roles:
  "rv_Nodes target = rv_Nodes from \<Longrightarrow> gomap_ok (rv_Nodes from) \<Longrightarrow> rnodes_ok (rv_Nodes from) \<Longrightarrow>
   keeps_roles from target"
  unfolding keeps_roles_def using rnodes_get by (fastforce simp: mvals_mem simp del: set_map)

lemma steps_okI:
  assumes "gomap_ok (op_NodeSteps oper)"
    and "\<And>nid step. (nid, step) \<in> set (op_NodeSteps oper) \<Longrightarrow>
      ns_Phase step \<in> insert StepComplete open_phases \<and>
      (ns_Action step \<in> {NodeActionInstall, NodeActionCapabilities, NodeActionUpgrade} \<and>
         mget (rv_Nodes target) nid \<noteq> None \<and> rev_role target nid \<in> {RoleServer, RoleAgent} \<or>
       ns_Action step = NodeActionRemove \<and> mget (rv_Nodes from) nid \<noteq> None)"
  shows "steps_ok oper target from"
  using assms unfolding steps_ok_def by blast

lemma upgrade_steps_ok:
  assumes "rnodes_ok (rv_Nodes r)" and "ns_Action st = NodeActionUpgrade" "ns_Phase st = StepPending"
    and "op_NodeSteps oper = foldl (\<lambda>steps nid. mput nid st steps) [] (mkeys (rv_Nodes r))"
  shows "steps_ok oper r from"
proof (rule steps_okI)
  show "gomap_ok (op_NodeSteps oper)" unfolding assms(4) by (rule foldl_upgrade_steps(2))
  fix nid step assume "(nid, step) \<in> set (op_NodeSteps oper)"
  then have k: "nid \<in> set (mkeys (rv_Nodes r))" and "step = st"
    using foldl_upgrade_steps(1) unfolding assms(4) by force+
  moreover from k have "mget (rv_Nodes r) nid \<noteq> None" by (simp add: map_of_eq_None_iff)
  ultimately show "ns_Phase step \<in> insert StepComplete open_phases \<and>
      (ns_Action step \<in> {NodeActionInstall, NodeActionCapabilities, NodeActionUpgrade} \<and>
         mget (rv_Nodes r) nid \<noteq> None \<and> rev_role r nid \<in> {RoleServer, RoleAgent} \<or>
       ns_Action step = NodeActionRemove \<and> mget (rv_Nodes from) nid \<noteq> None)"
    using rev_role_known [OF assms(1)] assms(2,3) by auto
qed

lemma steps_ok_map:
  assumes "steps_ok oper target from"
    and "op_NodeSteps oper' = map (\<lambda>(nid, step). (nid, f nid step)) (op_NodeSteps oper)"
    and "\<And>nid step. ns_Action (f nid step) = ns_Action step"
    and "\<And>nid step. ns_Phase (f nid step) \<in> {ns_Phase step, StepPending}"
  shows "steps_ok oper' target from"
proof -
  have "ns_Phase step \<in> insert StepComplete open_phases \<and>
        (ns_Action step \<in> {NodeActionInstall, NodeActionCapabilities, NodeActionUpgrade} \<and>
           mget (rv_Nodes target) nid \<noteq> None \<and> rev_role target nid \<in> {RoleServer, RoleAgent} \<or>
         ns_Action step = NodeActionRemove \<and> mget (rv_Nodes from) nid \<noteq> None)"
    if mem: "(nid, step) \<in> set (op_NodeSteps oper')" for nid step
  proof -
    from mem obtain old where "(nid, old) \<in> set (op_NodeSteps oper)" and "step = f nid old"
      unfolding assms(2) by auto
    then show ?thesis using stepD [OF assms(1), of nid old] assms(3) [of nid old] assms(4) [of nid old] by auto
  qed
  moreover have "gomap_ok (op_NodeSteps oper')"
    using assms(1) unfolding steps_ok_def gomap_ok_def assms(2) mkeys_map_values by blast
  ultimately show ?thesis unfolding steps_ok_def by blast
qed

text \<open>The document between the edit and the new operation of a release request.\<close>

lemma RequestRelease_edit:
  assumes "cluster_inv s" and "fresh_revision rid s" and "st_CurrentOperation s = []"
    and "st_CandidateRevision s = st_ConvergedRevision s" and "Converged s = Inr from"
    and e: "EditCandidate rid now (version_edit version) s = (Inr (revision, ()), s1)"
  shows "cluster_inv s1" "st_CurrentOperation s1 = []" "st_Operations s1 = st_Operations s"
    "mget (st_Revisions s1) (st_ConvergedRevision s1) = Some from"
    "mget (st_Revisions s1) (rv_ID revision) = Some revision"
    "rv_Nodes revision = rv_Nodes from" "rv_Platform revision = (rv_Platform from)\<lparr>ps_Version := version\<rparr>"
    "gomap_ok (rv_Nodes from)" "rnodes_ok (rv_Nodes from)"
proof -
  show "cluster_inv s1" by (rule EditCandidate_inv [OF assms(1) version_edit_ok assms(2) e])
  have tgt: "st_TargetRevision s = []" using assms(1,3) by (simp add: cluster_inv_def)
  have f: "mget (st_Revisions s) (st_ConvergedRevision s) = Some from"
    using assms(5) by (auto simp: Converged_def lookup_revision_def split: option.splits)
  show "gomap_ok (rv_Nodes from)" "rnodes_ok (rv_Nodes from)" by (rule inv_revision(3,4) [OF assms(1) f])+
  from assms(1) version_edit_ok e obtain m base where rid: "rv_ID revision = rid"
    and s1: "s1 = s\<lparr>st_Sequence := wrap64 (st_Sequence s + 1), st_Nodes := m,
      st_Revisions := mput rid revision (st_Revisions s), st_CandidateRevision := rid,
      st_UpdatedAt := truncate_s now\<rparr>"
    and base: "mget (st_Revisions s) (candidate_base s) = Some base"
    and ed: "version_edit version s (rv_Nodes base) (rv_Platform base) =
      (Inr (rv_Nodes revision, rv_Platform revision, ()), s\<lparr>st_Nodes := m\<rparr>)"
    by (rule EditCandidate_effect)
  show "st_CurrentOperation s1 = []" "st_Operations s1 = st_Operations s" by (simp_all add: s1 assms(3))
  show "mget (st_Revisions s1) (st_ConvergedRevision s1) = Some from"
    using f assms(2) by (auto simp: s1 fresh_revision_def)
  show "mget (st_Revisions s1) (rv_ID revision) = Some revision" by (simp add: s1 rid)
  have "base = from" using base f tgt assms(4) by (simp add: candidate_base_def)
  then show "rv_Nodes revision = rv_Nodes from"
    "rv_Platform revision = (rv_Platform from)\<lparr>ps_Version := version\<rparr>"
    using ed by (simp_all add: version_edit_def)
qed

lemma RequestRelease_settled:
  "RequestRelease rid oid version now s = (Inr oper, t) \<Longrightarrow> st_CandidateRevision s = st_ConvergedRevision s"
  by (auto simp: RequestRelease_def Updatable_def split: if_splits sum.splits)

lemma RequestRelease_inv:
  assumes "cluster_inv s" and "fresh_revision rid s" and "fresh_operation oid s"
    and req: "RequestRelease rid oid version now s = (Inr oper, s')"
  shows "cluster_inv s'"
  using req
proof (rule RequestRelease_effect)
  fix "from" revision s1
  assume cur: "st_CurrentOperation s = []" and conv: "Converged s = Inr from"
    and e: "EditCandidate rid now (version_edit version) s = (Inr (revision, ()), s1)"
    and o: "oper = zero_operation\<lparr>op_ID := oid, op_FromRevision := rv_ID from,
       op_TargetRevision := rv_ID revision, op_Phase := OperationPending, op_StartedAt := now, op_UpdatedAt := now,
       op_NodeSteps := foldl (\<lambda>steps nid. mput nid
         (zero_step\<lparr>ns_Action := NodeActionUpgrade, ns_Phase := StepPending, ns_UpdatedAt := now\<rparr>) steps)
         [] (mkeys (rv_Nodes revision))\<rparr>"
    and s': "s' = (put_operation oper s1)\<lparr>st_Updates := (st_Updates s1)\<lparr>uj_Operations :=
         mput oid \<lparr>ru_Version = version, ru_K3s = []\<rparr> (uj_Operations (st_Updates s1))\<rparr>,
       st_CurrentOperation := oid, st_TargetRevision := rv_ID revision\<rparr>"
  note ed = RequestRelease_edit [OF assms(1,2) cur RequestRelease_settled [OF req] conv e]
  have "steps_ok oper revision from"
    by (rule upgrade_steps_ok [where st = "zero_step\<lparr>ns_Action := NodeActionUpgrade,
          ns_Phase := StepPending, ns_UpdatedAt := now\<rparr>"]) (simp_all add: ed(6,9) o)
  then show ?thesis
    using assms(3) same_nodes_keep_roles [OF ed(6,8,9)] inv_nodes_ok [OF ed(1)]
    by (intro inv_new_operation [OF ed(1,2) _ ed(4,5), where oid = oid and oper = oper])
       (simp_all add: s' o fresh_operation_def ed(3) put_operation_def)
qed

lemma Freeze_resumes:
  assumes "cluster_inv s" and cur: "mget (st_Operations s) (st_CurrentOperation s) = Some oper"
    and "FreezeCandidate oid rebalance now s = (Inr (plan, resumed), s')"
  shows "mget (st_Operations s') (st_CurrentOperation s') = Some resumed"
proof -
  have ops: "operations_ok (st_Operations s)" using assms(1) by (simp add: cluster_inv_def)
  have "resume_operation oper now s = (Inr (plan, resumed), s')"
    using assms(3) current_phase(2,3) [OF assms(1) cur] cur by (simp add: FreezeCandidate_def)
  from resume_operation_effect [OF this] show ?thesis
    using cur operations_okD(2) [OF ops cur] by (auto simp: put_operation_def)
qed

lemma ResumeRelease_inv:
  assumes "cluster_inv s" and "fresh_operation oid s" and "ResumeRelease oid now s = (Inr oper, s')"
  shows "cluster_inv s'"
proof -
  from assms(3) obtain cur plan resumed s1 pin target where
    cur: "mget (st_Operations s) (st_CurrentOperation s) = Some cur"
    and f: "FreezeCandidate oid (op_RebalanceWorkloads cur) now s = (Inr (plan, resumed), s1)"
    and o: "oper = resumed\<lparr>op_NodeSteps :=
        map (\<lambda>(nid, step). (nid, revisit s1 now pin target nid step)) (op_NodeSteps resumed)\<rparr>"
    and s': "s' = put_operation oper s1"
    by (auto simp: ResumeRelease_def Let_def split: option.splits sum.splits if_splits prod.splits)
  have inv1: "cluster_inv s1" by (rule FreezeCandidate_inv [OF assms(1,2) f])
  note res = Freeze_resumes [OF assms(1) cur f]
  show ?thesis
    unfolding s'
  proof (rule inv_journal [OF inv1 res, where oper' = oper])
    show "steps_ok oper t fr" if "steps_ok resumed t fr" for t fr
      using that
      by (rule steps_ok_map [where f = "revisit s1 now pin target"]) (simp_all add: o revisit_def)
  qed (use current_phase(2) [OF inv1 res] in \<open>simp_all add: o same_frame_def put_operation_def inv_nodes_ok [OF inv1]\<close>)
qed

lemma removal_edit_ok: "edit_ok (removal_edit name now)"
proof -
  have "\<exists>m. gomap_ok m \<and> put_node nid node s = s\<lparr>st_Nodes := m\<rparr>" if "gomap_ok (st_Nodes s)" for nid node s
    using that by (intro exI [of _ "mput nid node (st_Nodes s)"]) (simp add: put_node_def)
  then show ?thesis
    unfolding edit_ok_def removal_edit_def
    by (auto simp: Let_def intro: nodes_frame_refl split: option.splits if_splits)
qed

lemma absent_node_inv:
  "cluster_inv s \<Longrightarrow> absent_node name now h ns s = Some (Inr b, s') \<Longrightarrow> cluster_inv s'"
  by (induction ns arbitrary: h) (auto intro: inv_put_node split: if_splits)

lemma StageNodeRemoval_inv:
  assumes "cluster_inv s" and "fresh_revision rid s"
    and "StageNodeRemoval rid name now s = (Inr cancelled, s')"
  shows "cluster_inv s'"
proof -
  from assms(3) have "absent_node name now False (SortedNodes (st_Nodes s)) s = Some (Inr cancelled, s') \<or>
      (\<exists>revision. EditCandidate rid now (removal_edit name now) s = (Inr (revision, cancelled), s'))"
    by (auto simp: StageNodeRemoval_def split: sum.splits option.splits prod.splits if_splits)
  then show ?thesis
    using absent_node_inv [OF assms(1)] EditCandidate_inv [OF assms(1) removal_edit_ok assms(2)] by blast
qed

lemma layout_edit_ok: "edit_ok (layout_edit s desired)"
proof -
  have "layout_replacement known start ls = Inr rs \<Longrightarrow> gomap_ok start \<Longrightarrow> gomap_ok rs" for known start ls rs
    by (induction ls arbitrary: start) (auto split: option.splits if_splits prod.splits)
  then show ?thesis
    unfolding edit_ok_def layout_edit_def by (auto intro: nodes_frame_refl split: sum.splits)
qed

lemma ReplaceCandidateLayout_inv:
  assumes "cluster_inv s" and "fresh_revision rid s"
    and "ReplaceCandidateLayout rid desired now s = (Inr revision, s')"
  shows "cluster_inv s'"
proof -
  from assms(3) have "EditCandidate rid now (layout_edit s desired) s = (Inr (revision, ()), s')"
    by (auto simp: ReplaceCandidateLayout_edit split: if_splits prod.splits sum.splits)
  then show ?thesis by (rule EditCandidate_inv [OF assms(1) layout_edit_ok assms(2)])
qed

section \<open>The other writers keep the invariant\<close>

lemma forget_step_inv: "cluster_inv s \<Longrightarrow> cluster_inv (forget_step nid now s)"
  by (auto simp: forget_step_def put_step_def dest: current_phase(2) intro!: inv_move_step split: option.splits)

lemma NodeForget_inv: "cluster_inv s \<Longrightarrow> NodeForget name now s = (Inr u, t) \<Longrightarrow> cluster_inv t"
  by (auto simp: NodeForget_def Let_def intro!: forget_step_inv inv_put_node split: option.splits if_splits)

lemma flag_writers_inv:
  assumes "cluster_inv s"
  shows "PauseForUninstall s = (Inr u, t) \<Longrightarrow> cluster_inv t"
    and "ResumeReconciliation s = (Inr u, t) \<Longrightarrow> cluster_inv t"
    and "Decommission s = (Inr u, t) \<Longrightarrow> cluster_inv t"
    and "ReportCoordinator nid version now s = (Inr u, t) \<Longrightarrow> cluster_inv t"
    and "publishNodeAddresses nid name ip now s = (Inr u, t) \<Longrightarrow> cluster_inv t"
    and "poll nid report now s = (Inr u, t) \<Longrightarrow> cluster_inv t"
  using inv_nodes_ok [OF assms]
  by (auto simp: PauseForUninstall_def ResumeReconciliation_def Decommission_def ReportCoordinator_def
      publishNodeAddresses_def poll_def same_frame_def put_node_def split: option.splits if_splits
      intro!: inv_same_frame [OF assms])

lemma stamped_inv: "cluster_inv s \<Longrightarrow> cluster_inv (s\<lparr>st_UpdatedAt := now\<rparr>)"
  by (rule inv_same_frame [of s]) (simp_all add: same_frame_def inv_nodes_ok)

lemma DiscardChanges_inv: "cluster_inv s \<Longrightarrow> DiscardChanges s = (Inr u, t) \<Longrightarrow> cluster_inv t"
  by (auto simp: DiscardChanges_def cluster_inv_def active_ok_def split: if_splits)

lemma of_cluster_Inr: "of_cluster p = (Inr x, s) \<longleftrightarrow> p = (Inr x, s)"
  by (auto simp: of_cluster_def split: prod.splits sum.splits)

lemma PinPreflight_inv: "cluster_inv s \<Longrightarrow> PinPreflight k3s now s = (Inr u, t) \<Longrightarrow> cluster_inv t"
  unfolding PinPreflight_def of_cluster_Inr
  by (erule MarkUpgradePreflight_inv [rotated])
     (auto simp: same_frame_def inv_nodes_ok split: option.splits intro: inv_same_frame)

lemma put_endpoints_inv: "cluster_inv s \<Longrightarrow> cluster_inv (foldl (put_endpoint now) s coordinators)"
  by (induction coordinators arbitrary: s) (simp_all add: put_endpoint_def inv_put_node)

lemma ActivateTopology_inv: "cluster_inv s \<Longrightarrow> ActivateTopology cs now s = (Inr u, t) \<Longrightarrow> cluster_inv t"
  unfolding ActivateTopology_def of_cluster_Inr by (rule MarkTopologyActivated_inv [OF put_endpoints_inv])

lemma Rebalanced_inv:
  assumes "cluster_inv s" and "st_CurrentOperation s \<noteq> []" and "Rebalanced now s = (Inr u, t)"
  shows "cluster_inv t"
proof -
  obtain oper where cur: "mget (st_Operations s) (st_CurrentOperation s) = Some oper"
    using assms(1,2) by (auto simp: cluster_inv_def)
  show ?thesis
    by (rule inv_journal [OF assms(1) cur,
          where oper' = "oper\<lparr>op_Phase := OperationVerifying, op_UpdatedAt := truncate_s now\<rparr>"])
       (use assms(3) cur in \<open>auto simp: Rebalanced_def same_frame_def put_operation_def mget_or_def steps_ok_def
          inv_nodes_ok [OF assms(1)]\<close>)
qed

lemma enroll_edit_ok: "edit_ok (enroll_edit node)"
  unfolding edit_ok_def enroll_edit_def by (auto intro: nodes_frame_refl)

lemma enroll_effect:
  assumes "enroll rid role h now s = (Inr u, t)"
  obtains "t = s"
  | revision where "EditCandidate rid now (enroll_edit (enrolled_node role h now))
      (put_node (nd_ID (enrolled_node role h now)) (enrolled_node role h now) s) = (Inr (revision, ()), t)"
  using assms by (auto simp: enroll_def Let_def split: if_splits sum.splits prod.splits)

lemma fresh_put_node [simp]: "fresh_revision rid (put_node nid node s) = fresh_revision rid s"
  by (simp add: fresh_revision_def put_node_def)

lemma enroll_inv:
  assumes "cluster_inv s" and "fresh_revision rid s" and "enroll rid role h now s = (Inr u, t)"
  shows "cluster_inv t"
  using assms(3)
  by (rule enroll_effect)
     (use assms(1,2) EditCandidate_inv [OF inv_put_node [OF assms(1)] enroll_edit_ok] in auto)

lemma disable_edit_ok: "edit_ok disable_edit"
  unfolding edit_ok_def disable_edit_def by (auto intro: nodes_frame_refl)

lemma disable_edit_sound:
  "disable_edit s nodes platform = (Inr (nodes', platform', r), s') \<Longrightarrow>
   \<not> ps_Enabled platform' \<and> ps_RegistryNode platform' = []"
  by (auto simp: disable_edit_def)

text \<open>
  What the commit of an uninstall does, whether or not an operation was
  frozen since the pause.
\<close>

lemma UninstallCommit_effect:
  assumes "cluster_inv s" and "UninstallCommit rid now s = (Inr u, t)"
  obtains revision s1 where "EditCandidate rid now disable_edit s = (Inr (revision, ()), s1)"
    "t = s1\<lparr>st_ConvergedRevision := rid, st_Platform := rv_Platform revision, st_ReconciliationPaused := False\<rparr>"
    "rv_ID revision = rid" "mget (st_Revisions t) rid = Some revision"
    "\<not> ps_Enabled (rv_Platform revision)" "ps_RegistryNode (rv_Platform revision) = []"
    "st_CandidateRevision s1 = rid" "st_TargetRevision s1 = st_TargetRevision s"
    "st_CurrentOperation s1 = st_CurrentOperation s"
proof -
  from assms(2) obtain revision s1 where e: "EditCandidate rid now disable_edit s = (Inr (revision, ()), s1)"
    and t: "t = s1\<lparr>st_ConvergedRevision := rv_ID revision, st_CandidateRevision := rv_ID revision,
       st_Platform := rv_Platform revision, st_ReconciliationPaused := False\<rparr>"
    by (auto simp: UninstallCommit_def split: prod.splits sum.splits)
  from assms(1) disable_edit_ok e show ?thesis
    by (rule EditCandidate_effect) (rule that [OF e], use t in \<open>auto dest: disable_edit_sound\<close>)
qed

lemma UninstallCommit_inv:
  assumes "cluster_inv s" and "fresh_revision rid s" and "st_CurrentOperation s = []"
    and "UninstallCommit rid now s = (Inr u, t)"
  shows "cluster_inv t"
  using assms(1,4)
proof (rule UninstallCommit_effect)
  fix revision s1
  assume e: "EditCandidate rid now disable_edit s = (Inr (revision, ()), s1)"
    and t: "t = s1\<lparr>st_ConvergedRevision := rid, st_Platform := rv_Platform revision, st_ReconciliationPaused := False\<rparr>"
    and r: "mget (st_Revisions t) rid = Some revision" "st_CurrentOperation s1 = st_CurrentOperation s"
  have "cluster_inv s1" by (rule EditCandidate_inv [OF assms(1) disable_edit_ok assms(2) e])
  then show "cluster_inv t" using r assms(3) by (simp add: t cluster_inv_def)
qed

section \<open>The cluster as a transition system\<close>

text \<open>
  \<^verbatim>\<open>NewSeedState\<close> trusts the capabilities of the seed's record, which the
  installer has validated with the layout before it bootstraps the document.

  Two rules carry the context their code runs in. The leader's \<^verbatim>\<open>reconcile\<close>
  rebalances only with an operation in flight (\<^verbatim>\<open>coordinator.go\<close>, line 650) and
  nothing but the same loop completes it. The commit of an uninstall is a
  step where no operation is in flight: that is checked when reconciliation
  is paused, and \<open>uninstall_over_an_operation\<close> below shows what happens when an
  operation is frozen in between.
\<close>

definition seed_init :: "State \<Rightarrow> bool" where
  "seed_init s \<longleftrightarrow> (\<exists>rid cluster seed now. rid \<noteq> [] \<and> NewSeedState rid cluster seed now = Inr s \<and>
     set (nd_Capabilities seed) \<subseteq> set Capabilities \<and> distinct (nd_Capabilities seed))"

inductive cluster_step :: "State \<Rightarrow> State \<Rightarrow> bool" where
  edit: "edit_ok (edit :: unit candidate_edit) \<Longrightarrow> fresh_revision rid s \<Longrightarrow>
    EditCandidate rid now edit s = (Inr (revision, ()), t) \<Longrightarrow> cluster_step s t"
| import_layout: "fresh_revision rid s \<Longrightarrow>
    ReplaceCandidateLayout rid desired now s = (Inr revision, t) \<Longrightarrow> cluster_step s t"
| stage_removal: "fresh_revision rid s \<Longrightarrow>
    StageNodeRemoval rid name now s = (Inr cancelled, t) \<Longrightarrow> cluster_step s t"
| freeze: "fresh_operation oid s \<Longrightarrow>
    FreezeCandidate oid rebalance now s = (Inr (plan, oper), t) \<Longrightarrow> cluster_step s t"
| request_version: "fresh_revision rid s \<Longrightarrow> fresh_operation oid s \<Longrightarrow>
    RequestPlatformVersion rid oid target now s = (Inr (plan, oper), t) \<Longrightarrow> cluster_step s t"
| request_release: "fresh_revision rid s \<Longrightarrow> fresh_operation oid s \<Longrightarrow>
    RequestRelease rid oid target now s = (Inr oper, t) \<Longrightarrow> cluster_step s t"
| resume_release: "fresh_operation oid s \<Longrightarrow>
    ResumeRelease oid now s = (Inr oper, t) \<Longrightarrow> cluster_step s t"
| snapshot: "MarkEtcdSnapshot ok err now s = (Inr u, t) \<Longrightarrow> cluster_step s t"
| activated: "MarkTopologyActivated now s = (Inr u, t) \<Longrightarrow> cluster_step s t"
| prepared: "MarkNodeRemovalPrepared nid now s = (Inr u, t) \<Longrightarrow> cluster_step s t"
| started: "StartNodeAction nid attempt now s = (Inr u, t) \<Longrightarrow> cluster_step s t"
| reported: "CompleteNodeAction nid attempt ok err now s = (Inr u, t) \<Longrightarrow> cluster_step s t"
| cleaned: "CompleteNodeCleanup nid now s = (Inr u, t) \<Longrightarrow> cluster_step s t"
| advanced: "AdvancePlatform ok err now s = (Inr u, t) \<Longrightarrow> cluster_step s t"
| awaiting: "AwaitPlatformInitialization now s = (Inr u, t) \<Longrightarrow> cluster_step s t"
| preflight: "MarkUpgradePreflight now s = (Inr u, t) \<Longrightarrow> cluster_step s t"
| failed: "FailOperation err now s = (Inr u, t) \<Longrightarrow> cluster_step s t"
| completed: "CompleteOperation now s = (Inr u, t) \<Longrightarrow> cluster_step s t"
| forgotten: "NodeForget name now s = (Inr u, t) \<Longrightarrow> cluster_step s t"
| discarded: "DiscardChanges s = (Inr u, t) \<Longrightarrow> cluster_step s t"
| paused: "PauseForUninstall s = (Inr u, t) \<Longrightarrow> cluster_step s t"
| uninstalled: "fresh_revision rid s \<Longrightarrow> st_CurrentOperation s = [] \<Longrightarrow>
    UninstallCommit rid now s = (Inr u, t) \<Longrightarrow> cluster_step s t"
| resumed: "ResumeReconciliation s = (Inr u, t) \<Longrightarrow> cluster_step s t"
| decommissioned: "Decommission s = (Inr u, t) \<Longrightarrow> cluster_step s t"
| published: "publishNodeAddresses nid name ip now s = (Inr u, t) \<Longrightarrow> cluster_step s t"
| versioned: "ReportCoordinator nid version now s = (Inr u, t) \<Longrightarrow> cluster_step s t"
| pinned: "PinPreflight k3s now s = (Inr u, t) \<Longrightarrow> cluster_step s t"
| endpoints: "ActivateTopology coordinators now s = (Inr u, t) \<Longrightarrow> cluster_step s t"
| rebalanced: "st_CurrentOperation s \<noteq> [] \<Longrightarrow> Rebalanced now s = (Inr u, t) \<Longrightarrow> cluster_step s t"
| enrolled: "fresh_revision rid s \<Longrightarrow> enroll rid role h now s = (Inr u, t) \<Longrightarrow> cluster_step s t"
| polled: "poll nid report now s = (Inr u, t) \<Longrightarrow> cluster_step s t"
| stamped: "cluster_step s (s\<lparr>st_UpdatedAt := now\<rparr>)"

lemma seed_init_inv:
  assumes "seed_init s"
  shows "cluster_inv s"
proof -
  from assms obtain rid cluster seed now where rid: "rid \<noteq> []"
    and new: "NewSeedState rid cluster seed now = Inr s"
    and caps: "set (nd_Capabilities seed) \<subseteq> set Capabilities" "distinct (nd_Capabilities seed)"
    unfolding seed_init_def by blast
  let ?now = "truncate_s now"
  let ?seed = "seed\<lparr>nd_Phase := NodePhaseActive, nd_EnrolledAt := ?now, nd_UpdatedAt := ?now\<rparr>"
  let ?rev = "\<lparr>rv_ID = rid, rv_Parent = [], rv_Sequence = 1,
    rv_Nodes = [(nd_ID ?seed, revisionNode ?seed)], rv_Platform = zero_platform, rv_CreatedAt = ?now\<rparr>"
  from new have id: "nd_ID seed \<noteq> []" "nd_Name seed \<noteq> []" "nd_Role seed = RoleServer"
    and fields: "st_Revisions s = [(rid, ?rev)]" "st_Nodes s = [(nd_ID ?seed, ?seed)]" "st_Operations s = []"
      "st_ConvergedRevision s = rid" "st_CandidateRevision s = rid" "st_CurrentOperation s = []"
      "st_TargetRevision s = []"
    by (auto simp: NewSeedState_def Let_def split: if_splits)
  have "valid_revision (rv_Nodes ?rev) (rv_Platform ?rev)"
    using id caps
    by (simp add: valid_revision_def rnodes_ok_def rnode_ok_def has_server_def revisionNode_def zero_platform_def)
  then show ?thesis
    by (simp add: cluster_inv_def fields revisions_ok_def operations_ok_def rid)
qed

lemmas mutation_invs = EditCandidate_inv ReplaceCandidateLayout_inv StageNodeRemoval_inv FreezeCandidate_inv
  RequestPlatformVersion_inv RequestRelease_inv ResumeRelease_inv MarkEtcdSnapshot_inv
  MarkTopologyActivated_inv MarkNodeRemovalPrepared_inv StartNodeAction_inv CompleteNodeAction_inv
  CompleteNodeCleanup_inv AdvancePlatform_inv AwaitPlatformInitialization_inv MarkUpgradePreflight_inv
  FailOperation_inv CompleteOperation_inv NodeForget_inv DiscardChanges_inv flag_writers_inv UninstallCommit_inv
  PinPreflight_inv ActivateTopology_inv Rebalanced_inv enroll_inv

lemma cluster_step_inv: "cluster_step s t \<Longrightarrow> cluster_inv s \<Longrightarrow> cluster_inv t"
  by (induction rule: cluster_step.induct) (erule (3) mutation_invs | erule (2) mutation_invs | erule (1) mutation_invs | erule stamped_inv)+

interpretation cluster: transition_system seed_init cluster_step cluster_inv
  by unfold_locales (auto intro: seed_init_inv cluster_step_inv)


section \<open>What a run can and cannot change\<close>

definition frame :: "State \<Rightarrow> State \<Rightarrow> bool" where
  "frame s t \<longleftrightarrow> st_ConvergedRevision t = st_ConvergedRevision s \<and>
     (\<forall>rid r. mget (st_Revisions s) rid = Some r \<longrightarrow> mget (st_Revisions t) rid = Some r)"

lemma frame_refl [simp]: "frame s s"
  by (simp add: frame_def)

lemma frame_trans: "frame s t \<Longrightarrow> frame t u \<Longrightarrow> frame s u"
  by (simp add: frame_def)

lemma frame_puts [simp]:
  "frame s (put_operation oper t) \<longleftrightarrow> frame s t" "frame s (put_node nid node t) \<longleftrightarrow> frame s t"
  by (simp_all add: frame_def put_operation_def put_node_def)

lemma EditCandidate_frame:
  assumes "cluster_inv s" "edit_ok edit" "fresh_revision rid s"
    and "EditCandidate rid now edit s = (Inr (revision, r), t)"
  shows "frame s t"
  using assms(1,2,4)
  by (rule EditCandidate_effect) (use assms(3) in \<open>auto simp: frame_def fresh_revision_def\<close>)

lemma Freeze_frame: "FreezeCandidate oid rebalance now s = (Inr (plan, oper), t) \<Longrightarrow> frame s t"
  by (auto simp: FreezeCandidate_def start_operation_def resume_operation_def Let_def frame_def put_operation_def
      split: if_splits option.splits sum.splits)

lemma absent_node_frame: "absent_node name now h ns s = Some (Inr b, t) \<Longrightarrow> frame s t"
  by (induction ns arbitrary: h) (auto split: if_splits)

lemma StageNodeRemoval_frame:
  assumes "cluster_inv s" "fresh_revision rid s" "StageNodeRemoval rid name now s = (Inr b, t)"
  shows "frame s t"
  using assms(3)
  by (auto simp: StageNodeRemoval_def split: sum.splits option.splits prod.splits if_splits
      intro: absent_node_frame EditCandidate_frame [OF assms(1) removal_edit_ok assms(2)])

lemma ReplaceCandidateLayout_frame:
  assumes "cluster_inv s" "fresh_revision rid s" "ReplaceCandidateLayout rid desired now s = (Inr revision, t)"
  shows "frame s t"
  using assms(3)
  by (auto simp: ReplaceCandidateLayout_edit split: if_splits prod.splits sum.splits
      intro: EditCandidate_frame [OF assms(1) layout_edit_ok assms(2)])

lemma RequestPlatformVersion_frame:
  assumes "cluster_inv s" "fresh_revision rid s"
    and "RequestPlatformVersion rid oid target now s = (Inr (plan, oper), t)"
  shows "frame s t"
  using assms(3)
  by (auto simp: RequestPlatformVersion_def split: if_splits prod.splits sum.splits
      intro: frame_trans EditCandidate_frame [OF assms(1) version_edit_ok assms(2)] Freeze_frame)

lemma RequestRelease_frame:
  assumes "cluster_inv s" "fresh_revision rid s" "RequestRelease rid oid target now s = (Inr oper, t)"
  shows "frame s t"
  using assms(3)
proof (rule RequestRelease_effect)
  fix revision s1
  assume "EditCandidate rid now (version_edit target) s = (Inr (revision, ()), s1)"
  then have "frame s s1" by (rule EditCandidate_frame [OF assms(1) version_edit_ok assms(2)])
  moreover assume "t = (put_operation oper s1)\<lparr>st_Updates := (st_Updates s1)\<lparr>uj_Operations :=
         mput oid \<lparr>ru_Version = target, ru_K3s = []\<rparr> (uj_Operations (st_Updates s1))\<rparr>,
       st_CurrentOperation := oid, st_TargetRevision := rv_ID revision\<rparr>"
  ultimately show ?thesis by (simp add: frame_def put_operation_def)
qed

lemma ResumeRelease_frame: "ResumeRelease oid now s = (Inr oper, t) \<Longrightarrow> frame s t"
  by (auto simp: ResumeRelease_def Let_def split: option.splits if_splits sum.splits prod.splits
      intro: Freeze_frame)

lemma report_frame:
  "MarkEtcdSnapshot ok err now s = (Inr u, t) \<Longrightarrow> frame s t"
  "MarkTopologyActivated now s = (Inr u, t) \<Longrightarrow> frame s t"
  "AdvancePlatform ok err now s = (Inr u, t) \<Longrightarrow> frame s t"
  "AwaitPlatformInitialization now s = (Inr u, t) \<Longrightarrow> frame s t"
  "MarkUpgradePreflight now s = (Inr u, t) \<Longrightarrow> frame s t"
  "FailOperation err now s = (Inr u, t) \<Longrightarrow> frame s t"
  "CompleteNodeCleanup nid now s = (Inr u, t) \<Longrightarrow> frame s t"
  by (auto simp: MarkEtcdSnapshot_def MarkTopologyActivated_def AdvancePlatform_def AwaitPlatformInitialization_def
      MarkUpgradePreflight_def FailOperation_def CompleteNodeCleanup_def Let_def
      split: sum.splits option.splits if_splits)

lemma node_report_frame:
  "MarkNodeRemovalPrepared nid now s = (Inr u, t) \<Longrightarrow> frame s t"
  "StartNodeAction nid attempt now s = (Inr u, t) \<Longrightarrow> frame s t"
  "CompleteNodeAction nid attempt ok err now s = (Inr u, t) \<Longrightarrow> frame s t"
  by (auto simp: MarkNodeRemovalPrepared_def StartNodeAction_def CompleteNodeAction_def Let_def
      split: option.splits if_splits)

lemma flag_frame:
  "DiscardChanges s = (Inr u, t) \<Longrightarrow> frame s t" "PauseForUninstall s = (Inr u, t) \<Longrightarrow> frame s t"
  "ResumeReconciliation s = (Inr u, t) \<Longrightarrow> frame s t" "Decommission s = (Inr u, t) \<Longrightarrow> frame s t"
  "ReportCoordinator nid version now s = (Inr u, t) \<Longrightarrow> frame s t"
  "publishNodeAddresses nid name ip now s = (Inr u, t) \<Longrightarrow> frame s t"
  "poll nid report now s = (Inr u, t) \<Longrightarrow> frame s t" "Rebalanced now s = (Inr u, t) \<Longrightarrow> frame s t"
  "frame s (s\<lparr>st_UpdatedAt := now\<rparr>)"
  by (auto simp: DiscardChanges_def PauseForUninstall_def ResumeReconciliation_def Decommission_def
      ReportCoordinator_def publishNodeAddresses_def poll_def Rebalanced_def frame_def put_operation_def put_node_def
      split: option.splits if_splits)

lemma NodeForget_frame: "NodeForget name now s = (Inr u, t) \<Longrightarrow> frame s t"
  by (auto simp: NodeForget_def forget_step_def Let_def split: option.splits if_splits)

lemma PinPreflight_frame: "PinPreflight k3s now s = (Inr u, t) \<Longrightarrow> frame s t"
  unfolding PinPreflight_def of_cluster_Inr
  by (drule report_frame(5)) (auto simp: frame_def split: option.splits)

lemma put_endpoints_frame: "frame s (foldl (put_endpoint now) t coordinators) \<longleftrightarrow> frame s t"
  by (induction coordinators arbitrary: t) (simp_all add: put_endpoint_def)

lemma ActivateTopology_frame: "ActivateTopology cs now s = (Inr u, t) \<Longrightarrow> frame s t"
  unfolding ActivateTopology_def of_cluster_Inr
  by (drule report_frame(2)) (rule frame_trans, simp_all add: put_endpoints_frame)

lemma enroll_frame:
  assumes "cluster_inv s" "fresh_revision rid s" "enroll rid role h now s = (Inr u, t)"
  shows "frame s t"
  using assms(3)
proof (rule enroll_effect)
  let ?node = "enrolled_node role h now"
  fix revision
  assume "EditCandidate rid now (enroll_edit ?node) (put_node (nd_ID ?node) ?node s) = (Inr (revision, ()), t)"
  then have "frame (put_node (nd_ID ?node) ?node s) t"
    by (rule EditCandidate_frame [OF inv_put_node [OF assms(1)] enroll_edit_ok, rotated]) (simp add: assms(2))
  then show "frame s t" by (rule frame_trans [rotated]) simp
qed simp

text \<open>
  The one writer besides completion that moves the converged revision: the
  commit of an uninstall, to a new revision without the platform.
\<close>

definition disabled_revision :: "State \<Rightarrow> State \<Rightarrow> bool" where
  "disabled_revision s t \<longleftrightarrow>
     mget (st_Revisions s) (st_ConvergedRevision t) = None \<and> st_CandidateRevision t = st_ConvergedRevision t \<and>
     (\<exists>revision. Converged t = Inr revision \<and> st_Platform t = rv_Platform revision \<and>
        \<not> ps_Enabled (rv_Platform revision) \<and> ps_RegistryNode (rv_Platform revision) = [])"

lemma UninstallCommit_disables:
  assumes "cluster_inv s" "fresh_revision rid s" "UninstallCommit rid now s = (Inr u, t)"
  shows "disabled_revision s t" "mget (st_Revisions s) k = Some r \<longrightarrow> mget (st_Revisions t) k = Some r"
  using assms(1,3)
  by (rule UninstallCommit_effect,
      use assms(2) EditCandidate_frame [OF assms(1) disable_edit_ok assms(2)] in
        \<open>auto simp: disabled_revision_def fresh_revision_def frame_def Converged_def lookup_revision_def\<close>)+

lemma cluster_step_frame:
  "cluster_step s t \<Longrightarrow> cluster_inv s \<Longrightarrow> frame s t \<or> (\<exists>now. CompleteOperation now s = (Inr (), t)) \<or>
     (\<exists>rid now. fresh_revision rid s \<and> UninstallCommit rid now s = (Inr (), t))"
  by (induction rule: cluster_step.induct)
     (auto dest: EditCandidate_frame StageNodeRemoval_frame ReplaceCandidateLayout_frame Freeze_frame
       RequestPlatformVersion_frame RequestRelease_frame ResumeRelease_frame report_frame node_report_frame
       NodeForget_frame PinPreflight_frame ActivateTopology_frame enroll_frame flag_frame(1-8) simp: flag_frame(9))

lemma CompleteOperation_keeps_revisions:
  "CompleteOperation now s = (Inr u, t) \<Longrightarrow> st_Revisions t = st_Revisions s"
  by (erule CompleteOperation_Inr) simp

lemma steps_keep_revisions:
  assumes "cluster_step\<^sup>*\<^sup>* s t" and "cluster_inv s" and "mget (st_Revisions s) rid = Some r"
  shows "mget (st_Revisions t) rid = Some r"
  using assms(1)
proof (induction rule: rtranclp_induct)
  case (step t u)
  have "cluster_inv t" using step.hyps(1) assms(2) by (rule cluster.inv_steps)
  with cluster_step_frame [OF step.hyps(2)] step.IH show ?case
    by (auto simp: frame_def dest: CompleteOperation_keeps_revisions UninstallCommit_disables(2))
qed (rule assms(3))

section \<open>A run of the scheduler ends\<close>







lemma current_put_node [simp]:
  "currentOperationState (put_node nid node s) = currentOperationState s"
proof -
  have "lookup_revision (put_node nid node s) = lookup_revision s"
    by (intro ext) (simp add: lookup_revision_def put_node_def)
  moreover have "st_CurrentOperation (put_node nid node s) = st_CurrentOperation s"
    "st_Operations (put_node nid node s) = st_Operations s" by (simp_all add: put_node_def)
  ultimately show ?thesis by (simp only: currentOperationState_def)
qed








section \<open>Properties of every run\<close>


lemma completion_moves_to_target:
  assumes "cluster_inv s" and "CompleteOperation now s = (Inr u, t)"
  shows "\<exists>oper target from. currentOperationState s = Inr (oper, target, from) \<and>
    list_all (\<lambda>step. ns_Phase step = StepComplete) (mvals (op_NodeSteps oper)) \<and>
    Converged t = Inr target \<and> st_CurrentOperation t = []"
  using assms(2)
proof (rule CompleteOperation_Inr)
  fix oper target "from" oper'
  assume c: "currentOperationState s = Inr (oper, target, from)"
    "list_all (\<lambda>step. ns_Phase step = StepComplete) (mvals (op_NodeSteps oper))"
    and t: "t = s\<lparr>st_Operations := mput (op_ID oper) oper' (st_Operations s), st_ConvergedRevision := rv_ID target,
     st_Platform := rv_Platform target, st_TargetRevision := [], st_CurrentOperation := [],
     st_UpdatedAt := truncate_s now\<rparr>"
  have "mget (st_Revisions s) (rv_ID target) = Some target"
    using current_operation(3) [OF assms(1) c(1)] inv_revision(1) [OF assms(1)] by simp
  then show ?thesis using c by (auto simp: t Converged_def lookup_revision_def)
qed

text \<open>
  C5. The converged revision moves in two ways only. Take any reachable
  document and one more write of it, a step of the machine or the commit of
  an uninstall at any moment (also one at which an operation has been frozen
  since the pause). The write alters and drops no recorded revision, and it
  leaves the converged revision alone, or the current operation had completed
  every step, and the converged revision is now that operation's target and
  no operation is left current, or it is the commit of an uninstall: the
  converged revision is one that was not recorded before, it is the candidate
  as well, and the platform is disabled in it and holds no registry node.
\<close>

theorem converged_moves_by_completion_or_uninstall:
  assumes "seed_init s0" and "cluster_step\<^sup>*\<^sup>* s0 s"
    and "cluster_step s t \<or> (\<exists>rid now. fresh_revision rid s \<and> UninstallCommit rid now s = (Inr (), t))"
  shows "(\<forall>rid r. mget (st_Revisions s) rid = Some r \<longrightarrow> mget (st_Revisions t) rid = Some r) \<and>
    (st_ConvergedRevision t = st_ConvergedRevision s \<or>
       (\<exists>oper target from. currentOperationState s = Inr (oper, target, from) \<and>
          list_all (\<lambda>step. ns_Phase step = StepComplete) (mvals (op_NodeSteps oper)) \<and>
          Converged t = Inr target \<and> st_CurrentOperation t = []) \<or>
       (\<exists>rid now. UninstallCommit rid now s = (Inr (), t)) \<and> disabled_revision s t)"
proof -
  have inv: "cluster_inv s" by (rule cluster.inv_reachable [OF assms(1,2)])
  from assms(3) cluster_step_frame [OF _ inv] consider "frame s t"
    | now where "CompleteOperation now s = (Inr (), t)"
    | rid now where "fresh_revision rid s" "UninstallCommit rid now s = (Inr (), t)" by blast
  then show ?thesis
  proof cases
    case 1
    then show ?thesis by (simp add: frame_def)
  next
    case (2 now)
    then show ?thesis
      using completion_moves_to_target [OF inv 2] CompleteOperation_keeps_revisions [OF 2] by simp
  next
    case (3 rid now)
    note d = UninstallCommit_disables [OF inv 3]
    have "\<forall>rid r. mget (st_Revisions s) rid = Some r \<longrightarrow> mget (st_Revisions t) rid = Some r"
      using d(2) by blast
    then show ?thesis using d(1) 3(2) by blast
  qed
qed


section \<open>A concrete run\<close>

definition ex_frozen :: "(Plan \<times> Operation) \<times> State" where
  "ex_frozen = (let (r, s) = FreezeCandidate ''o1'' False ex_time (snd ex_edited) in (projr r, s))"

lemma ex_seed: "seed_init ex_seeded"
  unfolding seed_init_def
  by (rule exI [of _ "''r1''"], rule exI [of _ "''prod''"],
      rule exI [of _ "ex_host ''n1'' ''alpha'' RoleServer Capabilities"], rule exI [of _ ex_time]) code_simp

lemma ex_edit_ok: "edit_ok ex_edit"
  unfolding edit_ok_def ex_edit_def by (auto intro: nodes_frame_refl)

lemma ex_freeze_result: "FreezeCandidate ''o1'' False ex_time (snd ex_edited) = (Inr (fst (fst ex_frozen), snd (fst ex_frozen)), snd ex_frozen)"
  by code_simp

lemma ex_run: "cluster_step\<^sup>*\<^sup>* ex_seeded (snd ex_frozen)"
proof -
  have "fresh_revision ''r2'' ex_seeded" "fresh_operation ''o1'' (snd ex_edited)" by code_simp+
  then have "cluster_step ex_seeded (snd ex_edited)" "cluster_step (snd ex_edited) (snd ex_frozen)"
    using cluster_step.edit [OF ex_edit_ok _ ex_edit_result] cluster_step.freeze [OF _ ex_freeze_result] by blast+
  then show ?thesis by (meson converse_rtranclp_into_rtranclp rtranclp.rtrancl_refl)
qed



lemma ex_done_step: "cluster_step (snd ex_frozen) (snd (CompleteOperation ex_time (snd ex_frozen)))"
proof (rule cluster_step.completed)
  show "CompleteOperation ex_time (snd ex_frozen) = (Inr (), snd (CompleteOperation ex_time (snd ex_frozen)))"
    by code_simp
qed

text \<open>
  An uninstall that pauses, then an operation frozen by another command, then
  the commit: nothing refuses it, and the operation in flight no longer leads
  from the converged revision.
\<close>

definition ex_paused :: State where
  "ex_paused = snd (PauseForUninstall (snd ex_edited))"

definition ex_paused_freeze :: State where
  "ex_paused_freeze = snd (FreezeCandidate ''o1'' False ex_time ex_paused)"

definition ex_uninstalled :: State where
  "ex_uninstalled = snd (UninstallCommit ''r9'' ex_time ex_paused_freeze)"

lemma uninstall_over_an_operation:
  "fst (PauseForUninstall (snd ex_edited)) = Inr () \<and>
   isl (fst (FreezeCandidate ''o1'' False ex_time ex_paused)) = False \<and>
   UninstallCommit ''r9'' ex_time ex_paused_freeze = (Inr (), ex_uninstalled) \<and>
   st_CurrentOperation ex_uninstalled = ''o1'' \<and> st_ConvergedRevision ex_uninstalled = ''r9'' \<and>
   map_option op_FromRevision (mget (st_Operations ex_uninstalled) ''o1'') = Some ''r1''"
  by code_simp

lemma ex_paused_run: "cluster_step\<^sup>*\<^sup>* ex_seeded ex_paused_freeze"
proof -
  have "fresh_revision ''r2'' ex_seeded" by code_simp
  then have "cluster_step ex_seeded (snd ex_edited)" by (rule cluster_step.edit [OF ex_edit_ok _ ex_edit_result])
  moreover have "PauseForUninstall (snd ex_edited) = (Inr (), ex_paused)" by code_simp
  then have "cluster_step (snd ex_edited) ex_paused" by (rule cluster_step.paused)
  moreover have "FreezeCandidate ''o1'' False ex_time ex_paused =
      (Inr (fst (projr (fst (FreezeCandidate ''o1'' False ex_time ex_paused))),
        snd (projr (fst (FreezeCandidate ''o1'' False ex_time ex_paused)))), ex_paused_freeze)" by code_simp
  then have "cluster_step ex_paused ex_paused_freeze" by (rule cluster_step.freeze [rotated]) code_simp
  ultimately show ?thesis by (meson converse_rtranclp_into_rtranclp rtranclp.rtrancl_refl)
qed

theorem converged_moves_by_completion_or_uninstall_witness:
  "Converged (snd (CompleteOperation ex_time (snd ex_frozen))) = Target (snd ex_frozen) \<and>
   (\<exists>oper target from. currentOperationState (snd ex_frozen) = Inr (oper, target, from) \<and>
      list_all (\<lambda>step. ns_Phase step = StepComplete) (mvals (op_NodeSteps oper))) \<and>
   disabled_revision ex_paused_freeze ex_uninstalled"
proof -
  have "st_ConvergedRevision (snd (CompleteOperation ex_time (snd ex_frozen))) \<noteq> st_ConvergedRevision (snd ex_frozen)"
    and "Converged (snd (CompleteOperation ex_time (snd ex_frozen))) = Target (snd ex_frozen)"
    and "mget (st_Revisions (snd ex_frozen)) (st_ConvergedRevision (snd (CompleteOperation ex_time (snd ex_frozen)))) \<noteq> None"
    by code_simp+
  then have "Converged (snd (CompleteOperation ex_time (snd ex_frozen))) = Target (snd ex_frozen) \<and>
   (\<exists>oper target from. currentOperationState (snd ex_frozen) = Inr (oper, target, from) \<and>
      list_all (\<lambda>step. ns_Phase step = StepComplete) (mvals (op_NodeSteps oper)))"
    using converged_moves_by_completion_or_uninstall [OF ex_seed ex_run disjI1 [OF ex_done_step]]
    by (auto simp: disabled_revision_def)
  moreover have "fresh_revision ''r9'' ex_paused_freeze" "UninstallCommit ''r9'' ex_time ex_paused_freeze = (Inr (), ex_uninstalled)"
    "st_ConvergedRevision ex_uninstalled \<noteq> st_ConvergedRevision ex_paused_freeze"
    "st_CurrentOperation ex_uninstalled \<noteq> []"
    by code_simp+
  then have "disabled_revision ex_paused_freeze ex_uninstalled"
    using converged_moves_by_completion_or_uninstall [OF ex_seed ex_paused_run, of ex_uninstalled] by blast
  ultimately show ?thesis by blast
qed


section \<open>Freezing, attempts, releases and removals\<close>

text \<open>
  Applying again is safe: freezing a candidate that needs work and then
  freezing once more, at any time and with any arguments, returns the same
  operation with the same planned actions and leaves the document as it was.
\<close>

theorem freeze_is_idempotent:
  assumes "cluster_inv s" and "st_CurrentOperation s = []" and "oid \<noteq> []"
    and "FreezeCandidate oid rebalance now s = (Inr (plan, oper), s1)" and "\<not> Empty plan"
  shows "\<exists>plan'. FreezeCandidate oid' rebalance' now' s1 = (Inr (plan', oper), s1) \<and>
    pl_Actions plan' = pl_Actions plan"
proof -
  have "start_operation oid rebalance now s = (Inr (plan, oper), s1)"
    using assms(2,4) by (simp add: FreezeCandidate_def)
  then obtain "from" target where
    f: "mget (st_Revisions s) (st_ConvergedRevision s) = Some from"
    and t: "mget (st_Revisions s) (st_CandidateRevision s) = Some target"
    and p: "BuildPlan s from target rebalance = Inr plan"
    and oper: "oper = zero_operation\<lparr>op_ID := oid, op_FromRevision := rv_ID from,
       op_TargetRevision := rv_ID target, op_Phase := OperationPending, op_RebalanceWorkloads := rebalance,
       op_NodeSteps := plan_steps (truncate_s now) [] (pl_Actions plan),
       op_StartedAt := truncate_s now, op_UpdatedAt := truncate_s now\<rparr>"
    and s1: "s1 = (put_operation oper s)\<lparr>st_TargetRevision := rv_ID target, st_CurrentOperation := oid,
       st_UpdatedAt := truncate_s now\<rparr>"
    using assms(5) by (rule start_operation_effect)
  note ids = inv_revision(1,2) [OF assms(1) f] inv_revision(1,2) [OF assms(1) t]
  have "BuildPlan s1 from target rebalance = Inr (expected_plan s1 from target rebalance)"
    and plan: "plan = expected_plan s from target rebalance" using p by (simp_all add: BuildPlan_iff)
  then have "FreezeCandidate oid' rebalance' now' s1 = (Inr (expected_plan s1 from target rebalance, oper), s1)"
    using f t ids oper assms(3)
    by (simp add: FreezeCandidate_def resume_operation_def Target_def lookup_revision_def s1 put_operation_def Let_def)
  moreover have "pl_Actions (expected_plan s1 from target rebalance) = pl_Actions plan"
    by (simp add: plan expected_actions)
  ultimately show ?thesis by blast
qed

text \<open>The step of a host in the operation in flight.\<close>

definition current_step :: "State \<Rightarrow> string \<Rightarrow> NodeStep \<Rightarrow> bool" where
  "current_step s nid step \<longleftrightarrow> (\<exists>oper. mget (st_Operations s) (st_CurrentOperation s) = Some oper \<and>
     op_ID oper = st_CurrentOperation s \<and> mget (op_NodeSteps oper) nid = Some step)"

lemma current_step_start:
  assumes "current_step s nid step" and "ns_Phase step \<noteq> StepComplete"
    and "StartNodeAction nid attempt now s = (Inr u, s')"
  shows "\<exists>step'. current_step s' nid step' \<and> ns_Phase step' = StepRunning \<and>
    ns_AttemptID step' = (if ns_AttemptID step = [] \<or> ns_Phase step = StepFailed then attempt else ns_AttemptID step)"
  using assms
  by (cases "ns_Action step = NodeActionRemove")
     (auto simp: current_step_def StartNodeAction_def Let_def put_operation_def put_step_def put_node_def)

lemma current_step_complete:
  assumes "current_step s nid step" and "ns_AttemptID step \<noteq> []"
  shows "attempt \<noteq> [] \<Longrightarrow> attempt \<noteq> ns_AttemptID step \<Longrightarrow>
      CompleteNodeAction nid attempt ok err now s = (Inl (OpE StaleAttempt), s)"
    and "\<exists>s' step'. CompleteNodeAction nid (ns_AttemptID step) True err now s = (Inr (), s') \<and>
      current_step s' nid step' \<and> ns_Phase step' = StepComplete"
  using assms
  by (auto simp: current_step_def CompleteNodeAction_def Let_def put_operation_def put_step_def put_node_def)

text \<open>
  C23. The first attempt owns a step: once an attempt has started a fresh
  step, starting it again under another attempt id changes nothing about
  its owner, a report of the other attempt is refused and leaves the
  document as it was, and the owner's success completes the step.
\<close>

theorem first_attempt_owns_step:
  assumes "current_step s nid step" and "ns_Phase step = StepPending" and "ns_AttemptID step = []"
    and "owner \<noteq> []" and "other \<noteq> []" and "other \<noteq> owner"
    and "StartNodeAction nid owner now s = (Inr (), s1)"
    and "StartNodeAction nid other now' s1 = (Inr (), s2)"
  shows "CompleteNodeAction nid other ok err now'' s2 = (Inl (OpE StaleAttempt), s2) \<and>
    (\<exists>s3 step3. CompleteNodeAction nid owner True err now'' s2 = (Inr (), s3) \<and>
       current_step s3 nid step3 \<and> ns_Phase step3 = StepComplete)"
proof -
  obtain step1 where "current_step s1 nid step1" "ns_Phase step1 = StepRunning" "ns_AttemptID step1 = owner"
    using current_step_start [OF assms(1) _ assms(7)] assms(2,3) by auto
  then obtain step2 where "current_step s2 nid step2" "ns_AttemptID step2 = owner"
    using current_step_start [OF _ _ assms(8)] assms(4) by fastforce
  then show ?thesis using current_step_complete assms(4-6) by blast
qed

lemma release_fits_sound:
  "release_fits s version ns = Inr () \<Longrightarrow> (nid, node) \<in> set ns \<Longrightarrow>
   installed \<in> set (installed_versions s nid (rn_Role node)) \<Longrightarrow> \<not> blocks_release version installed"
  by (induction ns) (auto simp: find_None_iff split: option.splits prod.splits)

lemma foldl_mput_keys: "fst ` set (foldl (\<lambda>m k. mput k v m) [] ks) = set ks"
  by (induction ks rule: rev_induct) (auto simp: mput_keys)

text \<open>
  C24. A release request is safe to accept: the version is a tagged release,
  never a downgrade of the platform nor of any version a host reports, the
  recorded target keeps the hosts exactly as they were and only moves the
  version, and the operation upgrades every host of it and does nothing
  else.
\<close>

theorem release_request_safe:
  assumes "cluster_inv s" and "fresh_revision rid s" and "fresh_operation oid s"
    and "RequestRelease rid oid version now s = (Inr oper, t)"
  shows "\<exists>from target. Converged s = Inr from \<and> Target t = Inr target \<and> IsRelease version \<and>
    \<not> (ps_Version (rv_Platform from) \<noteq> [] \<and> Older version (ps_Version (rv_Platform from))) \<and>
    \<not> (\<exists>(nid, node) \<in> set (rv_Nodes from). \<exists>installed \<in> set (installed_versions s nid (rn_Role node)).
         installed \<noteq> [] \<and> Older version installed) \<and>
    rv_Nodes target = rv_Nodes from \<and> rv_Platform target = (rv_Platform from)\<lparr>ps_Version := version\<rparr> \<and>
    mget (st_Operations t) (st_CurrentOperation t) = Some oper \<and>
    set (mkeys (op_NodeSteps oper)) = set (mkeys (rv_Nodes target)) \<and>
    list_all (\<lambda>step. ns_Action step = NodeActionUpgrade \<and> ns_Phase step = StepPending) (mvals (op_NodeSteps oper))"
  using assms(4)
proof (rule RequestRelease_effect)
  fix "from" revision s1
  assume cur: "st_CurrentOperation s = []" and conv: "Converged s = Inr from"
    and e: "EditCandidate rid now (version_edit version) s = (Inr (revision, ()), s1)"
    and o: "oper = zero_operation\<lparr>op_ID := oid, op_FromRevision := rv_ID from,
       op_TargetRevision := rv_ID revision, op_Phase := OperationPending, op_StartedAt := now, op_UpdatedAt := now,
       op_NodeSteps := foldl (\<lambda>steps nid. mput nid
         (zero_step\<lparr>ns_Action := NodeActionUpgrade, ns_Phase := StepPending, ns_UpdatedAt := now\<rparr>) steps)
         [] (mkeys (rv_Nodes revision))\<rparr>"
    and t: "t = (put_operation oper s1)\<lparr>st_Updates := (st_Updates s1)\<lparr>uj_Operations :=
         mput oid \<lparr>ru_Version = version, ru_K3s = []\<rparr> (uj_Operations (st_Updates s1))\<rparr>,
       st_CurrentOperation := oid, st_TargetRevision := rv_ID revision\<rparr>"
    and rel: "release_fits s version (rv_Nodes from) = Inr ()" "IsRelease version"
      "ps_Version (rv_Platform from) = [] \<or> \<not> Older version (ps_Version (rv_Platform from))"
  note ed = RequestRelease_edit [OF assms(1,2) cur RequestRelease_settled [OF assms(4)] conv e]
  have "Target t = Inr revision"
    using ed(5) inv_revision(2) [OF ed(1,5)] by (simp add: Target_def lookup_revision_def t put_operation_def)
  moreover have "\<not> (\<exists>(nid, node) \<in> set (rv_Nodes from). \<exists>installed \<in> set (installed_versions s nid (rn_Role node)).
         installed \<noteq> [] \<and> Older version installed)"
    using release_fits_sound [OF rel(1)] by (auto simp: blocks_release_def)
  moreover have "mget (st_Operations t) (st_CurrentOperation t) = Some oper"
    by (simp add: t o put_operation_def)
  moreover have "set (mkeys (op_NodeSteps oper)) = set (mkeys (rv_Nodes revision))"
    by (simp add: o foldl_mput_keys)
  moreover have "list_all (\<lambda>step. ns_Action step = NodeActionUpgrade \<and> ns_Phase step = StepPending) (mvals (op_NodeSteps oper))"
    by (auto simp: list_all_iff o dest!: foldl_upgrade_steps(1))
  ultimately show ?thesis using conv rel(2,3) ed(6,7) by auto
qed

lemma absent_node_sound:
  assumes "absent_node name now h ns s = Some (Inr b, t)"
    and "nd_Phase (mget_or zero_node (st_Nodes s) nid) \<noteq> NodePhaseCancelled"
    and "nd_Phase (mget_or zero_node (st_Nodes t) nid) = NodePhaseCancelled"
  shows "mget (rv_Nodes (active_revision s)) nid = None"
  using assms
  by (induction ns arbitrary: h) (auto simp: put_node_def split: if_splits)

lemma FindNodeByName_mem:
  "FindNodeByName nodes name = Some node \<Longrightarrow> node \<in> set (mvals nodes) \<and> rn_Name node = name"
  unfolding FindNodeByName_def by (drule find_SomeD) simp

lemma removal_edit_sound:
  assumes "removal_edit name now s nodes platform = (Inr (nodes', platform', b), t)"
  shows "platform' = platform" and
    "\<exists>node. node \<in> set (mvals nodes) \<and> rn_Name node = name \<and> nodes' = mdel (rn_ID node) nodes \<and>
       rn_ID node \<noteq> ps_RegistryNode platform \<and>
       (b \<longleftrightarrow> mget (rv_Nodes (active_revision s)) (rn_ID node) = None) \<and>
       (\<forall>nid. nd_Phase (mget_or zero_node (st_Nodes s) nid) \<noteq> NodePhaseCancelled \<longrightarrow>
          nd_Phase (mget_or zero_node (st_Nodes t) nid) = NodePhaseCancelled \<longrightarrow>
          mget (rv_Nodes (active_revision s)) nid = None)"
  using assms
  by (auto simp: removal_edit_def Let_def put_node_def dest!: FindNodeByName_mem simp del: set_map
      split: option.splits if_splits)

text \<open>
  C25. Staging a removal never cancels a host that is part of the revision
  being applied, and when it edits the candidate it drops exactly one host
  of the given name, never the one that holds the registry data, and leaves
  the platform settings alone.
\<close>

theorem staged_removal_safe:
  assumes "cluster_inv s" and "fresh_revision rid s"
    and "StageNodeRemoval rid name now s = (Inr cancelled, t)"
  shows "(\<forall>nid. nd_Phase (mget_or zero_node (st_Nodes s) nid) \<noteq> NodePhaseCancelled \<longrightarrow>
       nd_Phase (mget_or zero_node (st_Nodes t) nid) = NodePhaseCancelled \<longrightarrow>
       mget (rv_Nodes (active_revision s)) nid = None) \<and>
    (st_CandidateRevision t = st_CandidateRevision s \<or>
      (\<exists>base revision node. mget (st_Revisions s) (candidate_base s) = Some base \<and>
         Candidate t = Inr revision \<and> rn_Name node = name \<and> mget (rv_Nodes base) (rn_ID node) = Some node \<and>
         rv_Nodes revision = mdel (rn_ID node) (rv_Nodes base) \<and> rv_Platform revision = rv_Platform base \<and>
         rn_ID node \<noteq> ps_RegistryNode (rv_Platform base)))"
proof -
  from assms(3) consider
      (absent) "absent_node name now False (SortedNodes (st_Nodes s)) s = Some (Inr cancelled, t)"
    | (edit) revision where "EditCandidate rid now (removal_edit name now) s = (Inr (revision, cancelled), t)"
    by (auto simp: StageNodeRemoval_def split: sum.splits option.splits prod.splits if_splits)
  then show ?thesis
  proof cases
    case absent
    have "absent_node name now h ns s = Some (Inr cancelled, t) \<Longrightarrow>
        st_CandidateRevision t = st_CandidateRevision s" for h ns
      by (induction ns arbitrary: h) (auto simp: put_node_def split: if_splits)
    with absent absent_node_sound [OF absent] show ?thesis by blast
  next
    case edit
    from assms(1) removal_edit_ok edit show ?thesis
    proof (rule EditCandidate_effect)
      fix m base
      assume t: "t = s\<lparr>st_Sequence := wrap64 (st_Sequence s + 1), st_Nodes := m,
          st_Revisions := mput rid revision (st_Revisions s), st_CandidateRevision := rid,
          st_UpdatedAt := truncate_s now\<rparr>"
        and base: "mget (st_Revisions s) (candidate_base s) = Some base"
        and ed: "removal_edit name now s (rv_Nodes base) (rv_Platform base) =
          (Inr (rv_Nodes revision, rv_Platform revision, cancelled), s\<lparr>st_Nodes := m\<rparr>)"
      note br = inv_revision [OF assms(1) base]
      from removal_edit_sound(2) [OF ed] obtain node where
        node: "node \<in> set (mvals (rv_Nodes base))" "rn_Name node = name"
          "rv_Nodes revision = mdel (rn_ID node) (rv_Nodes base)"
          "rn_ID node \<noteq> ps_RegistryNode (rv_Platform base)"
        and phases: "\<And>nid. nd_Phase (mget_or zero_node (st_Nodes s) nid) \<noteq> NodePhaseCancelled \<Longrightarrow>
          nd_Phase (mget_or zero_node m nid) = NodePhaseCancelled \<Longrightarrow>
          mget (rv_Nodes (active_revision s)) nid = None"
        by auto
      have "mget (rv_Nodes base) (rn_ID node) = Some node"
        using node(1) br(3,4) rnodes_get by (auto simp: mvals_mem simp del: set_map)
      moreover have "Candidate t = Inr revision" by (simp add: t Candidate_def lookup_revision_def)
      ultimately show ?thesis
        using base node removal_edit_sound(1) [OF ed] phases by (auto simp: t)
    qed
  qed
qed

lemma ex_edited_inv: "cluster_inv (snd ex_edited)"
proof -
  have "fresh_revision ''r2'' ex_seeded" by code_simp
  then show ?thesis
    by (rule EditCandidate_inv [OF seed_init_inv [OF ex_seed] ex_edit_ok _ ex_edit_result])
qed

theorem freeze_is_idempotent_witness:
  "\<exists>plan'. FreezeCandidate ''o2'' True 0 (snd ex_frozen) = (Inr (plan', snd (fst ex_frozen)), snd ex_frozen) \<and>
    pl_Actions plan' = pl_Actions (fst (fst ex_frozen))"
proof -
  have "st_CurrentOperation (snd ex_edited) = []" "\<not> Empty (fst (fst ex_frozen))" by code_simp+
  then show ?thesis by (intro freeze_is_idempotent [OF ex_edited_inv _ _ ex_freeze_result]) simp_all
qed

definition ex_started :: State where
  "ex_started = snd (StartNodeAction ''n2'' ''a1'' ex_time ex_active)"

definition ex_restarted :: State where
  "ex_restarted = snd (StartNodeAction ''n2'' ''a2'' ex_time ex_started)"

definition ex_step :: NodeStep where
  "ex_step = the (mget (op_NodeSteps (fst (op_state ex_active))) ''n2'')"

lemma ex_step_current: "current_step ex_active ''n2'' ex_step"
  unfolding current_step_def by (rule exI [of _ "fst (op_state ex_active)"]) code_simp

theorem first_attempt_owns_step_witness:
  "CompleteNodeAction ''n2'' ''a2'' True [] 0 ex_restarted = (Inl (OpE StaleAttempt), ex_restarted)"
proof -
  have "ns_Phase ex_step = StepPending" "ns_AttemptID ex_step = []"
    "StartNodeAction ''n2'' ''a1'' ex_time ex_active = (Inr (), ex_started)"
    "StartNodeAction ''n2'' ''a2'' ex_time ex_started = (Inr (), ex_restarted)" by code_simp+
  then show ?thesis
    using first_attempt_owns_step [OF ex_step_current, of "''a1''" "''a2''" ex_time ex_started ex_time ex_restarted True "[]" 0]
    by simp
qed

definition ex_enabled :: State where
  "ex_enabled = snd (CompleteOperation ex_time (snd ex_frozen))"

definition ex_release :: "Operation \<times> State" where
  "ex_release = (let (r, s) = RequestRelease ''r3'' ''o2'' ''v1.2.0'' ex_time ex_enabled in (projr r, s))"

lemma ex_enabled_inv: "cluster_inv ex_enabled"
  unfolding ex_enabled_def
  by (rule cluster_step_inv [OF ex_done_step cluster.inv_reachable [OF ex_seed ex_run]])

theorem release_request_safe_witness:
  "\<exists>from target. Converged ex_enabled = Inr from \<and> Target (snd ex_release) = Inr target \<and>
     rv_Nodes target = rv_Nodes from \<and> ps_Version (rv_Platform target) = ''v1.2.0''"
proof -
  have "fresh_revision ''r3'' ex_enabled" "fresh_operation ''o2'' ex_enabled"
    "RequestRelease ''r3'' ''o2'' ''v1.2.0'' ex_time ex_enabled = (Inr (fst ex_release), snd ex_release)"
    by code_simp+
  from release_request_safe [OF ex_enabled_inv this] show ?thesis by auto
qed

definition ex_add_edit :: "unit candidate_edit" where
  "ex_add_edit = (\<lambda>s nodes platform.
     (Inr (mput ''n2'' (snd (ex_rnode ''n2'' ''beta'' RoleAgent [''application''])) nodes, platform, ()), s))"

definition ex_added :: "Revision \<times> State" where
  "ex_added = (let (r, s) = EditCandidate ''r2'' ex_time ex_add_edit ex_seeded in (fst (projr r), s))"

definition ex_unstaged :: State where
  "ex_unstaged = snd (StageNodeRemoval ''r3'' ''beta'' ex_time (snd ex_added))"

lemma ex_added_inv: "cluster_inv (snd ex_added)"
proof -
  have e: "EditCandidate ''r2'' ex_time ex_add_edit ex_seeded = (Inr (fst ex_added, ()), snd ex_added)"
    and fresh: "fresh_revision ''r2'' ex_seeded" by code_simp+
  have "edit_ok ex_add_edit"
    unfolding edit_ok_def ex_add_edit_def by (auto intro: nodes_frame_refl)
  then show ?thesis by (rule EditCandidate_inv [OF seed_init_inv [OF ex_seed] _ fresh e])
qed

theorem staged_removal_safe_witness:
  "mget (rv_Nodes (active_revision (snd ex_added))) ''n2'' = None \<and>
   nd_Phase (mget_or zero_node (st_Nodes ex_unstaged) ''n2'') = NodePhaseCancelled"
proof -
  have "fresh_revision ''r3'' (snd ex_added)"
    "StageNodeRemoval ''r3'' ''beta'' ex_time (snd ex_added) = (Inr True, ex_unstaged)"
    "nd_Phase (mget_or zero_node (st_Nodes (snd ex_added)) ''n2'') \<noteq> NodePhaseCancelled"
    "nd_Phase (mget_or zero_node (st_Nodes ex_unstaged) ''n2'') = NodePhaseCancelled" by code_simp+
  then show ?thesis using staged_removal_safe [OF ex_added_inv] by blast
qed

end
