(* ===== verification/Lifecycle.thy ===== *)
theory Lifecycle
  imports Go_Strings
begin

text \<open>
  The declarative status machines of \<^verbatim>\<open>internal/lifecycle\<close> and the contract
  vocabularies the domain packages declare with them. A machine is data:
  a list of states, of which the first is initial, and a Go map from a
  state to its targets. \<^verbatim>\<open>Verify\<close> is the structural check the tests of the
  repository run on each vocabulary; the theory proves what its acceptance means and
  that every vocabulary of the repository passes it.
\<close>

section \<open>Machines\<close>

record 's Machine =
  States :: "'s list"
  Transitions :: "('s, 's list) gomap"

text \<open>\<^verbatim>\<open>States[0]\<close> panics on a machine without states: \<^term>\<open>None\<close>.\<close>

definition Initial :: "'s Machine \<Rightarrow> 's option" where
  "Initial m = (case States m of [] \<Rightarrow> None | s # _ \<Rightarrow> Some s)"

definition Valid :: "'s Machine \<Rightarrow> 's \<Rightarrow> bool" where
  "Valid m status \<longleftrightarrow> status \<in> set (States m)"

abbreviation targets_of :: "'s Machine \<Rightarrow> 's \<Rightarrow> 's list" where
  "targets_of m s \<equiv> mget_or [] (Transitions m) s"

definition Terminal :: "'s Machine \<Rightarrow> 's \<Rightarrow> bool" where
  "Terminal m status \<longleftrightarrow> Valid m status \<and> targets_of m status = []"

definition Can :: "'s Machine \<Rightarrow> 's \<Rightarrow> 's \<Rightarrow> bool" where
  "Can m source target \<longleftrightarrow> target \<in> set (targets_of m source)"

definition Sources :: "'s Machine \<Rightarrow> 's \<Rightarrow> 's list" where
  "Sources m status = filter (\<lambda>source. Can m source status) (States m)"

section \<open>Breadth-first reachability\<close>

text \<open>
  The body of the outer loop of \<^verbatim>\<open>reachable\<close>: every target that was not
  visited is marked and queued. \<^verbatim>\<open>visited\<close> maps states to \<^verbatim>\<open>true\<close> only, so it is
  the list of the states it maps.
\<close>

fun visit_targets :: "'s list \<Rightarrow> 's list \<Rightarrow> 's list \<Rightarrow> 's list \<times> 's list" where
  "visit_targets [] visited queue = (visited, queue)"
| "visit_targets (n # ns) visited queue =
     (if n \<in> set visited then visit_targets ns visited queue
      else visit_targets ns (n # visited) (queue @ [n]))"

definition edge_ends :: "('s, 's list) gomap \<Rightarrow> 's set" where
  "edge_ends ts = (\<Union>p \<in> set ts. set (snd p))"

lemma finite_edge_ends [simp]: "finite (edge_ends ts)"
  by (simp add: edge_ends_def)

lemma targets_edge_ends: "set (mget_or [] ts s) \<subseteq> edge_ends ts"
proof (cases "mget ts s")
  case (Some targets)
  then have "(s, targets) \<in> set ts" by (rule map_of_SomeD)
  then show ?thesis using Some by (auto simp: edge_ends_def)
qed simp

text \<open>Each round moves states from the unvisited ones to the queue.\<close>

lemma visit_targets_balance:
  assumes "visit_targets ns visited queue = (visited', queue')" and "set ns \<subseteq> E" and "finite E"
  shows "card (E - set visited') + length queue' = card (E - set visited) + length queue"
  using assms
proof (induction ns visited queue rule: visit_targets.induct)
  case (2 n ns visited queue)
  show ?case
  proof (cases "n \<in> set visited")
    case False
    have "E - set (n # visited) = (E - set visited) - {n}" by auto
    moreover have "n \<in> E - set visited" using 2 False by simp
    ultimately have "Suc (card (E - set (n # visited))) = card (E - set visited)"
      using \<open>finite E\<close> by (metis card_Suc_Diff1 finite_Diff)
    then show ?thesis using 2 False by simp
  qed (use 2 in simp)
qed simp

function reach_loop :: "('s, 's list) gomap \<Rightarrow> 's list \<Rightarrow> 's list \<Rightarrow> 's list" where
  "reach_loop ts visited [] = visited"
| "reach_loop ts visited (current # queue) =
     (case visit_targets (mget_or [] ts current) visited queue of
        (visited', queue') \<Rightarrow> reach_loop ts visited' queue')"
  by pat_completeness auto

termination
proof (relation "measure (\<lambda>(ts, visited, queue). card (edge_ends ts - set visited) + length queue)",
    goal_cases)
  case (2 ts visited current queue visited' queue')
  then show ?case
    using visit_targets_balance [OF 2 [symmetric] targets_edge_ends finite_edge_ends]
    by (simp add: 2 [symmetric])
qed simp

definition reachable :: "'s Machine \<Rightarrow> 's \<Rightarrow> ('s, bool) gomap" where
  "reachable m start =
     (let visited = reach_loop (Transitions m) [start] [start]
      in foldl (\<lambda>result state. mput state (state \<in> set visited) result) [] (States m))"

definition reachesTerminal :: "'s Machine \<Rightarrow> 's \<Rightarrow> bool" where
  "reachesTerminal m state \<longleftrightarrow> list_ex (\<lambda>(reached, ok). ok \<and> Terminal m reached) (reachable m state)"

section \<open>The structural check\<close>

datatype 's verify_error =
    NoStates
  | DeclaredTwice 's
  | UndeclaredSource 's
  | UndeclaredTarget 's 's
  | SelfTransition 's
  | Unreachable 's
  | CannotTerminate 's

fun declare_states :: "'s list \<Rightarrow> 's list \<Rightarrow> 's verify_error option" where
  "declare_states declared [] = None"
| "declare_states declared (s # ss) =
     (if s \<in> set declared then Some (DeclaredTwice s) else declare_states (s # declared) ss)"

fun check_targets :: "'s list \<Rightarrow> 's \<Rightarrow> 's list \<Rightarrow> 's verify_error option" where
  "check_targets declared source [] = None"
| "check_targets declared source (t # ts) =
     (if t \<notin> set declared then Some (UndeclaredTarget source t)
      else if t = source then Some (SelfTransition source)
      else check_targets declared source ts)"

fun check_transitions :: "'s list \<Rightarrow> ('s, 's list) gomap \<Rightarrow> 's verify_error option" where
  "check_transitions declared [] = None"
| "check_transitions declared ((source, targets) # rest) =
     (if source \<notin> set declared then Some (UndeclaredSource source)
      else case check_targets declared source targets of
        Some e \<Rightarrow> Some e
      | None \<Rightarrow> check_transitions declared rest)"

text \<open>The first state of a list that fails a test, as the error a loop returns for it.\<close>

definition first_failing :: "('s \<Rightarrow> 'e) \<Rightarrow> ('s \<Rightarrow> bool) \<Rightarrow> 's list \<Rightarrow> 'e option" where
  "first_failing err ok ss = map_option err (find (\<lambda>s. \<not> ok s) ss)"

definition Verify :: "'s Machine \<Rightarrow> 's verify_error option" where
  "Verify m =
     (case Initial m of
        None \<Rightarrow> Some NoStates
      | Some initial \<Rightarrow>
         (case declare_states [] (States m) of Some e \<Rightarrow> Some e | None \<Rightarrow>
         (case check_transitions (States m) (Transitions m) of Some e \<Rightarrow> Some e | None \<Rightarrow>
         (case first_failing (Unreachable \<circ> fst) snd (reachable m initial) of Some e \<Rightarrow> Some e | None \<Rightarrow>
            first_failing CannotTerminate (reachesTerminal m) (States m)))))"

section \<open>Reachability is the closure of the transitions\<close>

lemma visit_targets_visited:
  assumes "visit_targets ns visited queue = (visited', queue')"
  shows "set visited' = set visited \<union> set ns" and "set queue' = set queue \<union> (set ns - set visited)"
  using assms by (induction ns visited queue rule: visit_targets.induct) (auto split: if_splits)

lemma reach_loop_mono: "set visited \<subseteq> set (reach_loop ts visited queue)"
proof (induction ts visited queue rule: reach_loop.induct)
  case (2 ts visited current queue)
  then show ?case
    by (cases "visit_targets (mget_or [] ts current) visited queue")
      (auto dest: visit_targets_visited)
qed simp

lemma reach_loop_sound:
  assumes "set queue \<subseteq> set visited"
    and "\<And>s. s \<in> set visited \<Longrightarrow> (\<lambda>a b. b \<in> set (mget_or [] ts a))\<^sup>*\<^sup>* start s"
    and "s \<in> set (reach_loop ts visited queue)"
  shows "(\<lambda>a b. b \<in> set (mget_or [] ts a))\<^sup>*\<^sup>* start s"
  using assms
proof (induction ts visited queue rule: reach_loop.induct)
  case (2 ts visited current queue)
  obtain visited' queue' where v: "visit_targets (mget_or [] ts current) visited queue = (visited', queue')"
    by fastforce
  note vq = visit_targets_visited [OF v]
  have sound: "(\<lambda>a b. b \<in> set (mget_or [] ts a))\<^sup>*\<^sup>* start s'" if "s' \<in> set visited'" for s'
    using that 2(2,3) vq by (auto intro: rtranclp.rtrancl_into_rtrancl)
  show ?case
    by (rule 2(1) [OF v [symmetric]]) (use 2 v vq sound in auto)
qed simp

lemma reach_loop_closed:
  assumes "set queue \<subseteq> set visited"
    and "\<And>a b. a \<in> set visited \<Longrightarrow> a \<notin> set queue \<Longrightarrow> b \<in> set (mget_or [] ts a) \<Longrightarrow> b \<in> set visited"
    and "a \<in> set (reach_loop ts visited queue)" and "b \<in> set (mget_or [] ts a)"
  shows "b \<in> set (reach_loop ts visited queue)"
  using assms
proof (induction ts visited queue rule: reach_loop.induct)
  case (1 ts visited)
  then show ?case by simp
next
  case (2 ts visited current queue)
  obtain visited' queue' where v: "visit_targets (mget_or [] ts current) visited queue = (visited', queue')"
    by fastforce
  note vq = visit_targets_visited [OF v]
  have "y \<in> set visited'" if "x \<in> set visited'" "x \<notin> set queue'" "y \<in> set (mget_or [] ts x)" for x y
    using that 2(3) [of x y] vq by auto
  moreover have "set queue' \<subseteq> set visited'" using 2(2) vq by auto
  ultimately show ?case using 2(1) [OF v [symmetric]] 2(4,5) v by auto
qed

lemma reach_loop_rtrancl:
  "s \<in> set (reach_loop (Transitions m) [start] [start]) \<longleftrightarrow> (Can m)\<^sup>*\<^sup>* start s"
proof
  have can: "Can m = (\<lambda>a b. b \<in> set (targets_of m a))"
    by (auto simp: Can_def fun_eq_iff)
  show "(Can m)\<^sup>*\<^sup>* start s" if "s \<in> set (reach_loop (Transitions m) [start] [start])"
    using that reach_loop_sound [of "[start]" "[start]"] unfolding can by auto
  show "s \<in> set (reach_loop (Transitions m) [start] [start])" if "(Can m)\<^sup>*\<^sup>* start s"
    using that
  proof (induction rule: rtranclp_induct)
    case base
    have "set [start] \<subseteq> set (reach_loop (Transitions m) [start] [start])" by (rule reach_loop_mono)
    then show ?case by simp
  next
    case (step y z)
    show ?case
      by (rule reach_loop_closed [of "[start]" "[start]" "Transitions m" y])
        (use step in \<open>auto simp: Can_def\<close>)
  qed
qed

lemma foldl_mput_function:
  "mget (foldl (\<lambda>r s. mput s (f s) r) m0 ss) k = (if k \<in> set ss then Some (f k) else mget m0 k)"
  by (induction ss arbitrary: m0) auto

lemma gomap_ok_foldl_mput: "gomap_ok m0 \<Longrightarrow> gomap_ok (foldl (\<lambda>r s. mput s (f s) r) m0 ss)"
  by (induction ss arbitrary: m0) auto

lemma reachable_ok: "gomap_ok (reachable m start)"
  by (simp add: reachable_def gomap_ok_foldl_mput)

lemma mget_reachable:
  "mget (reachable m start) s = (if Valid m s then Some ((Can m)\<^sup>*\<^sup>* start s) else None)"
  by (simp add: reachable_def foldl_mput_function Valid_def reach_loop_rtrancl [symmetric])

lemma mem_reachable:
  "(s, ok) \<in> set (reachable m start) \<longleftrightarrow> Valid m s \<and> ok = (Can m)\<^sup>*\<^sup>* start s"
  by (auto simp: gomap_ok_mem [OF reachable_ok] mget_reachable)

lemma reachesTerminal_iff:
  "reachesTerminal m s \<longleftrightarrow> (\<exists>t. (Can m)\<^sup>*\<^sup>* s t \<and> Terminal m t)"
  by (auto simp: reachesTerminal_def list_ex_iff mem_reachable Terminal_def split: prod.splits)

section \<open>What acceptance means\<close>

lemma declare_states_None:
  "declare_states declared ss = None \<longleftrightarrow> distinct ss \<and> set declared \<inter> set ss = {}"
  by (induction ss arbitrary: declared) auto

lemma check_targets_None:
  "check_targets declared source ts = None \<longleftrightarrow> set ts \<subseteq> set declared \<and> source \<notin> set ts"
  by (induction ts) auto

lemma check_transitions_None:
  "check_transitions declared ts = None \<longleftrightarrow>
     (\<forall>(source, targets) \<in> set ts.
        source \<in> set declared \<and> set targets \<subseteq> set declared \<and> source \<notin> set targets)"
proof (induction ts)
  case (Cons p ts)
  have "check_transitions declared (p # ts) = None \<longleftrightarrow>
      fst p \<in> set declared \<and> check_targets declared (fst p) (snd p) = None
      \<and> check_transitions declared ts = None"
    by (cases p) (simp split: option.splits)
  then show ?case using Cons by (cases p) (simp add: check_targets_None)
qed simp

lemma first_failing_None: "first_failing err ok ss = None \<longleftrightarrow> (\<forall>s \<in> set ss. ok s)"
  by (auto simp: first_failing_def find_None_iff)

text \<open>The conditions the doc comment of \<^verbatim>\<open>Verify\<close> lists, on the relation the machine denotes.\<close>

definition contract_machine :: "'s Machine \<Rightarrow> bool" where
  "contract_machine m \<longleftrightarrow>
     States m \<noteq> [] \<and> distinct (States m)
   \<and> (\<forall>s. mget (Transitions m) s \<noteq> None \<longrightarrow> Valid m s)
   \<and> (\<forall>s t. Can m s t \<longrightarrow> Valid m s \<and> Valid m t \<and> s \<noteq> t)
   \<and> (\<forall>s. Valid m s \<longrightarrow> (Can m)\<^sup>*\<^sup>* (hd (States m)) s)
   \<and> (\<forall>s. Valid m s \<longrightarrow> (\<exists>t. (Can m)\<^sup>*\<^sup>* s t \<and> Terminal m t))"

lemma transitions_declared_iff:
  assumes "gomap_ok (Transitions m)"
  shows "check_transitions (States m) (Transitions m) = None \<longleftrightarrow>
    (\<forall>s. mget (Transitions m) s \<noteq> None \<longrightarrow> Valid m s)
    \<and> (\<forall>s t. Can m s t \<longrightarrow> Valid m s \<and> Valid m t \<and> s \<noteq> t)" (is "?l = ?r")
proof -
  have "?l \<longleftrightarrow> (\<forall>s ts. mget (Transitions m) s = Some ts \<longrightarrow>
      Valid m s \<and> (\<forall>t \<in> set ts. Valid m t) \<and> s \<notin> set ts)"
    unfolding check_transitions_None Ball_def split_paired_All prod.case gomap_ok_mem [OF assms]
    by (auto simp: Valid_def)
  also have "\<dots> \<longleftrightarrow> ?r"
  proof (intro iffI conjI allI impI)
    fix s t
    assume *: "\<forall>s ts. mget (Transitions m) s = Some ts \<longrightarrow>
      Valid m s \<and> (\<forall>t \<in> set ts. Valid m t) \<and> s \<notin> set ts" and "Can m s t"
    then obtain ts where "mget (Transitions m) s = Some ts" "t \<in> set ts"
      by (cases "mget (Transitions m) s") (auto simp: Can_def)
    then show "Valid m s" "Valid m t" "s \<noteq> t" using * by auto
  next
    fix s ts
    assume "?r" and "mget (Transitions m) s = Some ts"
    moreover have "Can m s t" if "t \<in> set ts" for t
      using that \<open>mget (Transitions m) s = Some ts\<close> by (simp add: Can_def)
    ultimately show "Valid m s" "\<forall>t \<in> set ts. Valid m t" "s \<notin> set ts" by auto
  qed auto
  finally show ?thesis .
qed

lemma Verify_None_iff:
  assumes "gomap_ok (Transitions m)"
  shows "Verify m = None \<longleftrightarrow> contract_machine m"
proof (cases "States m")
  case Nil
  then show ?thesis by (simp add: Verify_def Initial_def contract_machine_def)
next
  case (Cons initial rest)
  then have "Verify m = None \<longleftrightarrow> declare_states [] (States m) = None
      \<and> check_transitions (States m) (Transitions m) = None
      \<and> first_failing (Unreachable \<circ> fst) snd (reachable m initial) = None
      \<and> first_failing CannotTerminate (reachesTerminal m) (States m) = None"
    by (simp add: Verify_def Initial_def split: option.splits)
  moreover have "first_failing (Unreachable \<circ> fst) snd (reachable m initial) = None \<longleftrightarrow>
      (\<forall>s. Valid m s \<longrightarrow> (Can m)\<^sup>*\<^sup>* initial s)"
  proof -
    have "(\<forall>p \<in> set (reachable m initial). snd p) \<longleftrightarrow>
        (\<forall>s ok. (s, ok) \<in> set (reachable m initial) \<longrightarrow> ok)" by force
    then show ?thesis by (simp add: first_failing_None mem_reachable)
  qed
  moreover have "hd (States m) = initial" and "States m \<noteq> []" using Cons by simp_all
  ultimately show ?thesis
    unfolding contract_machine_def declare_states_None transitions_declared_iff [OF assms]
      first_failing_None [of CannotTerminate] reachesTerminal_iff Valid_def by (simp add: Ball_def)
qed

text \<open>Every error \<^verbatim>\<open>Verify\<close> returns names a state that violates the condition it reports.\<close>

lemma declare_states_Some:
  assumes "declare_states declared ss = Some e"
  shows "\<exists>s. e = DeclaredTwice s \<and> 2 \<le> count_list (declared @ ss) s"
  using assms
proof (induction ss arbitrary: declared)
  case (Cons s ss)
  show ?case
  proof (cases "s \<in> set declared")
    case True
    then have "1 \<le> count_list declared s" by (metis One_nat_def Suc_leI count_list_0_iff neq0_conv)
    then show ?thesis using True Cons.prems by auto
  next
    case False
    then have "declare_states (s # declared) ss = Some e" using Cons.prems by simp
    from Cons.IH [OF this] show ?thesis by (auto split: if_splits)
  qed
qed simp

lemma check_targets_Some:
  assumes "check_targets declared source ts = Some e"
  shows "(\<exists>t \<in> set ts. e = UndeclaredTarget source t \<and> t \<notin> set declared)
    \<or> e = SelfTransition source \<and> source \<in> set ts"
  using assms by (induction ts) (auto split: if_splits)

lemma check_transitions_Some:
  assumes "check_transitions declared ts = Some e"
  shows "(\<exists>s. e = UndeclaredSource s \<and> s \<in> set (mkeys ts) \<and> s \<notin> set declared)
    \<or> (\<exists>s targets. (s, targets) \<in> set ts \<and> check_targets declared s targets = Some e)"
  using assms
proof (induction ts)
  case (Cons p ts)
  obtain source targets where p: "p = (source, targets)" by fastforce
  show ?case
  proof (cases "source \<in> set declared \<and> check_targets declared source targets = None")
    case True
    then have "check_transitions declared ts = Some e" using Cons.prems p by simp
    from Cons.IH [OF this] show ?thesis by auto
  qed (use Cons.prems p in \<open>auto split: option.splits if_splits\<close>)
qed simp

lemma first_failing_Some: "first_failing err ok ss = Some e \<Longrightarrow> \<exists>s \<in> set ss. e = err s \<and> \<not> ok s"
  by (auto simp: first_failing_def dest!: find_SomeD)

primrec violates :: "'s Machine \<Rightarrow> 's verify_error \<Rightarrow> bool" where
  "violates m NoStates \<longleftrightarrow> States m = []"
| "violates m (DeclaredTwice s) \<longleftrightarrow> 2 \<le> count_list (States m) s"
| "violates m (UndeclaredSource s) \<longleftrightarrow> mget (Transitions m) s \<noteq> None \<and> \<not> Valid m s"
| "violates m (UndeclaredTarget s t) \<longleftrightarrow> Can m s t \<and> \<not> Valid m t"
| "violates m (SelfTransition s) \<longleftrightarrow> Can m s s"
| "violates m (Unreachable s) \<longleftrightarrow> Valid m s \<and> \<not> (Can m)\<^sup>*\<^sup>* (hd (States m)) s"
| "violates m (CannotTerminate s) \<longleftrightarrow> Valid m s \<and> \<not> (\<exists>t. (Can m)\<^sup>*\<^sup>* s t \<and> Terminal m t)"

lemma check_transitions_violates:
  assumes "gomap_ok (Transitions m)"
    and "check_transitions (States m) (Transitions m) = Some e"
  shows "violates m e"
  using check_transitions_Some [OF assms(2)]
proof (elim disjE exE conjE)
  fix s assume "e = UndeclaredSource s" "s \<in> set (mkeys (Transitions m))" "s \<notin> set (States m)"
  then show ?thesis by (force simp: Valid_def dest: weak_map_of_SomeI)
next
  fix s targets
  assume st: "(s, targets) \<in> set (Transitions m)" "check_targets (States m) s targets = Some e"
  then have "Can m s t" if "t \<in> set targets" for t
    using that gomap_ok_mem [OF assms(1)] by (simp add: Can_def)
  then show ?thesis using check_targets_Some [OF st(2)] by (auto simp: Valid_def)
qed

lemma Verify_error_violates:
  assumes "gomap_ok (Transitions m)" and "Verify m = Some e"
  shows "violates m e"
proof (cases "States m")
  case Nil
  then show ?thesis using assms by (auto simp: Verify_def Initial_def)
next
  case (Cons initial rest)
  from Cons assms(2) consider
      "declare_states [] (States m) = Some e"
    | "check_transitions (States m) (Transitions m) = Some e"
    | "first_failing (Unreachable \<circ> fst) snd (reachable m initial) = Some e"
    | "first_failing CannotTerminate (reachesTerminal m) (States m) = Some e"
    by (auto simp: Verify_def Initial_def split: option.splits)
  then show ?thesis
  proof cases
    case 1
    then show ?thesis using declare_states_Some by fastforce
  next
    case 2
    then show ?thesis using check_transitions_violates [OF assms(1)] by blast
  next
    case 3
    then obtain s where "(s, False) \<in> set (reachable m initial)" "e = Unreachable s"
      using first_failing_Some by fastforce
    then show ?thesis using Cons by (auto simp: mem_reachable)
  next
    case 4
    then show ?thesis using first_failing_Some by (fastforce simp: reachesTerminal_iff Valid_def)
  qed
qed

section \<open>The contract of a verified machine\<close>

locale verified_machine =
  fixes m :: "'s Machine"
  assumes transitions_ok: "gomap_ok (Transitions m)" and verified: "Verify m = None"
begin

lemma is_contract: "contract_machine m"
  using Verify_None_iff [OF transitions_ok] verified by simp

lemma terminal_absorbing:
  assumes "(Can m)\<^sup>*\<^sup>* s t" and "Terminal m s"
  shows "t = s"
  using assms by (induction rule: converse_rtranclp_induct) (auto simp: Terminal_def Can_def)

lemma stays_valid:
  assumes "(Can m)\<^sup>*\<^sup>* s t" and "Valid m s"
  shows "Valid m t"
  using assms(1)
proof (cases rule: rtranclp.cases)
  case (rtrancl_into_rtrancl y)
  then show ?thesis using is_contract by (auto simp: contract_machine_def)
qed (use assms in auto)

lemma can_finish:
  assumes "Valid m s"
  shows "\<exists>t. (Can m)\<^sup>*\<^sup>* s t \<and> Terminal m t"
  using assms is_contract by (auto simp: contract_machine_def)

lemma sources_are_guards: "set (Sources m t) = {s. Can m s t}"
  using is_contract by (auto simp: Sources_def contract_machine_def Valid_def)

end

section \<open>The vocabularies of the repository\<close>

subsection \<open>Infrastructure claims\<close>

abbreviation (input) PhasePending :: string where "PhasePending \<equiv> ''pending''"
abbreviation (input) PhaseBound :: string where "PhaseBound \<equiv> ''bound''"
abbreviation (input) PhaseProvisioned :: string where "PhaseProvisioned \<equiv> ''provisioned''"
abbreviation (input) PhaseReleasing :: string where "PhaseReleasing \<equiv> ''releasing''"
abbreviation (input) PhaseReleased :: string where "PhaseReleased \<equiv> ''released''"

definition claim_Phases :: "string Machine" where
  "claim_Phases = \<lparr>
     States = [PhasePending, PhaseBound, PhaseProvisioned, PhaseReleasing, PhaseReleased],
     Transitions = [
       (PhasePending, [PhaseBound, PhaseReleased]),
       (PhaseBound, [PhaseProvisioned, PhasePending, PhaseReleasing]),
       (PhaseProvisioned, [PhaseReleasing]),
       (PhaseReleasing, [PhaseReleased])]\<rparr>"

subsection \<open>Artifacts\<close>

abbreviation (input) PhaseVerified :: string where "PhaseVerified \<equiv> ''verified''"
abbreviation (input) PhaseAbandoned :: string where "PhaseAbandoned \<equiv> ''abandoned''"
abbreviation (input) PhaseEvicted :: string where "PhaseEvicted \<equiv> ''evicted''"

definition artifact_Phases :: "string Machine" where
  "artifact_Phases = \<lparr>
     States = [PhasePending, PhaseVerified, PhaseAbandoned, PhaseEvicted],
     Transitions = [
       (PhasePending, [PhaseVerified, PhaseAbandoned]),
       (PhaseVerified, [PhaseEvicted])]\<rparr>"

subsection \<open>Builds\<close>

definition build_Statuses :: "string Machine" where
  "build_Statuses = \<lparr>
     States = [''queued'', ''claimed'', ''running'', ''succeeded'', ''failed'', ''cancelled''],
     Transitions = [
       (''queued'', [''claimed'', ''cancelled'']),
       (''claimed'', [''running'', ''queued'', ''cancelled'']),
       (''running'', [''succeeded'', ''failed'', ''cancelled''])]\<rparr>"

subsection \<open>The execution journal\<close>

definition Runs :: "string Machine" where
  "Runs = \<lparr>
     States = [''pending'', ''running'', ''succeeded'', ''failed'', ''cancelled''],
     Transitions = [
       (''pending'', [''running'', ''cancelled'']),
       (''running'', [''succeeded'', ''failed'', ''cancelled''])]\<rparr>"

definition Steps :: "string Machine" where
  "Steps = \<lparr>
     States = [''pending'', ''waiting'', ''running'', ''succeeded'', ''failed'', ''skipped'', ''cancelled''],
     Transitions = [
       (''pending'', [''waiting'', ''running'', ''skipped'', ''cancelled'']),
       (''waiting'', [''running'', ''skipped'', ''failed'', ''cancelled'']),
       (''running'', [''waiting'', ''succeeded'', ''failed'', ''cancelled''])]\<rparr>"

definition Attempts :: "string Machine" where
  "Attempts = \<lparr>
     States = [''running'', ''succeeded'', ''failed'', ''cancelled''],
     Transitions = [(''running'', [''succeeded'', ''failed'', ''cancelled''])]\<rparr>"

text \<open>\<^verbatim>\<open>journal.guard\<close>: the error of a status change the machine does not permit.\<close>

datatype 's transition_error = ErrInvalidTransition 's 's

definition guard :: "'s Machine \<Rightarrow> 's \<Rightarrow> 's \<Rightarrow> 's transition_error + unit" where
  "guard machine source target =
     (if \<not> Can machine source target then Inl (ErrInvalidTransition source target) else Inr ())"

subsection \<open>Deployments, pools and stores\<close>

definition DeploymentStatuses :: "string Machine" where
  "DeploymentStatuses = \<lparr>
     States = [''preparing'', ''promoted'', ''failed'', ''cancelled''],
     Transitions = [(''preparing'', [''promoted'', ''failed'', ''cancelled''])]\<rparr>"

definition ClusterStates :: "string Machine" where
  "ClusterStates = \<lparr>
     States = [''active'', ''releasing'', ''released''],
     Transitions = [(''active'', [''releasing'']), (''releasing'', [''released''])]\<rparr>"

definition StoreStates :: "string Machine" where
  "StoreStates = \<lparr>
     States = [''active'', ''releasing'', ''released''],
     Transitions = [(''active'', [''releasing'']), (''releasing'', [''released''])]\<rparr>"

interpretation claims: verified_machine claim_Phases
  by unfold_locales (simp add: gomap_ok_def claim_Phases_def, code_simp)

interpretation artifacts: verified_machine artifact_Phases
  by unfold_locales (simp add: gomap_ok_def artifact_Phases_def, code_simp)

interpretation builds: verified_machine build_Statuses
  by unfold_locales (simp add: gomap_ok_def build_Statuses_def, code_simp)

interpretation runs: verified_machine Runs
  by unfold_locales (simp add: gomap_ok_def Runs_def, code_simp)

interpretation steps: verified_machine Steps
  by unfold_locales (simp add: gomap_ok_def Steps_def, code_simp)

interpretation attempts: verified_machine Attempts
  by unfold_locales (simp add: gomap_ok_def Attempts_def, code_simp)

interpretation deployments: verified_machine DeploymentStatuses
  by unfold_locales (simp add: gomap_ok_def DeploymentStatuses_def, code_simp)

interpretation pools: verified_machine ClusterStates
  by unfold_locales (simp add: gomap_ok_def ClusterStates_def, code_simp)

interpretation stores: verified_machine StoreStates
  by unfold_locales (simp add: gomap_ok_def StoreStates_def, code_simp)

section \<open>Properties\<close>

lemma Verify_sound_and_complete_parts:
  assumes "gomap_ok (Transitions m)"
  shows "Verify m = None \<longleftrightarrow> contract_machine m"
    and "Verify m = Some e \<Longrightarrow> violates m e"
  using Verify_None_iff [OF assms] Verify_error_violates [OF assms] by blast+

text \<open>
  C38. \<^verbatim>\<open>Verify\<close> accepts a machine exactly when the conditions of its doc comment
  hold of the transition relation (a state, distinct states, transitions
  only between distinct declared states, every state reachable, a terminal
  state reachable from everywhere), and every error it returns names a
  state that really violates the condition reported, in whatever order the
  transition map is visited.\<close>

theorem Verify_sound_and_complete:
  assumes "gomap_ok (Transitions m)"
  shows "(Verify m = None \<longleftrightarrow> contract_machine m)
    \<and> (Verify m = Some e \<longrightarrow> violates m e)"
  by (rule conjI, rule Verify_sound_and_complete_parts(1) [OF assms], rule impI,
      erule Verify_sound_and_complete_parts(2) [OF assms])

theorem Verify_sound_and_complete_witness:
  "(contract_machine Runs)
    \<and> (violates \<lparr>States = [0::nat, 1], Transitions = [(0, [1]), (1, [0])]\<rparr> (CannotTerminate 0))"
proof (intro conjI)
  show "contract_machine Runs"
    using Verify_sound_and_complete [of Runs, THEN conjunct1] runs.verified runs.transitions_ok by simp
  let ?m = "\<lparr>States = [0::nat, 1], Transitions = [(0, [1]), (1, [0])]\<rparr>"
  have "Verify ?m = Some (CannotTerminate 0)" by code_simp
  then show "violates ?m (CannotTerminate 0)"
    using Verify_sound_and_complete [of ?m, THEN conjunct2, THEN mp] by (simp add: gomap_ok_def)
qed

text \<open>The loop of \<^verbatim>\<open>reachable\<close> with a bound on its rounds: \<^term>\<open>None\<close> when the bound is too small.\<close>

fun reach_rounds :: "nat \<Rightarrow> ('s, 's list) gomap \<Rightarrow> 's list \<Rightarrow> 's list \<Rightarrow> 's list option" where
  "reach_rounds n ts visited [] = Some visited"
| "reach_rounds 0 ts visited (current # queue) = None"
| "reach_rounds (Suc n) ts visited (current # queue) =
     (case visit_targets (mget_or [] ts current) visited queue of
        (visited', queue') \<Rightarrow> reach_rounds n ts visited' queue')"

lemma reach_rounds_enough:
  assumes "card (edge_ends ts - set visited) + length queue \<le> n"
  shows "reach_rounds n ts visited queue = Some (reach_loop ts visited queue)"
  using assms
proof (induction n ts visited queue rule: reach_rounds.induct)
  case (3 n ts visited current queue)
  obtain visited' queue' where v: "visit_targets (mget_or [] ts current) visited queue = (visited', queue')"
    by fastforce
  have "card (edge_ends ts - set visited') + length queue' = card (edge_ends ts - set visited) + length queue"
    by (rule visit_targets_balance [OF v targets_edge_ends finite_edge_ends])
  then show ?case using 3 v by simp
qed auto

lemma reachable_terminates_with_closure_parts:
  shows "reach_rounds (Suc (card (edge_ends (Transitions m)))) (Transitions m) [start] [start] =
      Some (reach_loop (Transitions m) [start] [start])"
    and "mget (reachable m start) s = (if Valid m s then Some ((Can m)\<^sup>*\<^sup>* start s) else None)"
proof -
  have "card (edge_ends (Transitions m) - {start}) \<le> card (edge_ends (Transitions m))"
    by (simp add: card_Diff_subset_Int diff_le_self)
  then show "reach_rounds (Suc (card (edge_ends (Transitions m)))) (Transitions m) [start] [start] =
      Some (reach_loop (Transitions m) [start] [start])"
    by (intro reach_rounds_enough) simp
qed (rule mget_reachable)

text \<open>
  C39. The breadth-first loop of \<^verbatim>\<open>reachable\<close> ends after at most one round more
  than there are transition targets, whatever the machine (also one with
  cycles, or with transitions to undeclared states), and the map it builds
  tells of every declared state, and of no other, whether the transitions
  lead there.\<close>

theorem reachable_terminates_with_closure:
  "(reach_rounds (Suc (card (edge_ends (Transitions m)))) (Transitions m) [start] [start] =
      Some (reach_loop (Transitions m) [start] [start]))
    \<and> (mget (reachable m start) s = (if Valid m s then Some ((Can m)\<^sup>*\<^sup>* start s) else None))"
  by (rule conjI, rule reachable_terminates_with_closure_parts(1),
      rule reachable_terminates_with_closure_parts(2))

lemma vocabularies_verified_parts:
  "list_all (\<lambda>m. Verify m = None)
     [claim_Phases, artifact_Phases, build_Statuses, Runs, Steps, Attempts, DeploymentStatuses,
      ClusterStates, StoreStates]"
  "list_all (\<lambda>m. list_all (\<lambda>s. reachesTerminal m s) (States m))
     [claim_Phases, artifact_Phases, build_Statuses, Runs, Steps, Attempts, DeploymentStatuses,
      ClusterStates, StoreStates]"
  "list_all (\<lambda>m. list_all (\<lambda>s.
       list_all (\<lambda>t. guard m s t = Inl (ErrInvalidTransition s t)) (States m)) (filter (Terminal m) (States m)))
     [claim_Phases, artifact_Phases, build_Statuses, Runs, Steps, Attempts, DeploymentStatuses,
      ClusterStates, StoreStates]"
proof -
  show "list_all (\<lambda>m. Verify m = None)
     [claim_Phases, artifact_Phases, build_Statuses, Runs, Steps, Attempts, DeploymentStatuses,
      ClusterStates, StoreStates]"
    by (simp add: claims.verified artifacts.verified builds.verified runs.verified steps.verified
        attempts.verified deployments.verified pools.verified stores.verified)
  show "list_all (\<lambda>m. list_all (\<lambda>s. reachesTerminal m s) (States m))
     [claim_Phases, artifact_Phases, build_Statuses, Runs, Steps, Attempts, DeploymentStatuses,
      ClusterStates, StoreStates]"
    unfolding list.pred_inject reachesTerminal_iff list_all_iff
    by (simp add: claims.can_finish artifacts.can_finish builds.can_finish runs.can_finish
        steps.can_finish attempts.can_finish deployments.can_finish pools.can_finish
        stores.can_finish Valid_def)
  show "list_all (\<lambda>m. list_all (\<lambda>s.
       list_all (\<lambda>t. guard m s t = Inl (ErrInvalidTransition s t)) (States m)) (filter (Terminal m) (States m)))
     [claim_Phases, artifact_Phases, build_Statuses, Runs, Steps, Attempts, DeploymentStatuses,
      ClusterStates, StoreStates]"
    by (simp add: list_all_iff guard_def Terminal_def Can_def)
qed

text \<open>
  Every status vocabulary of the repository that is declared as a contract
  (claims, artifacts, builds, runs, steps, attempts, deployments, pools,
  stores) passes \<^verbatim>\<open>Verify\<close>, as the tests of the repository check too.
\<close>

lemma vocabularies_verified:
  "(list_all (\<lambda>m. Verify m = None)
     [claim_Phases, artifact_Phases, build_Statuses, Runs, Steps, Attempts, DeploymentStatuses,
      ClusterStates, StoreStates])
    \<and> (list_all (\<lambda>m. list_all (\<lambda>s. reachesTerminal m s) (States m))
     [claim_Phases, artifact_Phases, build_Statuses, Runs, Steps, Attempts, DeploymentStatuses,
      ClusterStates, StoreStates])
    \<and> (list_all (\<lambda>m. list_all (\<lambda>s.
       list_all (\<lambda>t. guard m s t = Inl (ErrInvalidTransition s t)) (States m)) (filter (Terminal m) (States m)))
     [claim_Phases, artifact_Phases, build_Statuses, Runs, Steps, Attempts, DeploymentStatuses,
      ClusterStates, StoreStates])"
  by (rule conjI, rule vocabularies_verified_parts(1), rule conjI, rule vocabularies_verified_parts(2),
      rule vocabularies_verified_parts(3))

text \<open>What a status can still become, read off the machine.\<close>

lemma future_statuses:
  assumes "list_all (\<lambda>(p, ok). ok \<longrightarrow> P p) (reachable m s)" and "(Can m)\<^sup>*\<^sup>* s p" and "Valid m p"
  shows "P p"
  using assms by (force simp: list_all_iff mem_reachable)

lemma teardown_is_one_way_parts:
  assumes "(Can claim_Phases)\<^sup>*\<^sup>* s p" and "(Can artifact_Phases)\<^sup>*\<^sup>* a q"
  shows "s = PhaseReleasing \<Longrightarrow> p = PhaseReleasing \<or> p = PhaseReleased"
    and "s = PhaseProvisioned \<Longrightarrow> p \<noteq> PhasePending \<and> p \<noteq> PhaseBound"
    and "s = PhaseReleased \<Longrightarrow> p = PhaseReleased"
    and "a = PhaseAbandoned \<Longrightarrow> q = PhaseAbandoned"
proof -
  have valid: "Valid claim_Phases p" if "Valid claim_Phases s"
    using claims.stays_valid [OF assms(1)] that .
  have "list_all (\<lambda>(p, ok). ok \<longrightarrow> p = PhaseReleasing \<or> p = PhaseReleased)
      (reachable claim_Phases PhaseReleasing)"
    by code_simp
  from future_statuses [OF this] show "p = PhaseReleasing \<or> p = PhaseReleased" if "s = PhaseReleasing"
    using assms(1) that valid by (simp add: claim_Phases_def Valid_def)
  have "list_all (\<lambda>(p, ok). ok \<longrightarrow> p \<noteq> PhasePending \<and> p \<noteq> PhaseBound)
      (reachable claim_Phases PhaseProvisioned)"
    by code_simp
  from future_statuses [OF this] show "p \<noteq> PhasePending \<and> p \<noteq> PhaseBound" if "s = PhaseProvisioned"
    using assms(1) that valid by (simp add: claim_Phases_def Valid_def)
  show "p = PhaseReleased" if "s = PhaseReleased"
    using claims.terminal_absorbing [OF assms(1)] that
    by (simp add: Terminal_def Valid_def claim_Phases_def mget_or_def)
  show "q = PhaseAbandoned" if "a = PhaseAbandoned"
    using artifacts.terminal_absorbing [OF assms(2)] that
    by (simp add: Terminal_def Valid_def artifact_Phases_def mget_or_def)
qed

text \<open>
  Teardown is one-way. A claim that is releasing can only become released;
  one whose tenant was provisioned never returns to pending or bound; a
  released claim stays released. An artifact is evicted only after it was
  verified: an abandoned one never becomes verified or evicted.
\<close>

theorem teardown_is_one_way:
  assumes "(Can claim_Phases)\<^sup>*\<^sup>* s p" and "(Can artifact_Phases)\<^sup>*\<^sup>* a q"
  shows "(s = PhaseReleasing \<longrightarrow> p = PhaseReleasing \<or> p = PhaseReleased)
    \<and> (s = PhaseProvisioned \<longrightarrow> p \<noteq> PhasePending \<and> p \<noteq> PhaseBound)
    \<and> (s = PhaseReleased \<longrightarrow> p = PhaseReleased)
    \<and> (a = PhaseAbandoned \<longrightarrow> q = PhaseAbandoned)"
  by (rule conjI, rule impI, erule teardown_is_one_way_parts(1) [OF assms], rule conjI, rule impI,
      erule teardown_is_one_way_parts(2) [OF assms], rule conjI, rule impI,
      erule teardown_is_one_way_parts(3) [OF assms], rule impI,
      erule teardown_is_one_way_parts(4) [OF assms])

theorem teardown_is_one_way_witness:
  "((Can claim_Phases)\<^sup>*\<^sup>* PhaseReleasing PhaseReleased)
    \<and> ((Can artifact_Phases)\<^sup>*\<^sup>* PhaseAbandoned PhaseAbandoned)
    \<and> (PhaseReleased \<noteq> PhasePending)"
proof (intro conjI)
  have c: "Can claim_Phases PhaseReleasing PhaseReleased"
    and d: "Can claim_Phases PhaseProvisioned PhaseReleasing" by code_simp+
  then show r: "(Can claim_Phases)\<^sup>*\<^sup>* PhaseReleasing PhaseReleased" by blast
  show a: "(Can artifact_Phases)\<^sup>*\<^sup>* PhaseAbandoned PhaseAbandoned" by simp
  have "(Can claim_Phases)\<^sup>*\<^sup>* PhaseProvisioned PhaseReleased"
    using c d by (meson converse_rtranclp_into_rtranclp r)
  then show "PhaseReleased \<noteq> PhasePending"
    using teardown_is_one_way [OF _ a, THEN conjunct2, THEN conjunct1, THEN mp] by blast
qed

end
