(* ===== verification/Module_Health.thy ===== *)
theory Module_Health
  imports Go_Strings
begin

text \<open>
  The vocabulary of \<^verbatim>\<open>internal/module/health.go\<close>: the typed projections the
  observation store hands to module evaluation, the health ladder and its
  rollup, the availability test of a workload, and the freshness guards.

  A slice is a list option: \<^term>\<open>None\<close> is the nil slice, which ranges like the
  empty one and differs from it only under \<^verbatim>\<open>reflect.DeepEqual\<close>; a map
  likewise. A pointer is an option, with value semantics, since no modelled
  operation writes through one. An int32 or int64 field is an integer;
  where the code computes with one, the wrap-around is written out.
\<close>

type_synonym 'a slice = "'a list option"

definition elems :: "'a slice \<Rightarrow> 'a list" where
  "elems s = (case s of None \<Rightarrow> [] | Some xs \<Rightarrow> xs)"

lemma elems_simps [simp]: "elems None = []" "elems (Some xs) = xs"
  by (simp_all add: elems_def)

section \<open>The health ladder\<close>

type_synonym Health = string

abbreviation (input) HealthUnknown :: Health where "HealthUnknown \<equiv> ''unknown''"
abbreviation (input) HealthProgressing :: Health where "HealthProgressing \<equiv> ''progressing''"
abbreviation (input) HealthHealthy :: Health where "HealthHealthy \<equiv> ''healthy''"
abbreviation (input) HealthDegraded :: Health where "HealthDegraded \<equiv> ''degraded''"
abbreviation (input) HealthUnhealthy :: Health where "HealthUnhealthy \<equiv> ''unhealthy''"

definition healthRank :: "(Health, int) gomap" where
  "healthRank = [(HealthHealthy, 1), (HealthUnknown, 2), (HealthProgressing, 3),
     (HealthDegraded, 4), (HealthUnhealthy, 5)]"

abbreviation rank_of :: "Health \<Rightarrow> int" where
  "rank_of h \<equiv> mget_or 0 healthRank h"

definition worse :: "Health \<Rightarrow> Health \<Rightarrow> Health" where
  "worse worst health = (if rank_of health > rank_of worst then health else worst)"

definition WorstHealth :: "Health list \<Rightarrow> Health" where
  "WorstHealth healths =
     (if length healths = 0 then HealthUnknown else foldl worse HealthHealthy healths)"

section \<open>Projections\<close>

record Condition =
  Type :: string
  Status :: string
  Reason :: string
  Message :: string

record SourceStatus =
  State :: string
  StaleSince :: gotime
  LastSync :: gotime

record RolloutStatus =
  DesiredColor :: string
  ServingColor :: string

record EdgeReach =
  Domain :: string
  edge_State :: string
  Deferred :: bool
  Mismatch :: bool
  Issued :: "string slice"

record CertificateStatus =
  cert_Ready :: bool
  Issuing :: bool
  cert_Reason :: string
  cert_Message :: string
  NotAfter :: gotime
  RenewalTime :: gotime
  FailedAttempts :: int
  LastFailureTime :: gotime
  NextRetryTime :: gotime
  NextPrivateKeySecretName :: string
  SecretName :: string
  DNSNames :: "string slice"

record WorkloadStatus =
  Desired :: int
  Ready :: int
  Updated :: int
  Available :: int
  Generation :: int
  ObservedGeneration :: int
  Conditions :: "Condition slice"

record PodStatus =
  pod_Phase :: string
  pod_Ready :: bool
  pod_Node :: string
  Restarts :: int
  pod_Reason :: string
  pod_Message :: string
  Started :: gotime

record AutoscalerStatus =
  Min :: int
  Max :: int
  Current :: int
  DesiredReplicas :: int

record ClaimStatus =
  claim_Phase :: string
  Waiting :: string

record DatabaseClusterStatus =
  Instances :: int
  ReadyInstances :: int
  dbc_Phase :: string
  Primary :: string

record DatabaseConnectionsStatus =
  con_State :: string
  con_Reason :: string
  Since :: gotime
  CheckedAt :: gotime
  Used :: int
  Limit :: int
  con_Max :: int
  Databases :: "(string, int) gomap option"

record DatabaseTenantStatus =
  Applied :: bool
  ten_Message :: string
  Pool :: string

record ComponentPlacement =
  Component :: string
  cp_Node :: string
  Pods :: int

record ObjectStoreStatus =
  MastersDesired :: int
  MastersReady :: int
  VolumeServersDesired :: int
  VolumeServersReady :: int
  FilerReady :: bool
  S3Ready :: bool
  S3Detail :: string
  UnderReplicatedVolumes :: int
  ReplicationPendingVolumes :: int
  Placement :: "ComponentPlacement slice"

record BucketStatus =
  Exists :: bool
  UsedBytes :: int
  DiskBytes :: int
  EntryCount :: int
  QuotaBytes :: int
  ReadOnly :: bool
  ConfigurationDrift :: "string slice"

record ObservedResource =
  res_Kind :: string
  res_Name :: string
  res_Revision :: string
  res_Color :: string
  res_Source :: "SourceStatus option"
  res_Rollout :: "RolloutStatus option"
  res_Edge :: "EdgeReach option"
  res_Workload :: "WorkloadStatus option"
  res_Pod :: "PodStatus option"
  res_Autoscaler :: "AutoscalerStatus option"
  res_Claim :: "ClaimStatus option"
  res_DatabaseCluster :: "DatabaseClusterStatus option"
  res_DatabaseTenant :: "DatabaseTenantStatus option"
  res_DatabaseConnections :: "DatabaseConnectionsStatus option"
  res_ObjectStore :: "ObjectStoreStatus option"
  res_Bucket :: "BucketStatus option"
  res_Certificate :: "CertificateStatus option"

definition empty_resource :: ObservedResource where
  "empty_resource = \<lparr>res_Kind = [], res_Name = [], res_Revision = [], res_Color = [],
     res_Source = None, res_Rollout = None, res_Edge = None, res_Workload = None, res_Pod = None,
     res_Autoscaler = None, res_Claim = None, res_DatabaseCluster = None, res_DatabaseTenant = None,
     res_DatabaseConnections = None, res_ObjectStore = None, res_Bucket = None, res_Certificate = None\<rparr>"

section \<open>Kinds and source states\<close>

abbreviation (input) KindSource :: string where "KindSource \<equiv> ''source''"
abbreviation (input) KindWorkload :: string where "KindWorkload \<equiv> ''workload''"
abbreviation (input) KindPod :: string where "KindPod \<equiv> ''pod''"
abbreviation (input) KindAutoscaler :: string where "KindAutoscaler \<equiv> ''autoscaler''"
abbreviation (input) KindService :: string where "KindService \<equiv> ''service''"
abbreviation (input) KindIngress :: string where "KindIngress \<equiv> ''ingress''"
abbreviation (input) KindVolume :: string where "KindVolume \<equiv> ''volume''"
abbreviation (input) KindDatabaseClaim :: string where "KindDatabaseClaim \<equiv> ''database-claim''"
abbreviation (input) KindDatabaseCluster :: string where "KindDatabaseCluster \<equiv> ''database-cluster''"
abbreviation (input) KindDatabaseTenant :: string where "KindDatabaseTenant \<equiv> ''database-tenant''"
abbreviation (input) KindDatabaseConnections :: string where
  "KindDatabaseConnections \<equiv> ''database-connections''"
abbreviation (input) KindBucketClaim :: string where "KindBucketClaim \<equiv> ''bucket-claim''"
abbreviation (input) KindObjectStore :: string where "KindObjectStore \<equiv> ''object-store''"
abbreviation (input) KindBucket :: string where "KindBucket \<equiv> ''bucket''"
abbreviation (input) KindCertificate :: string where "KindCertificate \<equiv> ''certificate''"

abbreviation (input) SourceFresh :: string where "SourceFresh \<equiv> ''fresh''"
abbreviation (input) SourceStale :: string where "SourceStale \<equiv> ''stale''"
abbreviation (input) SourceUnknown :: string where "SourceUnknown \<equiv> ''unknown''"

section \<open>Operations\<close>

definition wrap32 :: "int \<Rightarrow> int" where
  "wrap32 x = (x + 2147483648) mod 4294967296 - 2147483648"

definition hour :: duration where "hour = 3600 * second"

text \<open>\<^verbatim>\<open>failed-1\<close> is computed as an int32.\<close>

definition CertificateRetryTime :: "int \<Rightarrow> gotime \<Rightarrow> bool \<Rightarrow> bool \<Rightarrow> gotime" where
  "CertificateRetryTime failed lastFailure issuing ready =
     (if is_zero lastFailure \<or> issuing \<or> ready then 0
      else let shift = min (max (wrap32 (failed - 1)) 0) 5
           in lastFailure + hour * 2 ^ nat shift)"

definition deadline_exceeded :: "Condition \<Rightarrow> bool" where
  "deadline_exceeded c \<longleftrightarrow>
     Type c = ''Progressing'' \<and> Status c = ''False'' \<and> Reason c = ''ProgressDeadlineExceeded''"

definition WorkloadAvailable :: "WorkloadStatus option \<Rightarrow> int \<Rightarrow> bool" where
  "WorkloadAvailable workload desired =
     (case workload of
        None \<Rightarrow> False
      | Some w \<Rightarrow>
          if desired \<le> 0 then False
          else if ObservedGeneration w > 0 \<and> ObservedGeneration w < Generation w then False
          else if list_ex deadline_exceeded (elems (Conditions w)) then False
          else Updated w \<ge> desired \<and> Ready w \<ge> desired \<and> Available w \<ge> desired)"

definition zero_source :: SourceStatus where
  "zero_source = \<lparr>State = [], StaleSince = 0, LastSync = 0\<rparr>"

fun StaleSource :: "ObservedResource list \<Rightarrow> SourceStatus option" where
  "StaleSource [] = Some (zero_source\<lparr>State := SourceUnknown\<rparr>)"
| "StaleSource (resource # rest) =
     (if res_Kind resource \<noteq> KindSource then StaleSource rest
      else case res_Source resource of
        None \<Rightarrow> StaleSource rest
      | Some src \<Rightarrow> if State src \<noteq> SourceFresh then Some src else None)"

fun SourceNamed :: "ObservedResource list \<Rightarrow> string \<Rightarrow> SourceStatus option" where
  "SourceNamed [] name = None"
| "SourceNamed (resource # rest) name =
     (if res_Kind resource = KindSource \<and> res_Name resource = name then res_Source resource
      else SourceNamed rest name)"

section \<open>The rollup is the maximum of the ladder\<close>

lemma rank_worse: "rank_of (worse a b) = max (rank_of a) (rank_of b)"
  by (simp add: worse_def max_def)

lemma foldl_worse_rank:
  "rank_of (foldl worse h hs) = foldl max (rank_of h) (map rank_of hs)"
  by (induction hs arbitrary: h) (simp_all add: rank_worse)

lemma foldl_worse_mem: "foldl worse h hs \<in> insert h (set hs)"
proof (induction hs arbitrary: h)
  case (Cons x hs)
  have "worse h x \<in> {h, x}" by (simp add: worse_def)
  then show ?case using Cons [of "worse h x"] by auto
qed simp

lemma foldl_worse_ge: "g \<in> insert h (set hs) \<Longrightarrow> rank_of g \<le> rank_of (foldl worse h hs)"
proof (induction hs arbitrary: g h)
  case (Cons x hs)
  have h: "rank_of (worse h x) \<le> rank_of (foldl worse (worse h x) hs)"
    by (rule Cons.IH) simp
  show ?case
  proof (cases "g \<in> set hs")
    case True
    then show ?thesis using Cons.IH [of g "worse h x"] by simp
  next
    case False
    then have "rank_of g \<le> rank_of (worse h x)" using Cons.prems by (auto simp: rank_worse)
    then show ?thesis using h by simp
  qed
qed simp

definition known_health :: "Health \<Rightarrow> bool" where
  "known_health h \<longleftrightarrow> h \<in> set (mkeys healthRank)"

lemma rank_unique:
  assumes "known_health h" and "rank_of h = rank_of g"
  shows "h = g"
  using assms by (auto simp: known_health_def healthRank_def mget_or_def split: if_splits)

lemma healthy_least: "known_health g \<Longrightarrow> rank_of HealthHealthy \<le> rank_of g"
  by (auto simp: known_health_def healthRank_def mget_or_def)

text \<open>The verdict is the one health of the list that no other outranks.\<close>

lemma WorstHealth_mem:
  assumes "list_all known_health healths" and "healths \<noteq> []"
  shows "WorstHealth healths \<in> set healths"
proof -
  obtain x where x: "x \<in> set healths" using assms(2) last_in_set by blast
  have w: "WorstHealth healths = foldl worse HealthHealthy healths"
    using assms(2) by (simp add: WorstHealth_def)
  have "x = HealthHealthy" if "WorstHealth healths = HealthHealthy"
  proof -
    have k: "known_health x" using x assms(1) by (simp add: list_all_iff)
    have "rank_of x \<le> rank_of HealthHealthy"
      using x that w foldl_worse_ge [of x HealthHealthy healths] by simp
    then show ?thesis by (intro rank_unique [OF k] order_antisym healthy_least [OF k])
  qed
  then show ?thesis using x w foldl_worse_mem [of HealthHealthy healths] by fastforce
qed

lemma WorstHealth_char:
  assumes "list_all known_health healths" and "healths \<noteq> []"
  shows "w = WorstHealth healths \<longleftrightarrow> w \<in> set healths \<and> (\<forall>h \<in> set healths. rank_of h \<le> rank_of w)"
proof -
  have ge: "rank_of h \<le> rank_of (WorstHealth healths)" if "h \<in> set healths" for h
    using that assms(2) foldl_worse_ge [of h HealthHealthy healths] by (simp add: WorstHealth_def)
  have "known_health h" if "h \<in> set healths" for h using that assms(1) by (auto simp: list_all_iff)
  then show ?thesis
    using ge WorstHealth_mem [OF assms] rank_unique by (metis order_antisym)
qed

lemma WorstHealth_is_worst_parts:
  assumes "list_all known_health healths"
  shows "healths \<noteq> [] \<Longrightarrow> WorstHealth healths \<in> set healths"
    and "h \<in> set healths \<Longrightarrow> rank_of h \<le> rank_of (WorstHealth healths)"
    and "WorstHealth healths = HealthHealthy \<longleftrightarrow> healths \<noteq> [] \<and> set healths = {HealthHealthy}"
    and "mset healths' = mset healths \<Longrightarrow> WorstHealth healths' = WorstHealth healths"
proof -
  show mem: "WorstHealth healths \<in> set healths" if "healths \<noteq> []"
    using WorstHealth_mem [OF assms that] .
  show ge: "rank_of h \<le> rank_of (WorstHealth healths)" if "h \<in> set healths" for h
    using that WorstHealth_char [OF assms, of "WorstHealth healths"] by (cases healths) auto
  have eq: "g = HealthHealthy" if "WorstHealth healths = HealthHealthy" "g \<in> set healths" for g
  proof -
    have k: "known_health g" using that(2) assms by (simp add: list_all_iff)
    have "rank_of g \<le> rank_of HealthHealthy" using ge [OF that(2)] unfolding that(1) .
    then show ?thesis by (intro rank_unique [OF k] order_antisym healthy_least [OF k])
  qed
  show "WorstHealth healths = HealthHealthy \<longleftrightarrow> healths \<noteq> [] \<and> set healths = {HealthHealthy}"
  proof
    assume *: "WorstHealth healths = HealthHealthy"
    then have "healths \<noteq> []" by (auto simp: WorstHealth_def)
    moreover from this have "HealthHealthy \<in> set healths" using mem unfolding * by blast
    moreover have "set healths \<subseteq> {HealthHealthy}" using eq [OF *] by blast
    ultimately show "healths \<noteq> [] \<and> set healths = {HealthHealthy}" by blast
  qed (use mem in blast)
  show "WorstHealth healths' = WorstHealth healths" if perm: "mset healths' = mset healths"
  proof (cases "healths = []")
    case False
    have s: "set healths' = set healths" using perm by (rule mset_eq_setD)
    moreover from this have "list_all known_health healths'" using assms by (simp add: list_all_iff)
    moreover have "healths' \<noteq> []" using False s by auto
    ultimately show ?thesis using WorstHealth_char [of healths'] WorstHealth_char [OF assms False] by metis
  qed (use perm in simp)
qed

text \<open>
  The rollup of service healths is the worst of them on the ladder, in
  whatever order the services come; it reads healthy only when there is a
  service and every one of them is healthy, and no service at all reads
  unknown. A service whose health is unknown keeps the verdict from
  reading healthy.
\<close>

theorem WorstHealth_is_worst:
  assumes "list_all known_health healths"
  shows "(healths \<noteq> [] \<longrightarrow> WorstHealth healths \<in> set healths)
    \<and> (h \<in> set healths \<longrightarrow> rank_of h \<le> rank_of (WorstHealth healths))
    \<and> (WorstHealth healths = HealthHealthy \<longleftrightarrow> healths \<noteq> [] \<and> set healths = {HealthHealthy})
    \<and> (mset healths' = mset healths \<longrightarrow> WorstHealth healths' = WorstHealth healths)"
  by (rule conjI, rule impI, erule WorstHealth_is_worst_parts(1) [OF assms], rule conjI, rule impI,
      erule WorstHealth_is_worst_parts(2) [OF assms], rule conjI,
      rule WorstHealth_is_worst_parts(3) [OF assms], rule impI,
      erule WorstHealth_is_worst_parts(4) [OF assms])

theorem WorstHealth_is_worst_witness:
  "(WorstHealth [HealthHealthy, HealthUnknown] \<in> set [HealthHealthy, HealthUnknown])
    \<and> (WorstHealth [HealthUnknown, HealthHealthy] = WorstHealth [HealthHealthy, HealthUnknown])"
proof (intro conjI)
  have k: "list_all known_health [HealthHealthy, HealthUnknown]" by code_simp
  show "WorstHealth [HealthHealthy, HealthUnknown] \<in> set [HealthHealthy, HealthUnknown]"
    by (rule WorstHealth_is_worst [OF k, THEN conjunct1, THEN mp]) simp
  show "WorstHealth [HealthUnknown, HealthHealthy] = WorstHealth [HealthHealthy, HealthUnknown]"
    by (rule WorstHealth_is_worst [OF k, THEN conjunct2, THEN conjunct2, THEN conjunct2, THEN mp]) (simp add: add_mset_commute)
qed

section \<open>Availability and freshness guards\<close>

text \<open>An availability verdict is stable when the workload only improves.\<close>

lemma WorkloadAvailable_counts:
  "WorkloadAvailable (Some w) desired \<Longrightarrow>
     0 < desired \<and> desired \<le> Updated w \<and> desired \<le> Ready w \<and> desired \<le> Available w"
  by (auto simp: WorkloadAvailable_def split: if_splits)

lemma WorkloadAvailable_fewer:
  "WorkloadAvailable w desired \<Longrightarrow> 0 < fewer \<Longrightarrow> fewer \<le> desired \<Longrightarrow> WorkloadAvailable w fewer"
  by (auto simp: WorkloadAvailable_def split: option.splits if_splits)

lemma CertificateRetryTime_bounds_parts:
  shows "lastFailure \<noteq> 0 \<and> \<not> issuing \<and> \<not> ready \<Longrightarrow>
      lastFailure + hour \<le> CertificateRetryTime failed lastFailure issuing ready
      \<and> CertificateRetryTime failed lastFailure issuing ready \<le> lastFailure + 32 * hour"
    and "lastFailure = 0 \<or> issuing \<or> ready \<Longrightarrow> CertificateRetryTime failed lastFailure issuing ready = 0"
    and "lastFailure \<noteq> 0 \<and> 1 \<le> failed \<and> failed \<le> 6 \<Longrightarrow>
      CertificateRetryTime failed lastFailure False False = lastFailure + hour * 2 ^ nat (failed - 1)"
proof -
  have "2 ^ nat (min (max k 0) 5) \<le> (2 :: int) ^ 5" for k :: int
    by (rule power_increasing) auto
  then have "hour * 1 \<le> hour * 2 ^ nat (min (max k 0) 5)" "hour * 2 ^ nat (min (max k 0) 5) \<le> hour * 32"
    for k :: int
    by (intro mult_left_mono; simp add: hour_def second_def)+
  then show "lastFailure + hour \<le> CertificateRetryTime failed lastFailure issuing ready
      \<and> CertificateRetryTime failed lastFailure issuing ready \<le> lastFailure + 32 * hour"
    if "lastFailure \<noteq> 0 \<and> \<not> issuing \<and> \<not> ready"
    using that by (simp add: CertificateRetryTime_def is_zero_def Let_def mult.commute)
  show "CertificateRetryTime failed lastFailure issuing ready = 0" if "lastFailure = 0 \<or> issuing \<or> ready"
    using that by (auto simp: CertificateRetryTime_def is_zero_def)
  show "CertificateRetryTime failed lastFailure False False = lastFailure + hour * 2 ^ nat (failed - 1)"
    if f: "lastFailure \<noteq> 0 \<and> 1 \<le> failed \<and> failed \<le> 6"
  proof -
    have "wrap32 (failed - 1) = failed - 1" using f by (simp add: wrap32_def)
    then show ?thesis using f by (simp add: CertificateRetryTime_def is_zero_def Let_def)
  qed
qed

text \<open>
  The estimate of a certificate's next attempt doubles with every failure from
  one hour and stays between one and thirty-two hours after the last
  failure, also for the counts at the ends of the int32 range, where the
  subtraction wraps; without a failure, or once the certificate is issued
  or being issued, there is no estimate.
\<close>

theorem CertificateRetryTime_bounds:
  "(lastFailure \<noteq> 0 \<and> \<not> issuing \<and> \<not> ready \<longrightarrow>
      lastFailure + hour \<le> CertificateRetryTime failed lastFailure issuing ready
      \<and> CertificateRetryTime failed lastFailure issuing ready \<le> lastFailure + 32 * hour)
    \<and> (lastFailure = 0 \<or> issuing \<or> ready \<longrightarrow> CertificateRetryTime failed lastFailure issuing ready = 0)
    \<and> (lastFailure \<noteq> 0 \<and> 1 \<le> failed \<and> failed \<le> 6 \<longrightarrow>
      CertificateRetryTime failed lastFailure False False = lastFailure + hour * 2 ^ nat (failed - 1))"
  by (rule conjI, rule impI, erule CertificateRetryTime_bounds_parts(1), rule conjI, rule impI,
      erule CertificateRetryTime_bounds_parts(2), rule impI, erule CertificateRetryTime_bounds_parts(3))

theorem CertificateRetryTime_bounds_witness:
  "(CertificateRetryTime 3 5 False False = 5 + hour * 2 ^ nat (3 - 1))
    \<and> (5 + hour \<le> CertificateRetryTime (- 2147483648) 5 False False)
    \<and> (CertificateRetryTime 3 5 True False = 0)"
  using CertificateRetryTime_bounds [where lastFailure = 5 and issuing = False and ready = False and failed = "- 2147483648"]
    CertificateRetryTime_bounds [where lastFailure = 5 and issuing = True and ready = False and failed = 3]
  by simp

text \<open>The guard modules share: evaluation proceeds only behind a fresh leading source.\<close>

lemma StaleSource_None_iff:
  "StaleSource rs = None \<longleftrightarrow>
     (\<exists>r s. find (\<lambda>r. res_Kind r = KindSource \<and> res_Source r \<noteq> None) rs = Some r
        \<and> res_Source r = Some s \<and> State s = SourceFresh)"
  by (induction rs) (auto split: option.splits)

end
