(* ===== verification/Broadcast.thy ===== *)
theory Broadcast
  imports Go_Strings
begin

text \<open>
  The in-process fan-out of \<^verbatim>\<open>internal/broadcast\<close>. Channels are modelled with
  Go's rules: a buffered channel holds at most its capacity, a receive takes
  the oldest event, closing a closed channel or sending on one panics. The
  state keeps every channel ever made, so the theory can say of a
  disconnected subscriber what it still receives. \<^verbatim>\<open>b.mu\<close> makes each operation
  one step. The capacities the code passes to \<^verbatim>\<open>New\<close> are 16, 64 and 256; a capacity
  of zero, an unbuffered channel in Go, would be one that is always full here.
\<close>

section \<open>State\<close>

type_synonym uuid = string

definition uuid_Nil :: uuid where
  "uuid_Nil = ''00000000-0000-0000-0000-000000000000''"

record 'e channel =
  pending :: "'e list"
  closed :: bool

text \<open>
  \<^verbatim>\<open>cancelled\<close> holds the \<^verbatim>\<open>sync.Once\<close> of the cancel functions already called;
  \<^verbatim>\<open>panicked\<close> records a close of a closed channel or a send on one, which would
  end the process.
\<close>

record 'e Broadcaster =
  buffer :: nat
  subs :: "(uuid, (nat, unit) gomap) gomap"
  channels :: "(nat, 'e channel) gomap"
  cancelled :: "nat list"
  panicked :: bool

section \<open>Operations\<close>

definition New :: "nat \<Rightarrow> 'e Broadcaster" where
  "New n = \<lparr>buffer = n, subs = [], channels = [], cancelled = [], panicked = False\<rparr>"

definition close_channel :: "nat \<Rightarrow> 'e Broadcaster \<Rightarrow> 'e Broadcaster" where
  "close_channel ch b =
     (case mget (channels b) ch of
        None \<Rightarrow> b\<lparr>panicked := True\<rparr>
      | Some c \<Rightarrow> if closed c then b\<lparr>panicked := True\<rparr>
                 else b\<lparr>channels := mput ch (c\<lparr>closed := True\<rparr>) (channels b)\<rparr>)"

definition Subscribe :: "uuid \<Rightarrow> 'e Broadcaster \<Rightarrow> nat \<times> 'e Broadcaster" where
  "Subscribe key b =
     (let ch = length (channels b)
      in (ch, b\<lparr>channels := mput ch \<lparr>pending = [], closed = False\<rparr> (channels b),
               subs := mput key (mput ch () (mget_or [] (subs b) key)) (subs b)\<rparr>))"

text \<open>\<^verbatim>\<open>delete(set, ch)\<close> on the set of one key, which the map shares.\<close>

definition drop_subscriber :: "uuid \<Rightarrow> nat \<Rightarrow> 'e Broadcaster \<Rightarrow> 'e Broadcaster" where
  "drop_subscriber key ch b = b\<lparr>subs := mput key (mdel ch (mget_or [] (subs b) key)) (subs b)\<rparr>"

definition drop_empty :: "uuid \<Rightarrow> 'e Broadcaster \<Rightarrow> 'e Broadcaster" where
  "drop_empty key b = (if mget (subs b) key = Some [] then b\<lparr>subs := mdel key (subs b)\<rparr> else b)"

definition cancel :: "uuid \<Rightarrow> nat \<Rightarrow> 'e Broadcaster \<Rightarrow> 'e Broadcaster" where
  "cancel key ch b =
     (if ch \<in> set (cancelled b) then b
      else let b = b\<lparr>cancelled := ch # cancelled b\<rparr>
           in case mget (subs b) key of
                None \<Rightarrow> b
              | Some subscribers \<Rightarrow>
                  drop_empty key
                    (if mget subscribers ch = None then b
                     else close_channel ch (drop_subscriber key ch b)))"

definition Active :: "'e Broadcaster \<Rightarrow> bool" where
  "Active b \<longleftrightarrow> length (subs b) > 0"

text \<open>One round of the loop of \<^verbatim>\<open>Publish\<close>: the non-blocking send, or the disconnect.\<close>

definition deliver :: "uuid \<Rightarrow> 'e \<Rightarrow> 'e Broadcaster \<Rightarrow> nat \<Rightarrow> 'e Broadcaster" where
  "deliver key event b ch =
     (case mget (channels b) ch of
        None \<Rightarrow> b\<lparr>panicked := True\<rparr>
      | Some c \<Rightarrow>
          if closed c then b\<lparr>panicked := True\<rparr>
          else if length (pending c) < buffer b
          then b\<lparr>channels := mput ch (c\<lparr>pending := pending c @ [event]\<rparr>) (channels b)\<rparr>
          else close_channel ch (drop_subscriber key ch b))"

definition Publish :: "uuid \<Rightarrow> 'e \<Rightarrow> 'e Broadcaster \<Rightarrow> 'e Broadcaster" where
  "Publish key event b =
     (case mget (subs b) key of
        None \<Rightarrow> b
      | Some subscribers \<Rightarrow> drop_empty key (foldl (deliver key event) b (mkeys subscribers)))"

text \<open>A subscriber's receive: the oldest pending event, if there is one.\<close>

definition receive :: "nat \<Rightarrow> 'e Broadcaster \<Rightarrow> ('e \<times> 'e Broadcaster) option" where
  "receive ch b =
     (case mget (channels b) ch of
        None \<Rightarrow> None
      | Some c \<Rightarrow>
          (case pending c of
             [] \<Rightarrow> None
           | e # es \<Rightarrow> Some (e, b\<lparr>channels := mput ch (c\<lparr>pending := es\<rparr>) (channels b)\<rparr>)))"

section \<open>Invariant\<close>

abbreviation subscribed :: "'e Broadcaster \<Rightarrow> uuid \<Rightarrow> nat \<Rightarrow> bool" where
  "subscribed b key ch \<equiv> mget (mget_or [] (subs b) key) ch = Some ()"

definition channels_ok :: "'e Broadcaster \<Rightarrow> bool" where
  "channels_ok b \<longleftrightarrow>
     gomap_ok (channels b) \<and> set (mkeys (channels b)) = {..< length (channels b)}
   \<and> (\<forall>ch c. mget (channels b) ch = Some c \<longrightarrow> length (pending c) \<le> buffer b)"

text \<open>
  Every subscriber set is a proper map; a channel is open exactly while it
  is subscribed, and under one key only.
\<close>

definition subs_ok :: "'e Broadcaster \<Rightarrow> bool" where
  "subs_ok b \<longleftrightarrow>
     gomap_ok (subs b) \<and> (\<forall>key. gomap_ok (mget_or [] (subs b) key))
   \<and> (\<forall>ch. (\<exists>c. mget (channels b) ch = Some c \<and> \<not> closed c) \<longleftrightarrow> (\<exists>key. subscribed b key ch))
   \<and> (\<forall>ch key key'. subscribed b key ch \<longrightarrow> subscribed b key' ch \<longrightarrow> key = key')"

definition no_empty_sets :: "'e Broadcaster \<Rightarrow> bool" where
  "no_empty_sets b \<longleftrightarrow> (\<forall>key. mget (subs b) key \<noteq> Some [])"

definition broadcaster_ok :: "'e Broadcaster \<Rightarrow> bool" where
  "broadcaster_ok b \<longleftrightarrow> channels_ok b \<and> subs_ok b \<and> no_empty_sets b \<and> \<not> panicked b"

lemma unit_map: "mget m k \<noteq> Some () \<longleftrightarrow> mget m k = None"
  by (cases "mget m k") auto

lemma keys_size_mput:
  assumes "gomap_ok m" and "set (mkeys m) = {..< length m}" and "k \<in> set (mkeys m)"
  shows "set (mkeys (mput k v m)) = {..< length (mput k v m)}"
proof -
  have "map fst (mput k v m) = map fst m" using assms(3) by (simp add: update_keys)
  then show ?thesis using assms(2) by (metis length_map)
qed

lemma mget_None_keys: "mget m k \<noteq> None \<longleftrightarrow> k \<in> set (mkeys m)"
  by (simp add: map_of_eq_None_iff)

lemma channels_ok_mput:
  assumes "channels_ok b" and "mget (channels b) ch = Some c" and "length (pending c') \<le> buffer b"
  shows "channels_ok (b\<lparr>channels := mput ch c' (channels b)\<rparr>)"
proof -
  have "ch \<in> set (mkeys (channels b))" using assms(2) mget_None_keys by fastforce
  then show ?thesis
    using assms keys_size_mput [of "channels b" ch c'] by (auto simp: channels_ok_def)
qed

lemma channels_ok_subs [simp]: "channels_ok (b\<lparr>subs := s\<rparr>) = channels_ok b"
  by (simp add: channels_ok_def)

lemma subscribed_open:
  assumes "subs_ok b" and "subscribed b key ch"
  obtains c where "mget (channels b) ch = Some c" "\<not> closed c"
  using assms unfolding subs_ok_def by blast

text \<open>Dropping a subscriber and closing its channel go together.\<close>

lemma disconnect_ok:
  assumes "channels_ok b" and "subs_ok b" and "\<not> panicked b" and "subscribed b key ch"
    and b': "b' = close_channel ch (drop_subscriber key ch b)"
  shows "channels_ok b'" and "subs_ok b'" and "\<not> panicked b'" and "buffer b' = buffer b"
    and "subs b' = mput key (mdel ch (mget_or [] (subs b) key)) (subs b)"
proof -
  obtain c where c: "mget (channels b) ch = Some c" "\<not> closed c"
    using subscribed_open [OF assms(2,4)] .
  then have eq: "b' = b\<lparr>subs := mput key (mdel ch (mget_or [] (subs b) key)) (subs b),
      channels := mput ch (c\<lparr>closed := True\<rparr>) (channels b)\<rparr>"
    by (simp add: b' close_channel_def drop_subscriber_def)
  show "\<not> panicked b'" "buffer b' = buffer b"
    "subs b' = mput key (mdel ch (mget_or [] (subs b) key)) (subs b)"
    using assms(3) by (simp_all add: eq)
  have "length (pending (c\<lparr>closed := True\<rparr>)) \<le> buffer b"
    using assms(1) c by (auto simp: channels_ok_def)
  then show "channels_ok b'"
    using channels_ok_mput [of "b\<lparr>subs := mput key (mdel ch (mget_or [] (subs b) key)) (subs b)\<rparr>" ch c]
      assms(1) c by (simp add: eq)
  have sub: "subscribed b' k ch' \<longleftrightarrow> subscribed b k ch' \<and> ch' \<noteq> ch" for k ch'
    using assms(2,4) by (auto simp: eq subs_ok_def)
  have opn: "(\<exists>c. mget (channels b') ch' = Some c \<and> \<not> closed c) \<longleftrightarrow>
      (\<exists>c. mget (channels b) ch' = Some c \<and> \<not> closed c) \<and> ch' \<noteq> ch" for ch'
    by (auto simp: eq)
  have "gomap_ok (mget_or [] (subs b') k)" for k
    using assms(2) by (auto simp: eq subs_ok_def)
  moreover have "gomap_ok (subs b')" using assms(2) by (auto simp: eq subs_ok_def)
  ultimately show "subs_ok b'"
    using assms(2) unfolding subs_ok_def sub opn by blast
qed

lemma deliver_ok:
  assumes "channels_ok b" and "subs_ok b" and "\<not> panicked b" and "subscribed b key ch"
  shows "channels_ok (deliver key e b ch)" and "subs_ok (deliver key e b ch)"
    and "\<not> panicked (deliver key e b ch)"
proof -
  obtain c where c: "mget (channels b) ch = Some c" "\<not> closed c"
    using subscribed_open [OF assms(2,4)] .
  show "channels_ok (deliver key e b ch)" "subs_ok (deliver key e b ch)"
    "\<not> panicked (deliver key e b ch)"
  proof -
    consider (room) "length (pending c) < buffer b" | (full) "\<not> length (pending c) < buffer b" by blast
    then have "channels_ok (deliver key e b ch) \<and> subs_ok (deliver key e b ch)
      \<and> \<not> panicked (deliver key e b ch)"
    proof cases
      case room
      let ?b = "b\<lparr>channels := mput ch (c\<lparr>pending := pending c @ [e]\<rparr>) (channels b)\<rparr>"
      have "(\<exists>c. mget (channels ?b) ch' = Some c \<and> \<not> closed c) \<longleftrightarrow>
          (\<exists>c. mget (channels b) ch' = Some c \<and> \<not> closed c)" for ch'
        using c by auto
      then have "subs_ok ?b" using assms(2) by (simp add: subs_ok_def)
      then show ?thesis
        using room c channels_ok_mput [OF assms(1) c(1), of "c\<lparr>pending := pending c @ [e]\<rparr>"] assms(3)
        by (simp add: deliver_def)
    next
      case full
      then show ?thesis
        using c disconnect_ok(1-3) [OF assms refl] by (simp add: deliver_def)
    qed
    then show "channels_ok (deliver key e b ch)" "subs_ok (deliver key e b ch)"
      "\<not> panicked (deliver key e b ch)" by blast+
  qed
qed

text \<open>What one publication does to the channel of a subscriber.\<close>

definition delivered :: "'e \<Rightarrow> nat \<Rightarrow> 'e channel \<Rightarrow> 'e channel" where
  "delivered e n c = (if length (pending c) < n then c\<lparr>pending := pending c @ [e]\<rparr> else c\<lparr>closed := True\<rparr>)"

lemma deliver_frame:
  assumes "channels_ok b" and "subs_ok b" and "\<not> panicked b" and "subscribed b key ch"
  shows "mget (channels (deliver key e b ch)) ch' =
      (if ch' = ch then map_option (delivered e (buffer b)) (mget (channels b) ch) else mget (channels b) ch')"
    and "buffer (deliver key e b ch) = buffer b"
    and "key' \<noteq> key \<Longrightarrow> mget (subs (deliver key e b ch)) key' = mget (subs b) key'"
    and "ch' \<noteq> ch \<Longrightarrow> subscribed (deliver key e b ch) key ch' = subscribed b key ch'"
proof -
  obtain c where c: "mget (channels b) ch = Some c" "\<not> closed c"
    using subscribed_open [OF assms(2,4)] .
  then show "mget (channels (deliver key e b ch)) ch' =
      (if ch' = ch then map_option (delivered e (buffer b)) (mget (channels b) ch) else mget (channels b) ch')"
    "buffer (deliver key e b ch) = buffer b"
    "key' \<noteq> key \<Longrightarrow> mget (subs (deliver key e b ch)) key' = mget (subs b) key'"
    "ch' \<noteq> ch \<Longrightarrow> subscribed (deliver key e b ch) key ch' = subscribed b key ch'"
    by (simp_all add: deliver_def close_channel_def drop_subscriber_def delivered_def)
qed

lemma foldl_deliver:
  assumes "channels_ok b" and "subs_ok b" and "\<not> panicked b"
    and "distinct chs" and "\<forall>ch \<in> set chs. subscribed b key ch"
  shows "channels_ok (foldl (deliver key e) b chs)" (is ?c)
    and "subs_ok (foldl (deliver key e) b chs)" (is ?s)
    and "\<not> panicked (foldl (deliver key e) b chs)" (is ?p)
    and "buffer (foldl (deliver key e) b chs) = buffer b" (is ?b)
    and "\<And>ch. mget (channels (foldl (deliver key e) b chs)) ch =
      (if ch \<in> set chs then map_option (delivered e (buffer b)) (mget (channels b) ch)
       else mget (channels b) ch)" (is "PROP ?f")
    and "\<And>key'. key' \<noteq> key \<Longrightarrow> mget (subs (foldl (deliver key e) b chs)) key' = mget (subs b) key'"
      (is "PROP ?o")
proof -
  have "?c \<and> ?s \<and> ?p \<and> ?b
    \<and> (\<forall>ch. mget (channels (foldl (deliver key e) b chs)) ch =
        (if ch \<in> set chs then map_option (delivered e (buffer b)) (mget (channels b) ch)
         else mget (channels b) ch))
    \<and> (\<forall>key'. key' \<noteq> key \<longrightarrow> mget (subs (foldl (deliver key e) b chs)) key' = mget (subs b) key')"
    using assms
  proof (induction chs arbitrary: b)
    case (Cons ch chs)
    have sub: "subscribed b key ch" using Cons.prems by simp
    note d = deliver_ok [OF Cons.prems(1-3) sub] deliver_frame [OF Cons.prems(1-3) sub]
    have "\<forall>ch' \<in> set chs. subscribed (deliver key e b ch) key ch'"
    proof
      fix ch' assume "ch' \<in> set chs"
      then show "subscribed (deliver key e b ch) key ch'" using Cons.prems(4,5) d(7) [of ch' e] by auto
    qed
    then show ?case using Cons.IH [OF d(1-3)] Cons.prems(4) d(4-6) by auto
  qed simp
  then show ?c ?s ?p ?b "PROP ?f" "PROP ?o" by blast+
qed

lemma drop_empty_simps [simp]:
  "channels (drop_empty key b) = channels b" "buffer (drop_empty key b) = buffer b"
  "panicked (drop_empty key b) = panicked b"
  "mget_or [] (subs (drop_empty key b)) key' = mget_or [] (subs b) key'"
  by (auto simp: drop_empty_def mget_or_def)

lemma drop_empty_ok:
  assumes "channels_ok b" and "subs_ok b" and "\<And>key'. key' \<noteq> key \<Longrightarrow> mget (subs b) key' \<noteq> Some []"
  shows "channels_ok (drop_empty key b)" and "subs_ok (drop_empty key b)"
    and "no_empty_sets (drop_empty key b)"
proof -
  show "channels_ok (drop_empty key b)" using assms(1) by (simp add: channels_ok_def)
  have "gomap_ok (subs (drop_empty key b))" using assms(2) by (auto simp: drop_empty_def subs_ok_def)
  then show "subs_ok (drop_empty key b)" using assms(2) by (simp add: subs_ok_def)
  have "mget (subs (drop_empty key b)) k \<noteq> Some []" for k
    by (cases "k = key") (use assms(3) [of k] in \<open>auto simp: drop_empty_def\<close>)
  then show "no_empty_sets (drop_empty key b)" by (simp add: no_empty_sets_def)
qed

lemma subscriber_keys:
  assumes "subs_ok b" and "mget (subs b) key = Some subscribers"
  shows "distinct (mkeys subscribers)" and "ch \<in> set (mkeys subscribers) \<longleftrightarrow> subscribed b key ch"
proof -
  have "gomap_ok (mget_or [] (subs b) key)" using assms(1) by (simp add: subs_ok_def)
  then show "distinct (mkeys subscribers)" using assms(2) by (simp add: gomap_ok_def)
  show "ch \<in> set (mkeys subscribers) \<longleftrightarrow> subscribed b key ch"
    using assms(2) unit_map [of subscribers ch] mget_None_keys [of subscribers ch] by auto
qed

lemma Publish_ok:
  assumes "broadcaster_ok b"
  shows "broadcaster_ok (Publish key e b)"
    and "buffer (Publish key e b) = buffer b"
    and "mget (channels (Publish key e b)) ch =
      (if subscribed b key ch then map_option (delivered e (buffer b)) (mget (channels b) ch)
       else mget (channels b) ch)"
proof -
  have oks: "channels_ok b" "subs_ok b" "\<not> panicked b" using assms by (simp_all add: broadcaster_ok_def)
  have goal: "broadcaster_ok (Publish key e b) \<and> buffer (Publish key e b) = buffer b
    \<and> mget (channels (Publish key e b)) ch =
      (if subscribed b key ch then map_option (delivered e (buffer b)) (mget (channels b) ch)
       else mget (channels b) ch)"
  proof (cases "mget (subs b) key")
    case None
    then show ?thesis using assms by (simp add: Publish_def)
  next
    case (Some subscribers)
    note k = subscriber_keys [OF oks(2) Some]
    have all: "\<forall>ch \<in> set (mkeys subscribers). subscribed b key ch" using k(2) by blast
    note f = foldl_deliver [where e = e, OF oks k(1) all]
    have "mget (subs (foldl (deliver key e) b (mkeys subscribers))) key' \<noteq> Some []" if "key' \<noteq> key" for key'
      using f(6) [OF that] assms by (simp add: broadcaster_ok_def no_empty_sets_def)
    then show ?thesis
      using drop_empty_ok [OF f(1,2)] f(3-5) Some k(2) by (simp add: Publish_def broadcaster_ok_def)
  qed
  then show "broadcaster_ok (Publish key e b)" "buffer (Publish key e b) = buffer b"
    "mget (channels (Publish key e b)) ch =
      (if subscribed b key ch then map_option (delivered e (buffer b)) (mget (channels b) ch)
       else mget (channels b) ch)" by blast+
qed

lemma Subscribe_ok:
  assumes "broadcaster_ok b" and "Subscribe key b = (ch, b')"
  shows "broadcaster_ok b'" and "mget (channels b) ch = None"
    and "mget (channels b') ch' = (if ch' = ch then Some \<lparr>pending = [], closed = False\<rparr> else mget (channels b) ch')"
    and "subscribed b' key' ch' \<longleftrightarrow> ch' = ch \<and> key' = key \<or> subscribed b key' ch'"
proof -
  have ok: "channels_ok b" "subs_ok b" "no_empty_sets b" "\<not> panicked b"
    using assms(1) by (simp_all add: broadcaster_ok_def)
  have ch: "ch = length (channels b)" and b': "b' = b\<lparr>channels := mput ch \<lparr>pending = [], closed = False\<rparr> (channels b),
      subs := mput key (mput ch () (mget_or [] (subs b) key)) (subs b)\<rparr>"
    using assms(2) by (auto simp: Subscribe_def Let_def)
  have notin: "ch \<notin> set (mkeys (channels b))" using ok(1) by (simp add: ch channels_ok_def)
  then show fresh: "mget (channels b) ch = None" using mget_None_keys by metis
  then have unsub: "\<not> subscribed b k ch" for k using ok(2) unfolding subs_ok_def by fastforce
  show sub: "subscribed b' key' ch' \<longleftrightarrow> ch' = ch \<and> key' = key \<or> subscribed b key' ch'" for key' ch'
    by (auto simp: b')
  show mg: "mget (channels b') ch' = (if ch' = ch then Some \<lparr>pending = [], closed = False\<rparr>
      else mget (channels b) ch')" for ch'
    by (simp add: b')
  have "channels b' = channels b @ [(ch, \<lparr>pending = [], closed = False\<rparr>)]"
    using mput_fresh [OF notin] by (simp add: b')
  then have "set (mkeys (channels b')) = {..< length (channels b')}"
    using ok(1) by (auto simp: channels_ok_def ch)
  then have "channels_ok b'" using ok(1) by (auto simp: channels_ok_def b')
  moreover have "subs_ok b'"
  proof -
    have "gomap_ok (subs b')" "\<forall>k. gomap_ok (mget_or [] (subs b') k)"
      using ok(2) by (auto simp: b' subs_ok_def)
    moreover have "(\<exists>c. mget (channels b') ch' = Some c \<and> \<not> closed c) \<longleftrightarrow>
        ch' = ch \<or> (\<exists>c. mget (channels b) ch' = Some c \<and> \<not> closed c)" for ch'
      by (auto simp: mg)
    moreover have "k = k'" if "subscribed b' k x" "subscribed b' k' x" for k k' x
      using that unsub ok(2) unfolding sub subs_ok_def by metis
    moreover have "(\<exists>k. subscribed b' k x) \<longleftrightarrow> x = ch \<or> (\<exists>k. subscribed b k x)" for x
      unfolding sub by blast
    ultimately show ?thesis using ok(2) unfolding subs_ok_def by simp
  qed
  moreover have "no_empty_sets b'"
    using ok(3) by (auto simp: b' no_empty_sets_def update_nonempty)
  ultimately show "broadcaster_ok b'" using ok(4) by (simp add: broadcaster_ok_def b')
qed

lemma cancel_ok:
  assumes "broadcaster_ok b"
  shows "broadcaster_ok (cancel key ch b)"
proof -
  let ?b = "b\<lparr>cancelled := ch # cancelled b\<rparr>"
  have ok: "channels_ok ?b" "subs_ok ?b" "\<not> panicked ?b" "no_empty_sets ?b" "broadcaster_ok ?b"
    using assms by (auto simp: broadcaster_ok_def channels_ok_def subs_ok_def no_empty_sets_def)
  show ?thesis
  proof (cases "ch \<in> set (cancelled b) \<or> mget (subs b) key = None")
    case True
    then show ?thesis using assms ok(5) by (auto simp: cancel_def Let_def)
  next
    case False
    then obtain subscribers where live: "mget (subs b) key = Some subscribers"
        "cancel key ch b = drop_empty key (if mget subscribers ch = None then ?b
           else close_channel ch (drop_subscriber key ch ?b))"
      by (cases "mget (subs b) key") (simp_all add: cancel_def Let_def)
    show ?thesis
    proof (cases "mget subscribers ch")
      case None
      then show ?thesis
        using live ok drop_empty_ok [OF ok(1,2)] by (simp add: broadcaster_ok_def no_empty_sets_def)
    next
      case (Some u)
      then have "subscribed ?b key ch" using live by simp
      note d = disconnect_ok [OF ok(1-3) this refl]
      then show ?thesis
        using live Some ok(4) drop_empty_ok [OF d(1,2), of key]
        by (simp add: broadcaster_ok_def no_empty_sets_def)
    qed
  qed
qed

lemma receive_ok:
  assumes "broadcaster_ok b" and "receive ch b = Some (e, b')"
  shows "broadcaster_ok b'"
proof -
  obtain c es where c: "mget (channels b) ch = Some c" "pending c = e # es"
      and b': "b' = b\<lparr>channels := mput ch (c\<lparr>pending := es\<rparr>) (channels b)\<rparr>"
    using assms(2) by (auto simp: receive_def split: option.splits list.splits)
  have ok: "channels_ok b" "subs_ok b" using assms(1) by (simp_all add: broadcaster_ok_def)
  then have "channels_ok b'"
    using channels_ok_mput [OF ok(1) c(1), of "c\<lparr>pending := es\<rparr>"] c
    by (force simp: b' channels_ok_def)
  moreover have "(\<exists>c. mget (channels b') ch' = Some c \<and> \<not> closed c) \<longleftrightarrow>
      (\<exists>c. mget (channels b) ch' = Some c \<and> \<not> closed c)" for ch'
    using c by (auto simp: b')
  then have "subs_ok b'" using ok(2) by (simp add: subs_ok_def b')
  ultimately show ?thesis
    using assms(1) by (simp add: broadcaster_ok_def b' no_empty_sets_def)
qed

section \<open>The broadcaster as a transition system\<close>

inductive broadcast_step :: "'e Broadcaster \<Rightarrow> 'e Broadcaster \<Rightarrow> bool" where
  subscribe_step: "Subscribe key b = (ch, b') \<Longrightarrow> broadcast_step b b'"
| cancel_step: "broadcast_step b (cancel key ch b)"
| publish_step: "broadcast_step b (Publish key e b)"
| receive_step: "receive ch b = Some (e, b') \<Longrightarrow> broadcast_step b b'"

definition new_broadcaster :: "'e Broadcaster \<Rightarrow> bool" where
  "new_broadcaster b \<longleftrightarrow> (\<exists>n. b = New n)"

interpretation broadcaster: transition_system new_broadcaster broadcast_step broadcaster_ok
proof
  show "broadcaster_ok b" if "new_broadcaster b" for b :: "'a Broadcaster"
    using that by (auto simp: new_broadcaster_def New_def broadcaster_ok_def channels_ok_def subs_ok_def
        no_empty_sets_def)
  show "broadcaster_ok b'" if "broadcaster_ok b" "broadcast_step b b'" for b b' :: "'a Broadcaster"
    using that(2,1) by cases (auto intro: Subscribe_ok(1) cancel_ok Publish_ok(1) receive_ok)
qed

section \<open>Properties\<close>

lemma broadcaster_never_panics_parts:
  assumes "new_broadcaster b0" and "broadcast_step\<^sup>*\<^sup>* b0 b"
  shows "\<not> panicked b"
    and "mget (channels b) ch = Some c \<Longrightarrow> length (pending c) \<le> buffer b"
    and "(\<exists>c. mget (channels b) ch = Some c \<and> \<not> closed c) \<longleftrightarrow> (\<exists>key. subscribed b key ch)"
    and "Active b \<longleftrightarrow> (\<exists>ch c. mget (channels b) ch = Some c \<and> \<not> closed c)"
proof -
  have ok: "broadcaster_ok b" by (rule broadcaster.inv_reachable [OF assms])
  then show "\<not> panicked b" and "mget (channels b) ch = Some c \<Longrightarrow> length (pending c) \<le> buffer b"
    by (auto simp: broadcaster_ok_def channels_ok_def)
  have live: "(\<exists>c. mget (channels b) ch = Some c \<and> \<not> closed c) \<longleftrightarrow> (\<exists>key. subscribed b key ch)" for ch
    using ok unfolding broadcaster_ok_def subs_ok_def by blast
  then show "(\<exists>c. mget (channels b) ch = Some c \<and> \<not> closed c) \<longleftrightarrow> (\<exists>key. subscribed b key ch)" .
  have "Active b \<longleftrightarrow> (\<exists>key ch. subscribed b key ch)"
  proof
    assume "Active b"
    then obtain key set rest where s: "subs b = (key, set) # rest"
      by (cases "subs b") (auto simp: Active_def)
    then have "set \<noteq> []" using ok by (auto simp: broadcaster_ok_def no_empty_sets_def split: if_splits)
    then obtain ch u rest' where "set = (ch, u) # rest'" by (cases set) auto
    then show "\<exists>key ch. subscribed b key ch" using s by (intro exI [of _ key] exI [of _ ch]) simp
  next
    assume "\<exists>key ch. subscribed b key ch"
    then show "Active b" by (cases "subs b") (auto simp: Active_def)
  qed
  then show "Active b \<longleftrightarrow> (\<exists>ch c. mget (channels b) ch = Some c \<and> \<not> closed c)" using live by metis
qed

text \<open>
  C36. In every state a broadcaster reaches through subscriptions, cancellations
  (also repeated ones, or ones after a disconnect), publications and
  receives, in any order: no closed channel was closed again or sent on, no
  channel holds more events than the buffer, a channel is open exactly
  while it is subscribed, and \<^verbatim>\<open>Active\<close> tells whether an open channel is left.\<close>

theorem broadcaster_never_panics:
  assumes "new_broadcaster b0" and "broadcast_step\<^sup>*\<^sup>* b0 b"
  shows "(\<not> panicked b)
    \<and> (mget (channels b) ch = Some c \<longrightarrow> length (pending c) \<le> buffer b)
    \<and> ((\<exists>c. mget (channels b) ch = Some c \<and> \<not> closed c) \<longleftrightarrow> (\<exists>key. subscribed b key ch))
    \<and> (Active b \<longleftrightarrow> (\<exists>ch c. mget (channels b) ch = Some c \<and> \<not> closed c))"
  by (rule conjI, rule broadcaster_never_panics_parts(1) [OF assms], rule conjI, rule impI,
      erule broadcaster_never_panics_parts(2) [OF assms], rule conjI,
      rule broadcaster_never_panics_parts(3) [OF assms],
      rule broadcaster_never_panics_parts(4) [OF assms])

theorem broadcaster_never_panics_witness:
  "(\<not> panicked (cancel ''k'' 0 (Publish ''k'' (7 :: nat) (Publish ''k'' 6 (snd (Subscribe ''k'' (New 1)))))))"
proof -
  let ?b1 = "snd (Subscribe ''k'' (New 1)) :: nat Broadcaster"
  have "broadcast_step (New 1) ?b1" by (rule subscribe_step [of "''k''" _ 0]) (simp add: Subscribe_def New_def)
  moreover have "broadcast_step ?b1 (Publish ''k'' 6 ?b1)" by (rule publish_step)
  moreover have "broadcast_step (Publish ''k'' 6 ?b1) (Publish ''k'' 7 (Publish ''k'' 6 ?b1))" by (rule publish_step)
  moreover have "broadcast_step (Publish ''k'' 7 (Publish ''k'' 6 ?b1))
      (cancel ''k'' 0 (Publish ''k'' 7 (Publish ''k'' 6 ?b1)))" by (rule cancel_step)
  ultimately have "broadcast_step\<^sup>*\<^sup>* (New 1) (cancel ''k'' 0 (Publish ''k'' 7 (Publish ''k'' 6 ?b1)))"
    by (meson rtranclp.rtrancl_into_rtrancl rtranclp.rtrancl_refl)
  then show ?thesis
    by (rule broadcaster_never_panics [rotated, THEN conjunct1]) (auto simp: new_broadcaster_def)
qed

definition publish_all :: "(uuid \<times> 'e) list \<Rightarrow> 'e Broadcaster \<Rightarrow> 'e Broadcaster" where
  "publish_all pubs b = foldl (\<lambda>b (key, e). Publish key e b) b pubs"

lemma Publish_other_keys:
  assumes "broadcaster_ok b" and "key' \<noteq> key"
  shows "mget_or [] (subs (Publish key e b)) key' = mget_or [] (subs b) key'"
proof (cases "mget (subs b) key")
  case (Some subscribers)
  have oks: "channels_ok b" "subs_ok b" "\<not> panicked b" using assms by (simp_all add: broadcaster_ok_def)
  note k = subscriber_keys [OF oks(2) Some]
  have all: "\<forall>ch \<in> set (mkeys subscribers). subscribed b key ch" using k(2) by blast
  show ?thesis
    using foldl_deliver(6) [where e = e, OF oks k(1) all assms(2)] Some
    by (simp add: Publish_def) (simp add: mget_or_def)
qed (simp add: Publish_def)

lemma Publish_keeps_subscriber:
  assumes "broadcaster_ok b" and "subscribed b key ch" and "mget (channels b) ch = Some c"
    and "length (pending c) < buffer b \<or> key' \<noteq> key"
  shows "mget (channels (Publish key' e b)) ch =
      Some (if key' = key then c\<lparr>pending := pending c @ [e]\<rparr> else c)"
    and "subscribed (Publish key' e b) key ch"
proof -
  have uniq: "subscribed b k ch \<Longrightarrow> k = key" for k
    using assms(1,2) by (simp add: broadcaster_ok_def subs_ok_def)
  show new: "mget (channels (Publish key' e b)) ch = Some (if key' = key then c\<lparr>pending := pending c @ [e]\<rparr> else c)"
  proof (cases "key' = key")
    case True
    then show ?thesis
      using Publish_ok(3) [OF assms(1), of key' e ch] assms(2-4) by (simp add: delivered_def)
  next
    case False
    then have "\<not> subscribed b key' ch" using uniq by blast
    then show ?thesis using False Publish_ok(3) [OF assms(1), of key' e ch] assms(3) by simp
  qed
  have so: "subs_ok b" using assms(1) by (simp add: broadcaster_ok_def)
  obtain c' where "mget (channels b) ch = Some c'" "\<not> closed c'" by (rule subscribed_open [OF so assms(2)])
  then have "\<not> closed (if key' = key then c\<lparr>pending := pending c @ [e]\<rparr> else c)" using assms(3) by simp
  moreover have "subs_ok (Publish key' e b)" using Publish_ok(1) [OF assms(1)] by (simp add: broadcaster_ok_def)
  ultimately obtain k where k: "subscribed (Publish key' e b) k ch"
    using new unfolding subs_ok_def by blast
  have "k = key" if "k \<noteq> key'" using k Publish_other_keys [OF assms(1) that] uniq by simp
  then show "subscribed (Publish key' e b) key ch"
    using k Publish_other_keys [OF assms(1), of key key' e] assms(2) by (cases "key' = key") auto
qed

lemma publish_all_keeps_up:
  assumes "broadcaster_ok b" and "subscribed b key ch" and "mget (channels b) ch = Some c"
    and "length (pending c) + length (filter (\<lambda>p. fst p = key) pubs) \<le> buffer b"
  shows "broadcaster_ok (publish_all pubs b) \<and> subscribed (publish_all pubs b) key ch
    \<and> mget (channels (publish_all pubs b)) ch =
      Some (c\<lparr>pending := pending c @ map snd (filter (\<lambda>p. fst p = key) pubs)\<rparr>)"
  using assms
proof (induction pubs arbitrary: b c)
  case Nil
  then show ?case by (simp add: publish_all_def)
next
  case (Cons p pubs)
  obtain key' e where p: "p = (key', e)" by fastforce
  have room: "length (pending c) < buffer b \<or> key' \<noteq> key" using Cons.prems(4) p by auto
  note k = Publish_keeps_subscriber [OF Cons.prems(1-3) room, of e]
  have "publish_all (p # pubs) b = publish_all pubs (Publish key' e b)" by (simp add: publish_all_def p)
  then show ?case
    using Cons.IH [OF Publish_ok(1) [OF Cons.prems(1)] k(2) k(1)] Cons.prems(4) p
      Publish_ok(2) [OF Cons.prems(1)] by (auto split: if_splits)
qed

lemma publications_reach_subscribers_parts:
  assumes "new_broadcaster b0" and "broadcast_step\<^sup>*\<^sup>* b0 b" and "mget (channels b) ch = Some c"
  shows "subscribed b key ch \<and> length (pending c) < buffer b \<Longrightarrow>
      mget (channels (Publish key e b)) ch = Some (c\<lparr>pending := pending c @ [e]\<rparr>)
      \<and> subscribed (Publish key e b) key ch"
    and "subscribed b key ch \<and> length (pending c) = buffer b \<Longrightarrow>
      mget (channels (Publish key e b)) ch = Some (c\<lparr>closed := True\<rparr>)
      \<and> \<not> subscribed (Publish key e b) key ch"
    and "\<not> subscribed b key ch \<Longrightarrow> mget (channels (Publish key e b)) ch = Some c"
    and "subscribed b key ch \<and> length (pending c) + length (filter (\<lambda>p. fst p = key) pubs) \<le> buffer b \<Longrightarrow>
      mget (channels (publish_all pubs b)) ch =
        Some (c\<lparr>pending := pending c @ map snd (filter (\<lambda>p. fst p = key) pubs)\<rparr>)"
proof -
  have ok: "broadcaster_ok b" by (rule broadcaster.inv_reachable [OF assms(1,2)])
  note P = Publish_ok(3) [OF ok, of key e ch]
  show "mget (channels (Publish key e b)) ch = Some (c\<lparr>pending := pending c @ [e]\<rparr>)
      \<and> subscribed (Publish key e b) key ch" if "subscribed b key ch \<and> length (pending c) < buffer b"
    using that Publish_keeps_subscriber [OF ok _ assms(3), of key key e] by simp
  show "mget (channels (Publish key e b)) ch = Some (c\<lparr>closed := True\<rparr>)
      \<and> \<not> subscribed (Publish key e b) key ch" if "subscribed b key ch \<and> length (pending c) = buffer b"
  proof -
    have c': "mget (channels (Publish key e b)) ch = Some (c\<lparr>closed := True\<rparr>)"
      using that assms(3) P by (simp add: delivered_def)
    moreover have "subs_ok (Publish key e b)" using Publish_ok(1) [OF ok] by (simp add: broadcaster_ok_def)
    ultimately show ?thesis by (fastforce elim: subscribed_open)
  qed
  show "mget (channels (Publish key e b)) ch = Some c" if "\<not> subscribed b key ch"
    using that assms(3) P by simp
  show "mget (channels (publish_all pubs b)) ch =
        Some (c\<lparr>pending := pending c @ map snd (filter (\<lambda>p. fst p = key) pubs)\<rparr>)"
    if "subscribed b key ch \<and> length (pending c) + length (filter (\<lambda>p. fst p = key) pubs) \<le> buffer b"
    using publish_all_keeps_up [OF ok _ assms(3)] that by blast
qed

text \<open>
  C37. A publication reaches every subscriber of its key and nobody else. A
  subscriber with room receives the event behind the ones it already has; a
  subscriber whose buffer is full is disconnected with what it was sent
  intact; every other channel is untouched. So a subscriber that stays
  within the buffer holds, in order, exactly the events published under its
  key, whatever else is published between them.
\<close>

theorem publications_reach_subscribers:
  assumes "new_broadcaster b0" and "broadcast_step\<^sup>*\<^sup>* b0 b" and "mget (channels b) ch = Some c"
  shows "(subscribed b key ch \<and> length (pending c) < buffer b \<longrightarrow>
      mget (channels (Publish key e b)) ch = Some (c\<lparr>pending := pending c @ [e]\<rparr>)
      \<and> subscribed (Publish key e b) key ch)
    \<and> (subscribed b key ch \<and> length (pending c) = buffer b \<longrightarrow>
      mget (channels (Publish key e b)) ch = Some (c\<lparr>closed := True\<rparr>)
      \<and> \<not> subscribed (Publish key e b) key ch)
    \<and> (\<not> subscribed b key ch \<longrightarrow> mget (channels (Publish key e b)) ch = Some c)
    \<and> (subscribed b key ch \<and> length (pending c) + length (filter (\<lambda>p. fst p = key) pubs) \<le> buffer b \<longrightarrow>
      mget (channels (publish_all pubs b)) ch =
        Some (c\<lparr>pending := pending c @ map snd (filter (\<lambda>p. fst p = key) pubs)\<rparr>))"
  by (rule conjI, rule impI, erule publications_reach_subscribers_parts(1) [OF assms], rule conjI,
      rule impI, erule publications_reach_subscribers_parts(2) [OF assms], rule conjI, rule impI,
      erule publications_reach_subscribers_parts(3) [OF assms], rule impI,
      erule publications_reach_subscribers_parts(4) [OF assms])

theorem publications_reach_subscribers_witness:
  "(mget (channels (publish_all [(''k'', 5 :: nat), (''x'', 9), (''k'', 6)] (snd (Subscribe ''k'' (New 2))))) 0 =
     Some \<lparr>pending = [5, 6], closed = False\<rparr>)
    \<and> (mget (channels (Publish ''k'' (5 :: nat) (snd (Subscribe ''k'' (New 0))))) 0 =
     Some \<lparr>pending = [], closed = True\<rparr>)"
proof (intro conjI)
  have step: "broadcast_step\<^sup>*\<^sup>* (New n) (snd (Subscribe ''k'' (New n)) :: nat Broadcaster)" for n
    by (rule r_into_rtranclp, rule subscribe_step [of "''k''" _ 0]) (simp add: Subscribe_def New_def)
  have new: "new_broadcaster (New n :: nat Broadcaster)" for n by (auto simp: new_broadcaster_def)
  have c: "mget (channels (snd (Subscribe ''k'' (New n :: nat Broadcaster)))) 0 = Some \<lparr>pending = [], closed = False\<rparr>" for n
    by (simp add: Subscribe_def New_def)
  have s: "subscribed (snd (Subscribe ''k'' (New n :: nat Broadcaster))) ''k'' 0"
    "buffer (snd (Subscribe ''k'' (New n :: nat Broadcaster))) = n" for n
    by (simp_all add: Subscribe_def New_def)
  show "mget (channels (publish_all [(''k'', 5 :: nat), (''x'', 9), (''k'', 6)] (snd (Subscribe ''k'' (New 2))))) 0 =
     Some \<lparr>pending = [5, 6], closed = False\<rparr>"
    using publications_reach_subscribers [where key = "''k''" and pubs = "[(''k'', 5), (''x'', 9), (''k'', 6)]",
        OF new step c, THEN conjunct2, THEN conjunct2, THEN conjunct2, THEN mp] s
    by simp
  show "mget (channels (Publish ''k'' (5 :: nat) (snd (Subscribe ''k'' (New 0))))) 0 =
     Some \<lparr>pending = [], closed = True\<rparr>"
    using publications_reach_subscribers [where key = "''k''" and e = 5,
        OF new step c, THEN conjunct2, THEN conjunct1, THEN mp] s
    by simp
qed

end
