(* ===== verification/Observe_Types.thy ===== *)
theory Observe_Types
  imports Lifecycle Module_Health Broadcast Layout
begin

text \<open>
  The state of the observation store of \<^verbatim>\<open>internal/observe\<close>: observed objects,
  the secondary indexes over them, node records, events, and the freshness
  of every source. The indexes are kept beside the objects and updated on
  every write; this theory models how one object enters and leaves them and
  proves that each index, as the code maintains it, is determined by the
  objects alone.

  The managed fields of an object come from the Kubernetes client library;
  their type is a parameter. \<^verbatim>\<open>s.clock()\<close> is an argument of the operations that
  read it. \<^verbatim>\<open>s.mu\<close> makes each operation one step.
\<close>

section \<open>Objects\<close>

record GroupVersionKind =
  Group :: string
  gvk_Version :: string
  gvk_Kind :: string

record ObjectRef =
  GVK :: GroupVersionKind
  Namespace :: string
  ref_Name :: string
  UID :: string

record objectKey =
  key_group :: string
  key_kind :: string
  key_namespace :: string
  key_name :: string

definition keyOf :: "ObjectRef \<Rightarrow> objectKey" where
  "keyOf ref = \<lparr>key_group = Group (GVK ref), key_kind = gvk_Kind (GVK ref),
     key_namespace = Namespace ref, key_name = ref_Name ref\<rparr>"

definition zero_key :: objectKey where
  "zero_key = \<lparr>key_group = [], key_kind = [], key_namespace = [], key_name = []\<rparr>"

record JobStatus =
  Succeeded :: bool
  Failed :: bool
  job_Reason :: string
  job_Message :: string
  Created :: gotime
  Promotion :: string

record 'mf Object =
  Ref :: ObjectRef
  Kind :: string
  obj_Name :: string
  Labels :: "(string, string) gomap option"
  Environment :: uuid
  Service :: string
  Revision :: string
  Color :: string
  Selector :: "(string, string) gomap option"
  Node :: string
  obj_Generation :: int
  ManagedFields :: "'mf slice"
  Workload :: "WorkloadStatus option"
  Pod :: "PodStatus option"
  Autoscaler :: "AutoscalerStatus option"
  Claim :: "ClaimStatus option"
  Job :: "JobStatus option"
  Certificate :: "CertificateStatus option"
  SharedKey :: string
  DatabaseCluster :: "DatabaseClusterStatus option"
  DatabaseTenant :: "DatabaseTenantStatus option"
  DatabaseConnections :: "DatabaseConnectionsStatus option"
  obj_Source :: string
  ObjectStore :: "ObjectStoreStatus option"
  Bucket :: "BucketStatus option"

text \<open>The zero value of an object, which the constructors fill in.\<close>

definition empty_object :: "'mf Object" where
  "empty_object = \<lparr>Ref = \<lparr>GVK = \<lparr>Group = [], gvk_Version = [], gvk_Kind = []\<rparr>,
       Namespace = [], ref_Name = [], UID = []\<rparr>,
     Kind = [], obj_Name = [], Labels = None, Environment = uuid_Nil, Service = [], Revision = [],
     Color = [], Selector = None, Node = [], obj_Generation = 0, ManagedFields = None,
     Workload = None, Pod = None, Autoscaler = None, Claim = None, Job = None, Certificate = None,
     SharedKey = [], DatabaseCluster = None, DatabaseTenant = None, DatabaseConnections = None,
     obj_Source = [], ObjectStore = None, Bucket = None\<rparr>"

definition claimGVK :: GroupVersionKind where
  "claimGVK = \<lparr>Group = ''claims.skali.dev'', gvk_Version = ''v1'', gvk_Kind = ''DatabaseClaim''\<rparr>"

definition bucketClaimGVK :: GroupVersionKind where
  "bucketClaimGVK = \<lparr>Group = ''claims.skali.dev'', gvk_Version = ''v1'', gvk_Kind = ''BucketClaim''\<rparr>"

definition DatabaseConnectionsGVK :: GroupVersionKind where
  "DatabaseConnectionsGVK =
     \<lparr>Group = ''claims.skali.dev'', gvk_Version = ''v1'', gvk_Kind = ''PoolConnections''\<rparr>"

definition DatabaseConnectionsObject :: "string \<Rightarrow> DatabaseConnectionsStatus \<Rightarrow> 'mf Object" where
  "DatabaseConnectionsObject pool status = empty_object
     \<lparr>Ref := \<lparr>GVK = DatabaseConnectionsGVK, Namespace = [], ref_Name = pool, UID = []\<rparr>,
      Kind := KindDatabaseConnections, obj_Name := pool, SharedKey := pool,
      DatabaseConnections := Some status\<rparr>"

definition ClaimRef :: "uuid \<Rightarrow> ObjectRef" where
  "ClaimRef claimID = \<lparr>GVK = claimGVK, Namespace = [], ref_Name = ''claim-'' @ claimID, UID = []\<rparr>"

definition ClaimObject :: "uuid \<Rightarrow> string \<Rightarrow> uuid \<Rightarrow> ClaimStatus \<Rightarrow> 'mf Object" where
  "ClaimObject environmentID service claimID status = empty_object
     \<lparr>Ref := ClaimRef claimID, Kind := KindDatabaseClaim, obj_Name := service,
      Environment := environmentID, Service := service, Claim := Some status\<rparr>"

definition BucketClaimRef :: "uuid \<Rightarrow> ObjectRef" where
  "BucketClaimRef claimID =
     \<lparr>GVK = bucketClaimGVK, Namespace = [], ref_Name = ''claim-'' @ claimID, UID = []\<rparr>"

definition BucketClaimObject :: "uuid \<Rightarrow> string \<Rightarrow> uuid \<Rightarrow> ClaimStatus \<Rightarrow> 'mf Object" where
  "BucketClaimObject environmentID service claimID status = empty_object
     \<lparr>Ref := BucketClaimRef claimID, Kind := KindBucketClaim, obj_Name := service,
      Environment := environmentID, Service := service, Claim := Some status\<rparr>"

section \<open>Deep equality\<close>

text \<open>
  \<^verbatim>\<open>reflect.DeepEqual\<close> compares pointers by what they point to, slices and
  maps by their elements with nil different from empty, and maps without
  regard to order.
\<close>

definition deep_map :: "('k, 'v) gomap option \<Rightarrow> ('k, 'v) gomap option \<Rightarrow> bool" where
  "deep_map a b =
     (case (a, b) of
        (None, None) \<Rightarrow> True
      | (Some x, Some y) \<Rightarrow>
          length x = length y \<and> list_all (\<lambda>k. mget x k = mget y k) (mkeys x @ mkeys y)
      | _ \<Rightarrow> False)"

text \<open>The fields of an object that are not maps, with the maps blanked.\<close>

definition without_maps :: "'mf Object \<Rightarrow> 'mf Object" where
  "without_maps obj = obj\<lparr>Labels := None, Selector := None,
     DatabaseConnections := map_option (\<lambda>c. c\<lparr>Databases := None\<rparr>) (DatabaseConnections obj)\<rparr>"

definition databases_of :: "'mf Object \<Rightarrow> (string, int) gomap option" where
  "databases_of obj = (case DatabaseConnections obj of None \<Rightarrow> None | Some c \<Rightarrow> Databases c)"

definition DeepEqual :: "'mf Object \<Rightarrow> 'mf Object \<Rightarrow> bool" where
  "DeepEqual a b \<longleftrightarrow>
     deep_map (Labels a) (Labels b) \<and> deep_map (Selector a) (Selector b)
   \<and> deep_map (databases_of a) (databases_of b) \<and> without_maps a = without_maps b"

datatype projectionChange = Unchanged | UsageOnly | Changed

definition withoutUsage :: "'mf Object \<Rightarrow> 'mf Object" where
  "withoutUsage obj = obj
     \<lparr>Bucket := map_option (\<lambda>b. b\<lparr>UsedBytes := 0, DiskBytes := 0, EntryCount := 0\<rparr>) (Bucket obj),
      DatabaseConnections := map_option
        (\<lambda>c. c\<lparr>CheckedAt := 0, Used := 0, Limit := 0, con_Max := 0, Databases := None\<rparr>)
        (DatabaseConnections obj)\<rparr>"

definition compareProjection :: "'mf Object option \<Rightarrow> 'mf Object \<Rightarrow> projectionChange" where
  "compareProjection previous next =
     (case previous of
        None \<Rightarrow> Changed
      | Some p \<Rightarrow>
          if DeepEqual p next then Unchanged
          else if Bucket p \<noteq> None \<and> Bucket next \<noteq> None
               \<and> DeepEqual (withoutUsage p) (withoutUsage next) then UsageOnly
          else if DatabaseConnections p \<noteq> None \<and> DatabaseConnections next \<noteq> None
               \<and> DeepEqual (withoutUsage p) (withoutUsage next) then UsageOnly
          else Changed)"

lemma deep_map_refl [simp]: "deep_map a a"
  by (auto simp: deep_map_def list_all_iff split: option.splits)

lemma DeepEqual_refl [simp]: "DeepEqual a a"
  by (simp add: DeepEqual_def)

text \<open>The fields the indexes are built from survive deep equality.\<close>

lemma DeepEqual_fields:
  assumes "DeepEqual a b"
  shows "Ref a = Ref b" "Kind a = Kind b" "Environment a = Environment b" "Node a = Node b"
    "SharedKey a = SharedKey b" "obj_Source a = obj_Source b"
proof -
  have eq: "without_maps a = without_maps b" using assms by (simp add: DeepEqual_def)
  show "Ref a = Ref b" "Kind a = Kind b" "Environment a = Environment b" "Node a = Node b"
    "SharedKey a = SharedKey b" "obj_Source a = obj_Source b"
    using arg_cong [OF eq, of Ref] arg_cong [OF eq, of Kind] arg_cong [OF eq, of Environment]
      arg_cong [OF eq, of Node] arg_cong [OF eq, of SharedKey] arg_cong [OF eq, of obj_Source]
    by (simp_all add: without_maps_def)
qed

section \<open>The store\<close>

record sourceRecord =
  state :: string
  ready :: bool
  lastSync :: gotime
  failedAt :: gotime
  staleSince :: gotime

record NodeRecord =
  nr_Name :: string
  nr_Role :: string
  nr_Capabilities :: "string slice"
  Arch :: string
  OS :: string
  KubeletVersion :: string
  nr_Ready :: bool
  Schedulable :: bool
  InternalIP :: string
  ExternalIP :: string
  LastHeartbeat :: gotime
  MemoryAllocatableBytes :: int

record EventRecord =
  ev_Reason :: string
  ev_Message :: string
  ev_Count :: int
  At :: gotime

record Invalidation =
  EnvironmentID :: uuid

record 'mf Store =
  objects :: "(objectKey, 'mf Object) gomap"
  byEnvironment :: "(uuid, (objectKey, unit) gomap) gomap"
  podsByNode :: "(string, (uuid, int) gomap) gomap"
  nodeArch :: "(string, string) gomap"
  nodeCapabilities :: "(string, (string, bool) gomap) gomap"
  nodeRecords :: "(string, NodeRecord) gomap"
  events :: "(objectKey, EventRecord list) gomap"
  sharedObjects :: "(string, (string, objectKey) gomap) gomap"
  sharedRefs :: "(string, (uuid, int) gomap) gomap"
  bySource :: "(string, (objectKey, unit) gomap) gomap"
  sources :: "(string, sourceRecord) gomap"
  broadcast :: "Invalidation Broadcaster"

abbreviation (input) SourceKubernetes :: string where "SourceKubernetes \<equiv> ''kubernetes''"
abbreviation (input) kindNamespace :: string where "kindNamespace \<equiv> ''namespace''"

definition new_source :: sourceRecord where
  "new_source = \<lparr>state = SourceUnknown, ready = False, lastSync = 0, failedAt = 0, staleSince = 0\<rparr>"

definition NewStore :: "'mf Store" where
  "NewStore = \<lparr>objects = [], byEnvironment = [], podsByNode = [], nodeArch = [], nodeCapabilities = [],
     nodeRecords = [], events = [], sharedObjects = [], sharedRefs = [], bySource = [],
     sources = [(SourceKubernetes, new_source)], broadcast = New 64\<rparr>"

section \<open>Indexing one object\<close>

definition sharedResource :: "'mf Object \<Rightarrow> bool" where
  "sharedResource obj \<longleftrightarrow>
     (if Environment obj \<noteq> uuid_Nil \<or> SharedKey obj = [] then False
      else Kind obj \<in> {KindDatabaseCluster, KindDatabaseConnections, KindObjectStore})"

text \<open>
  The two shapes of nested map the store updates: a set of keys per index
  value, and a count per index value and environment. Empty inner maps are
  dropped on deletion.
\<close>

definition member_add :: "'k \<Rightarrow> 'v \<Rightarrow> ('k, ('v, unit) gomap) gomap \<Rightarrow> ('k, ('v, unit) gomap) gomap" where
  "member_add k v m = mput k (mput v () (mget_or [] m k)) m"

definition member_del :: "'k \<Rightarrow> 'v \<Rightarrow> ('k, ('v, unit) gomap) gomap \<Rightarrow> ('k, ('v, unit) gomap) gomap" where
  "member_del k v m =
     (case mget m k of
        None \<Rightarrow> m
      | Some s \<Rightarrow> let s' = mdel v s in if s' = [] then mdel k m else mput k s' m)"

definition count_inc :: "'k \<Rightarrow> 'v \<Rightarrow> ('k, ('v, int) gomap) gomap \<Rightarrow> ('k, ('v, int) gomap) gomap" where
  "count_inc k v m = (let counts = mget_or [] m k in mput k (mput v (mget_or 0 counts v + 1) counts) m)"

definition count_dec :: "'k \<Rightarrow> 'v \<Rightarrow> ('k, ('v, int) gomap) gomap \<Rightarrow> ('k, ('v, int) gomap) gomap" where
  "count_dec k v m =
     (case mget m k of
        None \<Rightarrow> m
      | Some counts \<Rightarrow>
          let n = mget_or 0 counts v - 1;
              counts' = (if n \<le> 0 then mdel v counts else mput v n counts)
          in if counts' = [] then mdel k m else mput k counts' m)"

text \<open>
  The slots of shared resources. \<^verbatim>\<open>kinds[obj.Kind]\<close> reads the zero key when the
  slot is empty.
\<close>

definition slot_in :: "objectKey \<Rightarrow> 'mf Object \<Rightarrow> (string, (string, objectKey) gomap) gomap \<Rightarrow> (string, (string, objectKey) gomap) gomap" where
  "slot_in key obj m =
     (if sharedResource obj
      then mput (SharedKey obj) (mput (Kind obj) key (mget_or [] m (SharedKey obj))) m else m)"

definition slot_out :: "objectKey \<Rightarrow> 'mf Object \<Rightarrow> (string, (string, objectKey) gomap) gomap \<Rightarrow> (string, (string, objectKey) gomap) gomap" where
  "slot_out key obj m =
     (let kinds = mget_or [] m (SharedKey obj)
      in if sharedResource obj \<and> mget_or zero_key kinds (Kind obj) = key then
           let kinds' = mdel (Kind obj) kinds
           in if kinds' = [] then mdel (SharedKey obj) m else mput (SharedKey obj) kinds' m
         else m)"

definition indexLocked :: "objectKey \<Rightarrow> 'mf Object \<Rightarrow> 'mf Store \<Rightarrow> 'mf Store" where
  "indexLocked key obj s =
     (let s = (if obj_Source obj \<noteq> [] then s\<lparr>bySource := member_add (obj_Source obj) key (bySource s)\<rparr> else s)
      in if Environment obj \<noteq> uuid_Nil then
           let s = s\<lparr>byEnvironment := member_add (Environment obj) key (byEnvironment s)\<rparr>;
               s = (if Kind obj = KindPod \<and> Node obj \<noteq> []
                    then s\<lparr>podsByNode := count_inc (Node obj) (Environment obj) (podsByNode s)\<rparr> else s);
               s = (if SharedKey obj \<noteq> []
                    then s\<lparr>sharedRefs := count_inc (SharedKey obj) (Environment obj) (sharedRefs s)\<rparr> else s)
           in s
         else s\<lparr>sharedObjects := slot_in key obj (sharedObjects s)\<rparr>)"

definition unindexLocked :: "objectKey \<Rightarrow> 'mf Object \<Rightarrow> 'mf Store \<Rightarrow> 'mf Store" where
  "unindexLocked key obj s =
     (let s = (if obj_Source obj \<noteq> [] then s\<lparr>bySource := member_del (obj_Source obj) key (bySource s)\<rparr> else s)
      in if Environment obj \<noteq> uuid_Nil then
           let s = s\<lparr>byEnvironment := member_del (Environment obj) key (byEnvironment s)\<rparr>;
               s = (if Kind obj = KindPod \<and> Node obj \<noteq> []
                    then s\<lparr>podsByNode := count_dec (Node obj) (Environment obj) (podsByNode s)\<rparr> else s);
               s = (if SharedKey obj \<noteq> []
                    then s\<lparr>sharedRefs := count_dec (SharedKey obj) (Environment obj) (sharedRefs s)\<rparr> else s)
           in s
         else s\<lparr>sharedObjects := slot_out key obj (sharedObjects s)\<rparr>)"

section \<open>Indexes determined by the objects\<close>

text \<open>
  The contract of a secondary index: it starts out matching an empty store,
  and an object entering or leaving keeps it matching the objects stored.
  The code removes the previous version of an object before it adds the
  new one, so replacement and removal follow from the two laws.
\<close>

locale object_index =
  fixes idx :: "('key \<Rightarrow> 'obj option) \<Rightarrow> 'm \<Rightarrow> bool"
    and add :: "'key \<Rightarrow> 'obj \<Rightarrow> 'm \<Rightarrow> 'm" and del :: "'key \<Rightarrow> 'obj \<Rightarrow> 'm \<Rightarrow> 'm" and empty :: 'm
  assumes idx_empty: "idx Map.empty empty"
    and idx_add: "idx objs m \<Longrightarrow> objs key = None \<Longrightarrow> idx (objs(key \<mapsto> obj)) (add key obj m)"
    and idx_del: "idx objs m \<Longrightarrow> objs key = Some obj \<Longrightarrow> idx (objs(key := None)) (del key obj m)"
begin

lemma idx_replace:
  assumes "idx objs m"
  shows "idx (objs(key \<mapsto> obj)) (add key obj (case objs key of None \<Rightarrow> m | Some p \<Rightarrow> del key p m))"
proof (cases "objs key")
  case None
  then show ?thesis using idx_add [OF assms] by simp
next
  case (Some p)
  have "idx (objs(key := None, key \<mapsto> obj)) (add key obj (del key p m))"
    by (rule idx_add [OF idx_del [OF assms Some]]) simp
  then show ?thesis using Some by simp
qed

end

definition nested_ok :: "('k, ('v, 'x) gomap) gomap \<Rightarrow> bool" where
  "nested_ok m \<longleftrightarrow> gomap_ok m \<and> (\<forall>k s. mget m k = Some s \<longrightarrow> gomap_ok s \<and> s \<noteq> [])"

lemma nested_ok_Nil [simp]: "nested_ok []"
  by (simp add: nested_ok_def)

lemma nested_ok_inner: "nested_ok m \<Longrightarrow> gomap_ok (mget_or [] m k)"
  by (cases "mget m k") (auto simp: nested_ok_def)

lemma nested_ok_mput: "nested_ok m \<Longrightarrow> gomap_ok s \<Longrightarrow> s \<noteq> [] \<Longrightarrow> nested_ok (mput k s m)"
  by (auto simp: nested_ok_def)

lemma nested_ok_mdel: "nested_ok m \<Longrightarrow> nested_ok (mdel k m)"
  by (auto simp: nested_ok_def split: if_splits)

lemma mput_nonempty [simp]: "mput k v m \<noteq> []"
  by (cases m) auto

lemma member_add_ok:
  assumes "nested_ok m"
  shows "nested_ok (member_add k v m)"
    and "mget_or [] (member_add k v m) k' = (if k' = k then mput v () (mget_or [] m k) else mget_or [] m k')"
  using nested_ok_mput [OF assms] nested_ok_inner [OF assms] by (auto simp: member_add_def)

lemma member_del_ok:
  assumes "nested_ok m"
  shows "nested_ok (member_del k v m)"
    and "mget_or [] (member_del k v m) k' = (if k' = k then mdel v (mget_or [] m k) else mget_or [] m k')"
  using nested_ok_inner [OF assms, of k] assms
  by (auto simp: member_del_def Let_def mget_or_def intro: nested_ok_mput nested_ok_mdel split: option.splits)

lemma count_inc_ok:
  assumes "nested_ok m"
  shows "nested_ok (count_inc k v m)"
    and "mget_or [] (count_inc k v m) k' =
      (if k' = k then mput v (mget_or 0 (mget_or [] m k) v + 1) (mget_or [] m k) else mget_or [] m k')"
  using nested_ok_mput [OF assms] nested_ok_inner [OF assms] by (auto simp: count_inc_def Let_def)

lemma count_dec_ok:
  assumes "nested_ok m"
  shows "nested_ok (count_dec k v m)"
    and "mget (mget_or [] (count_dec k v m) k') v' =
      (if k' = k \<and> v' = v
       then (if mget_or 0 (mget_or [] m k) v - 1 \<le> 0 then None else Some (mget_or 0 (mget_or [] m k) v - 1))
       else mget (mget_or [] m k') v')"
proof -
  let ?c = "if mget_or 0 (mget_or [] m k) v - 1 \<le> 0 then mdel v (mget_or [] m k)
    else mput v (mget_or 0 (mget_or [] m k) v - 1) (mget_or [] m k)"
  have c: "gomap_ok ?c" using nested_ok_inner [OF assms, of k] by auto
  have eq: "count_dec k v m = (if mget m k = None then m else if ?c = [] then mdel k m else mput k ?c m)"
    by (cases "mget m k") (simp_all add: count_dec_def Let_def)
  then show "nested_ok (count_dec k v m)"
    using assms nested_ok_mput [OF assms c] nested_ok_mdel [OF assms] by auto
  have "mget_or [] (count_dec k v m) k' = (if k' = k then ?c else mget_or [] m k')"
    unfolding eq by (cases "mget m k") (auto simp: mget_or_def)
  then show "mget (mget_or [] (count_dec k v m) k') v' =
      (if k' = k \<and> v' = v
       then (if mget_or 0 (mget_or [] m k) v - 1 \<le> 0 then None else Some (mget_or 0 (mget_or [] m k) v - 1))
       else mget (mget_or [] m k') v')"
    by simp
qed

subsection \<open>Membership indexes\<close>

definition member_idx :: "('o \<Rightarrow> 'k option) \<Rightarrow> ('key \<Rightarrow> 'o option) \<Rightarrow> ('k, ('key, unit) gomap) gomap \<Rightarrow> bool" where
  "member_idx proj objs m \<longleftrightarrow> nested_ok m \<and>
     (\<forall>k key. mget (mget_or [] m k) key = Some () \<longleftrightarrow> (\<exists>obj. objs key = Some obj \<and> proj obj = Some k))"

definition member_in :: "('o \<Rightarrow> 'k option) \<Rightarrow> 'key \<Rightarrow> 'o \<Rightarrow> ('k, ('key, unit) gomap) gomap \<Rightarrow> ('k, ('key, unit) gomap) gomap" where
  "member_in proj key obj m = (case proj obj of None \<Rightarrow> m | Some k \<Rightarrow> member_add k key m)"

definition member_out :: "('o \<Rightarrow> 'k option) \<Rightarrow> 'key \<Rightarrow> 'o \<Rightarrow> ('k, ('key, unit) gomap) gomap \<Rightarrow> ('k, ('key, unit) gomap) gomap" where
  "member_out proj key obj m = (case proj obj of None \<Rightarrow> m | Some k \<Rightarrow> member_del k key m)"

lemma member_object_index: "object_index (member_idx proj) (member_in proj) (member_out proj) []"
proof
  show "member_idx proj Map.empty []" by (simp add: member_idx_def)
  show "member_idx proj (objs(key \<mapsto> obj)) (member_in proj key obj m)"
    if "member_idx proj objs m" "objs key = None" for objs m key obj
    using that by (cases "proj obj") (auto simp: member_idx_def member_in_def member_add_ok split: if_splits)
  show "member_idx proj (objs(key := None)) (member_out proj key obj m)"
    if "member_idx proj objs m" "objs key = Some obj" for objs m key obj
    using that by (cases "proj obj") (auto simp: member_idx_def member_out_def member_del_ok split: if_splits)
qed

subsection \<open>Counting indexes\<close>

definition tally :: "('o \<Rightarrow> ('k \<times> 'v) option) \<Rightarrow> ('key \<Rightarrow> 'o option) \<Rightarrow> 'k \<Rightarrow> 'v \<Rightarrow> 'key set" where
  "tally proj objs k v = {key. \<exists>obj. objs key = Some obj \<and> proj obj = Some (k, v)}"

definition count_idx :: "('o \<Rightarrow> ('k \<times> 'v) option) \<Rightarrow> ('key \<Rightarrow> 'o option) \<Rightarrow> ('k, ('v, int) gomap) gomap \<Rightarrow> bool" where
  "count_idx proj objs m \<longleftrightarrow> finite (dom objs) \<and> nested_ok m \<and>
     (\<forall>k v. mget (mget_or [] m k) v =
        (if tally proj objs k v = {} then None else Some (int (card (tally proj objs k v)))))"

definition count_in :: "('o \<Rightarrow> ('k \<times> 'v) option) \<Rightarrow> 'key \<Rightarrow> 'o \<Rightarrow> ('k, ('v, int) gomap) gomap \<Rightarrow> ('k, ('v, int) gomap) gomap" where
  "count_in proj key obj m = (case proj obj of None \<Rightarrow> m | Some (k, v) \<Rightarrow> count_inc k v m)"

definition count_out :: "('o \<Rightarrow> ('k \<times> 'v) option) \<Rightarrow> 'key \<Rightarrow> 'o \<Rightarrow> ('k, ('v, int) gomap) gomap \<Rightarrow> ('k, ('v, int) gomap) gomap" where
  "count_out proj key obj m = (case proj obj of None \<Rightarrow> m | Some (k, v) \<Rightarrow> count_dec k v m)"

lemma finite_tally: "finite (dom objs) \<Longrightarrow> finite (tally proj objs k v)"
  by (rule finite_subset [of _ "dom objs"]) (auto simp: tally_def)

lemma tally_add:
  "objs key = None \<Longrightarrow> tally proj (objs(key \<mapsto> obj)) k v =
     (if proj obj = Some (k, v) then insert key (tally proj objs k v) else tally proj objs k v)"
  by (auto simp: tally_def)

lemma tally_del:
  "objs key = Some obj \<Longrightarrow> tally proj (objs(key := None)) k v = tally proj objs k v - {key}"
  by (auto simp: tally_def)

lemma count_or_zero:
  assumes "count_idx proj objs m"
  shows "mget_or 0 (mget_or [] m k) v = int (card (tally proj objs k v))"
  using assms by (auto simp: count_idx_def mget_or_def)

lemma count_object_index: "object_index (count_idx proj) (count_in proj) (count_out proj) []"
proof
  show "count_idx proj Map.empty []" by (simp add: count_idx_def tally_def)
  show "count_idx proj (objs(key \<mapsto> obj)) (count_in proj key obj m)"
    if c: "count_idx proj objs m" "objs key = None" for objs m key obj
  proof (cases "proj obj")
    case None
    then show ?thesis using c by (auto simp: count_idx_def count_in_def tally_add)
  next
    case (Some kv)
    obtain k v where kv: "kv = (k, v)" by fastforce
    have fin: "finite (tally proj objs k v)" using c(1) by (simp add: count_idx_def finite_tally)
    have "key \<notin> tally proj objs k v" using c(2) by (simp add: tally_def)
    then have "int (card (insert key (tally proj objs k v))) = int (card (tally proj objs k v)) + 1"
      using fin by simp
    then show ?thesis
      using c Some kv count_or_zero [OF c(1)]
      by (auto simp: count_idx_def count_in_def tally_add count_inc_ok)
  qed
  show "count_idx proj (objs(key := None)) (count_out proj key obj m)"
    if c: "count_idx proj objs m" "objs key = Some obj" for objs m key obj
  proof -
    have other: "tally proj objs k v - {key} = tally proj objs k v" if "proj obj \<noteq> Some (k, v)" for k v
      using that c(2) by (auto simp: tally_def)
    show ?thesis
    proof (cases "proj obj")
      case None
      then show ?thesis using c other by (auto simp: count_idx_def count_out_def tally_del)
    next
      case (Some kv)
      obtain k v where kv: "kv = (k, v)" by fastforce
      have fin: "finite (tally proj objs k v)" using c(1) by (simp add: count_idx_def finite_tally)
      have key: "key \<in> tally proj objs k v" using c(2) Some kv by (simp add: tally_def)
      then have card: "int (card (tally proj objs k v - {key})) = int (card (tally proj objs k v)) - 1"
        using card_Suc_Diff1 [OF fin key] by linarith
      then have empty: "int (card (tally proj objs k v)) - 1 \<le> 0 \<longleftrightarrow> tally proj objs k v - {key} = {}"
        using fin by (metis card_eq_0_iff finite_Diff of_nat_0_eq_iff of_nat_le_0_iff)
      have fact: "mget (mget_or [] (count_dec k v m) k') v' =
          (if tally proj objs k' v' - {key} = {} then None else Some (int (card (tally proj objs k' v' - {key}))))"
        for k' v'
      proof (cases "k' = k \<and> v' = v")
        case True
        then show ?thesis
          using c(1) count_or_zero [OF c(1), of k v] card empty by (simp add: count_idx_def count_dec_ok(2))
      next
        case False
        have "tally proj objs k' v' - {key} = tally proj objs k' v'"
          by (rule other) (use False Some kv in auto)
        moreover have "mget (mget_or [] (count_dec k v m) k') v' = mget (mget_or [] m k') v'"
          using False c(1) count_dec_ok(2) [of m k v k' v'] unfolding count_idx_def by auto
        ultimately show ?thesis using c(1) unfolding count_idx_def by simp
      qed
      have "finite (dom (objs(key := None)))" using c(1) by (simp add: count_idx_def)
      then show ?thesis
        using c(1) Some kv fact by (simp add: count_idx_def count_out_def tally_del [where objs = objs, OF c(2)]
            count_dec_ok(1))
    qed
  qed
qed

subsection \<open>Slots of shared resources\<close>

text \<open>
  A slot of \<^verbatim>\<open>sharedObjects\<close> holds the key of a resource of that kind under
  that shared key. Two resources for one slot are not excluded by the store:
  the later one takes it, and the slot is emptied when that one leaves. So
  the slots are sound, and name every resource that is alone in its slot
  from the moment it enters.
\<close>

definition slot_idx :: "(objectKey \<Rightarrow> 'mf Object option) \<Rightarrow> (string, (string, objectKey) gomap) gomap \<Rightarrow> bool" where
  "slot_idx objs m \<longleftrightarrow> nested_ok m \<and>
     (\<forall>k kind key. mget (mget_or [] m k) kind = Some key \<longrightarrow>
        (\<exists>obj. objs key = Some obj \<and> sharedResource obj \<and> SharedKey obj = k \<and> Kind obj = kind))"

lemma slot_in_ok:
  assumes "nested_ok m"
  shows "nested_ok (slot_in key obj m)"
    and "mget (mget_or [] (slot_in key obj m) k) kind =
      (if sharedResource obj \<and> k = SharedKey obj \<and> kind = Kind obj then Some key else mget (mget_or [] m k) kind)"
  using nested_ok_mput [OF assms] nested_ok_inner [OF assms] assms by (auto simp: slot_in_def)

lemma slot_out_ok:
  assumes "nested_ok m"
  shows "nested_ok (slot_out key obj m)"
    and "mget (mget_or [] (slot_out key obj m) k) kind =
      (if sharedResource obj \<and> mget_or zero_key (mget_or [] m (SharedKey obj)) (Kind obj) = key
          \<and> k = SharedKey obj \<and> kind = Kind obj then None else mget (mget_or [] m k) kind)"
proof -
  let ?k = "mdel (Kind obj) (mget_or [] m (SharedKey obj))"
  have ok: "gomap_ok ?k" using nested_ok_inner [OF assms] by blast
  have put: "nested_ok (if ?k = [] then mdel (SharedKey obj) m else mput (SharedKey obj) ?k m)"
    using assms nested_ok_mput [OF assms ok] nested_ok_mdel [OF assms] by simp
  have get: "mget_or [] (if ?k = [] then mdel (SharedKey obj) m else mput (SharedKey obj) ?k m) k =
      (if k = SharedKey obj then ?k else mget_or [] m k)"
    by (auto simp: mget_or_def)
  show "nested_ok (slot_out key obj m)" using assms put by (simp add: slot_out_def Let_def)
  show "mget (mget_or [] (slot_out key obj m) k) kind =
      (if sharedResource obj \<and> mget_or zero_key (mget_or [] m (SharedKey obj)) (Kind obj) = key
          \<and> k = SharedKey obj \<and> kind = Kind obj then None else mget (mget_or [] m k) kind)"
  proof (cases "sharedResource obj \<and> mget_or zero_key (mget_or [] m (SharedKey obj)) (Kind obj) = key")
    case True
    then have eq: "slot_out key obj m = (if ?k = [] then mdel (SharedKey obj) m else mput (SharedKey obj) ?k m)"
      by (simp add: slot_out_def Let_def)
    show ?thesis unfolding eq get using True by simp
  next
    case False
    then have "slot_out key obj m = m" unfolding slot_out_def Let_def by (rule if_not_P)
    then show ?thesis using False by auto
  qed
qed

lemma slot_object_index: "object_index slot_idx slot_in slot_out []"
proof
  show "slot_idx Map.empty []" by (simp add: slot_idx_def)
  show "slot_idx (objs(key \<mapsto> obj)) (slot_in key obj m)"
    if s: "slot_idx objs m" "objs key = None" for objs m key and obj :: "'a Object"
  proof -
    have "\<exists>o'. (objs(key \<mapsto> obj)) key' = Some o' \<and> sharedResource o' \<and> SharedKey o' = k \<and> Kind o' = kind"
      if g: "mget (mget_or [] (slot_in key obj m) k) kind = Some key'" for k kind key'
    proof (cases "sharedResource obj \<and> k = SharedKey obj \<and> kind = Kind obj")
      case True
      then have "key' = key" using g s(1) by (simp add: slot_idx_def slot_in_ok)
      then show ?thesis using True by simp
    next
      case False
      then have "mget (mget_or [] m k) kind = Some key'"
        using g s(1) slot_in_ok(2) [of m key obj k kind] unfolding slot_idx_def by metis
      then obtain o' where "objs key' = Some o'" "sharedResource o'" "SharedKey o' = k" "Kind o' = kind"
        using s(1) unfolding slot_idx_def by blast
      then show ?thesis using s(2) by (intro exI [of _ o']) auto
    qed
    then show ?thesis using s(1) by (simp add: slot_idx_def slot_in_ok)
  qed
  show "slot_idx (objs(key := None)) (slot_out key obj m)"
    if s: "slot_idx objs m" "objs key = Some obj" for objs m key and obj :: "'a Object"
  proof -
    have "\<exists>o'. (objs(key := None)) key' = Some o' \<and> sharedResource o' \<and> SharedKey o' = k \<and> Kind o' = kind"
      if g: "mget (mget_or [] (slot_out key obj m) k) kind = Some key'" for k kind key'
    proof -
      from g s(1) have m: "mget (mget_or [] m k) kind = Some key'"
        and n: "\<not> (sharedResource obj \<and> mget_or zero_key (mget_or [] m (SharedKey obj)) (Kind obj) = key
          \<and> k = SharedKey obj \<and> kind = Kind obj)"
        by (auto simp: slot_idx_def slot_out_ok split: if_splits)
      then obtain o' where o': "objs key' = Some o'" "sharedResource o'" "SharedKey o' = k" "Kind o' = kind"
        using s(1) unfolding slot_idx_def by blast
      have "key' \<noteq> key" using m n o' s(2) by auto
      then show ?thesis using o' by auto
    qed
    then show ?thesis using s(1) by (simp add: slot_idx_def slot_out_ok)
  qed
qed

subsection \<open>The five indexes of the store\<close>

definition source_of :: "'mf Object \<Rightarrow> string option" where
  "source_of obj = (if obj_Source obj \<noteq> [] then Some (obj_Source obj) else None)"

definition owner_of :: "'mf Object \<Rightarrow> uuid option" where
  "owner_of obj = (if Environment obj \<noteq> uuid_Nil then Some (Environment obj) else None)"

definition pod_place :: "'mf Object \<Rightarrow> (string \<times> uuid) option" where
  "pod_place obj = (if Environment obj \<noteq> uuid_Nil \<and> Kind obj = KindPod \<and> Node obj \<noteq> []
     then Some (Node obj, Environment obj) else None)"

definition shared_ref :: "'mf Object \<Rightarrow> (string \<times> uuid) option" where
  "shared_ref obj = (if Environment obj \<noteq> uuid_Nil \<and> SharedKey obj \<noteq> []
     then Some (SharedKey obj, Environment obj) else None)"

interpretation source_index: object_index "member_idx source_of" "member_in source_of" "member_out source_of" "[]"
  by (rule member_object_index)

interpretation owner_index: object_index "member_idx owner_of" "member_in owner_of" "member_out owner_of" "[]"
  by (rule member_object_index)

interpretation pod_index: object_index "count_idx pod_place" "count_in pod_place" "count_out pod_place" "[]"
  by (rule count_object_index)

interpretation ref_index: object_index "count_idx shared_ref" "count_in shared_ref" "count_out shared_ref" "[]"
  by (rule count_object_index)

interpretation slot_index: object_index slot_idx slot_in slot_out "[]"
  by (rule slot_object_index)

lemma owned_not_shared [simp]: "Environment obj \<noteq> uuid_Nil \<Longrightarrow> \<not> sharedResource obj"
  by (simp add: sharedResource_def)

lemma unshared_slots:
  assumes "\<not> sharedResource obj"
  shows "slot_in key obj m = m" and "slot_out key obj m = m"
  using assms by (simp_all add: slot_in_def slot_out_def)

text \<open>\<^verbatim>\<open>indexLocked\<close> and \<^verbatim>\<open>unindexLocked\<close>, read one index at a time.\<close>

lemma indexLocked_indexes:
  "bySource (indexLocked key obj s) = member_in source_of key obj (bySource s)"
  "byEnvironment (indexLocked key obj s) = member_in owner_of key obj (byEnvironment s)"
  "podsByNode (indexLocked key obj s) = count_in pod_place key obj (podsByNode s)"
  "sharedRefs (indexLocked key obj s) = count_in shared_ref key obj (sharedRefs s)"
  "sharedObjects (indexLocked key obj s) = slot_in key obj (sharedObjects s)"
  by (cases "Environment obj = uuid_Nil"; simp add: indexLocked_def Let_def member_in_def source_of_def
      owner_of_def count_in_def pod_place_def shared_ref_def unshared_slots)+

lemma unindexLocked_indexes:
  "bySource (unindexLocked key obj s) = member_out source_of key obj (bySource s)"
  "byEnvironment (unindexLocked key obj s) = member_out owner_of key obj (byEnvironment s)"
  "podsByNode (unindexLocked key obj s) = count_out pod_place key obj (podsByNode s)"
  "sharedRefs (unindexLocked key obj s) = count_out shared_ref key obj (sharedRefs s)"
  "sharedObjects (unindexLocked key obj s) = slot_out key obj (sharedObjects s)"
  by (cases "Environment obj = uuid_Nil"; simp add: unindexLocked_def Let_def member_out_def source_of_def
      owner_of_def count_out_def pod_place_def shared_ref_def unshared_slots)+

lemma indexLocked_frame [simp]:
  "objects (indexLocked key obj s) = objects s" "nodeArch (indexLocked key obj s) = nodeArch s"
  "nodeCapabilities (indexLocked key obj s) = nodeCapabilities s"
  "nodeRecords (indexLocked key obj s) = nodeRecords s" "events (indexLocked key obj s) = events s"
  "sources (indexLocked key obj s) = sources s" "broadcast (indexLocked key obj s) = broadcast s"
  by (simp_all add: indexLocked_def Let_def)

lemma unindexLocked_frame [simp]:
  "objects (unindexLocked key obj s) = objects s" "nodeArch (unindexLocked key obj s) = nodeArch s"
  "nodeCapabilities (unindexLocked key obj s) = nodeCapabilities s"
  "nodeRecords (unindexLocked key obj s) = nodeRecords s" "events (unindexLocked key obj s) = events s"
  "sources (unindexLocked key obj s) = sources s" "broadcast (unindexLocked key obj s) = broadcast s"
  by (simp_all add: unindexLocked_def Let_def)

definition indexes_ok :: "(objectKey \<Rightarrow> 'mf Object option) \<Rightarrow> 'mf Store \<Rightarrow> bool" where
  "indexes_ok objs s \<longleftrightarrow>
     member_idx source_of objs (bySource s) \<and> member_idx owner_of objs (byEnvironment s)
   \<and> count_idx pod_place objs (podsByNode s) \<and> count_idx shared_ref objs (sharedRefs s)
   \<and> slot_idx objs (sharedObjects s)"

lemma indexes_ok_enter:
  "indexes_ok objs s \<Longrightarrow> objs key = None \<Longrightarrow> indexes_ok (objs(key \<mapsto> obj)) (indexLocked key obj s)"
  by (simp add: indexes_ok_def indexLocked_indexes source_index.idx_add owner_index.idx_add
      pod_index.idx_add ref_index.idx_add slot_index.idx_add)

lemma indexes_ok_leave:
  "indexes_ok objs s \<Longrightarrow> objs key = Some obj \<Longrightarrow> indexes_ok (objs(key := None)) (unindexLocked key obj s)"
  by (simp add: indexes_ok_def unindexLocked_indexes source_index.idx_del owner_index.idx_del
      pod_index.idx_del ref_index.idx_del slot_index.idx_del)

lemma indexes_ok_objects [simp]: "indexes_ok objs (s\<lparr>objects := x\<rparr>) = indexes_ok objs s"
  by (simp add: indexes_ok_def)

end
