(* ===== verification/Observe_Store.thy ===== *)
theory Observe_Store
  imports Observe_Types
begin

text \<open>
  The operations of the observation store (\<^verbatim>\<open>internal/observe/store.go\<close>): upsert,
  removal and replacement of a source's object set with the invalidations
  they publish, the queries served from the indexes, the snapshot of an
  environment, node records and events. The theorems relate every query to
  the objects alone and say which environments are told of a change.
\<close>

section \<open>Invalidation\<close>

definition invalidate :: "'mf Store \<Rightarrow> uuid \<Rightarrow> 'mf Store" where
  "invalidate s environmentID =
     (if environmentID \<noteq> uuid_Nil
      then s\<lparr>broadcast := Publish environmentID \<lparr>EnvironmentID = environmentID\<rparr> (broadcast s)\<rparr> else s)"

definition invalidate_each :: "uuid list \<Rightarrow> 'mf Store \<Rightarrow> 'mf Store" where
  "invalidate_each environments s = foldl invalidate s environments"

definition environments :: "'mf Store \<Rightarrow> uuid list" where
  "environments s = mkeys (byEnvironment s)"

definition invalidateAll :: "'mf Store \<Rightarrow> 'mf Store" where
  "invalidateAll s = invalidate_each (environments s) s"

section \<open>Writes\<close>

definition environmentsForSharedKeyLocked :: "'mf Store \<Rightarrow> string \<Rightarrow> uuid list" where
  "environmentsForSharedKeyLocked s sharedKey = mkeys (mget_or [] (sharedRefs s) sharedKey)"

definition upsertLocked :: "'mf Object \<Rightarrow> 'mf Store \<Rightarrow> uuid list \<times> projectionChange \<times> 'mf Store" where
  "upsertLocked obj s =
     (let key = keyOf (Ref obj);
          previous = mget (objects s) key;
          change = compareProjection previous obj
      in if change = Unchanged then ([], Unchanged, s)
         else
           let s = (case previous of None \<Rightarrow> s | Some p \<Rightarrow> unindexLocked key p s);
               s = s\<lparr>objects := mput key obj (objects s)\<rparr>;
               s = indexLocked key obj s;
               affected = [Environment obj];
               affected = (case previous of
                   None \<Rightarrow> affected
                 | Some p \<Rightarrow> if Environment p \<noteq> Environment obj then affected @ [Environment p] else affected);
               affected = (if sharedResource obj
                           then affected @ environmentsForSharedKeyLocked s (SharedKey obj) else affected)
           in (affected, change, s))"

definition Upsert :: "'mf Object \<Rightarrow> 'mf Store \<Rightarrow> 'mf Store" where
  "Upsert obj s = (case upsertLocked obj s of (affected, _, s) \<Rightarrow> invalidate_each affected s)"

definition removeLocked :: "objectKey \<Rightarrow> 'mf Store \<Rightarrow> uuid list \<times> 'mf Store" where
  "removeLocked key s =
     (case mget (objects s) key of
        None \<Rightarrow> ([], s)
      | Some previous \<Rightarrow>
          let s = unindexLocked key previous s;
              s = s\<lparr>objects := mdel key (objects s)\<rparr>;
              affected = [Environment previous];
              affected = (if sharedResource previous
                          then affected @ environmentsForSharedKeyLocked s (SharedKey previous) else affected)
          in (affected, s))"

definition Remove :: "ObjectRef \<Rightarrow> 'mf Store \<Rightarrow> 'mf Store" where
  "Remove ref s = (case removeLocked (keyOf ref) s of (affected, s) \<Rightarrow> invalidate_each affected s)"

text \<open>\<^verbatim>\<open>uuid.UUID.String\<close> is the identity here: environments are kept in that form.\<close>

fun distinct_loop :: "uuid list \<Rightarrow> uuid list \<Rightarrow> uuid list" where
  "distinct_loop seen [] = []"
| "distinct_loop seen (i # ids) =
     (if i = uuid_Nil \<or> i \<in> set seen then distinct_loop seen ids else i # distinct_loop (i # seen) ids)"

definition distinct_ids :: "uuid list \<Rightarrow> uuid list" where
  "distinct_ids ids = sort_by (<) (distinct_loop [] ids)"

text \<open>The first loop of \<^verbatim>\<open>ReplaceSource\<close>: affected and refreshed environments, and the store.\<close>

fun replace_upserts :: "string \<Rightarrow> 'mf Object list \<Rightarrow> uuid list \<times> uuid list \<times> 'mf Store
    \<Rightarrow> uuid list \<times> uuid list \<times> 'mf Store" where
  "replace_upserts source [] st = st"
| "replace_upserts source (obj # objs) (affected, refreshed, s) =
     (case upsertLocked (obj\<lparr>obj_Source := source\<rparr>) s of (envs, change, s) \<Rightarrow>
        replace_upserts source objs
          (case change of
             Changed \<Rightarrow> (affected @ envs, refreshed, s)
           | UsageOnly \<Rightarrow> (affected, refreshed @ envs, s)
           | Unchanged \<Rightarrow> (affected, refreshed, s)))"

text \<open>The second loop: what the source published earlier and did not publish now.\<close>

fun replace_removals :: "objectKey list \<Rightarrow> objectKey list \<Rightarrow> uuid list \<times> 'mf Store \<Rightarrow> uuid list \<times> 'mf Store" where
  "replace_removals incoming [] st = st"
| "replace_removals incoming (key # keys) (affected, s) =
     (if key \<in> set incoming then replace_removals incoming keys (affected, s)
      else case removeLocked key s of (envs, s) \<Rightarrow>
             replace_removals incoming keys (affected @ envs, s))"

definition incoming_keys :: "'mf Object list \<Rightarrow> objectKey list" where
  "incoming_keys objs = map (\<lambda>obj. keyOf (Ref obj)) objs"

definition ReplaceSource :: "string \<Rightarrow> 'mf Object list \<Rightarrow> 'mf Store \<Rightarrow> uuid list \<times> 'mf Store" where
  "ReplaceSource source objs s =
     (case replace_upserts source objs ([], [], s) of (affected, refreshed, s) \<Rightarrow>
      case replace_removals (incoming_keys objs) (mkeys (mget_or [] (bySource s) source)) (affected, s) of
        (affected, s) \<Rightarrow> (distinct_ids affected, invalidate_each (distinct_ids (refreshed @ affected)) s))"

section \<open>Queries\<close>

definition EnvironmentsOnNode :: "string \<Rightarrow> 'mf Store \<Rightarrow> uuid list" where
  "EnvironmentsOnNode node s = sort_by (<) (mkeys (mget_or [] (podsByNode s) node))"

definition EnvironmentsForSharedKey :: "string \<Rightarrow> 'mf Store \<Rightarrow> uuid list" where
  "EnvironmentsForSharedKey sharedKey s = environmentsForSharedKeyLocked s sharedKey"

definition SharedObject :: "string \<Rightarrow> string \<Rightarrow> 'mf Store \<Rightarrow> 'mf Object option" where
  "SharedObject sharedKey kind s =
     (case mget (mget_or [] (sharedObjects s) sharedKey) kind of
        None \<Rightarrow> None
      | Some key \<Rightarrow> mget (objects s) key)"

definition store_Environment :: "ObjectRef \<Rightarrow> 'mf Store \<Rightarrow> uuid option" where
  "store_Environment ref s =
     (case mget (objects s) (keyOf ref) of
        None \<Rightarrow> None
      | Some obj \<Rightarrow> if Environment obj \<noteq> uuid_Nil then Some (Environment obj) else None)"

definition ManagedNamespaces :: "'mf Store \<Rightarrow> 'mf Object list" where
  "ManagedNamespaces s =
     sort_by (\<lambda>a b. ref_Name (Ref a) < ref_Name (Ref b))
       (filter (\<lambda>obj. Kind obj = kindNamespace) (mvals (objects s)))"

section \<open>Snapshots\<close>

record NamedSource =
  src_Name :: string
  src_Status :: SourceStatus

record 'mf Snapshot_r =
  snap_Sources :: "NamedSource list"
  snap_Objects :: "'mf Object list"

definition source_status :: "sourceRecord \<Rightarrow> SourceStatus" where
  "source_status r = \<lparr>State = state r, StaleSince = staleSince r, LastSync = lastSync r\<rparr>"

text \<open>The kubernetes source is always registered; reading it when it is not would panic.\<close>

definition named_source :: "'mf Store \<Rightarrow> string \<Rightarrow> NamedSource" where
  "named_source s name =
     \<lparr>src_Name = name, src_Status = source_status (mget_or new_source (sources s) name)\<rparr>"

definition sourcesLocked :: "'mf Store \<Rightarrow> NamedSource list" where
  "sourcesLocked s =
     named_source s SourceKubernetes
       # map (named_source s) (sort_by (<) (filter (\<lambda>name. name \<noteq> SourceKubernetes) (mkeys (sources s))))"

definition store_Sources :: "'mf Store \<Rightarrow> NamedSource list" where
  "store_Sources s = sourcesLocked s"

definition shared_objects_of :: "'mf Store \<Rightarrow> string \<Rightarrow> 'mf Object list" where
  "shared_objects_of s sharedKey =
     List.map_filter (mget (objects s)) (mvals (mget_or [] (sharedObjects s) sharedKey))"

fun snapshot_loop :: "'mf Store \<Rightarrow> objectKey list \<Rightarrow> string list \<Rightarrow> 'mf Object list" where
  "snapshot_loop s [] shared = []"
| "snapshot_loop s (key # keys) shared =
     (case mget (objects s) key of
        None \<Rightarrow> snapshot_loop s keys shared
      | Some obj \<Rightarrow>
          obj # (if SharedKey obj \<noteq> [] \<and> SharedKey obj \<notin> set shared
                 then shared_objects_of s (SharedKey obj) @ snapshot_loop s keys (SharedKey obj # shared)
                 else snapshot_loop s keys shared))"

definition snapshot_less :: "'mf Object \<Rightarrow> 'mf Object \<Rightarrow> bool" where
  "snapshot_less left right =
     (if Kind left \<noteq> Kind right then Kind left < Kind right
      else if Namespace (Ref left) \<noteq> Namespace (Ref right)
      then Namespace (Ref left) < Namespace (Ref right)
      else ref_Name (Ref left) < ref_Name (Ref right))"

definition Snapshot :: "uuid \<Rightarrow> 'mf Store \<Rightarrow> 'mf Snapshot_r" where
  "Snapshot environmentID s =
     \<lparr>snap_Sources = sourcesLocked s,
      snap_Objects = sort_by snapshot_less
        (snapshot_loop s (mkeys (mget_or [] (byEnvironment s) environmentID)) [])\<rparr>"

definition service_kinds :: "string list" where
  "service_kinds = [KindWorkload, KindPod, KindAutoscaler, KindService, KindIngress, KindVolume,
     KindDatabaseClaim, KindDatabaseTenant, KindBucketClaim, KindBucket, KindCertificate]"

definition shared_kinds :: "string list" where
  "shared_kinds = [KindDatabaseCluster, KindDatabaseConnections, KindObjectStore]"

definition source_resource :: "NamedSource \<Rightarrow> ObservedResource" where
  "source_resource n = empty_resource
     \<lparr>res_Kind := KindSource, res_Name := src_Name n, res_Source := Some (src_Status n)\<rparr>"

definition service_resource :: "'mf Object \<Rightarrow> ObservedResource" where
  "service_resource obj = empty_resource
     \<lparr>res_Kind := Kind obj, res_Name := obj_Name obj, res_Revision := Revision obj, res_Color := Color obj,
      res_Workload := Workload obj, res_Pod := Pod obj, res_Autoscaler := Autoscaler obj,
      res_Claim := Claim obj, res_DatabaseTenant := DatabaseTenant obj, res_Bucket := Bucket obj,
      res_Certificate := Certificate obj\<rparr>"

definition shared_resource :: "'mf Object \<Rightarrow> ObservedResource" where
  "shared_resource obj = empty_resource
     \<lparr>res_Kind := Kind obj, res_Name := obj_Name obj, res_DatabaseCluster := DatabaseCluster obj,
      res_DatabaseConnections := DatabaseConnections obj, res_ObjectStore := ObjectStore obj\<rparr>"

definition own_objects :: "'mf Snapshot_r \<Rightarrow> string \<Rightarrow> 'mf Object list" where
  "own_objects snap key =
     filter (\<lambda>obj. Service obj = key \<and> Kind obj \<in> set service_kinds) (snap_Objects snap)"

definition ForService :: "'mf Snapshot_r \<Rightarrow> string \<Rightarrow> ObservedResource list" where
  "ForService snap key =
     (let own = own_objects snap key;
          shared = filter (\<lambda>k. k \<noteq> []) (map SharedKey own)
      in map source_resource (snap_Sources snap) @ map service_resource own
         @ map shared_resource (filter (\<lambda>obj. Environment obj = uuid_Nil \<and> SharedKey obj \<in> set shared
             \<and> Kind obj \<in> set shared_kinds) (snap_Objects snap)))"

section \<open>Nodes\<close>

definition SetNodeArch :: "string \<Rightarrow> string \<Rightarrow> 'mf Store \<Rightarrow> 'mf Store" where
  "SetNodeArch name arch s =
     (if arch = [] then s\<lparr>nodeArch := mdel name (nodeArch s)\<rparr>
      else s\<lparr>nodeArch := mput name arch (nodeArch s)\<rparr>)"

definition SetNodeCapabilities :: "string \<Rightarrow> string list \<Rightarrow> 'mf Store \<Rightarrow> 'mf Store" where
  "SetNodeCapabilities name capabilities s =
     (if length capabilities = 0 then s\<lparr>nodeCapabilities := mdel name (nodeCapabilities s)\<rparr>
      else s\<lparr>nodeCapabilities := mput name
        (foldl (\<lambda>caps capability. mput capability True caps) [] capabilities) (nodeCapabilities s)\<rparr>)"

definition capable :: "(string, bool) gomap \<Rightarrow> string \<Rightarrow> bool" where
  "capable caps capability = mget_or False caps capability"

definition CapableNodes :: "string \<Rightarrow> 'mf Store \<Rightarrow> string list" where
  "CapableNodes capability s =
     sort_by (<) (mkeys (filter (\<lambda>(name, caps). capable caps capability) (nodeCapabilities s)))"

definition smaller_node :: "'mf Store \<Rightarrow> string \<Rightarrow> string \<times> int \<Rightarrow> string \<times> (string, bool) gomap \<Rightarrow> string \<times> int" where
  "smaller_node s capability best entry =
     (case (best, entry) of ((name, bytes), (node, caps)) \<Rightarrow>
        if \<not> capable caps capability then (name, bytes)
        else case mget (nodeRecords s) node of
          None \<Rightarrow> (name, bytes)
        | Some record \<Rightarrow>
            if MemoryAllocatableBytes record \<le> 0 then (name, bytes)
            else
              let smaller = MemoryAllocatableBytes record < bytes
                    \<or> (MemoryAllocatableBytes record = bytes \<and> node < name)
              in if bytes = 0 \<or> smaller then (node, MemoryAllocatableBytes record) else (name, bytes))"

definition SmallestCapableNodeMemory :: "string \<Rightarrow> 'mf Store \<Rightarrow> string \<times> int" where
  "SmallestCapableNodeMemory capability s =
     foldl (smaller_node s capability) ([], 0) (nodeCapabilities s)"

definition RemoveNode :: "string \<Rightarrow> 'mf Store \<Rightarrow> 'mf Store" where
  "RemoveNode name s = s\<lparr>nodeArch := mdel name (nodeArch s),
     nodeCapabilities := mdel name (nodeCapabilities s), nodeRecords := mdel name (nodeRecords s)\<rparr>"

definition SetNodeRecord :: "NodeRecord \<Rightarrow> 'mf Store \<Rightarrow> bool \<times> 'mf Store" where
  "SetNodeRecord record s =
     (let s' = s\<lparr>nodeRecords := mput (nr_Name record) record (nodeRecords s)\<rparr>
      in case mget (nodeRecords s) (nr_Name record) of
           None \<Rightarrow> (True, s')
         | Some previous \<Rightarrow> (previous\<lparr>LastHeartbeat := LastHeartbeat record\<rparr> \<noteq> record, s'))"

definition Nodes :: "'mf Store \<Rightarrow> NodeRecord list" where
  "Nodes s = sort_by (\<lambda>a b. nr_Name a < nr_Name b) (mvals (nodeRecords s))"

fun platform_loop :: "('a \<Rightarrow> bool) \<Rightarrow> ('a \<times> string) list \<Rightarrow> string list \<Rightarrow> string list" where
  "platform_loop counts [] seen = []"
| "platform_loop counts ((name, arch) # rest) seen =
     (if \<not> counts name then platform_loop counts rest seen
      else let platform = ''linux/'' @ arch
           in if platform \<in> set seen then platform_loop counts rest seen
              else platform # platform_loop counts rest (platform # seen))"

definition NodePlatforms :: "'mf Store \<Rightarrow> string list" where
  "NodePlatforms s =
     (let applicationNodes = list_ex (\<lambda>(_, caps). capable caps CapabilityApplication) (nodeCapabilities s);
          counts = (\<lambda>name. \<not> applicationNodes
            \<or> capable (mget_or [] (nodeCapabilities s) name) CapabilityApplication)
      in sort_by (<) (platform_loop counts (nodeArch s) []))"

section \<open>Events\<close>

definition maxEventsPerObject :: nat where "maxEventsPerObject = 10"
definition maxEventAge :: duration where "maxEventAge = 15 * minute_d"

definition RecordEvent :: "gotime \<Rightarrow> ObjectRef \<Rightarrow> EventRecord \<Rightarrow> 'mf Store \<Rightarrow> 'mf Store" where
  "RecordEvent now ref record s =
     (let key = keyOf ref;
          cutoff = now - maxEventAge;
          kept = filter (\<lambda>existing. At existing > cutoff) (mget_or [] (events s) key) @ [record];
          kept = (if length kept > maxEventsPerObject
                  then drop (length kept - maxEventsPerObject) kept else kept)
      in s\<lparr>events := mput key kept (events s)\<rparr>)"

definition Events :: "gotime \<Rightarrow> ObjectRef \<Rightarrow> 'mf Store \<Rightarrow> EventRecord list" where
  "Events now ref s =
     (let cutoff = now - maxEventAge
      in filter (\<lambda>record. At record > cutoff) (mget_or [] (events s) (keyOf ref)))"

section \<open>Subscriptions\<close>

definition store_Subscribe :: "uuid \<Rightarrow> 'mf Store \<Rightarrow> nat \<times> 'mf Store" where
  "store_Subscribe environmentID s =
     (case Subscribe environmentID (broadcast s) of (ch, b) \<Rightarrow> (ch, s\<lparr>broadcast := b\<rparr>))"

definition Invalidate :: "uuid \<Rightarrow> 'mf Store \<Rightarrow> 'mf Store" where
  "Invalidate environmentID s = invalidate s environmentID"

section \<open>Objects and indexes agree\<close>

definition objects_ok :: "'mf Store \<Rightarrow> bool" where
  "objects_ok s \<longleftrightarrow>
     gomap_ok (objects s) \<and> (\<forall>key obj. mget (objects s) key = Some obj \<longrightarrow> keyOf (Ref obj) = key)
   \<and> indexes_ok (mget (objects s)) s"

text \<open>The parts of the store no object write touches.\<close>

definition same_rest :: "'mf Store \<Rightarrow> 'mf Store \<Rightarrow> bool" where
  "same_rest s s' \<longleftrightarrow> nodeArch s' = nodeArch s \<and> nodeCapabilities s' = nodeCapabilities s
     \<and> nodeRecords s' = nodeRecords s \<and> events s' = events s \<and> sources s' = sources s
     \<and> broadcast s' = broadcast s"

lemma same_rest_refl [simp]: "same_rest s s"
  by (simp add: same_rest_def)

lemma same_rest_trans [trans]: "same_rest a b \<Longrightarrow> same_rest b c \<Longrightarrow> same_rest a c"
  by (simp add: same_rest_def)

lemma compare_Unchanged_iff:
  "compareProjection previous obj = Unchanged \<longleftrightarrow> (\<exists>p. previous = Some p \<and> DeepEqual p obj)"
  by (cases previous) (auto simp: compareProjection_def)

text \<open>What an upsert leaves, before the invalidations are published.\<close>

definition upserted :: "'mf Object \<Rightarrow> 'mf Store \<Rightarrow> 'mf Store" where
  "upserted obj s = (case upsertLocked obj s of (_, _, s') \<Rightarrow> s')"

definition upsert_affects :: "'mf Object \<Rightarrow> 'mf Store \<Rightarrow> uuid list" where
  "upsert_affects obj s = fst (upsertLocked obj s)"

definition upsert_change :: "'mf Object \<Rightarrow> 'mf Store \<Rightarrow> projectionChange" where
  "upsert_change obj s = compareProjection (mget (objects s) (keyOf (Ref obj))) obj"

lemma upsertLocked_eq: "upsertLocked obj s = (upsert_affects obj s, upsert_change obj s, upserted obj s)"
  by (simp add: upserted_def upsert_affects_def upsert_change_def upsertLocked_def Let_def)

lemma upserted_unchanged: "upsert_change obj s = Unchanged \<Longrightarrow> upserted obj s = s \<and> upsert_affects obj s = []"
  by (simp add: upserted_def upsert_affects_def upsert_change_def upsertLocked_def Let_def)

lemma upserted_changed:
  assumes "upsert_change obj s \<noteq> Unchanged"
  shows "upserted obj s =
      (let s1 = (case mget (objects s) (keyOf (Ref obj)) of
                   None \<Rightarrow> s | Some p \<Rightarrow> unindexLocked (keyOf (Ref obj)) p s)
       in indexLocked (keyOf (Ref obj)) obj (s1\<lparr>objects := mput (keyOf (Ref obj)) obj (objects s)\<rparr>))"
  using assms
  by (simp add: upserted_def upsert_change_def upsertLocked_def Let_def split: option.split)

lemma upserted_objects:
  "objects (upserted obj s) =
     (if upsert_change obj s = Unchanged then objects s else mput (keyOf (Ref obj)) obj (objects s))"
  by (simp add: upserted_unchanged upserted_changed Let_def)

lemma upserted_same_rest: "same_rest s (upserted obj s)"
proof (cases "upsert_change obj s = Unchanged")
  case False
  then show ?thesis
    by (cases "mget (objects s) (keyOf (Ref obj))") (simp_all add: upserted_changed same_rest_def)
qed (simp add: upserted_unchanged)

lemma upserted_ok:
  assumes "objects_ok s"
  shows "objects_ok (upserted obj s)"
proof (cases "upsert_change obj s = Unchanged")
  case True
  then show ?thesis using assms by (simp add: upserted_unchanged)
next
  case False
  let ?key = "keyOf (Ref obj)" and ?objs = "mget (objects s)"
  have idx: "indexes_ok ?objs s" using assms by (simp add: objects_ok_def)
  have "indexes_ok (?objs(?key := None)) (case ?objs ?key of None \<Rightarrow> s | Some p \<Rightarrow> unindexLocked ?key p s)"
  proof (cases "?objs ?key")
    case None
    then have "?objs(?key := None) = ?objs" by auto
    then show ?thesis using idx None by simp
  qed (use indexes_ok_leave [OF idx] in simp)
  then have "indexes_ok (?objs(?key := None, ?key \<mapsto> obj)) (upserted obj s)"
    unfolding upserted_changed [OF False] Let_def by (intro indexes_ok_enter) simp_all
  moreover have "mget (objects (upserted obj s)) = ?objs(?key := None, ?key \<mapsto> obj)"
    using False by (auto simp: upserted_objects fun_eq_iff)
  ultimately have "indexes_ok (mget (objects (upserted obj s))) (upserted obj s)" by (simp only:)
  then show ?thesis
    using assms False by (auto simp: objects_ok_def upserted_objects)
qed

definition removed :: "objectKey \<Rightarrow> 'mf Store \<Rightarrow> 'mf Store" where
  "removed key s = snd (removeLocked key s)"

definition remove_affects :: "objectKey \<Rightarrow> 'mf Store \<Rightarrow> uuid list" where
  "remove_affects key s = fst (removeLocked key s)"

lemma removeLocked_eq: "removeLocked key s = (remove_affects key s, removed key s)"
  by (simp add: removed_def remove_affects_def)

lemma removed_cases:
  "mget (objects s) key = None \<Longrightarrow> removed key s = s"
  "mget (objects s) key = Some p \<Longrightarrow> removed key s = (unindexLocked key p s)\<lparr>objects := mdel key (objects s)\<rparr>"
  by (simp_all add: removed_def removeLocked_def Let_def)

lemma mget_removed: "mget (objects (removed key s)) = (mget (objects s))(key := None)"
  by (cases "mget (objects s) key") (auto simp: removed_cases fun_eq_iff)

lemma removed_same_rest: "same_rest s (removed key s)"
  by (cases "mget (objects s) key") (simp_all add: removed_cases same_rest_def)

lemma removed_ok:
  assumes "objects_ok s"
  shows "objects_ok (removed key s)"
proof (cases "mget (objects s) key")
  case None
  then show ?thesis using assms by (simp add: removed_cases)
next
  case (Some p)
  have "indexes_ok (mget (objects (removed key s))) (removed key s)"
    unfolding mget_removed unfolding removed_cases(2) [where s = s, OF Some] indexes_ok_objects
    using assms Some by (intro indexes_ok_leave) (simp_all add: objects_ok_def)
  moreover have "gomap_ok (objects (removed key s))"
    using assms Some by (auto simp: objects_ok_def removed_cases(2))
  ultimately show ?thesis using assms by (auto simp: objects_ok_def mget_removed)
qed

section \<open>Invalidations reach the subscribers\<close>

lemma invalidate_frame [simp]:
  "objects (invalidate s e) = objects s" "byEnvironment (invalidate s e) = byEnvironment s"
  "podsByNode (invalidate s e) = podsByNode s" "nodeArch (invalidate s e) = nodeArch s"
  "nodeCapabilities (invalidate s e) = nodeCapabilities s" "nodeRecords (invalidate s e) = nodeRecords s"
  "events (invalidate s e) = events s" "sharedObjects (invalidate s e) = sharedObjects s"
  "sharedRefs (invalidate s e) = sharedRefs s" "bySource (invalidate s e) = bySource s"
  "sources (invalidate s e) = sources s"
  by (simp_all add: invalidate_def)

lemma invalidate_each_frame [simp]:
  "objects (invalidate_each es s) = objects s" "byEnvironment (invalidate_each es s) = byEnvironment s"
  "podsByNode (invalidate_each es s) = podsByNode s" "nodeArch (invalidate_each es s) = nodeArch s"
  "nodeCapabilities (invalidate_each es s) = nodeCapabilities s"
  "nodeRecords (invalidate_each es s) = nodeRecords s" "events (invalidate_each es s) = events s"
  "sharedObjects (invalidate_each es s) = sharedObjects s" "sharedRefs (invalidate_each es s) = sharedRefs s"
  "bySource (invalidate_each es s) = bySource s" "sources (invalidate_each es s) = sources s"
  unfolding invalidate_each_def by (induction es arbitrary: s) simp_all

lemma indexes_ok_invalidate_each [simp]: "indexes_ok objs (invalidate_each es s) = indexes_ok objs s"
  by (simp add: indexes_ok_def)

lemma objects_ok_invalidate_each [simp]: "objects_ok (invalidate_each es s) = objects_ok s"
  by (simp add: objects_ok_def)

lemma broadcaster_ok_invalidate:
  "broadcaster_ok (broadcast s) \<Longrightarrow> broadcaster_ok (broadcast (invalidate s e))"
  by (simp add: invalidate_def Publish_ok(1))

lemma broadcaster_ok_invalidate_each:
  "broadcaster_ok (broadcast s) \<Longrightarrow> broadcaster_ok (broadcast (invalidate_each es s))"
  unfolding invalidate_each_def
  by (induction es arbitrary: s) (simp_all add: broadcaster_ok_invalidate)

text \<open>
  What a subscriber of an environment sees of a write: more invalidations of
  that environment behind what it already has, or, when its buffer ran over,
  a closed channel.
\<close>

definition told :: "uuid \<Rightarrow> Invalidation channel \<Rightarrow> Invalidation channel \<Rightarrow> bool" where
  "told env c c' \<longleftrightarrow> closed c' \<or> (\<exists>n > 0. pending c' = pending c @ replicate n \<lparr>EnvironmentID = env\<rparr>)"

lemma Publish_closed_channel:
  assumes "broadcaster_ok b" and "mget (channels b) ch = Some c" and "closed c"
  shows "mget (channels (Publish key e b)) ch = Some c"
proof -
  have "subs_ok b" using assms(1) by (simp add: broadcaster_ok_def)
  then have "\<not> subscribed b key ch" using assms(2,3) by (auto elim: subscribed_open)
  then show ?thesis using Publish_ok(3) [OF assms(1)] assms(2) by simp
qed

lemma publish_each_closed:
  assumes "broadcaster_ok (broadcast s)" and "mget (channels (broadcast s)) ch = Some c" and "closed c"
  shows "mget (channels (broadcast (invalidate_each es s))) ch = Some c"
  using assms unfolding invalidate_each_def
proof (induction es arbitrary: s)
  case (Cons e es)
  have "mget (channels (broadcast (invalidate s e))) ch = Some c"
    using Cons.prems by (simp add: invalidate_def Publish_closed_channel)
  then show ?case
    using Cons.IH [OF broadcaster_ok_invalidate [OF Cons.prems(1)]] Cons.prems(3) by simp
qed simp

lemma publish_each_subscriber:
  assumes "broadcaster_ok (broadcast s)" and "subscribed (broadcast s) env ch"
    and "mget (channels (broadcast s)) ch = Some c" and "env \<noteq> uuid_Nil"
  shows "\<exists>c'. mget (channels (broadcast (invalidate_each es s))) ch = Some c'
    \<and> (closed c' \<and> env \<in> set es
       \<or> pending c' = pending c @ replicate (length (filter ((=) env) es)) \<lparr>EnvironmentID = env\<rparr>)"
  using assms unfolding invalidate_each_def
proof (induction es arbitrary: s c)
  case (Cons e es)
  let ?s = "invalidate s e"
  have ok: "broadcaster_ok (broadcast ?s)" by (rule broadcaster_ok_invalidate [OF Cons.prems(1)])
  show ?case
  proof (cases "length (pending c) < buffer (broadcast s) \<or> e \<noteq> env \<or> e = uuid_Nil")
    case True
    let ?c = "if e = env then c\<lparr>pending := pending c @ [\<lparr>EnvironmentID = e\<rparr>]\<rparr> else c"
    have "mget (channels (broadcast ?s)) ch = Some ?c \<and> subscribed (broadcast ?s) env ch"
      using True Cons.prems Publish_keeps_subscriber [OF Cons.prems(1-3), of e "\<lparr>EnvironmentID = e\<rparr>"]
      by (auto simp: invalidate_def)
    then obtain c' where "mget (channels (broadcast (foldl invalidate ?s es))) ch = Some c'"
        "closed c' \<and> env \<in> set es
         \<or> pending c' = pending ?c @ replicate (length (filter ((=) env) es)) \<lparr>EnvironmentID = env\<rparr>"
      using Cons.IH [OF ok _ _ Cons.prems(4)] by blast
    then show ?thesis by (cases "e = env") auto
  next
    case False
    then have "mget (channels (broadcast ?s)) ch = Some (c\<lparr>closed := True\<rparr>)"
      using Cons.prems Publish_ok(3) [OF Cons.prems(1), of e _ ch]
      by (auto simp: invalidate_def delivered_def)
    then have "mget (channels (broadcast (foldl invalidate ?s es))) ch = Some (c\<lparr>closed := True\<rparr>)"
      using publish_each_closed [OF ok, of ch "c\<lparr>closed := True\<rparr>" es] by (simp add: invalidate_each_def)
    then show ?thesis using False by auto
  qed
qed simp

lemma invalidated_subscriber_told:
  assumes "broadcaster_ok (broadcast s)" and "subscribed (broadcast s) env ch"
    and "mget (channels (broadcast s)) ch = Some c" and "env \<noteq> uuid_Nil" and "env \<in> set es"
  shows "\<exists>c'. mget (channels (broadcast (invalidate_each es s))) ch = Some c' \<and> told env c c'"
proof -
  have "0 < length (filter ((=) env) es)" using assms(5) by (auto simp: filter_empty_conv)
  then show ?thesis using publish_each_subscriber [OF assms(1-4), of es] unfolding told_def by blast
qed

section \<open>Queries read the objects\<close>

lemma mkeys_iff: "k \<in> set (mkeys m) \<longleftrightarrow> mget m k \<noteq> None"
  by (simp add: map_of_eq_None_iff)

lemma nested_inner_distinct: "nested_ok m \<Longrightarrow> distinct (mkeys (mget_or [] m k))"
  using nested_ok_inner by (auto simp: gomap_ok_def)

lemma count_index_keys:
  assumes "count_idx proj objs m"
  shows "v \<in> set (mkeys (mget_or [] m k)) \<longleftrightarrow> (\<exists>key obj. objs key = Some obj \<and> proj obj = Some (k, v))"
  using assms unfolding mkeys_iff count_idx_def by (auto simp: tally_def)

lemma member_index_keys:
  assumes "member_idx proj objs m"
  shows "key \<in> set (mkeys (mget_or [] m k)) \<longleftrightarrow> (\<exists>obj. objs key = Some obj \<and> proj obj = Some k)"
proof -
  have "mget (mget_or [] m k) key \<noteq> None \<longleftrightarrow> mget (mget_or [] m k) key = Some ()" by auto
  then show ?thesis using assms unfolding mkeys_iff member_idx_def by blast
qed

lemma shared_key_environments:
  assumes "objects_ok s"
  shows "env \<in> set (environmentsForSharedKeyLocked s k) \<longleftrightarrow>
    (\<exists>key obj. mget (objects s) key = Some obj \<and> shared_ref obj = Some (k, env))"
  using assms count_index_keys [of shared_ref "mget (objects s)" "sharedRefs s" env k]
  by (simp add: environmentsForSharedKeyLocked_def objects_ok_def indexes_ok_def)

text \<open>The objects of an environment, and the shared resources registered under a key one of them names.\<close>

definition owned :: "uuid \<Rightarrow> 'mf Store \<Rightarrow> 'mf Object set" where
  "owned env s = {obj. \<exists>key. mget (objects s) key = Some obj \<and> Environment obj = env}"

definition registered :: "string \<Rightarrow> 'mf Store \<Rightarrow> 'mf Object set" where
  "registered k s = {obj. \<exists>kind key. mget (mget_or [] (sharedObjects s) k) kind = Some key
     \<and> mget (objects s) key = Some obj}"

definition visible :: "uuid \<Rightarrow> 'mf Store \<Rightarrow> 'mf Object set" where
  "visible env s = owned env s \<union> (\<Union>obj \<in> owned env s. if SharedKey obj = [] then {} else registered (SharedKey obj) s)"

lemma registered_sound:
  assumes "objects_ok s" and "obj \<in> registered k s"
  shows "sharedResource obj" and "SharedKey obj = k"
proof -
  obtain kind key where k: "mget (mget_or [] (sharedObjects s) k) kind = Some key" "mget (objects s) key = Some obj"
    using assms(2) by (auto simp: registered_def)
  then obtain o' where "mget (objects s) key = Some o'" "sharedResource o'" "SharedKey o' = k"
    using assms(1) unfolding objects_ok_def indexes_ok_def slot_idx_def by blast
  then show "sharedResource obj" and "SharedKey obj = k" using k by auto
qed

subsection \<open>Which views a write can change\<close>

lemma upsert_affects_mem:
  assumes "upsert_change obj s \<noteq> Unchanged"
  shows "Environment obj \<in> set (upsert_affects obj s)"
    and "mget (objects s) (keyOf (Ref obj)) = Some p \<Longrightarrow> Environment p \<in> set (upsert_affects obj s)"
    and "sharedResource obj \<Longrightarrow> set (environmentsForSharedKeyLocked (upserted obj s) (SharedKey obj))
           \<subseteq> set (upsert_affects obj s)"
  using assms
  by (auto simp: upsert_affects_def upsert_change_def upserted_def upsertLocked_def Let_def
      split: option.splits if_splits)

lemma upserted_slots:
  assumes "upsert_change obj s \<noteq> Unchanged"
  shows "sharedObjects (upserted obj s) = slot_in (keyOf (Ref obj)) obj
    (case mget (objects s) (keyOf (Ref obj)) of
       None \<Rightarrow> sharedObjects s | Some p \<Rightarrow> slot_out (keyOf (Ref obj)) p (sharedObjects s))"
  using assms
  by (simp add: upserted_changed Let_def indexLocked_indexes unindexLocked_indexes split: option.split)

text \<open>A shared key neither version of the object carries as a resource keeps what it registers.\<close>

lemma upsert_registered_elsewhere:
  assumes ok: "objects_ok s" and ch: "upsert_change obj s \<noteq> Unchanged"
    and new: "sharedResource obj \<Longrightarrow> SharedKey obj \<noteq> k"
    and old: "\<And>p. mget (objects s) (keyOf (Ref obj)) = Some p \<Longrightarrow> sharedResource p \<Longrightarrow> SharedKey p \<noteq> k"
  shows "registered k (upserted obj s) = registered k s"
proof -
  let ?key = "keyOf (Ref obj)"
  have nested: "nested_ok (sharedObjects s)"
    using ok by (simp add: objects_ok_def indexes_ok_def slot_idx_def)
  have slot: "mget (mget_or [] (sharedObjects (upserted obj s)) k) kind = mget (mget_or [] (sharedObjects s) k) kind"
    for kind
  proof (cases "mget (objects s) ?key")
    case None
    then show ?thesis using new nested by (auto simp: upserted_slots [OF ch] slot_in_ok(2))
  next
    case (Some p)
    have "mget (mget_or [] (slot_out ?key p (sharedObjects s)) k) kind = mget (mget_or [] (sharedObjects s) k) kind"
      using old [OF Some] by (auto simp: slot_out_ok(2) [OF nested])
    then show ?thesis
      using new Some by (auto simp: upserted_slots [OF ch] slot_in_ok(2) [OF slot_out_ok(1) [OF nested]])
  qed
  have "key' \<noteq> ?key" if "mget (mget_or [] (sharedObjects s) k) kind = Some key'" for kind key'
    using that ok old unfolding objects_ok_def indexes_ok_def slot_idx_def by blast
  then show ?thesis
    using ch unfolding registered_def slot upserted_objects by force
qed

lemma upsert_unaffected_view:
  assumes ok: "objects_ok s" and env: "env \<noteq> uuid_Nil" "env \<notin> set (upsert_affects obj s)"
    and keep: "\<And>p. mget (objects s) (keyOf (Ref obj)) = Some p \<Longrightarrow> sharedResource p \<Longrightarrow>
      sharedResource obj \<and> SharedKey obj = SharedKey p"
  shows "visible env (upserted obj s) = visible env s"
proof (cases "upsert_change obj s = Unchanged")
  case True
  then show ?thesis by (simp add: upserted_unchanged)
next
  case False
  let ?key = "keyOf (Ref obj)" and ?s = "upserted obj s"
  note aff = upsert_affects_mem [OF False]
  have objs: "mget (objects ?s) key = (if key = ?key then Some obj else mget (objects s) key)" for key
    using False by (simp add: upserted_objects)
  have "(mget (objects ?s) key = Some x \<and> Environment x = env) \<longleftrightarrow>
      (mget (objects s) key = Some x \<and> Environment x = env)" for key x
    by (cases "key = ?key") (use env(2) aff(1,2) in \<open>auto simp: objs\<close>)
  then have own: "owned env ?s = owned env s" unfolding owned_def by simp
  have "registered (SharedKey o') ?s = registered (SharedKey o') s"
    if o': "o' \<in> owned env s" "SharedKey o' \<noteq> []" for o'
  proof -
    have "o' \<in> owned env ?s" using o' own by simp
    then obtain key where "mget (objects ?s) key = Some o'" "Environment o' = env" by (auto simp: owned_def)
    then have "env \<in> set (environmentsForSharedKeyLocked ?s (SharedKey o'))"
      using env(1) o'(2) by (auto simp: shared_key_environments [OF upserted_ok [OF ok]] shared_ref_def)
    then have not_new: "sharedResource obj \<Longrightarrow> SharedKey obj \<noteq> SharedKey o'" using aff(3) env(2) by auto
    show ?thesis
      by (rule upsert_registered_elsewhere [OF ok False not_new]) (use not_new keep in fastforce)+
  qed
  then show ?thesis unfolding visible_def own by (auto split: if_splits)
qed

lemma remove_unaffected_view:
  assumes ok: "objects_ok s" and env: "env \<noteq> uuid_Nil" "env \<notin> set (remove_affects key s)"
  shows "visible env (removed key s) = visible env s"
proof (cases "mget (objects s) key")
  case None
  then show ?thesis by (simp add: removed_cases)
next
  case (Some p)
  let ?s = "removed key s"
  have nested: "nested_ok (sharedObjects s)"
    using ok by (simp add: objects_ok_def indexes_ok_def slot_idx_def)
  have aff: "Environment p \<in> set (remove_affects key s)"
    "sharedResource p \<Longrightarrow> set (environmentsForSharedKeyLocked ?s (SharedKey p)) \<subseteq> set (remove_affects key s)"
    using Some by (auto simp: remove_affects_def removed_def removeLocked_def Let_def)
  have objs: "mget (objects ?s) key' = (if key' = key then None else mget (objects s) key')" for key'
    using mget_removed [of key s] by (simp add: fun_eq_iff)
  have "(mget (objects ?s) key' = Some x \<and> Environment x = env) \<longleftrightarrow>
      (mget (objects s) key' = Some x \<and> Environment x = env)" for key' x
    by (cases "key' = key") (use env(2) aff(1) Some in \<open>auto simp: objs\<close>)
  then have own: "owned env ?s = owned env s" unfolding owned_def by simp
  have "registered (SharedKey o') ?s = registered (SharedKey o') s"
    if o': "o' \<in> owned env s" "SharedKey o' \<noteq> []" for o'
  proof -
    have "o' \<in> owned env ?s" using o' own by simp
    then have "env \<in> set (environmentsForSharedKeyLocked ?s (SharedKey o'))"
      using env(1) o'(2) by (auto simp: shared_key_environments [OF removed_ok [OF ok]] shared_ref_def owned_def)
    then have ne: "SharedKey p \<noteq> SharedKey o'" if "sharedResource p" using aff(2) [OF that] env(2) by auto
    have slot: "mget (mget_or [] (sharedObjects ?s) (SharedKey o')) kind =
        mget (mget_or [] (sharedObjects s) (SharedKey o')) kind" for kind
      using ne Some by (auto simp: removed_cases(2) unindexLocked_indexes slot_out_ok(2) [OF nested])
    have "key' \<noteq> key" if "mget (mget_or [] (sharedObjects s) (SharedKey o')) kind = Some key'" for kind key'
      using that ok ne Some unfolding objects_ok_def indexes_ok_def slot_idx_def by fastforce
    then show ?thesis unfolding registered_def slot objs by force
  qed
  then show ?thesis unfolding visible_def own by (auto split: if_splits)
qed

section \<open>Snapshots\<close>

lemma shared_objects_of_set:
  assumes "objects_ok s"
  shows "set (shared_objects_of s k) = registered k s"
proof -
  have ok: "gomap_ok (mget_or [] (sharedObjects s) k)"
    using assms by (simp add: objects_ok_def indexes_ok_def slot_idx_def nested_ok_inner)
  have "set (shared_objects_of s k) =
      {obj. \<exists>key \<in> set (mvals (mget_or [] (sharedObjects s) k)). mget (objects s) key = Some obj}"
    unfolding shared_objects_of_def by (force simp: map_filter_def)
  also have "\<dots> = registered k s" unfolding registered_def Bex_def mvals_mem [OF ok] by blast
  finally show ?thesis .
qed

lemma snapshot_loop_mem:
  "x \<in> set (snapshot_loop s keys shared) \<longleftrightarrow>
     (\<exists>key \<in> set keys. mget (objects s) key = Some x)
   \<or> (\<exists>key \<in> set keys. \<exists>obj. mget (objects s) key = Some obj \<and> SharedKey obj \<noteq> []
        \<and> SharedKey obj \<notin> set shared \<and> x \<in> set (shared_objects_of s (SharedKey obj)))"
proof (induction s keys shared rule: snapshot_loop.induct)
  case (2 s key keys shared)
  show ?case
  proof (cases "mget (objects s) key")
    case None
    then show ?thesis using 2(1) [OF None] by simp
  next
    case (Some obj)
    show ?thesis
    proof (cases "SharedKey obj \<noteq> [] \<and> SharedKey obj \<notin> set shared")
      case True
      then have "x \<in> set (snapshot_loop s (key # keys) shared) \<longleftrightarrow>
          x = obj \<or> x \<in> set (shared_objects_of s (SharedKey obj))
          \<or> x \<in> set (snapshot_loop s keys (SharedKey obj # shared))"
        using Some by auto
      then show ?thesis unfolding 2(2) [OF Some True] using Some True by (cases "x \<in> set (shared_objects_of s (SharedKey obj))") (auto, metis)
    next
      case False
      then have "x \<in> set (snapshot_loop s (key # keys) shared) \<longleftrightarrow> x = obj \<or> x \<in> set (snapshot_loop s keys shared)"
        using Some by auto
      then show ?thesis unfolding 2(3) [OF Some False] using Some False by (simp, blast)
    qed
  qed
qed simp

lemma Snapshot_objects_set:
  assumes "objects_ok s" and "env \<noteq> uuid_Nil"
  shows "set (snap_Objects (Snapshot env s)) = visible env s"
proof -
  have keys: "key \<in> set (mkeys (mget_or [] (byEnvironment s) env)) \<longleftrightarrow>
      (\<exists>obj. mget (objects s) key = Some obj \<and> Environment obj = env)" for key
    using assms member_index_keys [of owner_of "mget (objects s)" "byEnvironment s" key env]
    by (auto simp: objects_ok_def indexes_ok_def owner_of_def split: if_splits)
  have "set (snap_Objects (Snapshot env s)) =
      set (snapshot_loop s (mkeys (mget_or [] (byEnvironment s) env)) [])" by (simp add: Snapshot_def)
  also have "\<dots> = visible env s"
    unfolding visible_def owned_def set_eq_iff snapshot_loop_mem shared_objects_of_set [OF assms(1)] Bex_def keys
    by (auto split: if_splits)
  finally show ?thesis .
qed

definition snapshot_key :: "'mf Object \<Rightarrow> string \<times> string \<times> string" where
  "snapshot_key obj = (Kind obj, Namespace (Ref obj), ref_Name (Ref obj))"

interpretation snapshot_order: comparator snapshot_less UNIV
  by (rule comparator_by_key [of _ _ snapshot_key])
    (auto simp: snapshot_less_def snapshot_key_def less_prod_def')

section \<open>Replacing the objects of a source\<close>

lemma upserted_present: "\<exists>o'. mget (objects (upserted obj s)) (keyOf (Ref obj)) = Some o' \<and> DeepEqual o' obj"
  by (auto simp: upserted_objects upsert_change_def compare_Unchanged_iff)

lemma upserted_other: "key \<noteq> keyOf (Ref obj) \<Longrightarrow> mget (objects (upserted obj s)) key = mget (objects s) key"
  by (simp add: upserted_objects)

text \<open>The store after the upserts, whatever environments were collected.\<close>

definition upserted_all :: "string \<Rightarrow> 'mf Object list \<Rightarrow> 'mf Store \<Rightarrow> 'mf Store" where
  "upserted_all source objs s = foldl (\<lambda>s obj. upserted (obj\<lparr>obj_Source := source\<rparr>) s) s objs"

lemma replace_upserts_store: "snd (snd (replace_upserts source objs (a, r, s))) = upserted_all source objs s"
proof (induction objs arbitrary: a r s)
  case (Cons obj objs)
  show ?case
    by (cases "upsert_change (obj\<lparr>obj_Source := source\<rparr>) s")
      (simp_all add: upsertLocked_eq Cons upserted_all_def)
qed (simp add: upserted_all_def)

lemma upserted_all_ok: "objects_ok s \<Longrightarrow> objects_ok (upserted_all source objs s)"
  unfolding upserted_all_def by (induction objs arbitrary: s) (simp_all add: upserted_ok)

lemma upserted_all_same_rest: "same_rest s (upserted_all source objs s)"
  unfolding upserted_all_def
  by (induction objs arbitrary: s) (auto intro: same_rest_trans upserted_same_rest)

lemma upserted_all_other:
  "key \<notin> set (incoming_keys objs) \<Longrightarrow> mget (objects (upserted_all source objs s)) key = mget (objects s) key"
  unfolding upserted_all_def incoming_keys_def
  by (induction objs arbitrary: s) (auto simp: upserted_other)

lemma upserted_all_present:
  assumes "distinct (incoming_keys objs)" and "obj \<in> set objs"
  shows "\<exists>o'. mget (objects (upserted_all source objs s)) (keyOf (Ref obj)) = Some o'
    \<and> DeepEqual o' (obj\<lparr>obj_Source := source\<rparr>)"
  using assms
proof (induction objs arbitrary: s)
  case (Cons x objs)
  let ?x = "x\<lparr>obj_Source := source\<rparr>"
  have step: "upserted_all source (x # objs) s = upserted_all source objs (upserted ?x s)"
    by (simp add: upserted_all_def)
  show ?case
  proof (cases "obj \<in> set objs")
    case True
    then show ?thesis using Cons unfolding step by (simp add: incoming_keys_def)
  next
    case False
    then have "obj = x" using Cons.prems by simp
    moreover have "keyOf (Ref x) \<notin> set (incoming_keys objs)" using Cons.prems by (simp add: incoming_keys_def)
    ultimately show ?thesis
      unfolding step using upserted_all_other [of "keyOf (Ref x)" objs source "upserted ?x s"]
        upserted_present [of ?x s] by simp
  qed
qed simp

lemma upserted_all_source:
  assumes "key \<in> set (incoming_keys objs)"
  shows "\<exists>o'. mget (objects (upserted_all source objs s)) key = Some o' \<and> obj_Source o' = source"
  using assms
proof (induction objs arbitrary: s)
  case (Cons x objs)
  let ?x = "x\<lparr>obj_Source := source\<rparr>"
  have step: "upserted_all source (x # objs) s = upserted_all source objs (upserted ?x s)"
    by (simp add: upserted_all_def)
  show ?case
  proof (cases "key \<in> set (incoming_keys objs)")
    case False
    then have "key = keyOf (Ref x)" using Cons.prems by (simp add: incoming_keys_def)
    then show ?thesis
      unfolding step using upserted_all_other [OF False] upserted_present [of ?x s]
      by (auto dest: DeepEqual_fields(6))
  qed (use Cons.IH step in simp)
qed (simp add: incoming_keys_def)

definition removed_all :: "objectKey list \<Rightarrow> objectKey list \<Rightarrow> 'mf Store \<Rightarrow> 'mf Store" where
  "removed_all incoming keys s = foldl (\<lambda>s key. removed key s) s (filter (\<lambda>key. key \<notin> set incoming) keys)"

lemma replace_removals_store: "snd (replace_removals incoming keys (a, s)) = removed_all incoming keys s"
  by (induction keys arbitrary: a s) (simp_all add: removed_all_def removeLocked_eq)

lemma removed_all_ok: "objects_ok s \<Longrightarrow> objects_ok (removed_all incoming keys s)"
  unfolding removed_all_def by (induction keys arbitrary: s) (simp_all add: removed_ok)

lemma removed_all_same_rest: "same_rest s (removed_all incoming keys s)"
  unfolding removed_all_def
  by (induction keys arbitrary: s) (auto intro: same_rest_trans removed_same_rest)

lemma mget_removed_all:
  "mget (objects (removed_all incoming keys s)) key =
     (if key \<in> set keys \<and> key \<notin> set incoming then None else mget (objects s) key)"
proof -
  have "mget (objects (foldl (\<lambda>s key. removed key s) s ks)) key =
      (if key \<in> set ks then None else mget (objects s) key)" for ks
    by (induction ks arbitrary: s) (auto simp: mget_removed [unfolded fun_eq_iff])
  then show ?thesis by (simp add: removed_all_def)
qed

text \<open>The store \<^verbatim>\<open>ReplaceSource\<close> leaves, before the invalidations are published.\<close>

definition replaced :: "string \<Rightarrow> 'mf Object list \<Rightarrow> 'mf Store \<Rightarrow> 'mf Store" where
  "replaced source objs s =
     (let s1 = upserted_all source objs s
      in removed_all (incoming_keys objs) (mkeys (mget_or [] (bySource s1) source)) s1)"

lemma ReplaceSource_store:
  "\<exists>es. snd (ReplaceSource source objs s) = invalidate_each es (replaced source objs s)"
proof -
  obtain a r s1 where u: "replace_upserts source objs ([], [], s) = (a, r, s1)" by (metis prod_cases3)
  then have s1: "s1 = upserted_all source objs s" using replace_upserts_store [of source objs "[]" "[]" s] by simp
  obtain b s2 where d: "replace_removals (incoming_keys objs) (mkeys (mget_or [] (bySource s1) source)) (a, s1) = (b, s2)"
    by fastforce
  then have "s2 = replaced source objs s"
    using replace_removals_store [of "incoming_keys objs" "mkeys (mget_or [] (bySource s1) source)" a s1] s1
    by (simp add: replaced_def Let_def)
  then show ?thesis using u d by (auto simp: ReplaceSource_def)
qed

lemma replaced_ok: "objects_ok s \<Longrightarrow> objects_ok (replaced source objs s)"
  by (simp add: replaced_def Let_def removed_all_ok upserted_all_ok)

lemma replaced_same_rest: "same_rest s (replaced source objs s)"
  unfolding replaced_def Let_def using upserted_all_same_rest removed_all_same_rest same_rest_trans by blast

lemma source_keys:
  assumes "objects_ok s" and "source \<noteq> []"
  shows "key \<in> set (mkeys (mget_or [] (bySource s) source)) \<longleftrightarrow>
    (\<exists>obj. mget (objects s) key = Some obj \<and> obj_Source obj = source)"
  using assms member_index_keys [of source_of "mget (objects s)" "bySource s" key source]
  by (auto simp: objects_ok_def indexes_ok_def source_of_def split: if_splits)

lemma replaced_objects:
  assumes "objects_ok s" and "source \<noteq> []"
  shows "key \<in> set (incoming_keys objs) \<Longrightarrow>
      mget (objects (replaced source objs s)) key = mget (objects (upserted_all source objs s)) key"
    and "key \<notin> set (incoming_keys objs) \<Longrightarrow> mget (objects (replaced source objs s)) key =
      (case mget (objects s) key of
         None \<Rightarrow> None | Some obj \<Rightarrow> if obj_Source obj = source then None else Some obj)"
proof -
  show "mget (objects (replaced source objs s)) key = mget (objects (upserted_all source objs s)) key"
    if "key \<in> set (incoming_keys objs)"
    using that by (simp add: replaced_def Let_def mget_removed_all)
  show "mget (objects (replaced source objs s)) key =
      (case mget (objects s) key of
         None \<Rightarrow> None | Some obj \<Rightarrow> if obj_Source obj = source then None else Some obj)"
    if "key \<notin> set (incoming_keys objs)"
    using that source_keys [OF upserted_all_ok [OF assms(1)] assms(2), of key source objs]
    by (auto simp: replaced_def Let_def mget_removed_all upserted_all_other split: option.splits)
qed

subsection \<open>An identical probe changes nothing\<close>

definition holds_all :: "string \<Rightarrow> 'mf Object list \<Rightarrow> 'mf Store \<Rightarrow> bool" where
  "holds_all source objs s \<longleftrightarrow> (\<forall>obj \<in> set objs. \<exists>o'. mget (objects s) (keyOf (Ref obj)) = Some o'
     \<and> DeepEqual o' (obj\<lparr>obj_Source := source\<rparr>))"

lemma replace_upserts_identical:
  "holds_all source objs s \<Longrightarrow> replace_upserts source objs (a, r, s) = (a, r, s)"
proof (induction objs)
  case (Cons obj objs)
  have "upsert_change (obj\<lparr>obj_Source := source\<rparr>) s = Unchanged"
    using Cons.prems by (auto simp: holds_all_def upsert_change_def compare_Unchanged_iff)
  then show ?case
    using Cons by (simp add: upsertLocked_eq upserted_unchanged holds_all_def)
qed simp

lemma replace_removals_none:
  "set keys \<subseteq> set incoming \<Longrightarrow> replace_removals incoming keys (a, s) = (a, s)"
  by (induction keys) auto

lemma replaced_holds_all:
  assumes "objects_ok s" and "source \<noteq> []" and "distinct (incoming_keys objs)"
  shows "holds_all source objs (replaced source objs s)"
  unfolding holds_all_def
proof
  fix obj assume obj: "obj \<in> set objs"
  then have "keyOf (Ref obj) \<in> set (incoming_keys objs)" by (auto simp: incoming_keys_def)
  then show "\<exists>o'. mget (objects (replaced source objs s)) (keyOf (Ref obj)) = Some o'
      \<and> DeepEqual o' (obj\<lparr>obj_Source := source\<rparr>)"
    using replaced_objects(1) [OF assms(1,2)] upserted_all_present [OF assms(3) obj] by metis
qed

lemma holds_all_invalidate [simp]: "holds_all source objs (invalidate_each es s) = holds_all source objs s"
  by (simp add: holds_all_def)

lemma ReplaceSource_identical:
  assumes "objects_ok s" and "source \<noteq> []" and "holds_all source objs s"
    and "\<And>key obj. mget (objects s) key = Some obj \<Longrightarrow> obj_Source obj = source \<Longrightarrow> key \<in> set (incoming_keys objs)"
  shows "ReplaceSource source objs s = ([], s)"
proof -
  have "set (mkeys (mget_or [] (bySource s) source)) \<subseteq> set (incoming_keys objs)"
    using source_keys [OF assms(1,2)] assms(4) by blast
  then show ?thesis
    by (simp add: ReplaceSource_def replace_upserts_identical [OF assms(3)] replace_removals_none
        distinct_ids_def invalidate_each_def)
qed

lemma distinct_loop_props:
  "distinct (distinct_loop seen ids) \<and> set (distinct_loop seen ids) = set ids - set seen - {uuid_Nil}"
  by (induction seen ids rule: distinct_loop.induct) auto

lemma distinct_ids_props:
  "set (distinct_ids ids) = set ids - {uuid_Nil}" "distinct (distinct_ids ids)"
  using distinct_loop_props [of "[]" ids] by (auto simp: distinct_ids_def)

interpretation string_order: comparator "(<) :: string \<Rightarrow> string \<Rightarrow> bool" UNIV
  by (rule comparator_by_key [of _ _ "\<lambda>x. x"]) simp

lemma sorted_sort_strings: "sorted (sort_by (<) (xs :: string list))"
  using string_order.sorted_sort_by [of xs] by (simp add: not_less sorted_wrt_iff_nth_less sorted_iff_nth_mono_less)

section \<open>Nodes\<close>

text \<open>The nodes that count for the smallest memory: capable, and with a reported size.\<close>

definition sized_nodes :: "'mf Store \<Rightarrow> string \<Rightarrow> (string \<times> (string, bool) gomap) list \<Rightarrow> (string \<times> int) set" where
  "sized_nodes s capability entries =
     {(node, bytes). \<exists>caps record. (node, caps) \<in> set entries \<and> capable caps capability
        \<and> mget (nodeRecords s) node = Some record \<and> bytes = MemoryAllocatableBytes record \<and> 0 < bytes}"

text \<open>Smaller first, and by name among equals.\<close>

definition no_larger :: "string \<times> int \<Rightarrow> string \<times> int \<Rightarrow> bool" where
  "no_larger a b \<longleftrightarrow> snd a < snd b \<or> snd a = snd b \<and> fst a \<le> fst b"

definition smallest_of :: "(string \<times> int) set \<Rightarrow> string \<times> int \<Rightarrow> bool" where
  "smallest_of N best \<longleftrightarrow> (if N = {} then best = ([], 0) else best \<in> N \<and> (\<forall>n \<in> N. no_larger best n))"

lemma smallest_of_unique: "smallest_of N a \<Longrightarrow> smallest_of N b \<Longrightarrow> a = b"
  by (auto simp: smallest_of_def no_larger_def prod_eq_iff split: if_splits) (metis order_less_asym order_antisym)+

lemma sized_nodes_Cons:
  "sized_nodes s capability (entries @ [(node, caps)]) =
     sized_nodes s capability entries
   \<union> {(node, bytes) | bytes record. capable caps capability \<and> mget (nodeRecords s) node = Some record
        \<and> bytes = MemoryAllocatableBytes record \<and> 0 < bytes}"
  by (auto simp: sized_nodes_def)

lemma sized_positive: "n \<in> sized_nodes s capability entries \<Longrightarrow> 0 < snd n"
  by (auto simp: sized_nodes_def)

lemma smallest_of_insert:
  assumes "smallest_of N (name, bytes)" and "\<And>n. n \<in> N \<Longrightarrow> 0 < snd n" and "0 < b"
  shows "smallest_of (insert (node, b) N)
    (if bytes = 0 \<or> b < bytes \<or> b = bytes \<and> node < name then (node, b) else (name, bytes))"
proof (cases "N = {}")
  case True
  then show ?thesis using assms by (simp add: smallest_of_def no_larger_def)
next
  case False
  then have best: "(name, bytes) \<in> N" "\<And>n. n \<in> N \<Longrightarrow> no_larger (name, bytes) n"
    using assms(1) by (auto simp: smallest_of_def)
  then have "bytes \<noteq> 0" using assms(2) by fastforce
  show ?thesis
  proof (cases "b < bytes \<or> b = bytes \<and> node < name")
    case True
    then have "no_larger (node, b) n" if "n \<in> N" for n
      using best(2) [OF that] by (auto simp: no_larger_def)
    then show ?thesis using True by (auto simp: smallest_of_def no_larger_def)
  next
    case F: False
    then have "no_larger (name, bytes) (node, b)" by (auto simp: no_larger_def not_less)
    then show ?thesis using F best \<open>bytes \<noteq> 0\<close> by (auto simp: smallest_of_def)
  qed
qed

lemma smallest_fold:
  "smallest_of (sized_nodes s capability entries) (foldl (smaller_node s capability) ([], 0) entries)"
proof (induction entries rule: rev_induct)
  case Nil
  then show ?case by (simp add: smallest_of_def sized_nodes_def)
next
  case (snoc entry entries)
  obtain node caps where e: "entry = (node, caps)" by fastforce
  obtain name bytes where best: "foldl (smaller_node s capability) ([], 0) entries = (name, bytes)" by fastforce
  show ?case
  proof (cases "capable caps capability \<and> (\<exists>r. mget (nodeRecords s) node = Some r \<and> 0 < MemoryAllocatableBytes r)")
    case True
    then obtain r where r: "mget (nodeRecords s) node = Some r" "0 < MemoryAllocatableBytes r" by blast
    have "sized_nodes s capability (entries @ [entry]) =
        insert (node, MemoryAllocatableBytes r) (sized_nodes s capability entries)"
      unfolding e sized_nodes_Cons using True r by auto
    moreover have "foldl (smaller_node s capability) ([], 0) (entries @ [entry]) =
        (if bytes = 0 \<or> MemoryAllocatableBytes r < bytes \<or> MemoryAllocatableBytes r = bytes \<and> node < name
         then (node, MemoryAllocatableBytes r) else (name, bytes))"
      using True r by (simp add: e best smaller_node_def Let_def)
    ultimately show ?thesis
      by (simp only:) (rule smallest_of_insert [OF snoc.IH [unfolded best] _ r(2)], erule sized_positive)
  next
    case False
    then have "sized_nodes s capability (entries @ [entry]) = sized_nodes s capability entries"
      unfolding e sized_nodes_Cons by auto
    moreover have "foldl (smaller_node s capability) ([], 0) (entries @ [entry]) = (name, bytes)"
      using False by (auto simp: e best smaller_node_def Let_def split: option.split)
    ultimately show ?thesis using snoc.IH best by simp
  qed
qed

lemma foldl_caps:
  "mget (foldl (\<lambda>caps capability. mput capability True caps) m cs) c =
     (if c \<in> set cs then Some True else mget m c)"
  by (induction cs arbitrary: m) auto

lemma SetNodeCapabilities_get:
  "capable (mget_or [] (nodeCapabilities (SetNodeCapabilities name cs s)) name') c =
     (if name' = name then c \<in> set cs else capable (mget_or [] (nodeCapabilities s) name') c)"
  by (auto simp: SetNodeCapabilities_def capable_def foldl_caps mget_or_def)

lemma platform_loop_props:
  "set (platform_loop counts entries seen) = {''linux/'' @ arch | name arch. (name, arch) \<in> set entries \<and> counts name} - set seen
   \<and> distinct (platform_loop counts entries seen)"
  by (induction counts entries seen rule: platform_loop.induct) (auto simp: Let_def)

section \<open>Events\<close>

definition events_ok :: "'mf Store \<Rightarrow> bool" where
  "events_ok s \<longleftrightarrow> gomap_ok (events s) \<and>
     (\<forall>key ring. mget (events s) key = Some ring \<longrightarrow> length ring \<le> maxEventsPerObject)"

definition recent :: "gotime \<Rightarrow> EventRecord list \<Rightarrow> EventRecord list" where
  "recent now ring = filter (\<lambda>r. At r > now - maxEventAge) ring"

lemma RecordEvent_ring:
  "mget (events (RecordEvent now ref r s)) key =
     (if key = keyOf ref
      then Some (drop (Suc (length (recent now (mget_or [] (events s) key))) - maxEventsPerObject)
             (recent now (mget_or [] (events s) key) @ [r]))
      else mget (events s) key)"
  by (auto simp: RecordEvent_def Let_def recent_def)

lemma RecordEvent_ok: "events_ok s \<Longrightarrow> events_ok (RecordEvent now ref r s)"
proof -
  assume ok: "events_ok s"
  have "gomap_ok (events (RecordEvent now ref r s))" using ok by (simp add: events_ok_def RecordEvent_def Let_def)
  then show ?thesis using ok by (auto simp: events_ok_def RecordEvent_ring split: if_splits)
qed

section \<open>Every shared resource has its slot\<close>

text \<open>
  The publishers name a shared resource after its shared key and kind (the
  connection check of a pool, its cluster and the object store each have one
  reference). \<open>place\<close> is that naming; under it no two stored resources compete
  for a slot, and then every stored resource is found by it.
\<close>

definition well_placed :: "(string \<Rightarrow> string \<Rightarrow> objectKey) \<Rightarrow> 'mf Object \<Rightarrow> bool" where
  "well_placed place obj \<longleftrightarrow> (sharedResource obj \<longrightarrow> keyOf (Ref obj) = place (SharedKey obj) (Kind obj))"

definition slots_full :: "'mf Store \<Rightarrow> bool" where
  "slots_full s \<longleftrightarrow> (\<forall>key obj. mget (objects s) key = Some obj \<longrightarrow> sharedResource obj \<longrightarrow>
     mget (mget_or [] (sharedObjects s) (SharedKey obj)) (Kind obj) = Some key)"

definition placed_ok :: "(string \<Rightarrow> string \<Rightarrow> objectKey) \<Rightarrow> 'mf Store \<Rightarrow> bool" where
  "placed_ok place s \<longleftrightarrow> objects_ok s \<and> slots_full s \<and>
     (\<forall>key obj. mget (objects s) key = Some obj \<longrightarrow> well_placed place obj)"

lemma placed_nested: "placed_ok place s \<Longrightarrow> nested_ok (sharedObjects s)"
  by (simp add: placed_ok_def objects_ok_def indexes_ok_def slot_idx_def)

lemma slot_out_keeps:
  assumes "nested_ok m" and "mget (mget_or [] m k) kind = Some key'" and "key' \<noteq> key"
  shows "mget (mget_or [] (slot_out key p m) k) kind = Some key'"
proof -
  have "mget_or zero_key (mget_or [] m k) kind = key'" by (simp add: mget_or_def [of zero_key] assms(2))
  then show ?thesis using assms(2,3) unfolding slot_out_ok(2) [OF assms(1)] by auto
qed

lemma upserted_placed:
  assumes "placed_ok place s" and "well_placed place obj"
  shows "placed_ok place (upserted obj s)"
proof (cases "upsert_change obj s = Unchanged")
  case True
  then show ?thesis using assms(1) by (simp add: upserted_unchanged)
next
  case False
  let ?key = "keyOf (Ref obj)" and ?t = "upserted obj s"
  have objs: "mget (objects ?t) key = (if key = ?key then Some obj else mget (objects s) key)" for key
    using False by (simp add: upserted_objects)
  note nested = placed_nested [OF assms(1)]
  define m where "m = (case mget (objects s) ?key of
       None \<Rightarrow> sharedObjects s | Some p \<Rightarrow> slot_out ?key p (sharedObjects s))"
  have m: "nested_ok m" "sharedObjects ?t = slot_in ?key obj m"
    using nested by (auto simp: m_def slot_out_ok(1) upserted_slots [OF False] split: option.split)
  have "mget (mget_or [] (sharedObjects ?t) (SharedKey x)) (Kind x) = Some key"
    if x: "mget (objects ?t) key = Some x" "sharedResource x" for key x
  proof (cases "key = ?key")
    case True
    then have "x = obj" using x(1) by (simp add: objs)
    with True x(2) show ?thesis unfolding m(2) by (simp add: slot_in_ok(2) [OF m(1)])
  next
    case other: False
    then have s: "mget (objects s) key = Some x" using x(1) by (simp add: objs)
    then have "mget (mget_or [] (sharedObjects s) (SharedKey x)) (Kind x) = Some key"
      using assms(1) x(2) by (simp add: placed_ok_def slots_full_def)
    then have "mget (mget_or [] m (SharedKey x)) (Kind x) = Some key"
      using slot_out_keeps [OF nested _ other] by (auto simp: m_def split: option.split)
    moreover have "keyOf (Ref x) = key" "well_placed place x"
      using assms(1) s by (auto simp: placed_ok_def objects_ok_def)
    ultimately show ?thesis
      using other x(2) assms(2) by (auto simp: m(2) slot_in_ok(2) [OF m(1)] well_placed_def)
  qed
  moreover have "well_placed place x" if "mget (objects ?t) key = Some x" for key x
    using that assms by (auto simp: objs placed_ok_def split: if_splits)
  ultimately show ?thesis
    using assms(1) upserted_ok by (auto simp: placed_ok_def slots_full_def)
qed

lemma removed_placed:
  assumes "placed_ok place s"
  shows "placed_ok place (removed key s)"
proof (cases "mget (objects s) key")
  case None
  then show ?thesis using assms by (simp add: removed_cases)
next
  case (Some p)
  have "sharedObjects (removed key s) = slot_out key p (sharedObjects s)"
    using Some by (simp add: removed_cases(2) unindexLocked_indexes)
  then have "slots_full (removed key s)"
    using assms unfolding slots_full_def placed_ok_def mget_removed
    by (auto intro!: slot_out_keeps [OF placed_nested [OF assms]])
  then show ?thesis
    using assms removed_ok [of s key] by (auto simp: placed_ok_def mget_removed [unfolded fun_eq_iff])
qed

lemma placed_ok_invalidate [simp]: "placed_ok place (invalidate_each es s) = placed_ok place s"
  by (simp add: placed_ok_def slots_full_def)

lemma well_placed_source [simp]: "well_placed place (obj\<lparr>obj_Source := source\<rparr>) = well_placed place obj"
  by (simp add: well_placed_def sharedResource_def)

lemma replaced_placed:
  assumes "placed_ok place s" and "list_all (well_placed place) objs"
  shows "placed_ok place (replaced source objs s)"
proof -
  have "placed_ok place (upserted_all source objs s)"
    using assms unfolding upserted_all_def by (induction objs arbitrary: s) (simp_all add: upserted_placed)
  moreover have "placed_ok place (removed_all incoming keys t)" if "placed_ok place t" for incoming keys t
    using that unfolding removed_all_def by (induction keys arbitrary: t) (simp_all add: removed_placed)
  ultimately show ?thesis by (simp add: replaced_def Let_def)
qed

section \<open>No object is shown twice\<close>

lemma shared_objects_of_distinct:
  assumes "objects_ok s"
  shows "distinct (map (\<lambda>obj. keyOf (Ref obj)) (shared_objects_of s k))"
proof -
  let ?m = "mget_or [] (sharedObjects s) k"
  have m: "gomap_ok ?m"
    using assms by (simp add: objects_ok_def indexes_ok_def slot_idx_def nested_ok_inner)
  have slot: "\<exists>obj. mget (objects s) key = Some obj \<and> Kind obj = kind" if "mget ?m kind = Some key" for kind key
    using that assms unfolding objects_ok_def indexes_ok_def slot_idx_def by blast
  have "distinct (map snd ?m)"
  proof (rule distinct_map [THEN iffD2], rule conjI)
    show "distinct ?m" using m by (simp add: gomap_ok_def distinct_map)
    show "inj_on snd (set ?m)"
    proof (rule inj_onI)
      fix x y assume xy: "x \<in> set ?m" "y \<in> set ?m" "snd x = snd y"
      have "mget ?m (fst z) = Some (snd z)" if "z \<in> set ?m" for z
        using m that by (intro map_of_is_SomeI) (simp_all add: gomap_ok_def)
      from slot [OF this [OF xy(1)]] slot [OF this [OF xy(2)]] xy(3) show "x = y"
        by (auto simp: prod_eq_iff)
    qed
  qed
  moreover have "map (\<lambda>obj. keyOf (Ref obj)) (List.map_filter (mget (objects s)) ks) =
      filter (\<lambda>key. mget (objects s) key \<noteq> None) ks" for ks
    using assms by (induction ks) (auto simp: map_filter_simps objects_ok_def split: option.split)
  ultimately show ?thesis by (simp add: shared_objects_of_def)
qed

lemma shared_objects_of_sound:
  assumes "objects_ok s" and "y \<in> set (shared_objects_of s k)"
  shows "mget (objects s) (keyOf (Ref y)) = Some y" "Environment y = uuid_Nil" "SharedKey y = k"
proof -
  have y: "y \<in> registered k s" using assms by (simp add: shared_objects_of_set)
  then show "mget (objects s) (keyOf (Ref y)) = Some y" using assms(1) by (auto simp: registered_def objects_ok_def)
  from registered_sound [OF assms(1) y] show "Environment y = uuid_Nil" "SharedKey y = k"
    by (simp_all add: sharedResource_def split: if_splits)
qed

lemma snapshot_loop_own_keys:
  "x \<in> set (snapshot_loop s keys shared) \<Longrightarrow> Environment x \<noteq> uuid_Nil \<Longrightarrow> objects_ok s \<Longrightarrow>
   keyOf (Ref x) \<in> set keys"
  unfolding snapshot_loop_mem
  using registered_sound(1) by (fastforce simp: shared_objects_of_set sharedResource_def objects_ok_def)

lemma snapshot_loop_distinct:
  assumes "objects_ok s" and "distinct keys"
    and "\<forall>key \<in> set keys. \<forall>obj. mget (objects s) key = Some obj \<longrightarrow> Environment obj \<noteq> uuid_Nil"
  shows "distinct (map (\<lambda>obj. keyOf (Ref obj)) (snapshot_loop s keys shared))"
  using assms
proof (induction s keys shared rule: snapshot_loop.induct)
  case (2 s key keys shared)
  have stored: "mget (objects s) (keyOf (Ref x)) = Some x" if "x \<in> set (snapshot_loop s ks sh)" for x ks sh
    using that 2(4) unfolding snapshot_loop_mem
    by (auto simp: shared_objects_of_set [OF 2(4)] registered_def objects_ok_def)
  show ?case
  proof (cases "mget (objects s) key")
    case None
    then show ?thesis using 2(1) [OF None] 2(4-6) by simp
  next
    case (Some obj)
    have key: "keyOf (Ref obj) = key" "Environment obj \<noteq> uuid_Nil"
      using 2(4,6) Some by (auto simp: objects_ok_def)
    have fresh: "keyOf (Ref x) \<noteq> key" if x: "x \<in> set (snapshot_loop s keys sh)" for x sh
    proof
      assume "keyOf (Ref x) = key"
      then have "x = obj" using stored [OF x] Some by simp
      then have "key \<in> set keys" using snapshot_loop_own_keys [OF x _ 2(4)] key by simp
      then show False using 2(5) by simp
    qed
    show ?thesis
    proof (cases "SharedKey obj \<noteq> [] \<and> SharedKey obj \<notin> set shared")
      case True
      let ?k = "SharedKey obj"
      note shared = shared_objects_of_sound [OF 2(4), of _ ?k]
      have "keyOf (Ref x) \<noteq> keyOf (Ref y)"
        if x: "x \<in> set (snapshot_loop s keys (?k # shared))" and y: "y \<in> set (shared_objects_of s ?k)" for x y
      proof
        assume "keyOf (Ref x) = keyOf (Ref y)"
        then have "Some x = Some y" using stored [OF x] shared(1) [OF y] by (simp only:)
        then have "x = y" by (rule option.inject [THEN iffD1])
        then have "\<not> (\<exists>k \<in> set keys. mget (objects s) k = Some x)"
          using shared(2) [OF y] 2(6) by auto
        then obtain k' where "x \<in> set (shared_objects_of s k')" "k' \<noteq> ?k"
          using x unfolding snapshot_loop_mem by auto
        from shared_objects_of_sound(3) [OF 2(4) this(1)] this(2) show False using shared(3) [OF y] \<open>x = y\<close> by simp
      qed
      moreover have "keyOf (Ref y) \<noteq> key" if "y \<in> set (shared_objects_of s ?k)" for y
        using shared [OF that] Some key(2) by auto
      moreover have "snapshot_loop s (key # keys) shared =
          obj # shared_objects_of s ?k @ snapshot_loop s keys (?k # shared)" using Some True by auto
      moreover have "distinct (map (\<lambda>obj. keyOf (Ref obj)) (snapshot_loop s keys (?k # shared)))"
        using 2(2) [OF Some True 2(4)] 2(5,6) by simp
      ultimately show ?thesis
        using key(1) fresh shared_objects_of_distinct [OF 2(4), of ?k] by (force simp: image_iff)
    next
      case False
      then have "snapshot_loop s (key # keys) shared = obj # snapshot_loop s keys shared" using Some by auto
      moreover have "distinct (map (\<lambda>obj. keyOf (Ref obj)) (snapshot_loop s keys shared))"
        using 2(3) [OF Some False 2(4)] 2(5,6) by simp
      ultimately show ?thesis using key(1) fresh by (force simp: image_iff)
    qed
  qed
qed simp

section \<open>Which views the replacement of a source can change\<close>

text \<open>
  An object that replaces a stored shared resource stays one under the same
  shared key.
\<close>

definition keeps_shared_key :: "'mf Store \<Rightarrow> 'mf Object \<Rightarrow> bool" where
  "keeps_shared_key s obj \<longleftrightarrow>
     (case mget (objects s) (keyOf (Ref obj)) of None \<Rightarrow> True
      | Some p \<Rightarrow> \<not> sharedResource p \<or> sharedResource obj \<and> SharedKey obj = SharedKey p)"

lemma keeps_shared_key_source [simp]: "keeps_shared_key s (obj\<lparr>obj_Source := source\<rparr>) = keeps_shared_key s obj"
  by (simp add: keeps_shared_key_def sharedResource_def split: option.split)

lemma upsert_unaffected:
  "objects_ok s \<Longrightarrow> env \<noteq> uuid_Nil \<Longrightarrow> env \<notin> set (upsert_affects obj s) \<Longrightarrow> keeps_shared_key s obj \<Longrightarrow>
   visible env (upserted obj s) = visible env s"
  by (rule upsert_unaffected_view) (auto simp: keeps_shared_key_def split: option.splits)

lemma replace_upserts_unaffected:
  assumes "objects_ok s" and "env \<noteq> uuid_Nil" and "distinct (incoming_keys objs)"
    and "list_all (keeps_shared_key s) objs"
    and "replace_upserts source objs (a, r, s) = (a', r', t)"
  shows "set a \<subseteq> set a' \<and> set r \<subseteq> set r' \<and> (env \<notin> set a' \<and> env \<notin> set r' \<longrightarrow> visible env t = visible env s)"
  using assms(1,3-)
proof (induction objs arbitrary: a r s)
  case (Cons x objs)
  let ?x = "x\<lparr>obj_Source := source\<rparr>"
  let ?es = "upsert_affects ?x s" and ?s = "upserted ?x s"
  define a1 r1 where "a1 = (if upsert_change ?x s = Changed then a @ ?es else a)"
    and "r1 = (if upsert_change ?x s = UsageOnly then r @ ?es else r)"
  have rest: "replace_upserts source objs (a1, r1, ?s) = (a', r', t)"
    using Cons.prems(4) by (cases "upsert_change ?x s") (simp_all add: upsertLocked_eq a1_def r1_def)
  have "list_all (keeps_shared_key ?s) objs"
  proof (rule list_all_iff [THEN iffD2], rule ballI)
    fix y assume y: "y \<in> set objs"
    have "keyOf (Ref y) \<noteq> keyOf (Ref ?x)"
    proof
      assume "keyOf (Ref y) = keyOf (Ref ?x)"
      then have "keyOf (Ref x) = keyOf (Ref y)" by simp
      from rev_image_eqI [where f = "\<lambda>obj. keyOf (Ref obj)", OF y this] show False using Cons.prems(2) by (simp add: incoming_keys_def)
    qed
    moreover have "keeps_shared_key s y" using Cons.prems(3) y by (simp add: list_all_iff)
    ultimately show "keeps_shared_key ?s y" by (simp add: keeps_shared_key_def upserted_other)
  qed
  moreover have "distinct (incoming_keys objs)" using Cons.prems(2) by (simp add: incoming_keys_def)
  ultimately have IH: "set a1 \<subseteq> set a' \<and> set r1 \<subseteq> set r' \<and>
      (env \<notin> set a' \<and> env \<notin> set r' \<longrightarrow> visible env t = visible env ?s)"
    using Cons.IH [OF upserted_ok [OF Cons.prems(1)] _ _ rest] by blast
  have "visible env ?s = visible env s" if "env \<notin> set a1" "env \<notin> set r1"
  proof (rule upsert_unaffected [OF Cons.prems(1) assms(2)])
    show "env \<notin> set ?es"
      using that upserted_unchanged [of ?x s] by (cases "upsert_change ?x s") (auto simp: a1_def r1_def)
  qed (use Cons.prems(3) in simp)
  moreover have "set a \<subseteq> set a1" "set r \<subseteq> set r1" by (auto simp: a1_def r1_def)
  ultimately show ?case using IH by blast
qed simp

lemma replace_removals_unaffected:
  assumes "objects_ok s" and "env \<noteq> uuid_Nil" and "replace_removals incoming keys (a, s) = (a', t)"
  shows "set a \<subseteq> set a' \<and> (env \<notin> set a' \<longrightarrow> visible env t = visible env s)"
  using assms(1,3)
proof (induction keys arbitrary: a s)
  case (Cons key keys)
  show ?case
  proof (cases "key \<in> set incoming")
    case False
    then have "replace_removals incoming keys (a @ remove_affects key s, removed key s) = (a', t)"
      using Cons.prems(2) by (simp add: removeLocked_eq)
    from Cons.IH [OF removed_ok [OF Cons.prems(1)] this] show ?thesis
      using remove_unaffected_view [OF Cons.prems(1) assms(2), of key] by auto
  qed (use Cons in simp)
qed simp

lemma ReplaceSource_unaffected:
  assumes "objects_ok s" and "env \<noteq> uuid_Nil" and "distinct (incoming_keys objs)"
    and "list_all (keeps_shared_key s) objs"
  shows "\<exists>es t. snd (ReplaceSource source objs s) = invalidate_each es t \<and> broadcast t = broadcast s \<and>
    (env \<in> set es \<or> visible env t = visible env s)"
proof -
  obtain a r s1 where u: "replace_upserts source objs ([], [], s) = (a, r, s1)" by (metis prod_cases3)
  then have s1: "s1 = upserted_all source objs s" using replace_upserts_store [of source objs "[]" "[]" s] by simp
  let ?keys = "mkeys (mget_or [] (bySource s1) source)"
  obtain b t where d: "replace_removals (incoming_keys objs) ?keys (a, s1) = (b, t)" by fastforce
  then have "t = replaced source objs s"
    using replace_removals_store [of "incoming_keys objs" ?keys a s1] s1 by (simp add: replaced_def Let_def)
  then have "broadcast t = broadcast s" using replaced_same_rest [of s source objs] by (simp add: same_rest_def)
  moreover have "snd (ReplaceSource source objs s) = invalidate_each (distinct_ids (r @ b)) t"
    using u d by (simp add: ReplaceSource_def)
  moreover have "env \<in> set (distinct_ids (r @ b)) \<or> visible env t = visible env s"
    using replace_upserts_unaffected [OF assms(1-4) u] assms(2)
      replace_removals_unaffected [OF upserted_all_ok [OF assms(1)] assms(2), of "incoming_keys objs" ?keys a source objs b t]
      d s1 by (auto simp: distinct_ids_props)
  ultimately show ?thesis by blast
qed

end
