(* ===== verification/Observe_Sources.thy ===== *)
theory Observe_Sources
  imports Observe_Store
begin

text \<open>
  The freshness of observation sources (\<^verbatim>\<open>internal/observe/machine.go\<close>) and the
  poll loop of a provider source (\<^verbatim>\<open>internal/observe/pollsource.go\<close>), and the
  store as a whole: its step relation, the invariant every reachable store
  keeps, and the properties of its operations on reachable stores.

  Logging is left out. A poll cycle reads the clock several times; the
  instants are arguments. The probe itself is the provider's; its result,
  an error or the provider's object set, is an argument.
\<close>

section \<open>Freshness\<close>

definition Freshness :: "string Machine" where
  "Freshness = \<lparr>
     States = [SourceUnknown, SourceFresh, SourceStale],
     Transitions = [
       (SourceUnknown, [SourceFresh]),
       (SourceFresh, [SourceStale, SourceUnknown]),
       (SourceStale, [SourceFresh, SourceUnknown])]\<rparr>"

definition transition :: "string \<Rightarrow> sourceRecord \<Rightarrow> bool \<times> sourceRecord" where
  "transition target r =
     (if state r = target then (False, r)
      else if \<not> Can Freshness (state r) target then (False, r)
      else (True, r\<lparr>state := target\<rparr>))"

definition RegisterSource :: "string \<Rightarrow> 'mf Store \<Rightarrow> 'mf Store" where
  "RegisterSource name s =
     (case mget (sources s) name of
        None \<Rightarrow> s\<lparr>sources := mput name new_source (sources s)\<rparr>
      | Some _ \<Rightarrow> s)"

definition sourceLocked :: "string \<Rightarrow> 'mf Store \<Rightarrow> sourceRecord \<times> 'mf Store" where
  "sourceLocked name s =
     (case mget (sources s) name of
        None \<Rightarrow> (new_source, s\<lparr>sources := mput name new_source (sources s)\<rparr>)
      | Some r \<Rightarrow> (r, s))"

definition SourceReady :: "string \<Rightarrow> 'mf Store \<Rightarrow> bool" where
  "SourceReady source s = (case mget (sources s) source of None \<Rightarrow> False | Some r \<Rightarrow> ready r)"

text \<open>\<^verbatim>\<open>s.sources[SourceKubernetes]\<close> is dereferenced without a check: \<^term>\<open>None\<close> is the panic.\<close>

definition Ready_store :: "'mf Store \<Rightarrow> bool option" where
  "Ready_store s = map_option ready (mget (sources s) SourceKubernetes)"

definition Source_status :: "'mf Store \<Rightarrow> SourceStatus option" where
  "Source_status s = map_option source_status (mget (sources s) SourceKubernetes)"

definition SourceNamed_store :: "string \<Rightarrow> 'mf Store \<Rightarrow> SourceStatus option" where
  "SourceNamed_store name s = map_option source_status (mget (sources s) name)"

text \<open>The record behind the pointer, written back under its name.\<close>

definition put_source :: "string \<Rightarrow> sourceRecord \<Rightarrow> 'mf Store \<Rightarrow> 'mf Store" where
  "put_source name r s = s\<lparr>sources := mput name r (sources s)\<rparr>"

definition MarkReady :: "gotime \<Rightarrow> string \<Rightarrow> 'mf Store \<Rightarrow> 'mf Store" where
  "MarkReady now source s =
     (case sourceLocked source s of (r, s) \<Rightarrow>
      case transition SourceFresh (r\<lparr>ready := True\<rparr>) of (changed, r) \<Rightarrow>
        let s = put_source source (r\<lparr>lastSync := now, staleSince := 0\<rparr>) s
        in if changed then invalidateAll s else s)"

definition MarkUnready :: "string \<Rightarrow> 'mf Store \<Rightarrow> 'mf Store" where
  "MarkUnready source s =
     (case sourceLocked source s of (r, s) \<Rightarrow>
      case transition SourceUnknown (r\<lparr>ready := False\<rparr>) of (changed, r) \<Rightarrow>
        let s = put_source source r s
        in if changed then invalidateAll s else s)"

definition MarkContact :: "gotime \<Rightarrow> string \<Rightarrow> 'mf Store \<Rightarrow> bool \<times> 'mf Store" where
  "MarkContact now source s =
     (case sourceLocked source s of (r, s) \<Rightarrow>
        let r = r\<lparr>lastSync := now, failedAt := 0\<rparr>
        in case (if state r = SourceStale
                 then (case transition SourceFresh r of (changed, r) \<Rightarrow> (changed, r\<lparr>staleSince := 0\<rparr>))
                 else (False, r)) of (changed, r) \<Rightarrow>
             let s = put_source source r s
             in (changed, if changed then invalidateAll s else s))"

definition MarkFailure :: "gotime \<Rightarrow> string \<Rightarrow> 'mf Store \<Rightarrow> 'mf Store" where
  "MarkFailure now source s =
     (case sourceLocked source s of (r, s) \<Rightarrow>
        put_source source (if is_zero (failedAt r) then r\<lparr>failedAt := now\<rparr> else r) s)"

definition overdue :: "gotime \<Rightarrow> duration \<Rightarrow> sourceRecord \<Rightarrow> bool" where
  "overdue now threshold r \<longleftrightarrow>
     state r = SourceFresh \<and> \<not> is_zero (failedAt r) \<and> time_sub now (failedAt r) \<ge> threshold"

definition EvaluateFreshness :: "gotime \<Rightarrow> string \<Rightarrow> duration \<Rightarrow> 'mf Store \<Rightarrow> 'mf Store" where
  "EvaluateFreshness now source threshold s =
     (case sourceLocked source s of (r, s) \<Rightarrow>
      case (if overdue now threshold r
            then (case transition SourceStale r of (changed, r) \<Rightarrow>
                    (changed, if changed then r\<lparr>staleSince := failedAt r\<rparr> else r))
            else (False, r)) of (changed, r) \<Rightarrow>
        let s = put_source source r s
        in if changed then invalidateAll s else s)"

section \<open>Poll sources\<close>

record PollOptions =
  opt_Source :: string
  Interval :: duration
  StaleThreshold :: duration
  Timeout :: duration
  Enqueues :: bool

definition defaultPollInterval :: duration where "defaultPollInterval = 15 * second"
definition defaultPollStale :: duration where "defaultPollStale = 45 * second"
definition defaultProbeTimeout :: duration where "defaultProbeTimeout = 10 * second"

definition failureLogEvery :: duration where "failureLogEvery = minute_d"

record PollSource =
  opts :: PollOptions
  failing :: bool
  lastLogged :: gotime

definition NewPollSource :: "PollOptions \<Rightarrow> PollSource" where
  "NewPollSource o' = \<lparr>opts = o'
     \<lparr>Interval := (if Interval o' \<le> 0 then defaultPollInterval else Interval o'),
      StaleThreshold := (if StaleThreshold o' \<le> 0 then defaultPollStale else StaleThreshold o'),
      Timeout := (if Timeout o' \<le> 0 then defaultProbeTimeout else Timeout o')\<rparr>,
     failing = False, lastLogged = 0\<rparr>"

text \<open>
  One cycle: the probe's answer, the instants of the log decision, of the
  mark and of the freshness evaluation. The result is the source, the store
  and the environments enqueued.
\<close>

definition poll_failure :: "gotime \<Rightarrow> gotime \<Rightarrow> gotime \<Rightarrow> PollSource \<Rightarrow> 'mf Store \<Rightarrow> PollSource \<times> 'mf Store" where
  "poll_failure logged marked evaluated p s =
     (let p = (if \<not> failing p \<or> time_sub logged (lastLogged p) \<ge> failureLogEvery
               then p\<lparr>lastLogged := logged\<rparr> else p);
          p = p\<lparr>failing := True\<rparr>;
          s = MarkFailure marked (opt_Source (opts p)) s
      in (p, EvaluateFreshness evaluated (opt_Source (opts p)) (StaleThreshold (opts p)) s))"

definition poll_success :: "'mf Object list \<Rightarrow> gotime \<Rightarrow> gotime \<Rightarrow> PollSource \<Rightarrow> 'mf Store
    \<Rightarrow> PollSource \<times> 'mf Store \<times> uuid list" where
  "poll_success objs marked evaluated p s =
     (let src = opt_Source (opts p);
          p = p\<lparr>failing := False\<rparr>
      in case (if \<not> SourceReady src s then (False, MarkReady marked src s) else MarkContact marked src s) of
           (recovered, s) \<Rightarrow>
         case ReplaceSource src objs s of (affected, s) \<Rightarrow>
           let affected = (if recovered then environments s else affected)
           in (p, EvaluateFreshness evaluated src (StaleThreshold (opts p)) s,
               if Enqueues (opts p) then affected else []))"

definition pollOnce :: "'mf Object list option \<Rightarrow> gotime \<Rightarrow> gotime \<Rightarrow> gotime \<Rightarrow> PollSource \<Rightarrow> 'mf Store
    \<Rightarrow> PollSource \<times> 'mf Store \<times> uuid list" where
  "pollOnce answer logged marked evaluated p s =
     (case answer of
        None \<Rightarrow> (case poll_failure logged marked evaluated p s of (p, s) \<Rightarrow> (p, s, []))
      | Some objs \<Rightarrow> poll_success objs marked evaluated p s)"

section \<open>The freshness of one source\<close>

text \<open>Each operation on a source, as a function of its record alone.\<close>

abbreviation record_of :: "string \<Rightarrow> 'mf Store \<Rightarrow> sourceRecord" where
  "record_of source s \<equiv> mget_or new_source (sources s) source"

definition ready_record :: "gotime \<Rightarrow> sourceRecord \<Rightarrow> sourceRecord" where
  "ready_record now r = (snd (transition SourceFresh (r\<lparr>ready := True\<rparr>)))\<lparr>lastSync := now, staleSince := 0\<rparr>"

definition unready_record :: "sourceRecord \<Rightarrow> sourceRecord" where
  "unready_record r = snd (transition SourceUnknown (r\<lparr>ready := False\<rparr>))"

definition contact_record :: "gotime \<Rightarrow> sourceRecord \<Rightarrow> sourceRecord" where
  "contact_record now r =
     (let r = r\<lparr>lastSync := now, failedAt := 0\<rparr>
      in if state r = SourceStale then r\<lparr>state := SourceFresh, staleSince := 0\<rparr> else r)"

definition failure_record :: "gotime \<Rightarrow> sourceRecord \<Rightarrow> sourceRecord" where
  "failure_record now r = (if failedAt r = 0 then r\<lparr>failedAt := now\<rparr> else r)"

definition evaluated_record :: "gotime \<Rightarrow> duration \<Rightarrow> sourceRecord \<Rightarrow> sourceRecord" where
  "evaluated_record now threshold r =
     (if overdue now threshold r then r\<lparr>state := SourceStale, staleSince := failedAt r\<rparr> else r)"

lemma sourceLocked_eq: "fst (sourceLocked source s) = record_of source s"
  "mget (sources (snd (sourceLocked source s))) name =
     (if name = source then Some (record_of source s) else mget (sources s) name)"
  by (auto simp: sourceLocked_def mget_or_def split: option.split)

definition only_sources :: "'mf Store \<Rightarrow> 'mf Store \<Rightarrow> bool" where
  "only_sources s s' \<longleftrightarrow> objects s' = objects s \<and> byEnvironment s' = byEnvironment s
     \<and> podsByNode s' = podsByNode s \<and> sharedObjects s' = sharedObjects s \<and> sharedRefs s' = sharedRefs s
     \<and> bySource s' = bySource s \<and> nodeArch s' = nodeArch s \<and> nodeCapabilities s' = nodeCapabilities s
     \<and> nodeRecords s' = nodeRecords s \<and> events s' = events s"

text \<open>An operation on one source writes its record and, when the state moved, tells every environment.\<close>

definition source_write :: "string \<Rightarrow> sourceRecord \<Rightarrow> bool \<Rightarrow> 'mf Store \<Rightarrow> 'mf Store \<Rightarrow> bool" where
  "source_write source r changed s s' \<longleftrightarrow>
     (\<forall>name. mget (sources s') name = (if name = source then Some r else mget (sources s) name))
   \<and> only_sources s s' \<and> (gomap_ok (sources s) \<longrightarrow> gomap_ok (sources s'))
   \<and> broadcast s' = (if changed then broadcast (invalidate_each (environments s) s) else broadcast s)"

lemma broadcast_invalidate_each:
  "broadcast s = broadcast t \<Longrightarrow> broadcast (invalidate_each es s) = broadcast (invalidate_each es t)"
  unfolding invalidate_each_def
proof (induction es arbitrary: s t)
  case (Cons e es)
  have "broadcast (invalidate s e) = broadcast (invalidate t e)" using Cons.prems by (simp add: invalidate_def)
  from Cons.IH [OF this] show ?case by simp
qed simp

lemma source_writeI:
  assumes "sourceLocked source s = (r0, s0)"
  shows "source_write source r changed s
    (if changed then invalidateAll (put_source source r s0) else put_source source r s0)"
proof -
  have s0: "s0 = s \<or> s0 = s\<lparr>sources := mput source new_source (sources s)\<rparr>"
    using assms by (auto simp: sourceLocked_def split: option.splits)
  let ?s1 = "put_source source r s0"
  have b: "broadcast ?s1 = broadcast s" and "byEnvironment ?s1 = byEnvironment s"
    using s0 by (auto simp: put_source_def)
  then have "environments ?s1 = environments s" by (simp add: environments_def)
  then show ?thesis
    using s0 b broadcast_invalidate_each [OF b, of "environments s"]
    by (auto simp: source_write_def put_source_def only_sources_def invalidateAll_def)
qed

lemma Can_Freshness:
  "Can Freshness SourceUnknown t \<longleftrightarrow> t = SourceFresh"
  "Can Freshness SourceFresh t \<longleftrightarrow> t = SourceStale \<or> t = SourceUnknown"
  "Can Freshness SourceStale t \<longleftrightarrow> t = SourceFresh \<or> t = SourceUnknown"
  by (auto simp: Can_def Freshness_def mget_or_def)

lemma MarkReady_write:
  "source_write source (ready_record now (record_of source s))
     (fst (transition SourceFresh (record_of source s\<lparr>ready := True\<rparr>))) s (MarkReady now source s)"
proof -
  obtain r0 s0 where l: "sourceLocked source s = (r0, s0)" by fastforce
  then have r0: "r0 = record_of source s" using sourceLocked_eq(1) [of source s] by simp
  have eq: "MarkReady now source s = (if fst (transition SourceFresh (r0\<lparr>ready := True\<rparr>)) then invalidateAll (put_source source (ready_record now r0) s0)
      else put_source source (ready_record now r0) s0)"
    by (simp add: MarkReady_def l ready_record_def Let_def split: prod.split)
  show ?thesis unfolding eq r0 [symmetric] by (rule source_writeI [OF l])
qed

lemma MarkUnready_write:
  "source_write source (unready_record (record_of source s))
     (fst (transition SourceUnknown (record_of source s\<lparr>ready := False\<rparr>))) s (MarkUnready source s)"
proof -
  obtain r0 s0 where l: "sourceLocked source s = (r0, s0)" by fastforce
  then have r0: "r0 = record_of source s" using sourceLocked_eq(1) [of source s] by simp
  have eq: "MarkUnready source s = (if fst (transition SourceUnknown (r0\<lparr>ready := False\<rparr>)) then invalidateAll (put_source source (unready_record r0) s0)
      else put_source source (unready_record r0) s0)"
    by (simp add: MarkUnready_def l unready_record_def Let_def split: prod.split)
  show ?thesis unfolding eq r0 [symmetric] by (rule source_writeI [OF l])
qed

lemma MarkContact_write:
  "source_write source (contact_record now (record_of source s)) (state (record_of source s) = SourceStale) s
     (snd (MarkContact now source s))"
  "fst (MarkContact now source s) \<longleftrightarrow> state (record_of source s) = SourceStale"
proof -
  obtain r0 s0 where l: "sourceLocked source s = (r0, s0)" by fastforce
  then have r0: "r0 = record_of source s" using sourceLocked_eq(1) [of source s] by simp
  have eq: "snd (MarkContact now source s) = (if state r0 = SourceStale
      then invalidateAll (put_source source (contact_record now r0) s0)
      else put_source source (contact_record now r0) s0)"
    by (simp add: MarkContact_def l contact_record_def transition_def Can_Freshness Let_def)
  show "source_write source (contact_record now (record_of source s)) (state (record_of source s) = SourceStale) s
     (snd (MarkContact now source s))"
    unfolding eq r0 [symmetric] by (rule source_writeI [OF l])
  show "fst (MarkContact now source s) \<longleftrightarrow> state (record_of source s) = SourceStale"
    by (simp add: MarkContact_def l r0 [symmetric] transition_def Can_Freshness Let_def)
qed

lemma MarkFailure_write:
  "source_write source (failure_record now (record_of source s)) False s (MarkFailure now source s)"
proof -
  obtain r0 s0 where l: "sourceLocked source s = (r0, s0)" by fastforce
  then have r0: "r0 = record_of source s" using sourceLocked_eq(1) [of source s] by simp
  show ?thesis
    using source_writeI [OF l, of "failure_record now r0" False]
    by (simp add: MarkFailure_def l r0 [symmetric] failure_record_def is_zero_def)
qed

lemma EvaluateFreshness_write:
  "source_write source (evaluated_record now threshold (record_of source s))
     (overdue now threshold (record_of source s)) s (EvaluateFreshness now source threshold s)"
proof -
  obtain r0 s0 where l: "sourceLocked source s = (r0, s0)" by fastforce
  then have r0: "r0 = record_of source s" using sourceLocked_eq(1) [of source s] by simp
  have "transition SourceStale r0 = (True, r0\<lparr>state := SourceStale\<rparr>)" if "overdue now threshold r0"
    using that by (simp add: overdue_def transition_def Can_Freshness)
  then have eq: "EvaluateFreshness now source threshold s = (if overdue now threshold r0 then invalidateAll (put_source source (evaluated_record now threshold r0) s0)
      else put_source source (evaluated_record now threshold r0) s0)"
    by (simp add: EvaluateFreshness_def l evaluated_record_def Let_def)
  show ?thesis unfolding eq r0 [symmetric] by (rule source_writeI [OF l])
qed

section \<open>The invariant of the store\<close>

definition source_ok :: "sourceRecord \<Rightarrow> bool" where
  "source_ok r \<longleftrightarrow> Valid Freshness (state r) \<and> (ready r \<longleftrightarrow> state r \<noteq> SourceUnknown)
     \<and> (state r = SourceStale \<longrightarrow> failedAt r \<noteq> 0 \<and> staleSince r = failedAt r)
     \<and> (state r = SourceFresh \<longrightarrow> staleSince r = 0)"

lemma Valid_Freshness: "Valid Freshness t \<longleftrightarrow> t = SourceUnknown \<or> t = SourceFresh \<or> t = SourceStale"
  by (simp add: Valid_def Freshness_def)

lemma source_ok_new: "source_ok new_source"
  by (simp add: source_ok_def new_source_def Valid_Freshness)

lemma ready_record_eq:
  assumes "source_ok r"
  shows "ready_record now r = r\<lparr>state := SourceFresh, ready := True, lastSync := now, staleSince := 0\<rparr>"
  using assms by (auto simp: source_ok_def Valid_Freshness ready_record_def transition_def Can_Freshness)

lemma unready_record_eq:
  assumes "source_ok r"
  shows "unready_record r = r\<lparr>state := SourceUnknown, ready := False\<rparr>"
  using assms by (auto simp: source_ok_def Valid_Freshness unready_record_def transition_def Can_Freshness)

lemma record_ops_ok:
  assumes "source_ok r"
  shows "source_ok (ready_record now r)" "source_ok (unready_record r)" "source_ok (contact_record now r)"
    "source_ok (failure_record now r)" "source_ok (evaluated_record now threshold r)"
  using assms
  by (auto simp: ready_record_eq unready_record_eq source_ok_def Valid_Freshness contact_record_def
      failure_record_def evaluated_record_def overdue_def is_zero_def Let_def)

definition sources_ok :: "'mf Store \<Rightarrow> bool" where
  "sources_ok s \<longleftrightarrow> gomap_ok (sources s) \<and> mget (sources s) SourceKubernetes \<noteq> None
     \<and> (\<forall>name r. mget (sources s) name = Some r \<longrightarrow> source_ok r)"

definition nodes_ok :: "'mf Store \<Rightarrow> bool" where
  "nodes_ok s \<longleftrightarrow> gomap_ok (nodeArch s) \<and> gomap_ok (nodeCapabilities s) \<and> gomap_ok (nodeRecords s)
     \<and> (\<forall>name r. mget (nodeRecords s) name = Some r \<longrightarrow> nr_Name r = name)"

definition store_ok :: "'mf Store \<Rightarrow> bool" where
  "store_ok s \<longleftrightarrow> objects_ok s \<and> nodes_ok s \<and> events_ok s \<and> sources_ok s \<and> broadcaster_ok (broadcast s)"

lemma record_of_ok: "sources_ok s \<Longrightarrow> source_ok (record_of name s)"
  by (cases "mget (sources s) name") (auto simp: sources_ok_def source_ok_new)

text \<open>The four kinds of write, each against the part of the invariant it concerns.\<close>

lemma store_ok_objects_write:
  assumes "store_ok s" and "objects_ok s'" and "same_rest s s'"
  shows "store_ok (invalidate_each es s')"
proof -
  have "broadcaster_ok (broadcast s')" using assms by (simp add: store_ok_def same_rest_def)
  then show ?thesis
    using assms broadcaster_ok_invalidate_each [of s' es]
    by (simp add: store_ok_def same_rest_def nodes_ok_def events_ok_def sources_ok_def)
qed

lemma store_ok_source_write:
  assumes "store_ok s" and "source_write name r changed s s'" and "source_ok r"
  shows "store_ok s'"
proof -
  note w = assms(2) [unfolded source_write_def only_sources_def]
  have "objects_ok s'"
    using assms(1) w by (simp add: store_ok_def objects_ok_def indexes_ok_def)
  moreover have "nodes_ok s'" "events_ok s'"
    using assms(1) w by (simp_all add: store_ok_def nodes_ok_def events_ok_def)
  moreover have "sources_ok s'" using assms(1,3) w by (auto simp: store_ok_def sources_ok_def)
  moreover have "broadcaster_ok (broadcast s')"
    using assms(1) w broadcaster_ok_invalidate_each by (auto simp: store_ok_def)
  ultimately show ?thesis by (simp add: store_ok_def)
qed

lemma Upsert_eq: "Upsert obj s = invalidate_each (upsert_affects obj s) (upserted obj s)"
  by (simp add: Upsert_def upsertLocked_eq)

lemma Remove_eq: "Remove ref s = invalidate_each (remove_affects (keyOf ref) s) (removed (keyOf ref) s)"
  by (simp add: Remove_def removeLocked_eq)

lemma Upsert_ok: "store_ok s \<Longrightarrow> store_ok (Upsert obj s)"
  unfolding Upsert_eq
  by (rule store_ok_objects_write) (auto simp: store_ok_def intro: upserted_ok upserted_same_rest)

lemma Remove_ok: "store_ok s \<Longrightarrow> store_ok (Remove ref s)"
  unfolding Remove_eq
  by (rule store_ok_objects_write) (auto simp: store_ok_def intro: removed_ok removed_same_rest)

lemma ReplaceSource_ok: "store_ok s \<Longrightarrow> store_ok (snd (ReplaceSource source objs s))"
proof -
  assume ok: "store_ok s"
  obtain es where "snd (ReplaceSource source objs s) = invalidate_each es (replaced source objs s)"
    using ReplaceSource_store by blast
  then show ?thesis
    using store_ok_objects_write [OF ok replaced_ok replaced_same_rest] ok by (simp add: store_ok_def)
qed

lemma source_ops_ok:
  assumes "store_ok s"
  shows "store_ok (MarkReady now source s)" "store_ok (MarkUnready source s)"
    "store_ok (snd (MarkContact now source s))" "store_ok (MarkFailure now source s)"
    "store_ok (EvaluateFreshness now source threshold s)" "store_ok (RegisterSource source s)"
proof -
  have r: "source_ok (record_of source s)" using assms by (simp add: store_ok_def record_of_ok)
  note upd = store_ok_source_write [OF assms]
  show "store_ok (MarkReady now source s)" by (rule upd [OF MarkReady_write record_ops_ok(1) [OF r]])
  show "store_ok (MarkUnready source s)" by (rule upd [OF MarkUnready_write record_ops_ok(2) [OF r]])
  show "store_ok (snd (MarkContact now source s))"
    by (rule upd [OF MarkContact_write(1) record_ops_ok(3) [OF r]])
  show "store_ok (MarkFailure now source s)" by (rule upd [OF MarkFailure_write record_ops_ok(4) [OF r]])
  show "store_ok (EvaluateFreshness now source threshold s)"
    by (rule upd [OF EvaluateFreshness_write record_ops_ok(5) [OF r]])
  show "store_ok (RegisterSource source s)"
  proof (cases "mget (sources s) source")
    case None
    have "source_write source new_source False s (s\<lparr>sources := mput source new_source (sources s)\<rparr>)"
      by (simp add: source_write_def only_sources_def)
    then show ?thesis
      using store_ok_source_write [OF assms _ source_ok_new] None by (simp add: RegisterSource_def)
  qed (use assms in \<open>simp add: RegisterSource_def\<close>)
qed

lemma store_ok_frames:
  "store_ok s \<Longrightarrow> nodes_ok (s\<lparr>nodeArch := a\<rparr>) \<Longrightarrow> store_ok (s\<lparr>nodeArch := a\<rparr>)"
  "store_ok s \<Longrightarrow> nodes_ok (s\<lparr>nodeCapabilities := c\<rparr>) \<Longrightarrow> store_ok (s\<lparr>nodeCapabilities := c\<rparr>)"
  "store_ok s \<Longrightarrow> nodes_ok (s\<lparr>nodeRecords := n\<rparr>) \<Longrightarrow> store_ok (s\<lparr>nodeRecords := n\<rparr>)"
  "store_ok s \<Longrightarrow> events_ok (s\<lparr>events := e\<rparr>) \<Longrightarrow> store_ok (s\<lparr>events := e\<rparr>)"
  "store_ok s \<Longrightarrow> broadcaster_ok b \<Longrightarrow> store_ok (s\<lparr>broadcast := b\<rparr>)"
  by (simp_all add: store_ok_def objects_ok_def indexes_ok_def nodes_ok_def events_ok_def sources_ok_def)

lemma node_ops_ok:
  assumes "store_ok s"
  shows "store_ok (SetNodeArch name arch s)" "store_ok (SetNodeCapabilities name cs s)"
    "store_ok (RemoveNode name s)" "store_ok (snd (SetNodeRecord rec s))"
proof -
  have n: "nodes_ok s" using assms by (simp add: store_ok_def)
  show "store_ok (SetNodeArch name arch s)"
    using n by (auto simp: SetNodeArch_def nodes_ok_def intro!: store_ok_frames(1) [OF assms])
  show "store_ok (SetNodeCapabilities name cs s)"
    using n by (auto simp: SetNodeCapabilities_def nodes_ok_def intro!: store_ok_frames(2) [OF assms])
  have "store_ok (s\<lparr>nodeArch := mdel name (nodeArch s)\<rparr>)"
    by (rule store_ok_frames(1) [OF assms]) (use n in \<open>auto simp: nodes_ok_def\<close>)
  then have "store_ok (s\<lparr>nodeArch := mdel name (nodeArch s), nodeCapabilities := mdel name (nodeCapabilities s)\<rparr>)"
    by (rule store_ok_frames(2)) (use n in \<open>auto simp: nodes_ok_def\<close>)
  then have "store_ok (s\<lparr>nodeArch := mdel name (nodeArch s), nodeCapabilities := mdel name (nodeCapabilities s),
      nodeRecords := mdel name (nodeRecords s)\<rparr>)"
    by (rule store_ok_frames(3)) (use n in \<open>auto simp: nodes_ok_def split: if_splits\<close>)
  then show "store_ok (RemoveNode name s)" by (simp add: RemoveNode_def)
  have "snd (SetNodeRecord rec s) = s\<lparr>nodeRecords := mput (nr_Name rec) rec (nodeRecords s)\<rparr>"
    by (simp add: SetNodeRecord_def Let_def split: option.split)
  moreover have "store_ok (s\<lparr>nodeRecords := mput (nr_Name rec) rec (nodeRecords s)\<rparr>)"
    by (rule store_ok_frames(3) [OF assms]) (use n in \<open>auto simp: nodes_ok_def\<close>)
  ultimately show "store_ok (snd (SetNodeRecord rec s))" by simp
qed

lemma RecordEvent_store_ok:
  assumes "store_ok s"
  shows "store_ok (RecordEvent now ref r s)"
proof -
  have "events_ok (RecordEvent now ref r s)" using assms by (simp add: store_ok_def RecordEvent_ok)
  then show ?thesis unfolding RecordEvent_def Let_def by (rule store_ok_frames(4) [OF assms])
qed

section \<open>The store as a transition system\<close>

inductive observe_step :: "'mf Store \<Rightarrow> 'mf Store \<Rightarrow> bool" where
  upsert: "observe_step s (Upsert obj s)"
| remove: "observe_step s (Remove ref s)"
| replace: "observe_step s (snd (ReplaceSource source objs s))"
| node_arch: "observe_step s (SetNodeArch name arch s)"
| node_capabilities: "observe_step s (SetNodeCapabilities name cs s)"
| node_record: "observe_step s (snd (SetNodeRecord rec s))"
| remove_node: "observe_step s (RemoveNode name s)"
| event: "observe_step s (RecordEvent now ref r s)"
| register: "observe_step s (RegisterSource source s)"
| mark_ready: "observe_step s (MarkReady now source s)"
| mark_unready: "observe_step s (MarkUnready source s)"
| mark_contact: "observe_step s (snd (MarkContact now source s))"
| mark_failure: "observe_step s (MarkFailure now source s)"
| evaluate: "observe_step s (EvaluateFreshness now source threshold s)"
| invalidation: "observe_step s (Invalidate env s)"
| subscription: "observe_step s (snd (store_Subscribe env s))"
| unsubscription: "observe_step s (s\<lparr>broadcast := cancel env ch (broadcast s)\<rparr>)"
| reception: "receive ch (broadcast s) = Some (i, b) \<Longrightarrow> observe_step s (s\<lparr>broadcast := b\<rparr>)"

definition new_store :: "'mf Store \<Rightarrow> bool" where
  "new_store s \<longleftrightarrow> s = NewStore"

lemma NewStore_ok: "store_ok NewStore"
proof -
  have "broadcaster_ok (New 64 :: Invalidation Broadcaster)"
    by (rule broadcaster.inv_init) (auto simp: new_broadcaster_def)
  moreover have "indexes_ok Map.empty (NewStore :: 'a Store)"
    using source_index.idx_empty owner_index.idx_empty pod_index.idx_empty ref_index.idx_empty slot_index.idx_empty
    by (simp add: indexes_ok_def NewStore_def)
  ultimately show ?thesis
    by (simp add: store_ok_def objects_ok_def nodes_ok_def events_ok_def sources_ok_def NewStore_def
        source_ok_new)
qed

lemma broadcast_ops_ok:
  assumes "store_ok s"
  shows "store_ok (Invalidate env s)" "store_ok (snd (store_Subscribe env s))"
    "store_ok (s\<lparr>broadcast := cancel env ch (broadcast s)\<rparr>)"
    "receive ch (broadcast s) = Some (i, b) \<Longrightarrow> store_ok (s\<lparr>broadcast := b\<rparr>)"
proof -
  have b: "broadcaster_ok (broadcast s)" using assms by (simp add: store_ok_def)
  note f = store_ok_frames(5) [OF assms]
  show "store_ok (Invalidate env s)"
    using assms f Publish_ok(1) [OF b] by (simp add: Invalidate_def invalidate_def)
  obtain c b' where "Subscribe env (broadcast s) = (c, b')" by fastforce
  then show "store_ok (snd (store_Subscribe env s))"
    using f Subscribe_ok(1) [OF b] by (simp add: store_Subscribe_def)
  show "store_ok (s\<lparr>broadcast := cancel env ch (broadcast s)\<rparr>)" by (rule f [OF cancel_ok [OF b]])
  show "store_ok (s\<lparr>broadcast := b\<rparr>)" if "receive ch (broadcast s) = Some (i, b)"
    by (rule f [OF receive_ok [OF \<open>broadcaster_ok (broadcast s)\<close> that]])
qed

interpretation store: transition_system new_store observe_step store_ok
proof
  show "store_ok s" if "new_store s" for s :: "'a Store" using that NewStore_ok by (simp add: new_store_def)
  show "store_ok s'" if "store_ok s" "observe_step s s'" for s s' :: "'a Store"
    using that(2,1)
    by cases (auto intro: Upsert_ok Remove_ok ReplaceSource_ok source_ops_ok node_ops_ok RecordEvent_store_ok
        broadcast_ops_ok)
qed

section \<open>Stores whose publishers name their resources\<close>

text \<open>
  The steps of the store in which every published object follows the naming
  of shared resources. Steps that touch neither the objects nor the slots
  are free.
\<close>

inductive placed_step :: "(string \<Rightarrow> string \<Rightarrow> objectKey) \<Rightarrow> 'mf Store \<Rightarrow> 'mf Store \<Rightarrow> bool" for place where
  placed_upsert: "well_placed place obj \<Longrightarrow> placed_step place s (Upsert obj s)"
| placed_remove: "placed_step place s (Remove ref s)"
| placed_replace: "list_all (well_placed place) objs \<Longrightarrow> placed_step place s (snd (ReplaceSource source objs s))"
| placed_other: "observe_step s t \<Longrightarrow> objects t = objects s \<Longrightarrow> sharedObjects t = sharedObjects s \<Longrightarrow>
    placed_step place s t"

lemma placed_step_observe: "placed_step place s t \<Longrightarrow> observe_step s t"
  by (induction rule: placed_step.induct) (auto intro: observe_step.intros)

lemma placed_steps_observe: "(placed_step place)\<^sup>*\<^sup>* s t \<Longrightarrow> observe_step\<^sup>*\<^sup>* s t"
  by (induction rule: rtranclp_induct) (auto intro: rtranclp.rtrancl_into_rtrancl placed_step_observe)

lemma placed_step_ok:
  assumes "placed_step place s t" and "store_ok s \<and> placed_ok place s"
  shows "store_ok t \<and> placed_ok place t"
proof -
  have t: "store_ok t" using placed_step_observe [OF assms(1)] assms(2) store.inv_step by blast
  have p: "placed_ok place s" using assms(2) by simp
  from assms(1) have "placed_ok place t"
  proof cases
    case (placed_replace objs source)
    then show ?thesis using ReplaceSource_store [of source objs s] replaced_placed [OF p] by auto
  next
    case placed_other
    then show ?thesis using p t by (auto simp: placed_ok_def slots_full_def store_ok_def)
  qed (use p in \<open>simp_all add: Upsert_eq Remove_eq upserted_placed removed_placed\<close>)
  with t show ?thesis by blast
qed

interpretation placed: transition_system new_store "placed_step place"
  "\<lambda>s. store_ok s \<and> placed_ok place s" for place :: "string \<Rightarrow> string \<Rightarrow> objectKey"
proof
  show "store_ok s \<and> placed_ok place s" if "new_store s" for s :: "'a Store"
  proof -
    have "store_ok s" using that by (rule store.inv_init)
    then show ?thesis
      using that by (simp add: placed_ok_def slots_full_def store_ok_def new_store_def NewStore_def)
  qed
qed (rule placed_step_ok)

text \<open>What a search of the stored objects finds: a shared resource by key and kind, and an environment's view.\<close>

definition shared_resources :: "string \<Rightarrow> 'mf Store \<Rightarrow> 'mf Object set" where
  "shared_resources k s = {obj. \<exists>key. mget (objects s) key = Some obj \<and> sharedResource obj \<and> SharedKey obj = k}"

definition shown :: "uuid \<Rightarrow> 'mf Store \<Rightarrow> 'mf Object set" where
  "shown env s = {obj. \<exists>key. mget (objects s) key = Some obj \<and> (Environment obj = env \<or>
     sharedResource obj \<and> (\<exists>key' own. mget (objects s) key' = Some own \<and> Environment own = env \<and>
       SharedKey own = SharedKey obj))}"

lemma registered_placed: "placed_ok place s \<Longrightarrow> registered k s = shared_resources k s"
proof -
  assume p: "placed_ok place s"
  then have ok: "objects_ok s" by (simp add: placed_ok_def)
  show ?thesis
  proof (intro equalityI subsetI)
    fix obj assume "obj \<in> registered k s"
    then show "obj \<in> shared_resources k s"
      using registered_sound [OF ok] by (auto simp: registered_def shared_resources_def)
  next
    fix obj assume "obj \<in> shared_resources k s"
    then show "obj \<in> registered k s"
      using p by (auto simp: registered_def shared_resources_def placed_ok_def slots_full_def)
  qed
qed

lemma sharedResource_key: "sharedResource obj \<Longrightarrow> SharedKey obj \<noteq> []"
  by (simp add: sharedResource_def split: if_splits)

lemma visible_shown:
  assumes "objects_ok s"
  shows "owned env s \<subseteq> visible env s" "visible env s \<subseteq> shown env s"
    "placed_ok place s \<Longrightarrow> visible env s = shown env s"
proof -
  show "owned env s \<subseteq> visible env s" by (auto simp: visible_def)
  show sub: "visible env s \<subseteq> shown env s"
  proof
    fix x assume "x \<in> visible env s"
    then consider "x \<in> owned env s" | own where "own \<in> owned env s" "x \<in> registered (SharedKey own) s"
      by (auto simp: visible_def split: if_splits)
    then show "x \<in> shown env s"
    proof cases
      case 2
      then show ?thesis using registered_sound [OF assms 2(2)] by (auto simp: shown_def owned_def registered_def)
    qed (auto simp: shown_def owned_def)
  qed
  show "visible env s = shown env s" if p: "placed_ok place s"
  proof (rule equalityI [OF sub], rule subsetI)
    fix x assume "x \<in> shown env s"
    then consider "x \<in> owned env s"
      | own where "own \<in> owned env s" "SharedKey own = SharedKey x" "x \<in> shared_resources (SharedKey x) s"
      unfolding shown_def owned_def shared_resources_def by blast
    then show "x \<in> visible env s"
    proof cases
      case 2
      then have "SharedKey own \<noteq> []" using sharedResource_key by (auto simp: shared_resources_def)
      then show ?thesis using 2 unfolding visible_def registered_placed [OF p] by (intro UnI2 UN_I [of own]) simp_all
    qed (simp add: visible_def)
  qed
qed

lemma SharedObject_exact:
  assumes "placed_ok place s"
  shows "SharedObject k kind s = Some obj \<longleftrightarrow>
    (\<exists>key. mget (objects s) key = Some obj \<and> sharedResource obj \<and> SharedKey obj = k \<and> Kind obj = kind)"
proof
  assume "SharedObject k kind s = Some obj"
  then show "\<exists>key. mget (objects s) key = Some obj \<and> sharedResource obj \<and> SharedKey obj = k \<and> Kind obj = kind"
    using assms unfolding placed_ok_def objects_ok_def indexes_ok_def slot_idx_def SharedObject_def
    by (fastforce split: option.splits)
qed (use assms in \<open>auto simp: SharedObject_def placed_ok_def slots_full_def\<close>)

lemma Snapshot_distinct:
  assumes "objects_ok s" and "env \<noteq> uuid_Nil"
  shows "distinct (map (\<lambda>obj. keyOf (Ref obj)) (snap_Objects (Snapshot env s)))"
proof -
  let ?keys = "mkeys (mget_or [] (byEnvironment s) env)"
  have m: "member_idx owner_of (mget (objects s)) (byEnvironment s)"
    using assms(1) by (simp add: objects_ok_def indexes_ok_def)
  have "\<forall>key \<in> set ?keys. \<forall>obj. mget (objects s) key = Some obj \<longrightarrow> Environment obj \<noteq> uuid_Nil"
    using member_index_keys [OF m, of _ env] assms(2) by (fastforce simp: owner_of_def simp del: set_map)
  moreover have "distinct ?keys" using m by (simp add: member_idx_def nested_inner_distinct)
  ultimately have "distinct (map (\<lambda>obj. keyOf (Ref obj)) (snapshot_loop s ?keys []))"
    using snapshot_loop_distinct [OF assms(1)] by blast
  moreover have "mset (map f (sort_by less xs)) = mset (map f xs)" for f less and xs :: "'a Object list"
    by simp
  ultimately show ?thesis by (metis Snapshot_def mset_eq_imp_distinct_iff Snapshot_r.select_convs(2))
qed

section \<open>Properties of reachable stores\<close>

text \<open>A small store the witnesses run: a claim of environment ''e'' on pool ''p'', and the pool's check.\<close>

definition wit_status :: DatabaseConnectionsStatus where
  "wit_status = \<lparr>con_State = ''available'', con_Reason = [], Since = 0, CheckedAt = 0, Used = 1, Limit = 9,
     con_Max = 10, Databases = None\<rparr>"

definition wit_claim :: "nat Object" where
  "wit_claim = (ClaimObject ''e'' ''databases.db'' ''c'' \<lparr>claim_Phase = ''bound'', Waiting = []\<rparr>)\<lparr>SharedKey := ''p''\<rparr>"

definition wit_pool :: "nat Object" where
  "wit_pool = DatabaseConnectionsObject ''p'' wit_status"

definition wit_store :: "nat Store" where
  "wit_store = Upsert wit_pool (Upsert wit_claim (snd (store_Subscribe ''e'' NewStore)))"

lemma wit_store_steps: "new_store (NewStore :: nat Store)" "observe_step\<^sup>*\<^sup>* NewStore wit_store"
proof -
  show "new_store (NewStore :: nat Store)" by (simp add: new_store_def)
  let ?s1 = "snd (store_Subscribe ''e'' NewStore) :: nat Store"
  have "observe_step NewStore ?s1" by (rule subscription)
  moreover have "observe_step ?s1 (Upsert wit_claim ?s1)" by (rule upsert)
  moreover have "observe_step (Upsert wit_claim ?s1) wit_store" unfolding wit_store_def by (rule upsert)
  ultimately show "observe_step\<^sup>*\<^sup>* NewStore wit_store"
    by (meson rtranclp.rtrancl_into_rtrancl rtranclp.rtrancl_refl)
qed

lemma pod_place_iff:
  "pod_place obj = Some (n, env) \<longleftrightarrow>
     Environment obj = env \<and> env \<noteq> uuid_Nil \<and> Kind obj = KindPod \<and> Node obj = n \<and> n \<noteq> []"
  by (auto simp: pod_place_def)

lemma shared_ref_iff:
  "shared_ref obj = Some (k, env) \<longleftrightarrow> Environment obj = env \<and> env \<noteq> uuid_Nil \<and> SharedKey obj = k \<and> k \<noteq> []"
  by (auto simp: shared_ref_def)

lemma queries_refine_objects_parts:
  assumes "new_store s0" and "observe_step\<^sup>*\<^sup>* s0 s"
  shows "set (EnvironmentsOnNode node s) = {env. \<exists>key obj. mget (objects s) key = Some obj
        \<and> Environment obj = env \<and> env \<noteq> uuid_Nil \<and> Kind obj = KindPod \<and> Node obj = node \<and> node \<noteq> []}"
    and "sorted (EnvironmentsOnNode node s) \<and> distinct (EnvironmentsOnNode node s)"
    and "set (EnvironmentsForSharedKey k s) = {env. \<exists>key obj. mget (objects s) key = Some obj
        \<and> Environment obj = env \<and> env \<noteq> uuid_Nil \<and> SharedKey obj = k \<and> k \<noteq> []}"
    and "source \<noteq> [] \<Longrightarrow> set (mkeys (mget_or [] (bySource s) source)) =
        {key. \<exists>obj. mget (objects s) key = Some obj \<and> obj_Source obj = source}"
    and "env \<noteq> uuid_Nil \<Longrightarrow> set (mkeys (mget_or [] (byEnvironment s) env)) =
        {key. \<exists>obj. mget (objects s) key = Some obj \<and> Environment obj = env}"
    and "SharedObject k kind s = Some obj \<Longrightarrow>
        (\<exists>key. mget (objects s) key = Some obj) \<and> sharedResource obj \<and> SharedKey obj = k \<and> Kind obj = kind"
proof -
  have ok: "objects_ok s" using store.inv_reachable [OF assms] by (simp add: store_ok_def)
  then have idx: "count_idx pod_place (mget (objects s)) (podsByNode s)"
    "member_idx owner_of (mget (objects s)) (byEnvironment s)" "slot_idx (mget (objects s)) (sharedObjects s)"
    by (simp_all add: objects_ok_def indexes_ok_def)
  show "set (EnvironmentsOnNode node s) = {env. \<exists>key obj. mget (objects s) key = Some obj
        \<and> Environment obj = env \<and> env \<noteq> uuid_Nil \<and> Kind obj = KindPod \<and> Node obj = node \<and> node \<noteq> []}"
    unfolding EnvironmentsOnNode_def set_sort_by set_eq_iff count_index_keys [OF idx(1)] pod_place_iff by simp
  have "nested_ok (podsByNode s)" using idx(1) by (simp add: count_idx_def)
  then show "sorted (EnvironmentsOnNode node s) \<and> distinct (EnvironmentsOnNode node s)"
    unfolding EnvironmentsOnNode_def by (simp add: sorted_sort_strings nested_inner_distinct)
  show "set (EnvironmentsForSharedKey k s) = {env. \<exists>key obj. mget (objects s) key = Some obj
        \<and> Environment obj = env \<and> env \<noteq> uuid_Nil \<and> SharedKey obj = k \<and> k \<noteq> []}"
    unfolding EnvironmentsForSharedKey_def set_eq_iff shared_key_environments [OF ok] shared_ref_iff by simp
  show "set (mkeys (mget_or [] (bySource s) source)) =
      {key. \<exists>obj. mget (objects s) key = Some obj \<and> obj_Source obj = source}" if "source \<noteq> []"
    using source_keys [OF ok that] by blast
  show "set (mkeys (mget_or [] (byEnvironment s) env)) =
      {key. \<exists>obj. mget (objects s) key = Some obj \<and> Environment obj = env}" if "env \<noteq> uuid_Nil"
    using that unfolding set_eq_iff member_index_keys [OF idx(2)] owner_of_def by auto
  show "(\<exists>key. mget (objects s) key = Some obj) \<and> sharedResource obj \<and> SharedKey obj = k \<and> Kind obj = kind"
    if "SharedObject k kind s = Some obj"
    using that idx(3) by (fastforce simp: SharedObject_def slot_idx_def split: option.splits)
qed

definition wit_place :: "string \<Rightarrow> string \<Rightarrow> objectKey" where
  "wit_place k kind = keyOf \<lparr>GVK = DatabaseConnectionsGVK, Namespace = [], ref_Name = k, UID = []\<rparr>"

lemma connections_well_placed: "well_placed wit_place (DatabaseConnectionsObject pool status)"
  by (simp add: well_placed_def wit_place_def DatabaseConnectionsObject_def)

lemma wit_store_placed: "(placed_step wit_place)\<^sup>*\<^sup>* NewStore wit_store"
proof -
  let ?s1 = "snd (store_Subscribe ''e'' NewStore) :: nat Store"
  have "placed_step wit_place NewStore ?s1"
    by (rule placed_other [OF subscription]) (simp_all add: store_Subscribe_def split: prod.split)
  moreover have "well_placed wit_place wit_claim" by code_simp
  then have "placed_step wit_place ?s1 (Upsert wit_claim ?s1)" by (rule placed_upsert)
  moreover have "placed_step wit_place (Upsert wit_claim ?s1) wit_store"
    unfolding wit_store_def wit_pool_def by (rule placed_upsert [OF connections_well_placed])
  ultimately show ?thesis by (meson rtranclp.rtrancl_into_rtrancl rtranclp.rtrancl_refl)
qed

text \<open>
  C30. The indexes refine the objects. In every reachable store each query served
  from an index answers as if it searched the objects themselves: the
  environments with a pod on a node, the environments that reference a
  shared key, the keys a source published, the keys an environment owns;
  the list of environments on a node is sorted and holds no duplicate. A
  shared object that is returned is a stored resource of that kind under
  that key. Where the publishers name a shared resource after its key and
  kind, the lookup is exact: it returns an object if and only if that object
  is stored and is the resource of that kind under that key.
\<close>

theorem queries_refine_objects:
  assumes "new_store s0" and "observe_step\<^sup>*\<^sup>* s0 s"
  shows "(set (EnvironmentsOnNode node s) = {env. \<exists>key obj. mget (objects s) key = Some obj
        \<and> Environment obj = env \<and> env \<noteq> uuid_Nil \<and> Kind obj = KindPod \<and> Node obj = node \<and> node \<noteq> []})
    \<and> (sorted (EnvironmentsOnNode node s) \<and> distinct (EnvironmentsOnNode node s))
    \<and> (set (EnvironmentsForSharedKey k s) = {env. \<exists>key obj. mget (objects s) key = Some obj
        \<and> Environment obj = env \<and> env \<noteq> uuid_Nil \<and> SharedKey obj = k \<and> k \<noteq> []})
    \<and> (source \<noteq> [] \<longrightarrow> set (mkeys (mget_or [] (bySource s) source)) =
        {key. \<exists>obj. mget (objects s) key = Some obj \<and> obj_Source obj = source})
    \<and> (env \<noteq> uuid_Nil \<longrightarrow> set (mkeys (mget_or [] (byEnvironment s) env)) =
        {key. \<exists>obj. mget (objects s) key = Some obj \<and> Environment obj = env})
    \<and> (SharedObject k kind s = Some obj \<longrightarrow>
        (\<exists>key. mget (objects s) key = Some obj) \<and> sharedResource obj \<and> SharedKey obj = k \<and> Kind obj = kind)
    \<and> ((placed_step place)\<^sup>*\<^sup>* s0 s \<longrightarrow> (SharedObject k kind s = Some obj \<longleftrightarrow>
        (\<exists>key. mget (objects s) key = Some obj \<and> sharedResource obj \<and> SharedKey obj = k \<and> Kind obj = kind)))"
proof -
  have "placed_ok place s" if "(placed_step place)\<^sup>*\<^sup>* s0 s"
    using placed.inv_reachable [OF assms(1) that] by (rule conjunct2)
  note exact = SharedObject_exact [OF this]
  show ?thesis
    by (rule conjI, rule queries_refine_objects_parts(1) [OF assms], rule conjI,
        rule queries_refine_objects_parts(2) [OF assms], rule conjI,
        rule queries_refine_objects_parts(3) [OF assms], rule conjI, rule impI,
        erule queries_refine_objects_parts(4) [OF assms], rule conjI, rule impI,
        erule queries_refine_objects_parts(5) [OF assms], rule conjI, rule impI,
        erule queries_refine_objects_parts(6) [OF assms], rule impI, erule exact)
qed

theorem queries_refine_objects_witness:
  "(set (EnvironmentsForSharedKey ''p'' wit_store) = {env. \<exists>key obj. mget (objects wit_store) key = Some obj
     \<and> Environment obj = env \<and> env \<noteq> uuid_Nil \<and> SharedKey obj = ''p'' \<and> ''p'' \<noteq> []})
    \<and> (EnvironmentsForSharedKey ''p'' wit_store = [''e''])
    \<and> (SharedObject ''p'' KindDatabaseConnections wit_store = Some wit_pool)"
proof (intro conjI)
  note q = queries_refine_objects [OF wit_store_steps]
  show "set (EnvironmentsForSharedKey ''p'' wit_store) = {env. \<exists>key obj. mget (objects wit_store) key = Some obj
     \<and> Environment obj = env \<and> env \<noteq> uuid_Nil \<and> SharedKey obj = ''p'' \<and> ''p'' \<noteq> []}"
    by (rule q [THEN conjunct2, THEN conjunct2, THEN conjunct1])
  show "EnvironmentsForSharedKey ''p'' wit_store = [''e'']" by code_simp
  have "mget (objects wit_store) (keyOf (Ref wit_pool)) = Some wit_pool" "sharedResource wit_pool"
    "SharedKey wit_pool = ''p''" "Kind wit_pool = KindDatabaseConnections" by code_simp+
  then show "SharedObject ''p'' KindDatabaseConnections wit_store = Some wit_pool"
    by (intro q [THEN conjunct2, THEN conjunct2, THEN conjunct2, THEN conjunct2, THEN conjunct2, THEN conjunct2,
        rule_format, OF wit_store_placed, THEN iffD2] exI conjI)
qed

lemma snapshot_exact_parts:
  assumes "new_store s0" and "observe_step\<^sup>*\<^sup>* s0 s" and "env \<noteq> uuid_Nil"
  shows "set (snap_Objects (Snapshot env s)) = visible env s"
    and "sorted_wrt (\<lambda>a b. \<not> snapshot_less b a) (snap_Objects (Snapshot env s))"
    and "\<exists>names. map src_Name (snap_Sources (Snapshot env s)) = SourceKubernetes # names
        \<and> sorted names \<and> distinct (SourceKubernetes # names)
        \<and> set (SourceKubernetes # names) = set (mkeys (sources s))"
proof -
  have ok: "store_ok s" by (rule store.inv_reachable [OF assms(1,2)])
  then show "set (snap_Objects (Snapshot env s)) = visible env s"
    by (intro Snapshot_objects_set assms(3)) (simp add: store_ok_def)
  show "sorted_wrt (\<lambda>a b. \<not> snapshot_less b a) (snap_Objects (Snapshot env s))"
    by (simp add: Snapshot_def snapshot_order.sorted_sort_by)
  let ?names = "sort_by (<) (filter (\<lambda>name. name \<noteq> SourceKubernetes) (mkeys (sources s)))"
  have "SourceKubernetes \<in> set (mkeys (sources s))" "distinct (mkeys (sources s))"
    using ok unfolding store_ok_def sources_ok_def gomap_ok_def mkeys_iff by blast+
  moreover have "map src_Name (snap_Sources (Snapshot env s)) = SourceKubernetes # ?names"
    by (simp add: Snapshot_def sourcesLocked_def named_source_def comp_def)
  ultimately show "\<exists>names. map src_Name (snap_Sources (Snapshot env s)) = SourceKubernetes # names
        \<and> sorted names \<and> distinct (SourceKubernetes # names)
        \<and> set (SourceKubernetes # names) = set (mkeys (sources s))"
    by (intro exI [of _ ?names]) (auto simp: sorted_sort_strings simp del: set_map)
qed

text \<open>
  C32. A snapshot shows an environment all its own objects and, besides, only
  shared resources that are stored under a key one of them names; where the
  publishers name a shared resource after its key and kind, it shows exactly
  the own objects and all the stored resources they reference. No object is
  shown twice, the list is ordered by kind, namespace and name, whatever
  order the index was visited in; the kubernetes source comes first and then
  every other registered source once, in the order of their names.
\<close>

theorem snapshot_exact:
  assumes "new_store s0" and "observe_step\<^sup>*\<^sup>* s0 s" and "env \<noteq> uuid_Nil"
  shows "owned env s \<subseteq> set (snap_Objects (Snapshot env s))
    \<and> set (snap_Objects (Snapshot env s)) \<subseteq> shown env s
    \<and> ((placed_step place)\<^sup>*\<^sup>* s0 s \<longrightarrow> set (snap_Objects (Snapshot env s)) = shown env s)
    \<and> distinct (map (\<lambda>obj. keyOf (Ref obj)) (snap_Objects (Snapshot env s)))
    \<and> sorted_wrt (\<lambda>a b. \<not> snapshot_less b a) (snap_Objects (Snapshot env s))
    \<and> (\<exists>names. map src_Name (snap_Sources (Snapshot env s)) = SourceKubernetes # names
        \<and> sorted names \<and> distinct (SourceKubernetes # names)
        \<and> set (SourceKubernetes # names) = set (mkeys (sources s)))"
proof -
  note snap = snapshot_exact_parts [OF assms]
  have ok: "objects_ok s" using store.inv_reachable [OF assms(1,2)] by (simp add: store_ok_def)
  show ?thesis
    unfolding snap(1)
    using visible_shown [OF ok] placed.inv_reachable [OF assms(1), of place s] Snapshot_distinct [OF ok assms(3)]
      snap(2,3) by blast
qed

theorem snapshot_exact_witness:
  "(set (snap_Objects (Snapshot ''e'' wit_store)) = shown ''e'' wit_store)
    \<and> (snap_Objects (Snapshot ''e'' wit_store) = [wit_claim, wit_pool])"
proof (intro conjI)
  have e: "''e'' \<noteq> uuid_Nil" by (simp add: uuid_Nil_def)
  show "set (snap_Objects (Snapshot ''e'' wit_store)) = shown ''e'' wit_store"
    by (rule snapshot_exact [OF wit_store_steps e, THEN conjunct2, THEN conjunct2, THEN conjunct1, THEN mp,
          OF wit_store_placed])
  show "snap_Objects (Snapshot ''e'' wit_store) = [wit_claim, wit_pool]" by code_simp
qed

text \<open>
  C31. Changes of view are told. Take a reachable store and a write that changes
  what the snapshot of an environment shows: the removal of an object, the
  upsert of an object, or the replacement of the objects of a source by a
  list that names no object twice. Every subscriber of that environment then
  finds an invalidation of it behind what it already has, or, if its buffer
  ran over, its channel closed. The one exception: an upserted object that
  replaces a stored shared resource must stay a shared resource under the
  same shared key.
\<close>

theorem view_changes_are_told:
  assumes "new_store s0" and "observe_step\<^sup>*\<^sup>* s0 s" and "env \<noteq> uuid_Nil"
    and "subscribed (broadcast s) env ch" and "mget (channels (broadcast s)) ch = Some c"
    and "t = Remove ref s
      \<or> t = Upsert obj s \<and> keeps_shared_key s obj
      \<or> t = snd (ReplaceSource source objs s) \<and> distinct (incoming_keys objs) \<and> list_all (keeps_shared_key s) objs"
    and "set (snap_Objects (Snapshot env t)) \<noteq> set (snap_Objects (Snapshot env s))"
  shows "\<exists>c'. mget (channels (broadcast t)) ch = Some c' \<and> told env c c'"
proof -
  have "store_ok s" by (rule store.inv_reachable [OF assms(1,2)])
  then have ok: "objects_ok s" and b: "broadcaster_ok (broadcast s)" by (simp_all add: store_ok_def)
  have "observe_step s t" using assms(6) by (auto intro: observe_step.intros)
  then have steps: "observe_step\<^sup>*\<^sup>* s0 t" using assms(2) by simp
  have "visible env t \<noteq> visible env s"
    using assms(7) snapshot_exact_parts(1) [OF assms(1) steps assms(3)] snapshot_exact_parts(1) [OF assms(1-3)]
    by simp
  moreover have "\<exists>es u. t = invalidate_each es u \<and> broadcast u = broadcast s \<and>
      (env \<in> set es \<or> visible env u = visible env s)"
    using assms(6)
  proof (elim disjE conjE)
    assume "t = Remove ref s"
    then show ?thesis
      using remove_unaffected_view [OF ok assms(3)] removed_same_rest [of s "keyOf ref"]
      unfolding Remove_eq same_rest_def by blast
  next
    assume "t = Upsert obj s" "keeps_shared_key s obj"
    then show ?thesis
      using upsert_unaffected [OF ok assms(3)] upserted_same_rest [of s obj]
      unfolding Upsert_eq same_rest_def by blast
  qed (use ReplaceSource_unaffected [OF ok assms(3)] in blast)
  moreover have "visible env (invalidate_each es u) = visible env u" for es and u :: "'a Store"
    by (simp add: visible_def owned_def registered_def)
  ultimately obtain es u where "t = invalidate_each es u" "broadcast u = broadcast s" "env \<in> set es" by auto
  then show ?thesis using invalidated_subscriber_told [of u env ch c es] assms(3-5) b by simp
qed

theorem view_changes_are_told_witness:
  "(\<exists>c'. mget (channels (broadcast (Remove (Ref wit_pool) wit_store))) 0 = Some c'
     \<and> told ''e'' \<lparr>pending = [\<lparr>EnvironmentID = ''e''\<rparr>, \<lparr>EnvironmentID = ''e''\<rparr>], closed = False\<rparr> c')
   \<and> (\<exists>c'. mget (channels (broadcast (snd (ReplaceSource ''probe'' [wit_pool\<lparr>SharedKey := ''p'', obj_Name := ''x''\<rparr>] wit_store)))) 0 = Some c'
     \<and> told ''e'' \<lparr>pending = [\<lparr>EnvironmentID = ''e''\<rparr>, \<lparr>EnvironmentID = ''e''\<rparr>], closed = False\<rparr> c')"
proof -
  let ?objs = "[wit_pool\<lparr>SharedKey := ''p'', obj_Name := ''x''\<rparr>]"
  have e: "''e'' \<noteq> uuid_Nil" by (simp add: uuid_Nil_def)
  have sub: "subscribed (broadcast wit_store) ''e'' 0" by code_simp
  have c: "mget (channels (broadcast wit_store)) 0 =
      Some \<lparr>pending = [\<lparr>EnvironmentID = ''e''\<rparr>, \<lparr>EnvironmentID = ''e''\<rparr>], closed = False\<rparr>"
    by code_simp
  note told = view_changes_are_told [OF wit_store_steps e sub c]
  have "snap_Objects (Snapshot ''e'' (Remove (Ref wit_pool) wit_store)) = [wit_claim]"
    "snap_Objects (Snapshot ''e'' wit_store) = [wit_claim, wit_pool]" "wit_claim \<noteq> wit_pool"
    by code_simp+
  moreover have "obj_Name (last (snap_Objects (Snapshot ''e'' (snd (ReplaceSource ''probe'' ?objs wit_store))))) = ''x''"
    "last (snap_Objects (Snapshot ''e'' (snd (ReplaceSource ''probe'' ?objs wit_store)))) \<in>
       set (snap_Objects (Snapshot ''e'' (snd (ReplaceSource ''probe'' ?objs wit_store))))"
    "obj_Name wit_claim \<noteq> ''x''" "obj_Name wit_pool \<noteq> ''x''"
    by code_simp+
  moreover have "distinct (incoming_keys ?objs)" "list_all (keeps_shared_key wit_store) ?objs" by code_simp+
  ultimately have "set (snap_Objects (Snapshot ''e'' (Remove (Ref wit_pool) wit_store))) \<noteq>
      set (snap_Objects (Snapshot ''e'' wit_store))"
    "set (snap_Objects (Snapshot ''e'' (snd (ReplaceSource ''probe'' ?objs wit_store)))) \<noteq>
      set (snap_Objects (Snapshot ''e'' wit_store))"
    "distinct (incoming_keys ?objs) \<and> list_all (keeps_shared_key wit_store) ?objs"
    by auto
  then show ?thesis
    by (intro conjI told [where obj = wit_pool and source = "''probe''" and objs = ?objs and ref = "Ref wit_pool"])
       simp_all
qed

text \<open>The exception the last theorem makes is real: a resource that moves to another shared
  key disappears from the view of the environments on the old key without a word to them.\<close>

lemma moved_resource_untold:
  "snap_Objects (Snapshot ''e'' (Upsert (wit_pool\<lparr>SharedKey := ''q''\<rparr>) wit_store)) = [wit_claim]"
  "snap_Objects (Snapshot ''e'' wit_store) = [wit_claim, wit_pool]"
  "broadcast (Upsert (wit_pool\<lparr>SharedKey := ''q''\<rparr>) wit_store) = broadcast wit_store"
  by code_simp+

lemma probe_replaces_source_parts:
  assumes "new_store s0" and "observe_step\<^sup>*\<^sup>* s0 s" and "source \<noteq> []"
    and "ReplaceSource source objs s = (affected, s')"
  shows "{key. \<exists>obj. mget (objects s') key = Some obj \<and> obj_Source obj = source} = set (incoming_keys objs)"
    and "key \<notin> set (incoming_keys objs) \<and> mget (objects s) key = Some other \<and> obj_Source other \<noteq> source \<Longrightarrow>
      mget (objects s') key = Some other"
    and "distinct (incoming_keys objs) \<and> obj \<in> set objs \<Longrightarrow>
      \<exists>o'. mget (objects s') (keyOf (Ref obj)) = Some o' \<and> DeepEqual o' (obj\<lparr>obj_Source := source\<rparr>)"
    and "sorted affected \<and> distinct affected \<and> uuid_Nil \<notin> set affected"
    and "distinct (incoming_keys objs) \<Longrightarrow> ReplaceSource source objs s' = ([], s')"
proof -
  have sok: "store_ok s" by (rule store.inv_reachable [OF assms(1,2)])
  then have ok: "objects_ok s" by (simp add: store_ok_def)
  obtain es where s': "s' = invalidate_each es (replaced source objs s)"
    using ReplaceSource_store [of source objs s] assms(4) by auto
  note rep = replaced_objects [OF ok assms(3), of _ objs]
  show keys: "{key. \<exists>obj. mget (objects s') key = Some obj \<and> obj_Source obj = source} = set (incoming_keys objs)"
  proof (intro set_eqI iffI)
    show "key \<in> set (incoming_keys objs)"
      if "key \<in> {key. \<exists>obj. mget (objects s') key = Some obj \<and> obj_Source obj = source}" for key
      using that rep(2) [of key] by (force simp: s' split: option.splits if_splits)
    show "key \<in> {key. \<exists>obj. mget (objects s') key = Some obj \<and> obj_Source obj = source}"
      if "key \<in> set (incoming_keys objs)" for key
      using that rep(1) [OF that] upserted_all_source [OF that, of source s] by (simp add: s')
  qed
  show "mget (objects s') key = Some other"
    if "key \<notin> set (incoming_keys objs) \<and> mget (objects s) key = Some other \<and> obj_Source other \<noteq> source"
    using that rep(2) [of key] by (simp add: s')
  have holds: "holds_all source objs s'" if "distinct (incoming_keys objs)"
    using replaced_holds_all [OF ok assms(3) that] by (simp add: s')
  then show "\<exists>o'. mget (objects s') (keyOf (Ref obj)) = Some o' \<and> DeepEqual o' (obj\<lparr>obj_Source := source\<rparr>)"
    if "distinct (incoming_keys objs) \<and> obj \<in> set objs" using that by (simp add: holds_all_def)
  obtain ids where "affected = distinct_ids ids"
    using assms(4) by (auto simp: ReplaceSource_def split: prod.splits)
  then show "sorted affected \<and> distinct affected \<and> uuid_Nil \<notin> set affected"
    using distinct_ids_props [of ids] sorted_sort_strings by (simp add: distinct_ids_def)
  have ok': "objects_ok s'" using replaced_ok [OF ok] by (simp add: s')
  show "ReplaceSource source objs s' = ([], s')" if "distinct (incoming_keys objs)"
    by (rule ReplaceSource_identical [OF ok' assms(3) holds [OF that]]) (use keys in blast)
qed

text \<open>
  C33. A successful probe is the whole truth about its source. After
  \<^verbatim>\<open>ReplaceSource\<close> the source holds exactly the keys of the probe, each with the object the
  probe gave (when it gives a key once); a key of another source that the
  probe does not name keeps its object. The environments returned are
  sorted, without duplicates and without the nil id, and the same probe
  again returns none and changes nothing, so it wakes nobody.\<close>

theorem probe_replaces_source:
  assumes "new_store s0" and "observe_step\<^sup>*\<^sup>* s0 s" and "source \<noteq> []"
    and "ReplaceSource source objs s = (affected, s')"
  shows "({key. \<exists>obj. mget (objects s') key = Some obj \<and> obj_Source obj = source} = set (incoming_keys objs))
    \<and> (key \<notin> set (incoming_keys objs) \<and> mget (objects s) key = Some other \<and> obj_Source other \<noteq> source \<longrightarrow>
      mget (objects s') key = Some other)
    \<and> (distinct (incoming_keys objs) \<and> obj \<in> set objs \<longrightarrow>
      (\<exists>o'. mget (objects s') (keyOf (Ref obj)) = Some o' \<and> DeepEqual o' (obj\<lparr>obj_Source := source\<rparr>)))
    \<and> (sorted affected \<and> distinct affected \<and> uuid_Nil \<notin> set affected)
    \<and> (distinct (incoming_keys objs) \<longrightarrow> ReplaceSource source objs s' = ([], s'))"
  by (rule conjI, rule probe_replaces_source_parts(1) [OF assms], rule conjI, rule impI,
      erule probe_replaces_source_parts(2) [OF assms], rule conjI, rule impI,
      erule probe_replaces_source_parts(3) [OF assms], rule conjI,
      rule probe_replaces_source_parts(4) [OF assms], rule impI,
      erule probe_replaces_source_parts(5) [OF assms])

theorem probe_replaces_source_witness:
  "(fst (ReplaceSource ''postgres'' [wit_pool] wit_store) = [''e''])
    \<and> (ReplaceSource ''postgres'' [wit_pool] (snd (ReplaceSource ''postgres'' [wit_pool] wit_store)) =
     ([], snd (ReplaceSource ''postgres'' [wit_pool] wit_store)))"
proof (intro conjI)
  show "fst (ReplaceSource ''postgres'' [wit_pool] wit_store) = [''e'']" by code_simp
  show "ReplaceSource ''postgres'' [wit_pool] (snd (ReplaceSource ''postgres'' [wit_pool] wit_store)) =
     ([], snd (ReplaceSource ''postgres'' [wit_pool] wit_store))"
    by (rule probe_replaces_source [OF wit_store_steps, THEN conjunct2, THEN conjunct2, THEN conjunct2, THEN conjunct2, THEN mp, of "''postgres''" "[wit_pool]" "fst (ReplaceSource ''postgres'' [wit_pool] wit_store)"])
      (simp_all add: incoming_keys_def)
qed

text \<open>How one operation may move the record of a source.\<close>

definition legal_move :: "sourceRecord \<Rightarrow> sourceRecord \<Rightarrow> bool" where
  "legal_move r r' \<longleftrightarrow> (state r' = state r \<or> Can Freshness (state r) (state r'))
     \<and> (state r' = SourceStale \<and> state r \<noteq> SourceStale \<longrightarrow>
          state r = SourceFresh \<and> failedAt r \<noteq> 0 \<and> staleSince r' = failedAt r)"

lemma legal_moves:
  assumes "source_ok r"
  shows "legal_move r r" "legal_move r (ready_record now r)" "legal_move r (unready_record r)"
    "legal_move r (contact_record now r)" "legal_move r (failure_record now r)"
    "legal_move r (evaluated_record now threshold r)"
  using assms
  by (auto simp: legal_move_def ready_record_eq unready_record_eq source_ok_def Valid_Freshness contact_record_def
      failure_record_def evaluated_record_def overdue_def is_zero_def Let_def Can_Freshness)

lemma source_write_moves:
  assumes "source_write source r' changed s t" and "legal_move (record_of source s) r'"
    and "mget (sources s) name = Some r" and "source_ok r"
  shows "\<exists>r'. mget (sources t) name = Some r' \<and> legal_move r r'"
  using assms legal_moves(1) by (auto simp: source_write_def)

lemma sources_untouched:
  "sources (Upsert obj s) = sources s" "sources (Remove ref s) = sources s"
  "sources (snd (ReplaceSource source objs s)) = sources s"
proof -
  show "sources (Upsert obj s) = sources s" "sources (Remove ref s) = sources s"
    using upserted_same_rest [of s obj] removed_same_rest [of s "keyOf ref"]
    by (simp_all add: Upsert_eq Remove_eq same_rest_def)
  obtain es where "snd (ReplaceSource source objs s) = invalidate_each es (replaced source objs s)"
    using ReplaceSource_store by blast
  then show "sources (snd (ReplaceSource source objs s)) = sources s"
    using replaced_same_rest [of s source objs] by (simp add: same_rest_def)
qed

lemma step_moves_source:
  assumes "store_ok s" and "observe_step s t" and "mget (sources s) name = Some r"
  shows "\<exists>r'. mget (sources t) name = Some r' \<and> legal_move r r'"
proof -
  have r: "source_ok r" and rok: "source_ok (record_of source s)" for source
    using assms(1,3) by (auto simp: store_ok_def sources_ok_def record_of_ok)
  note move = source_write_moves [OF _ _ assms(3) r] legal_moves [OF rok]
  have same: ?thesis if "sources t = sources s" using that assms(3) legal_moves(1) [OF r] by simp
  show ?thesis
    using assms(2)
  proof cases
    case (mark_ready now source)
    then show ?thesis using source_write_moves [OF MarkReady_write legal_moves(2) [OF rok] assms(3) r] by simp
  next
    case (mark_unready source)
    then show ?thesis using source_write_moves [OF MarkUnready_write legal_moves(3) [OF rok] assms(3) r] by simp
  next
    case (mark_contact now source)
    then show ?thesis using source_write_moves [OF MarkContact_write(1) legal_moves(4) [OF rok] assms(3) r] by simp
  next
    case (mark_failure now source)
    then show ?thesis using source_write_moves [OF MarkFailure_write legal_moves(5) [OF rok] assms(3) r] by simp
  next
    case (evaluate now source threshold)
    then show ?thesis using source_write_moves [OF EvaluateFreshness_write legal_moves(6) [OF rok] assms(3) r] by simp
  next
    case (register source)
    then show ?thesis using assms(3) legal_moves(1) [OF r] by (auto simp: RegisterSource_def split: option.split)
  next
    case (subscription env)
    then show ?thesis by (intro same) (simp add: store_Subscribe_def split: prod.split)
  qed (rule same; simp add: sources_untouched SetNodeArch_def SetNodeCapabilities_def SetNodeRecord_def RemoveNode_def
      RecordEvent_def Let_def Invalidate_def split: option.split)+
qed

lemma freshness_is_sound_parts:
  assumes "new_store s0" and "observe_step\<^sup>*\<^sup>* s0 s"
  shows "observe_step s t \<and> mget (sources s) name = Some r \<Longrightarrow>
      \<exists>r'. mget (sources t) name = Some r' \<and> legal_move r r'"
    and "mget (sources s) name = Some r \<Longrightarrow> (ready r \<longleftrightarrow> state r \<noteq> SourceUnknown)
      \<and> Valid Freshness (state r) \<and> (state r = SourceFresh \<longrightarrow> staleSince r = 0)"
    and "Ready_store s \<noteq> None \<and> Source_status s \<noteq> None"
    and "other \<noteq> name \<Longrightarrow> mget (sources (EvaluateFreshness now name threshold s)) other = mget (sources s) other
      \<and> mget (sources (MarkFailure now name s)) other = mget (sources s) other
      \<and> mget (sources (snd (MarkContact now name s))) other = mget (sources s) other"
proof -
  have ok: "store_ok s" by (rule store.inv_reachable [OF assms])
  show "\<exists>r'. mget (sources t) name = Some r' \<and> legal_move r r'"
    if "observe_step s t \<and> mget (sources s) name = Some r"
    using step_moves_source [OF ok] that by blast
  show "(ready r \<longleftrightarrow> state r \<noteq> SourceUnknown) \<and> Valid Freshness (state r)
      \<and> (state r = SourceFresh \<longrightarrow> staleSince r = 0)" if "mget (sources s) name = Some r"
    using ok that by (auto simp: store_ok_def sources_ok_def source_ok_def)
  show "Ready_store s \<noteq> None \<and> Source_status s \<noteq> None"
    using ok by (auto simp: Ready_store_def Source_status_def store_ok_def sources_ok_def)
  show "mget (sources (EvaluateFreshness now name threshold s)) other = mget (sources s) other
      \<and> mget (sources (MarkFailure now name s)) other = mget (sources s) other
      \<and> mget (sources (snd (MarkContact now name s))) other = mget (sources s) other" if "other \<noteq> name"
    using that EvaluateFreshness_write [of name now threshold s] MarkFailure_write [of name now s]
      MarkContact_write(1) [of name now s] by (simp add: source_write_def)
qed

text \<open>
  C34. Freshness is sound. Whatever the store does, a registered source stays
  registered and its state moves only along the freshness machine; it turns
  stale only from fresh, with a failure recorded that no contact has
  cleared, and reports that failure as the start of its staleness. In every
  reachable store a source is ready exactly when its state is not unknown,
  a fresh source reports no staleness, and the kubernetes source exists, so
  the unchecked reads of it cannot panic. Operations on one source leave
  every other source alone.
\<close>

theorem freshness_is_sound:
  assumes "new_store s0" and "observe_step\<^sup>*\<^sup>* s0 s"
  shows "(observe_step s t \<and> mget (sources s) name = Some r \<longrightarrow>
      (\<exists>r'. mget (sources t) name = Some r' \<and> legal_move r r'))
    \<and> (mget (sources s) name = Some r \<longrightarrow> (ready r \<longleftrightarrow> state r \<noteq> SourceUnknown)
      \<and> Valid Freshness (state r) \<and> (state r = SourceFresh \<longrightarrow> staleSince r = 0))
    \<and> (Ready_store s \<noteq> None \<and> Source_status s \<noteq> None)
    \<and> (other \<noteq> name \<longrightarrow> mget (sources (EvaluateFreshness now name threshold s)) other = mget (sources s) other
      \<and> mget (sources (MarkFailure now name s)) other = mget (sources s) other
      \<and> mget (sources (snd (MarkContact now name s))) other = mget (sources s) other)"
  by (rule conjI, rule impI, erule freshness_is_sound_parts(1) [OF assms], rule conjI, rule impI,
      erule freshness_is_sound_parts(2) [OF assms], rule conjI,
      rule freshness_is_sound_parts(3) [OF assms], rule impI,
      erule freshness_is_sound_parts(4) [OF assms])

theorem freshness_is_sound_witness:
  "(\<exists>r'. mget (sources (MarkReady 5 ''kubernetes'' wit_store)) ''kubernetes'' = Some r' \<and> legal_move new_source r')"
proof -
  have "mget (sources wit_store) ''kubernetes'' = Some new_source" by code_simp
  then show ?thesis
    using freshness_is_sound [OF wit_store_steps, THEN conjunct1, THEN mp, of "MarkReady 5 ''kubernetes'' wit_store"] mark_ready by blast
qed

subsection \<open>One poll cycle\<close>

lemma record_after_write: "source_write source r changed s t \<Longrightarrow> record_of source t = r"
  by (simp add: source_write_def mget_or_def)

lemma record_after_replace: "record_of source (snd (ReplaceSource src objs s)) = record_of source s"
  by (simp add: sources_untouched)

lemma poll_success_record:
  assumes "poll_success objs marked evaluated p s = (p', s', enqueued)"
  shows "record_of (opt_Source (opts p)) s' = evaluated_record evaluated (StaleThreshold (opts p))
    (if SourceReady (opt_Source (opts p)) s then contact_record marked (record_of (opt_Source (opts p)) s)
     else ready_record marked (record_of (opt_Source (opts p)) s))"
proof -
  let ?src = "opt_Source (opts p)"
  let ?m = "if \<not> SourceReady ?src s then (False, MarkReady marked ?src s) else MarkContact marked ?src s"
  have s': "s' = EvaluateFreshness evaluated ?src (StaleThreshold (opts p)) (snd (ReplaceSource ?src objs (snd ?m)))"
    using assms by (auto simp: poll_success_def Let_def split: prod.splits)
  have "record_of ?src (snd ?m) = (if SourceReady ?src s then contact_record marked (record_of ?src s)
      else ready_record marked (record_of ?src s))"
    using record_after_write [OF MarkReady_write [where source = ?src and now = marked and s = s]]
      record_after_write [OF MarkContact_write(1) [where source = ?src and now = marked and s = s]] by simp
  then show ?thesis
    unfolding s' record_after_write [OF EvaluateFreshness_write] record_after_replace by simp
qed

lemma poll_success_enqueues:
  assumes "poll_success objs marked evaluated p s = (p', s', enqueued)"
    and "SourceReady (opt_Source (opts p)) s" and "state (record_of (opt_Source (opts p)) s) = SourceStale"
    and "Enqueues (opts p)"
  shows "enqueued = environments s'"
proof -
  let ?src = "opt_Source (opts p)"
  let ?t = "snd (ReplaceSource ?src objs (snd (MarkContact marked ?src s)))"
  have "fst (MarkContact marked ?src s)" using assms(3) by (simp add: MarkContact_write(2))
  then have "enqueued = environments ?t \<and> s' = EvaluateFreshness evaluated ?src (StaleThreshold (opts p)) ?t"
    using assms(1,2,4) by (auto simp: poll_success_def Let_def split: prod.splits)
  then show ?thesis
    using EvaluateFreshness_write [where source = ?src and now = evaluated
        and threshold = "StaleThreshold (opts p)" and s = ?t]
    by (simp add: environments_def source_write_def only_sources_def)
qed

lemma poll_failure_record:
  assumes "poll_failure logged marked evaluated p s = (p', s')"
  shows "record_of (opt_Source (opts p)) s' = evaluated_record evaluated (StaleThreshold (opts p))
    (failure_record marked (record_of (opt_Source (opts p)) s))"
proof -
  let ?src = "opt_Source (opts p)"
  have "s' = EvaluateFreshness evaluated ?src (StaleThreshold (opts p)) (MarkFailure marked ?src s)"
    using assms by (auto simp: poll_failure_def Let_def split: if_splits)
  then show ?thesis
    by (simp only: record_after_write [OF EvaluateFreshness_write] record_after_write [OF MarkFailure_write])
qed

lemma SourceReady_record: "SourceReady src s \<longleftrightarrow> ready (record_of src s)"
  by (simp add: SourceReady_def mget_or_def new_source_def split: option.split)

lemma poll_cycle_decides_parts:
  assumes "new_store s0" and "observe_step\<^sup>*\<^sup>* s0 s"
    and "pollOnce answer logged marked evaluated p s = (p', s', enqueued)"
    and "src = opt_Source (opts p)" and "r = record_of src s" and "r' = record_of src s'"
  shows "answer \<noteq> None \<and> ready r \<Longrightarrow> state r' = SourceFresh \<and> failedAt r' = 0 \<and> lastSync r' = marked
      \<and> (state r = SourceStale \<and> Enqueues (opts p) \<longrightarrow> enqueued = environments s')"
    and "answer \<noteq> None \<and> \<not> ready r \<Longrightarrow> ready r' \<and> lastSync r' = marked \<and> state r' =
      (if failedAt r \<noteq> 0 \<and> time_sub evaluated (failedAt r) \<ge> StaleThreshold (opts p)
       then SourceStale else SourceFresh)"
    and "answer = None \<Longrightarrow> ready r' = ready r \<and> lastSync r' = lastSync r \<and> state r' =
      (let f = (if failedAt r = 0 then marked else failedAt r)
       in if state r = SourceFresh \<and> f \<noteq> 0 \<and> time_sub evaluated f \<ge> StaleThreshold (opts p)
          then SourceStale else state r)"
proof -
  have ok: "store_ok s" by (rule store.inv_reachable [OF assms(1,2)])
  then have rok: "source_ok r" unfolding assms(5) by (intro record_of_ok) (simp add: store_ok_def)
  show "state r' = SourceFresh \<and> failedAt r' = 0 \<and> lastSync r' = marked
      \<and> (state r = SourceStale \<and> Enqueues (opts p) \<longrightarrow> enqueued = environments s')"
    if c: "answer \<noteq> None \<and> ready r"
  proof -
    obtain objs where ps: "poll_success objs marked evaluated p s = (p', s', enqueued)"
      using c assms(3) by (auto simp: pollOnce_def)
    have "r' = evaluated_record evaluated (StaleThreshold (opts p)) (contact_record marked r)"
      using poll_success_record [OF ps] c unfolding assms(4-6) by (simp add: SourceReady_record)
    moreover have "state r = SourceFresh \<or> state r = SourceStale"
      using rok c by (auto simp: source_ok_def Valid_Freshness)
    moreover have "enqueued = environments s'" if "state r = SourceStale" "Enqueues (opts p)"
      using poll_success_enqueues [OF ps] c that unfolding assms(4,5) by (simp add: SourceReady_record)
    ultimately show ?thesis
      by (auto simp: evaluated_record_def contact_record_def overdue_def is_zero_def Let_def)
  qed
  show "ready r' \<and> lastSync r' = marked \<and> state r' = (if failedAt r \<noteq> 0 \<and> time_sub evaluated (failedAt r) \<ge> StaleThreshold (opts p)
       then SourceStale else SourceFresh)" if c: "answer \<noteq> None \<and> \<not> ready r"
  proof -
    obtain objs where ps: "poll_success objs marked evaluated p s = (p', s', enqueued)"
      using c assms(3) by (auto simp: pollOnce_def)
    have "r' = evaluated_record evaluated (StaleThreshold (opts p)) (ready_record marked r)"
      using poll_success_record [OF ps] c unfolding assms(4-6) by (simp add: SourceReady_record)
    then show ?thesis by (simp add: ready_record_eq [OF rok] evaluated_record_def overdue_def is_zero_def)
  qed
  show "ready r' = ready r \<and> lastSync r' = lastSync r \<and> state r' =
      (let f = (if failedAt r = 0 then marked else failedAt r)
       in if state r = SourceFresh \<and> f \<noteq> 0 \<and> time_sub evaluated f \<ge> StaleThreshold (opts p)
          then SourceStale else state r)" if "answer = None"
  proof -
    have "poll_failure logged marked evaluated p s = (p', s')"
      using that assms(3) by (auto simp: pollOnce_def split: prod.splits)
    from poll_failure_record [OF this] show ?thesis
      unfolding assms(4-6)
      by (simp add: evaluated_record_def failure_record_def overdue_def is_zero_def Let_def)
  qed
qed

text \<open>
  C35. What a poll cycle decides. A successful probe of a source that has synced
  before leaves it fresh, with the recorded failure cleared, and a source
  that was stale then enqueues every environment. The first successful
  probe of a source makes it ready and fresh, when no failure, or none as
  old as the threshold, was recorded before. A failed probe of a source
  without a successful contact since its recorded failure turns it stale
  exactly when it was fresh and that failure (this one, if none was
  recorded) is as old as the threshold, and changes no state otherwise.
\<close>

theorem poll_cycle_decides:
  assumes "new_store s0" and "observe_step\<^sup>*\<^sup>* s0 s"
    and "pollOnce answer logged marked evaluated p s = (p', s', enqueued)"
    and "src = opt_Source (opts p)" and "r = record_of src s" and "r' = record_of src s'"
  shows "(answer \<noteq> None \<and> ready r \<longrightarrow> state r' = SourceFresh \<and> failedAt r' = 0 \<and> lastSync r' = marked
      \<and> (state r = SourceStale \<and> Enqueues (opts p) \<longrightarrow> enqueued = environments s'))
    \<and> (answer \<noteq> None \<and> \<not> ready r
         \<and> (failedAt r = 0 \<or> time_sub evaluated (failedAt r) < StaleThreshold (opts p)) \<longrightarrow>
      ready r' \<and> state r' = SourceFresh \<and> lastSync r' = marked)
    \<and> (answer = None \<and> (failedAt r = 0 \<or> lastSync r \<le> failedAt r) \<longrightarrow>
      ready r' = ready r \<and> lastSync r' = lastSync r \<and> state r' =
      (let f = (if failedAt r = 0 then marked else failedAt r)
       in if state r = SourceFresh \<and> f \<noteq> 0 \<and> time_sub evaluated f \<ge> StaleThreshold (opts p)
          then SourceStale else state r))"
proof (intro conjI impI)
  note parts = poll_cycle_decides_parts [OF assms]
  show "state r' = SourceFresh" "failedAt r' = 0" "lastSync r' = marked" if "answer \<noteq> None \<and> ready r"
    using parts(1) [OF that] by simp_all
  show "enqueued = environments s'" if "answer \<noteq> None \<and> ready r" "state r = SourceStale \<and> Enqueues (opts p)"
    using parts(1) [OF that(1)] that(2) by simp
  show "ready r'" "state r' = SourceFresh" "lastSync r' = marked"
    if "answer \<noteq> None \<and> \<not> ready r
      \<and> (failedAt r = 0 \<or> time_sub evaluated (failedAt r) < StaleThreshold (opts p))"
    using that parts(2) by auto
  show "ready r' = ready r" "lastSync r' = lastSync r"
    "state r' = (let f = (if failedAt r = 0 then marked else failedAt r)
       in if state r = SourceFresh \<and> f \<noteq> 0 \<and> time_sub evaluated f \<ge> StaleThreshold (opts p)
          then SourceStale else state r)"
    if "answer = None \<and> (failedAt r = 0 \<or> lastSync r \<le> failedAt r)" using that parts(3) by simp_all
qed

definition wit_poll :: PollSource where
  "wit_poll = NewPollSource \<lparr>opt_Source = ''seaweedfs'', Interval = 0, StaleThreshold = 0, Timeout = 0, Enqueues = True\<rparr>"

definition wit_outage :: "nat Store" where
  "wit_outage = MarkFailure (100 * second) ''seaweedfs'' wit_store"

definition wit_lost :: "nat Store" where
  "wit_lost = MarkFailure (100 * second) ''seaweedfs'' (MarkReady (50 * second) ''seaweedfs'' wit_store)"

lemma wit_poll_options: "opt_Source (opts wit_poll) = ''seaweedfs''" "StaleThreshold (opts wit_poll) = 45000000000"
  by code_simp+

theorem poll_cycle_decides_witness:
  "state (record_of ''seaweedfs'' (fst (snd (pollOnce (Some []) 0 (110 * second) (110 * second) wit_poll wit_outage)))) =
     SourceFresh
   \<and> state (record_of ''seaweedfs'' (fst (snd (pollOnce None 0 (150 * second) (150 * second) wit_poll wit_lost)))) =
     SourceStale"
proof (intro conjI)
  have reach: "observe_step\<^sup>*\<^sup>* NewStore wit_outage"
    unfolding wit_outage_def using wit_store_steps(2) mark_failure by (rule rtranclp.rtrancl_into_rtrancl)
  have "observe_step\<^sup>*\<^sup>* NewStore (MarkReady (50 * second) ''seaweedfs'' wit_store)"
    using wit_store_steps(2) mark_ready by (rule rtranclp.rtrancl_into_rtrancl)
  then have lost: "observe_step\<^sup>*\<^sup>* NewStore wit_lost"
    unfolding wit_lost_def using mark_failure by (rule rtranclp.rtrancl_into_rtrancl)
  obtain p s e where a: "pollOnce (Some []) 0 (110 * second) (110 * second) wit_poll wit_outage = (p, s, e)"
    by (metis prod_cases3)
  obtain q t f where b: "pollOnce None 0 (150 * second) (150 * second) wit_poll wit_lost = (q, t, f)"
    by (metis prod_cases3)
  have "failedAt (record_of ''seaweedfs'' wit_outage) = 100000000000" "\<not> ready (record_of ''seaweedfs'' wit_outage)"
    by code_simp+
  then show "state (record_of ''seaweedfs'' (fst (snd (pollOnce (Some []) 0 (110 * second) (110 * second) wit_poll wit_outage)))) =
     SourceFresh"
    using poll_cycle_decides [OF wit_store_steps(1) reach a refl refl refl, THEN conjunct2, THEN conjunct1]
    unfolding a wit_poll_options by (simp add: time_sub_def second_def int64_max_def int64_min_def)
  have "failedAt (record_of ''seaweedfs'' wit_lost) = 100000000000" "lastSync (record_of ''seaweedfs'' wit_lost) = 50000000000"
    "state (record_of ''seaweedfs'' wit_lost) = SourceFresh"
    by code_simp+
  then show "state (record_of ''seaweedfs'' (fst (snd (pollOnce None 0 (150 * second) (150 * second) wit_poll wit_lost)))) =
     SourceStale"
    using poll_cycle_decides [OF wit_store_steps(1) lost b refl refl refl, THEN conjunct2, THEN conjunct2]
    unfolding b wit_poll_options by (simp add: time_sub_def second_def int64_max_def int64_min_def)
qed

text \<open>
  The case left out: a source that failed for longer than the threshold
  before its first success. Marking a source ready does not clear the
  failure, so the evaluation at the end of that cycle turns the source stale
  again, although a contact has succeeded since the failure.
\<close>

lemma first_success_after_outage:
  "state (record_of ''seaweedfs'' (fst (snd (pollOnce (Some []) 0 (150 * second) (150 * second) wit_poll wit_outage)))) =
     SourceStale"
  by code_simp

lemma node_queries_exact_parts:
  assumes "new_store s0" and "observe_step\<^sup>*\<^sup>* s0 s"
  shows "smallest_of (sized_nodes s capability (nodeCapabilities s)) (SmallestCapableNodeMemory capability s)"
    and "mset entries = mset (nodeCapabilities s) \<Longrightarrow>
      SmallestCapableNodeMemory capability (s\<lparr>nodeCapabilities := entries\<rparr>) = SmallestCapableNodeMemory capability s"
    and "sorted (NodePlatforms s) \<and> distinct (NodePlatforms s)"
    and "set (NodePlatforms s) = {''linux/'' @ arch | name arch. mget (nodeArch s) name = Some arch
      \<and> ((\<forall>n. \<not> capable (mget_or [] (nodeCapabilities s) n) CapabilityApplication)
         \<or> capable (mget_or [] (nodeCapabilities s) name) CapabilityApplication)}"
proof -
  have ok: "nodes_ok s" using store.inv_reachable [OF assms] by (simp add: store_ok_def)
  show small: "smallest_of (sized_nodes s capability (nodeCapabilities s)) (SmallestCapableNodeMemory capability s)"
    unfolding SmallestCapableNodeMemory_def by (rule smallest_fold)
  show "SmallestCapableNodeMemory capability (s\<lparr>nodeCapabilities := entries\<rparr>) = SmallestCapableNodeMemory capability s"
    if "mset entries = mset (nodeCapabilities s)"
  proof -
    let ?s = "s\<lparr>nodeCapabilities := entries\<rparr>"
    have "set entries = set (nodeCapabilities s)" using that by (rule mset_eq_setD)
    then have "sized_nodes ?s capability entries = sized_nodes s capability (nodeCapabilities s)"
      by (simp add: sized_nodes_def)
    then have "smallest_of (sized_nodes s capability (nodeCapabilities s)) (SmallestCapableNodeMemory capability ?s)"
      using smallest_fold [of ?s capability entries] by (simp add: SmallestCapableNodeMemory_def)
    then show ?thesis using small by (rule smallest_of_unique)
  qed
  let ?any = "list_ex (\<lambda>(_, caps). capable caps CapabilityApplication) (nodeCapabilities s)"
  let ?counts = "\<lambda>name. \<not> ?any \<or> capable (mget_or [] (nodeCapabilities s) name) CapabilityApplication"
  note P = platform_loop_props [of ?counts "nodeArch s" "[]"]
  show "sorted (NodePlatforms s) \<and> distinct (NodePlatforms s)"
    using P by (simp add: NodePlatforms_def Let_def sorted_sort_strings)
  have any: "?any \<longleftrightarrow> (\<exists>n. capable (mget_or [] (nodeCapabilities s) n) CapabilityApplication)"
  proof -
    have "?any \<longleftrightarrow> (\<exists>n caps. mget (nodeCapabilities s) n = Some caps \<and> capable caps CapabilityApplication)"
      using ok by (auto simp: list_ex_iff nodes_ok_def gomap_ok_mem [symmetric])
    also have "\<dots> \<longleftrightarrow> (\<exists>n. capable (mget_or [] (nodeCapabilities s) n) CapabilityApplication)"
    proof (intro ex_cong1)
      show "(\<exists>caps. mget (nodeCapabilities s) n = Some caps \<and> capable caps CapabilityApplication) \<longleftrightarrow>
          capable (mget_or [] (nodeCapabilities s) n) CapabilityApplication" for n
        by (cases "mget (nodeCapabilities s) n") (simp_all add: capable_def)
    qed
    finally show ?thesis .
  qed
  have "set (NodePlatforms s) = {''linux/'' @ arch | name arch. mget (nodeArch s) name = Some arch \<and> ?counts name}"
    using P ok by (simp add: NodePlatforms_def Let_def nodes_ok_def gomap_ok_mem)
  then show "set (NodePlatforms s) = {''linux/'' @ arch | name arch. mget (nodeArch s) name = Some arch
      \<and> ((\<forall>n. \<not> capable (mget_or [] (nodeCapabilities s) n) CapabilityApplication)
         \<or> capable (mget_or [] (nodeCapabilities s) name) CapabilityApplication)}"
    unfolding any by simp
qed

text \<open>
  Node queries do not depend on the order in which Go visits its maps. The
  smallest capable node is the one with the least reported memory among the
  nodes that carry the capability and report a size, by name among equals,
  and nothing when there is none; the platforms are the sorted, distinct
  platforms of the application nodes, or of all nodes when no node carries
  the application capability.
\<close>

theorem node_queries_exact:
  assumes "new_store s0" and "observe_step\<^sup>*\<^sup>* s0 s"
  shows "(smallest_of (sized_nodes s capability (nodeCapabilities s)) (SmallestCapableNodeMemory capability s))
    \<and> (mset entries = mset (nodeCapabilities s) \<longrightarrow>
      SmallestCapableNodeMemory capability (s\<lparr>nodeCapabilities := entries\<rparr>) = SmallestCapableNodeMemory capability s)
    \<and> (sorted (NodePlatforms s) \<and> distinct (NodePlatforms s))
    \<and> (set (NodePlatforms s) = {''linux/'' @ arch | name arch. mget (nodeArch s) name = Some arch
      \<and> ((\<forall>n. \<not> capable (mget_or [] (nodeCapabilities s) n) CapabilityApplication)
         \<or> capable (mget_or [] (nodeCapabilities s) name) CapabilityApplication)})"
  by (rule conjI, rule node_queries_exact_parts(1) [OF assms], rule conjI, rule impI,
      erule node_queries_exact_parts(2) [OF assms], rule conjI,
      rule node_queries_exact_parts(3) [OF assms], rule node_queries_exact_parts(4) [OF assms])

theorem node_queries_exact_witness:
  "(smallest_of (sized_nodes wit_store ''database'' (nodeCapabilities wit_store))
     (SmallestCapableNodeMemory ''database'' wit_store))
    \<and> (SmallestCapableNodeMemory ''database'' wit_store = ([], 0))"
  by (rule conjI, rule node_queries_exact [OF wit_store_steps, THEN conjunct1], code_simp)

lemma events_bounded_and_ordered_parts:
  assumes "new_store s0" and "observe_step\<^sup>*\<^sup>* s0 s"
  shows "length (Events now ref s) \<le> maxEventsPerObject"
    and "list_all (\<lambda>r. now - maxEventAge < At r) (Events now ref s)"
    and "now \<le> now' \<Longrightarrow> \<exists>dropped. dropped @ Events now' ref (RecordEvent now ref r s) =
      Events now' ref s @ (if now' - maxEventAge < At r then [r] else [])"
    and "keyOf ref' \<noteq> keyOf ref \<Longrightarrow> Events now' ref' (RecordEvent now ref r s) = Events now' ref' s"
proof -
  have "events_ok s" using store.inv_reachable [OF assms] by (simp add: store_ok_def)
  then have "length (mget_or [] (events s) (keyOf ref)) \<le> maxEventsPerObject"
    by (cases "mget (events s) (keyOf ref)") (auto simp: events_ok_def)
  then show "length (Events now ref s) \<le> maxEventsPerObject"
    unfolding Events_def Let_def using length_filter_le order_trans by blast
  show "list_all (\<lambda>r. now - maxEventAge < At r) (Events now ref s)"
    by (simp add: Events_def Let_def list_all_iff)
  show "Events now' ref' (RecordEvent now ref r s) = Events now' ref' s" if "keyOf ref' \<noteq> keyOf ref"
    using that by (simp add: Events_def Let_def mget_or_def RecordEvent_ring)
  show "\<exists>dropped. dropped @ Events now' ref (RecordEvent now ref r s) =
      Events now' ref s @ (if now' - maxEventAge < At r then [r] else [])" if "now \<le> now'"
  proof -
    let ?ring = "mget_or [] (events s) (keyOf ref)" and ?P = "\<lambda>r. At r > now' - maxEventAge"
    let ?kept = "recent now ?ring @ [r]"
    let ?n = "Suc (length (recent now ?ring)) - maxEventsPerObject"
    have "mget_or [] (events (RecordEvent now ref r s)) (keyOf ref) = drop ?n ?kept"
      by (rule mget_or_Some) (simp add: RecordEvent_ring)
    then have "Events now' ref (RecordEvent now ref r s) = filter ?P (drop ?n ?kept)"
      unfolding Events_def Let_def by (simp only:)
    moreover have "filter ?P ?kept = filter ?P (take ?n ?kept) @ filter ?P (drop ?n ?kept)"
      by (metis append_take_drop_id filter_append)
    moreover have "filter ?P (recent now ?ring) = Events now' ref s"
      using that unfolding recent_def Events_def Let_def filter_filter by (intro filter_cong) auto
    then have "filter ?P ?kept = Events now' ref s @ (if now' - maxEventAge < At r then [r] else [])"
      by simp
    ultimately show ?thesis by (intro exI [of _ "filter ?P (take ?n ?kept)"]) (simp only:)
  qed
qed

text \<open>
  The warning events of an object stay bounded and in order. A read returns at
  most ten, all within the last fifteen minutes; recording one appends it
  to what a later read returns and drops at most the oldest ones, and
  leaves the events of every other object alone.
\<close>

theorem events_bounded_and_ordered:
  assumes "new_store s0" and "observe_step\<^sup>*\<^sup>* s0 s"
  shows "(length (Events now ref s) \<le> maxEventsPerObject)
    \<and> (list_all (\<lambda>r. now - maxEventAge < At r) (Events now ref s))
    \<and> (now \<le> now' \<longrightarrow> (\<exists>dropped. dropped @ Events now' ref (RecordEvent now ref r s) =
      Events now' ref s @ (if now' - maxEventAge < At r then [r] else [])))
    \<and> (keyOf ref' \<noteq> keyOf ref \<longrightarrow> Events now' ref' (RecordEvent now ref r s) = Events now' ref' s)"
  by (rule conjI, rule events_bounded_and_ordered_parts(1) [OF assms], rule conjI,
      rule events_bounded_and_ordered_parts(2) [OF assms], rule conjI, rule impI,
      erule events_bounded_and_ordered_parts(3) [OF assms], rule impI,
      erule events_bounded_and_ordered_parts(4) [OF assms])

theorem events_bounded_and_ordered_witness:
  "(length (Events 9 (Ref wit_pool) wit_store) \<le> maxEventsPerObject)
    \<and> (\<exists>dropped. dropped @ Events 9 (Ref wit_pool)
       (RecordEvent 5 (Ref wit_pool) \<lparr>ev_Reason = [], ev_Message = [], ev_Count = 1, At = 5\<rparr> wit_store) =
     Events 9 (Ref wit_pool) wit_store @
       (if 9 - maxEventAge < At \<lparr>ev_Reason = [], ev_Message = [], ev_Count = 1, At = 5\<rparr>
        then [\<lparr>ev_Reason = [], ev_Message = [], ev_Count = 1, At = 5\<rparr>] else []))"
  by (rule conjI, rule events_bounded_and_ordered [OF wit_store_steps, THEN conjunct1],
      rule events_bounded_and_ordered [OF wit_store_steps, THEN conjunct2, THEN conjunct2, THEN conjunct1, THEN mp]) simp

end
