(* ===== verification/Store_Db.thy ===== *)
theory Store_Db
  imports Go_Strings Broadcast
begin

text \<open>
  The part of the relational store the identity and project services use:
  the tables of \<^verbatim>\<open>migrations/\<close> as lists of rows, and the statements of
  \<^verbatim>\<open>query/*.sql\<close> on them with the constraints the schema declares (primary
  and unique keys, foreign keys with their cascades, checks). A statement
  either fails and changes nothing or gives its rows and the new tables.
  Bookkeeping columns (\<^verbatim>\<open>created_at\<close>, most \<^verbatim>\<open>updated_at\<close>) are left out.

  What is outside the repository is a parameter, the \<open>driver\<close>: the failures
  of the connection by statement name, the clock behind \<^verbatim>\<open>now()\<close>, the \<^verbatim>\<open>lower\<close>
  function and the collation of text.
\<close>

section \<open>Rows and tables\<close>

record User =
  u_ID :: uuid
  u_Email :: string
  u_Name :: string
  u_Role :: string
  u_CreateProjects :: bool
  u_TwoFactorEnabled :: bool

record Project =
  p_ID :: uuid
  p_Name :: string
  p_DisplayName :: string
  p_SourceMode :: string
  p_DeletingAt :: "gotime option"

record Environment =
  e_ID :: uuid
  e_ProjectID :: uuid
  e_Name :: string
  e_PreviousNames :: "string list"
  e_MaxRole :: string
  e_DeployPolicy :: string
  e_PromoteFrom :: "string list"
  e_Priority :: string
  e_BackupSchedule :: string
  e_BackupRetentionSeconds :: int
  e_BackupStrategy :: string
  e_BackupNamespace :: string

record ProjectMember =
  m_ProjectID :: uuid
  m_UserID :: uuid
  m_Role :: string

record EnvironmentAccess =
  a_EnvironmentID :: uuid
  a_ProjectID :: uuid
  a_UserID :: uuid
  a_Role :: string

record Account =
  acc_ID :: uuid
  acc_UserID :: uuid
  acc_ProviderID :: string
  acc_Password :: "string option"

record Session_row =
  s_ID :: uuid
  s_UserID :: uuid
  s_TokenHash :: string
  s_ExpiresAt :: gotime
  s_IpAddress :: string
  s_UserAgent :: string
  s_CreatedAt :: gotime
  s_UpdatedAt :: gotime
  s_ReauthenticatedAt :: gotime

record TwoFactor =
  tf_ID :: uuid
  tf_UserID :: uuid
  tf_Secret :: string
  tf_ConfirmedAt :: "gotime option"
  tf_LastUsedStep :: int

record BackupCode =
  bc_ID :: uuid
  bc_TwoFactorID :: uuid
  bc_CodeHash :: string
  bc_UsedAt :: "gotime option"

record LoginChallenge =
  lc_ID :: uuid
  lc_UserID :: uuid
  lc_TokenHash :: string
  lc_Attempts :: int
  lc_ExpiresAt :: gotime

record DeviceRequest_row =
  dr_ID :: uuid
  dr_Intent :: string
  dr_UserCode :: string
  dr_DeviceCodeHash :: string
  dr_Status :: string
  dr_SessionID :: "uuid option"
  dr_UserID :: "uuid option"
  dr_ClientLabel :: string
  dr_IpAddress :: string
  dr_UserAgent :: string
  dr_PollCount :: int
  dr_LastPolledAt :: "gotime option"
  dr_ExpiresAt :: gotime
  dr_CreatedAt :: gotime

record db =
  t_users :: "User list"
  t_projects :: "Project list"
  t_environments :: "Environment list"
  t_members :: "ProjectMember list"
  t_access :: "EnvironmentAccess list"
  t_targets :: "uuid list"
  t_accounts :: "Account list"
  t_sessions :: "Session_row list"
  t_two_factors :: "TwoFactor list"
  t_backup_codes :: "BackupCode list"
  t_challenges :: "LoginChallenge list"
  t_devices :: "DeviceRequest_row list"

datatype db_error = ErrNoRows | UniqueViolation | ForeignKeyViolation | CheckViolation | Failure string

record driver =
  drv_fails :: "string \<Rightarrow> string option"
  drv_now :: gotime
  drv_lower :: "string \<Rightarrow> string"
  drv_less :: "string \<Rightarrow> string \<Rightarrow> bool"

section \<open>Statements and transactions\<close>

definition stmt :: "driver \<Rightarrow> string \<Rightarrow> db_error + 'a \<Rightarrow> db_error + 'a" where
  "stmt d name r = (case drv_fails d name of Some e \<Rightarrow> Inl (Failure e) | None \<Rightarrow> r)"

text \<open>A \<^verbatim>\<open>:one\<close> query: the first row, or \<^verbatim>\<open>pgx.ErrNoRows\<close>.\<close>

definition one_row :: "'a option \<Rightarrow> db_error + 'a" where
  "one_row r = (case r of None \<Rightarrow> Inl ErrNoRows | Some x \<Rightarrow> Inr x)"

text \<open>\<^verbatim>\<open>WithTx\<close>: commit on success, otherwise nothing.\<close>

definition WithTx :: "driver \<Rightarrow> (db_error \<Rightarrow> 'e) \<Rightarrow> (db \<Rightarrow> 'e + ('a \<times> db)) \<Rightarrow> db \<Rightarrow> 'e + ('a \<times> db)" where
  "WithTx d wrap f s =
     (case drv_fails d ''Begin'' of
        Some e \<Rightarrow> Inl (wrap (Failure e))
      | None \<Rightarrow>
          (case f s of
             Inl e \<Rightarrow> Inl e
           | Inr r \<Rightarrow>
               (case drv_fails d ''Commit'' of Some e \<Rightarrow> Inl (wrap (Failure e)) | None \<Rightarrow> Inr r)))"

text \<open>The outcome of a committing unit: a failure leaves the tables as they were.\<close>

definition settle :: "db \<Rightarrow> 'e + ('a \<times> db) \<Rightarrow> ('e + 'a) \<times> db" where
  "settle s r = (case r of Inl e \<Rightarrow> (Inl e, s) | Inr (x, s') \<Rightarrow> (Inr x, s'))"

section \<open>Users (query/users.sql)\<close>

definition GetUserByID :: "driver \<Rightarrow> uuid \<Rightarrow> db \<Rightarrow> db_error + User" where
  "GetUserByID d i s = stmt d ''GetUserByID'' (one_row (find (\<lambda>u. u_ID u = i) (t_users s)))"

definition GetUserByEmail :: "driver \<Rightarrow> string \<Rightarrow> db \<Rightarrow> db_error + User" where
  "GetUserByEmail d email s =
     stmt d ''GetUserByEmail'' (one_row (find (\<lambda>u. drv_lower d (u_Email u) = drv_lower d email) (t_users s)))"

definition user_check :: "string \<Rightarrow> bool" where
  "user_check role \<longleftrightarrow> role = ''admin'' \<or> role = ''member''"

definition CreateUser_q :: "driver \<Rightarrow> uuid \<Rightarrow> string \<Rightarrow> string \<Rightarrow> string \<Rightarrow> db \<Rightarrow> db_error + (User \<times> db)" where
  "CreateUser_q d i email name role s =
     stmt d ''CreateUser''
       (if \<not> user_check role then Inl CheckViolation
        else if list_ex (\<lambda>u. u_ID u = i \<or> drv_lower d (u_Email u) = drv_lower d email) (t_users s)
        then Inl UniqueViolation
        else let u = \<lparr>u_ID = i, u_Email = email, u_Name = name, u_Role = role,
                      u_CreateProjects = False, u_TwoFactorEnabled = False\<rparr>
             in Inr (u, s\<lparr>t_users := t_users s @ [u]\<rparr>))"

text \<open>\<^verbatim>\<open>UPDATE users SET ... WHERE id = $1\<close>, with or without \<^verbatim>\<open>RETURNING *\<close>\<close>

definition update_users :: "(User \<Rightarrow> User) \<Rightarrow> uuid \<Rightarrow> db \<Rightarrow> db" where
  "update_users f i s = s\<lparr>t_users := map (\<lambda>u. if u_ID u = i then f u else u) (t_users s)\<rparr>"

definition update_user_one :: "(User \<Rightarrow> User) \<Rightarrow> uuid \<Rightarrow> db \<Rightarrow> db_error + (User \<times> db)" where
  "update_user_one f i s =
     (case find (\<lambda>u. u_ID u = i) (t_users s) of
        None \<Rightarrow> Inl ErrNoRows
      | Some u \<Rightarrow> Inr (f u, update_users f i s))"

definition SetUserRole_q :: "driver \<Rightarrow> uuid \<Rightarrow> string \<Rightarrow> db \<Rightarrow> db_error + (User \<times> db)" where
  "SetUserRole_q d i role s =
     stmt d ''SetUserRole''
       (if \<not> user_check role \<and> list_ex (\<lambda>u. u_ID u = i) (t_users s) then Inl CheckViolation
        else update_user_one (u_Role_update (\<lambda>_. role)) i s)"

definition SetUserName_q :: "driver \<Rightarrow> uuid \<Rightarrow> string \<Rightarrow> db \<Rightarrow> db_error + (User \<times> db)" where
  "SetUserName_q d i name s = stmt d ''SetUserName'' (update_user_one (u_Name_update (\<lambda>_. name)) i s)"

definition SetUserCreateProjects_q :: "driver \<Rightarrow> uuid \<Rightarrow> bool \<Rightarrow> db \<Rightarrow> db_error + (User \<times> db)" where
  "SetUserCreateProjects_q d i allowed s =
     stmt d ''SetUserCreateProjects'' (update_user_one (u_CreateProjects_update (\<lambda>_. allowed)) i s)"

definition SetUserTwoFactorEnabled :: "driver \<Rightarrow> uuid \<Rightarrow> bool \<Rightarrow> db \<Rightarrow> db_error + (unit \<times> db)" where
  "SetUserTwoFactorEnabled d i on s =
     stmt d ''SetUserTwoFactorEnabled'' (Inr ((), update_users (u_TwoFactorEnabled_update (\<lambda>_. on)) i s))"

definition CountAdminsForUpdate :: "driver \<Rightarrow> db \<Rightarrow> db_error + nat" where
  "CountAdminsForUpdate d s =
     stmt d ''CountAdminsForUpdate'' (Inr (length (filter (\<lambda>u. u_Role u = ''admin'') (t_users s))))"

text \<open>Deleting a user cascades to everything that hangs off the row.\<close>

definition delete_two_factors :: "(TwoFactor \<Rightarrow> bool) \<Rightarrow> db \<Rightarrow> db" where
  "delete_two_factors P s =
     s\<lparr>t_two_factors := filter (\<lambda>t. \<not> P t) (t_two_factors s),
       t_backup_codes := filter (\<lambda>c. \<not> list_ex (\<lambda>t. P t \<and> tf_ID t = bc_TwoFactorID c) (t_two_factors s))
                           (t_backup_codes s)\<rparr>"

text \<open>Deleting sessions cascades to the device requests bound to them.\<close>

definition delete_sessions :: "(Session_row \<Rightarrow> bool) \<Rightarrow> db \<Rightarrow> db" where
  "delete_sessions P s =
     s\<lparr>t_sessions := filter (\<lambda>x. \<not> P x) (t_sessions s),
       t_devices := filter (\<lambda>r. \<not> list_ex (\<lambda>x. P x \<and> dr_SessionID r = Some (s_ID x)) (t_sessions s)) (t_devices s)\<rparr>"

definition DeleteUserByID :: "driver \<Rightarrow> uuid \<Rightarrow> db \<Rightarrow> db_error + (nat \<times> db)" where
  "DeleteUserByID d i s =
     stmt d ''DeleteUserByID''
       (let n = length (filter (\<lambda>u. u_ID u = i) (t_users s));
            s1 = delete_sessions (\<lambda>x. s_UserID x = i) (delete_two_factors (\<lambda>t. tf_UserID t = i) s)
        in Inr (n, if n = 0 then s
                   else s1\<lparr>t_users := filter (\<lambda>u. u_ID u \<noteq> i) (t_users s),
                          t_members := filter (\<lambda>m. m_UserID m \<noteq> i) (t_members s),
                          t_access := filter (\<lambda>a. a_UserID a \<noteq> i) (t_access s),
                          t_accounts := filter (\<lambda>a. acc_UserID a \<noteq> i) (t_accounts s),
                          t_challenges := filter (\<lambda>c. lc_UserID c \<noteq> i) (t_challenges s),
                          t_devices := filter (\<lambda>r. dr_UserID r \<noteq> Some i) (t_devices s1)\<rparr>))"

section \<open>Projects and environments (query/projects.sql, environments.sql, environment_targets.sql)\<close>

definition GetProjectByID :: "driver \<Rightarrow> uuid \<Rightarrow> db \<Rightarrow> db_error + Project" where
  "GetProjectByID d i s = stmt d ''GetProjectByID'' (one_row (find (\<lambda>p. p_ID p = i) (t_projects s)))"

definition GetProjectForUpdate :: "driver \<Rightarrow> uuid \<Rightarrow> db \<Rightarrow> db_error + Project" where
  "GetProjectForUpdate d i s = stmt d ''GetProjectForUpdate'' (one_row (find (\<lambda>p. p_ID p = i) (t_projects s)))"

definition ListProjects :: "driver \<Rightarrow> db \<Rightarrow> db_error + Project list" where
  "ListProjects d s =
     stmt d ''ListProjects'' (Inr (sort_by (\<lambda>a b. drv_less d (p_Name a) (p_Name b)) (t_projects s)))"

definition ListProjectsForUser :: "driver \<Rightarrow> uuid \<Rightarrow> db \<Rightarrow> db_error + Project list" where
  "ListProjectsForUser d i s =
     stmt d ''ListProjectsForUser''
       (Inr (sort_by (\<lambda>a b. drv_less d (p_Name a) (p_Name b))
          (concat (map (\<lambda>p. map (\<lambda>_. p) (filter (\<lambda>m. m_ProjectID m = p_ID p \<and> m_UserID m = i) (t_members s)))
             (t_projects s)))))"

text \<open>\<^verbatim>\<open>CHECK (name ~ '^[a-z][a-z0-9-]{0,62}$')\<close>\<close>

definition name_check :: "string \<Rightarrow> bool" where
  "name_check s =
     (case s of [] \<Rightarrow> False
      | c # rest \<Rightarrow> 97 \<le> (of_char c :: nat) \<and> (of_char c :: nat) \<le> 122 \<and> length rest \<le> 62 \<and>
          list_all (\<lambda>c. 97 \<le> (of_char c :: nat) \<and> (of_char c :: nat) \<le> 122 \<or> is_digit c \<or> c = CHR ''-'') rest)"

definition CreateProject :: "driver \<Rightarrow> uuid \<Rightarrow> string \<Rightarrow> string \<Rightarrow> string \<Rightarrow> db \<Rightarrow> db_error + (Project \<times> db)" where
  "CreateProject d i name displayName sourceMode s =
     stmt d ''CreateProject''
       (if \<not> name_check name \<or> sourceMode \<notin> {''managed'', ''file''} then Inl CheckViolation
        else if list_ex (\<lambda>p. p_ID p = i \<or> p_Name p = name) (t_projects s) then Inl UniqueViolation
        else let p = \<lparr>p_ID = i, p_Name = name, p_DisplayName = displayName, p_SourceMode = sourceMode,
                      p_DeletingAt = None\<rparr>
             in Inr (p, s\<lparr>t_projects := t_projects s @ [p]\<rparr>))"

definition UpdateProject :: "driver \<Rightarrow> uuid \<Rightarrow> string \<Rightarrow> string \<Rightarrow> db \<Rightarrow> db_error + (Project \<times> db)" where
  "UpdateProject d i displayName sourceMode s =
     stmt d ''UpdateProject''
       (case find (\<lambda>p. p_ID p = i) (t_projects s) of
          None \<Rightarrow> Inl ErrNoRows
        | Some p \<Rightarrow>
            if sourceMode \<notin> {''managed'', ''file''} then Inl CheckViolation
            else let f = (\<lambda>p. p\<lparr>p_DisplayName := displayName, p_SourceMode := sourceMode\<rparr>)
                 in Inr (f p, s\<lparr>t_projects := map (\<lambda>p. if p_ID p = i then f p else p) (t_projects s)\<rparr>))"

definition GetEnvironmentByID :: "driver \<Rightarrow> uuid \<Rightarrow> db \<Rightarrow> db_error + Environment" where
  "GetEnvironmentByID d i s =
     stmt d ''GetEnvironmentByID'' (one_row (find (\<lambda>e. e_ID e = i) (t_environments s)))"

definition names_of :: "Environment \<Rightarrow> string list" where
  "names_of e = e_Name e # e_PreviousNames e"

definition GetEnvironmentNameOwner :: "driver \<Rightarrow> uuid \<Rightarrow> string \<Rightarrow> db \<Rightarrow> db_error + Environment" where
  "GetEnvironmentNameOwner d pid name s =
     stmt d ''GetEnvironmentNameOwner''
       (one_row (find (\<lambda>e. e_ProjectID e = pid \<and> name \<in> set (names_of e)) (t_environments s)))"

definition role_check :: "string \<Rightarrow> bool" where
  "role_check r \<longleftrightarrow> r \<in> {''none'', ''read'', ''deploy'', ''maintain'', ''admin''}"

definition CreateEnvironment_q ::
    "driver \<Rightarrow> uuid \<Rightarrow> uuid \<Rightarrow> string \<Rightarrow> string \<Rightarrow> string \<Rightarrow> db \<Rightarrow> db_error + (Environment \<times> db)" where
  "CreateEnvironment_q d i pid name maxRole priority s =
     stmt d ''CreateEnvironment''
       (if \<not> name_check name \<or> \<not> role_check maxRole \<or> priority \<notin> {''normal'', ''high''}
        then Inl CheckViolation
        else if list_ex (\<lambda>e. e_ID e = i \<or> e_ProjectID e = pid \<and> e_Name e = name) (t_environments s)
        then Inl UniqueViolation
        else if \<not> list_ex (\<lambda>p. p_ID p = pid) (t_projects s) then Inl ForeignKeyViolation
        else let e = \<lparr>e_ID = i, e_ProjectID = pid, e_Name = name, e_PreviousNames = [],
                      e_MaxRole = maxRole, e_DeployPolicy = ''direct'', e_PromoteFrom = [],
                      e_Priority = priority, e_BackupSchedule = [], e_BackupRetentionSeconds = 0,
                      e_BackupStrategy = ''complete'', e_BackupNamespace = i\<rparr>
             in Inr (e, s\<lparr>t_environments := t_environments s @ [e]\<rparr>))"

definition CreateEnvironmentTarget :: "driver \<Rightarrow> uuid \<Rightarrow> db \<Rightarrow> db_error + (unit \<times> db)" where
  "CreateEnvironmentTarget d i s =
     stmt d ''CreateEnvironmentTarget''
       (if i \<in> set (t_targets s) then Inl UniqueViolation
        else if \<not> list_ex (\<lambda>e. e_ID e = i) (t_environments s) then Inl ForeignKeyViolation
        else Inr ((), s\<lparr>t_targets := t_targets s @ [i]\<rparr>))"

text \<open>\<^verbatim>\<open>array_remove(array_append(previous_names, name), $2)\<close>; the first name a
  row had becomes its backup namespace when none is set.\<close>

definition renamed :: "string \<Rightarrow> Environment \<Rightarrow> Environment" where
  "renamed name e =
     e\<lparr>e_PreviousNames := removeAll name (e_PreviousNames e @ [e_Name e]), e_Name := name,
       e_BackupNamespace := (if e_BackupNamespace e = [] then e_Name e else e_BackupNamespace e)\<rparr>"

definition update_env_one ::
    "(Environment \<Rightarrow> Environment) \<Rightarrow> uuid \<Rightarrow> db \<Rightarrow> db_error + (Environment \<times> db)" where
  "update_env_one f i s =
     (case find (\<lambda>e. e_ID e = i) (t_environments s) of
        None \<Rightarrow> Inl ErrNoRows
      | Some e \<Rightarrow>
          Inr (f e, s\<lparr>t_environments := map (\<lambda>e. if e_ID e = i then f e else e) (t_environments s)\<rparr>))"

definition RenameEnvironment_q :: "driver \<Rightarrow> uuid \<Rightarrow> string \<Rightarrow> db \<Rightarrow> db_error + (Environment \<times> db)" where
  "RenameEnvironment_q d i name s =
     stmt d ''RenameEnvironment''
       (case find (\<lambda>e. e_ID e = i) (t_environments s) of
          None \<Rightarrow> Inl ErrNoRows
        | Some e \<Rightarrow>
            if \<not> name_check name then Inl CheckViolation
            else if list_ex (\<lambda>x. e_ID x \<noteq> i \<and> e_ProjectID x = e_ProjectID e \<and> e_Name x = name) (t_environments s)
            then Inl UniqueViolation
            else update_env_one (renamed name) i s)"

definition RenamePromotionSources :: "driver \<Rightarrow> uuid \<Rightarrow> string \<Rightarrow> string \<Rightarrow> db \<Rightarrow> db_error + (unit \<times> db)" where
  "RenamePromotionSources d pid old new s =
     stmt d ''RenamePromotionSources''
       (Inr ((), s\<lparr>t_environments :=
          map (\<lambda>e. if e_ProjectID e = pid \<and> old \<in> set (e_PromoteFrom e)
                   then e\<lparr>e_PromoteFrom := map (\<lambda>n. if n = old then new else n) (e_PromoteFrom e)\<rparr> else e)
            (t_environments s)\<rparr>))"

definition ListEnvironments :: "driver \<Rightarrow> uuid \<Rightarrow> db \<Rightarrow> db_error + Environment list" where
  "ListEnvironments d pid s =
     stmt d ''ListEnvironments''
       (Inr (sort_by (\<lambda>a b. drv_less d (e_Name a) (e_Name b))
          (filter (\<lambda>e. e_ProjectID e = pid) (t_environments s))))"

text \<open>The order of uuids is the byte order of their canonical text.\<close>

definition ListEnvironmentsForProjects :: "driver \<Rightarrow> uuid list \<Rightarrow> db \<Rightarrow> db_error + Environment list" where
  "ListEnvironmentsForProjects d pids s =
     stmt d ''ListEnvironmentsForProjects''
       (Inr (sort_by (\<lambda>a b. e_ProjectID a < e_ProjectID b \<or>
                         e_ProjectID a = e_ProjectID b \<and> drv_less d (e_Name a) (e_Name b))
          (filter (\<lambda>e. e_ProjectID e \<in> set pids) (t_environments s))))"

definition settings_check :: "Environment \<Rightarrow> bool" where
  "settings_check e \<longleftrightarrow>
     role_check (e_MaxRole e) \<and> e_DeployPolicy e \<in> {''direct'', ''promote-only''} \<and>
     e_Priority e \<in> {''normal'', ''high''} \<and> e_BackupStrategy e = ''complete''"

definition UpdateEnvironmentSettings_q ::
    "driver \<Rightarrow> uuid \<Rightarrow> (Environment \<Rightarrow> Environment) \<Rightarrow> db \<Rightarrow> db_error + (Environment \<times> db)" where
  "UpdateEnvironmentSettings_q d i f s =
     stmt d ''UpdateEnvironmentSettings''
       (case find (\<lambda>e. e_ID e = i) (t_environments s) of
          None \<Rightarrow> Inl ErrNoRows
        | Some e \<Rightarrow> if \<not> settings_check (f e) then Inl CheckViolation else update_env_one f i s)"

definition DeleteEnvironmentByID :: "driver \<Rightarrow> uuid \<Rightarrow> db \<Rightarrow> db_error + (nat \<times> db)" where
  "DeleteEnvironmentByID d i s =
     stmt d ''DeleteEnvironmentByID''
       (Inr (length (filter (\<lambda>e. e_ID e = i) (t_environments s)),
             s\<lparr>t_environments := filter (\<lambda>e. e_ID e \<noteq> i) (t_environments s),
               t_access := filter (\<lambda>a. a_EnvironmentID a \<noteq> i) (t_access s),
               t_targets := filter (\<lambda>t. t \<noteq> i) (t_targets s)\<rparr>))"

text \<open>Deleting a project: marking keeps the first time, and the row goes once it is marked and empty.\<close>

definition MarkProjectDeleting :: "driver \<Rightarrow> uuid \<Rightarrow> db \<Rightarrow> db_error + (Project \<times> db)" where
  "MarkProjectDeleting d i s =
     stmt d ''MarkProjectDeleting''
       (let mark = p_DeletingAt_update (\<lambda>at. case at of None \<Rightarrow> Some (drv_now d) | Some x \<Rightarrow> Some x) in
        case find (\<lambda>p. p_ID p = i) (t_projects s) of
          None \<Rightarrow> Inl ErrNoRows
        | Some p \<Rightarrow> Inr (mark p, s\<lparr>t_projects := map (\<lambda>p. if p_ID p = i then mark p else p) (t_projects s)\<rparr>))"

definition DeleteDeletingProjectIfEmpty :: "driver \<Rightarrow> uuid \<Rightarrow> db \<Rightarrow> db_error + (nat \<times> db)" where
  "DeleteDeletingProjectIfEmpty d i s =
     stmt d ''DeleteDeletingProjectIfEmpty''
       (if list_ex (\<lambda>p. p_ID p = i \<and> p_DeletingAt p \<noteq> None) (t_projects s) \<and>
           \<not> list_ex (\<lambda>e. e_ProjectID e = i) (t_environments s)
        then Inr (length (filter (\<lambda>p. p_ID p = i) (t_projects s)),
                  s\<lparr>t_projects := filter (\<lambda>p. p_ID p \<noteq> i) (t_projects s),
                    t_members := filter (\<lambda>m. m_ProjectID m \<noteq> i) (t_members s),
                    t_access := filter (\<lambda>a. a_ProjectID a \<noteq> i) (t_access s)\<rparr>)
        else Inr (0, s))"

section \<open>Memberships and cells (query/project_members.sql, environment_access.sql)\<close>

definition member_check :: "string \<Rightarrow> bool" where
  "member_check r \<longleftrightarrow> r \<in> {''read'', ''deploy'', ''maintain'', ''admin''}"

definition is_member :: "uuid \<Rightarrow> uuid \<Rightarrow> ProjectMember \<Rightarrow> bool" where
  "is_member pid uid m \<longleftrightarrow> m_ProjectID m = pid \<and> m_UserID m = uid"

definition UpsertProjectMember ::
    "driver \<Rightarrow> uuid \<Rightarrow> uuid \<Rightarrow> string \<Rightarrow> db \<Rightarrow> db_error + (ProjectMember \<times> db)" where
  "UpsertProjectMember d pid uid role s =
     stmt d ''UpsertProjectMember''
       (if \<not> member_check role then Inl CheckViolation
        else let m = \<lparr>m_ProjectID = pid, m_UserID = uid, m_Role = role\<rparr> in
          if list_ex (is_member pid uid) (t_members s)
          then Inr (m, s\<lparr>t_members := map (\<lambda>x. if is_member pid uid x then m else x) (t_members s)\<rparr>)
          else if \<not> list_ex (\<lambda>p. p_ID p = pid) (t_projects s) \<or> \<not> list_ex (\<lambda>u. u_ID u = uid) (t_users s)
          then Inl ForeignKeyViolation
          else Inr (m, s\<lparr>t_members := t_members s @ [m]\<rparr>))"

definition GetProjectMember :: "driver \<Rightarrow> uuid \<Rightarrow> uuid \<Rightarrow> db \<Rightarrow> db_error + ProjectMember" where
  "GetProjectMember d pid uid s =
     stmt d ''GetProjectMember'' (one_row (find (is_member pid uid) (t_members s)))"

text \<open>The join with users of the member listing, ordered by lower-case email.\<close>

definition ListProjectMembers :: "driver \<Rightarrow> uuid \<Rightarrow> db \<Rightarrow> db_error + (ProjectMember \<times> User) list" where
  "ListProjectMembers d pid s =
     stmt d ''ListProjectMembers''
       (Inr (sort_by (\<lambda>a b. drv_less d (drv_lower d (u_Email (snd a))) (drv_lower d (u_Email (snd b))))
          (concat (map (\<lambda>m. map (Pair m) (filter (\<lambda>u. u_ID u = m_UserID m) (t_users s)))
             (filter (\<lambda>m. m_ProjectID m = pid) (t_members s))))))"

text \<open>Removing a membership cascades to its cells.\<close>

definition DeleteProjectMember :: "driver \<Rightarrow> uuid \<Rightarrow> uuid \<Rightarrow> db \<Rightarrow> db_error + (nat \<times> db)" where
  "DeleteProjectMember d pid uid s =
     stmt d ''DeleteProjectMember''
       (Inr (length (filter (is_member pid uid) (t_members s)),
             if list_ex (is_member pid uid) (t_members s)
             then s\<lparr>t_members := filter (\<lambda>m. \<not> is_member pid uid m) (t_members s),
                    t_access := filter (\<lambda>a. \<not> (a_ProjectID a = pid \<and> a_UserID a = uid)) (t_access s)\<rparr>
             else s))"

definition ListProjectMembersForUser :: "driver \<Rightarrow> uuid \<Rightarrow> db \<Rightarrow> db_error + ProjectMember list" where
  "ListProjectMembersForUser d i s =
     stmt d ''ListProjectMembersForUser'' (Inr (filter (\<lambda>m. m_UserID m = i) (t_members s)))"

definition deploy_or_above :: "string \<Rightarrow> bool" where
  "deploy_or_above r \<longleftrightarrow> r \<in> {''deploy'', ''maintain'', ''admin''}"

definition UserIsDeployerAnywhere :: "driver \<Rightarrow> uuid \<Rightarrow> db \<Rightarrow> db_error + bool" where
  "UserIsDeployerAnywhere d i s =
     stmt d ''UserIsDeployerAnywhere''
       (Inr (list_ex (\<lambda>m. m_UserID m = i \<and> deploy_or_above (m_Role m)) (t_members s) \<or>
             list_ex (\<lambda>a. a_UserID a = i \<and> deploy_or_above (a_Role a)) (t_access s)))"

definition is_cell :: "uuid \<Rightarrow> uuid \<Rightarrow> EnvironmentAccess \<Rightarrow> bool" where
  "is_cell eid uid a \<longleftrightarrow> a_EnvironmentID a = eid \<and> a_UserID a = uid"

definition UpsertEnvironmentAccess ::
    "driver \<Rightarrow> uuid \<Rightarrow> uuid \<Rightarrow> uuid \<Rightarrow> string \<Rightarrow> db \<Rightarrow> db_error + (EnvironmentAccess \<times> db)" where
  "UpsertEnvironmentAccess d eid pid uid role s =
     stmt d ''UpsertEnvironmentAccess''
       (if \<not> role_check role then Inl CheckViolation
        else case find (is_cell eid uid) (t_access s) of
          Some a \<Rightarrow>
            Inr (a\<lparr>a_Role := role\<rparr>,
                 s\<lparr>t_access := map (\<lambda>x. if is_cell eid uid x then x\<lparr>a_Role := role\<rparr> else x) (t_access s)\<rparr>)
        | None \<Rightarrow>
            if \<not> list_ex (\<lambda>e. e_ID e = eid \<and> e_ProjectID e = pid) (t_environments s) \<or>
               \<not> list_ex (is_member pid uid) (t_members s)
            then Inl ForeignKeyViolation
            else let a = \<lparr>a_EnvironmentID = eid, a_ProjectID = pid, a_UserID = uid, a_Role = role\<rparr>
                 in Inr (a, s\<lparr>t_access := t_access s @ [a]\<rparr>))"

definition ListEnvironmentAccess :: "driver \<Rightarrow> uuid \<Rightarrow> db \<Rightarrow> db_error + (EnvironmentAccess \<times> User) list" where
  "ListEnvironmentAccess d eid s =
     stmt d ''ListEnvironmentAccess''
       (Inr (sort_by (\<lambda>a b. drv_less d (drv_lower d (u_Email (snd a))) (drv_lower d (u_Email (snd b))))
          (concat (map (\<lambda>a. map (Pair a) (filter (\<lambda>u. u_ID u = a_UserID a) (t_users s)))
             (filter (\<lambda>a. a_EnvironmentID a = eid) (t_access s))))))"

definition ListEnvironmentAccessForProject :: "driver \<Rightarrow> uuid \<Rightarrow> db \<Rightarrow> db_error + EnvironmentAccess list" where
  "ListEnvironmentAccessForProject d pid s =
     stmt d ''ListEnvironmentAccessForProject'' (Inr (filter (\<lambda>a. a_ProjectID a = pid) (t_access s)))"

definition ListEnvironmentAccessForUser :: "driver \<Rightarrow> uuid \<Rightarrow> db \<Rightarrow> db_error + EnvironmentAccess list" where
  "ListEnvironmentAccessForUser d i s =
     stmt d ''ListEnvironmentAccessForUser'' (Inr (filter (\<lambda>a. a_UserID a = i) (t_access s)))"

definition DeleteEnvironmentAccess :: "driver \<Rightarrow> uuid \<Rightarrow> uuid \<Rightarrow> db \<Rightarrow> db_error + (nat \<times> db)" where
  "DeleteEnvironmentAccess d eid uid s =
     stmt d ''DeleteEnvironmentAccess''
       (Inr (length (filter (is_cell eid uid) (t_access s)),
             s\<lparr>t_access := filter (\<lambda>a. \<not> is_cell eid uid a) (t_access s)\<rparr>))"

section \<open>What the schema guarantees\<close>

text \<open>The key columns of the tables.\<close>

abbreviation user_keys :: "db \<Rightarrow> uuid list" where "user_keys s \<equiv> map u_ID (t_users s)"
abbreviation project_keys :: "db \<Rightarrow> uuid list" where "project_keys s \<equiv> map p_ID (t_projects s)"
abbreviation env_keys :: "db \<Rightarrow> (uuid \<times> uuid) list" where
  "env_keys s \<equiv> map (\<lambda>e. (e_ID e, e_ProjectID e)) (t_environments s)"
abbreviation member_keys :: "db \<Rightarrow> (uuid \<times> uuid) list" where
  "member_keys s \<equiv> map (\<lambda>m. (m_ProjectID m, m_UserID m)) (t_members s)"
abbreviation cell_keys :: "db \<Rightarrow> (uuid \<times> uuid \<times> uuid) list" where
  "cell_keys s \<equiv> map (\<lambda>a. (a_EnvironmentID a, a_ProjectID a, a_UserID a)) (t_access s)"

text \<open>Primary and unique keys, and foreign keys, on the key columns alone.\<close>

definition keys_ok ::
    "uuid list \<Rightarrow> uuid list \<Rightarrow> (uuid \<times> uuid) list \<Rightarrow> (uuid \<times> uuid) list \<Rightarrow> (uuid \<times> uuid \<times> uuid) list
      \<Rightarrow> uuid list \<Rightarrow> string list \<Rightarrow> (uuid \<times> string) list \<Rightarrow> bool" where
  "keys_ok U P E M A T PN EN \<longleftrightarrow>
     distinct U \<and> distinct P \<and> distinct (map fst E) \<and> distinct T \<and> distinct M \<and>
     distinct (map (\<lambda>(e, p, u). (e, u)) A) \<and> distinct PN \<and> distinct EN \<and>
     (\<forall>(e, p) \<in> set E. p \<in> set P) \<and> (\<forall>(p, u) \<in> set M. p \<in> set P \<and> u \<in> set U) \<and>
     (\<forall>(e, p, u) \<in> set A. (e, p) \<in> set E \<and> (p, u) \<in> set M) \<and>
     (\<forall>t \<in> set T. \<exists>p. (t, p) \<in> set E)"

abbreviation env_names :: "db \<Rightarrow> (uuid \<times> string) list" where
  "env_names s \<equiv> map (\<lambda>e. (e_ProjectID e, e_Name e)) (t_environments s)"

definition checks_ok :: "db \<Rightarrow> bool" where
  "checks_ok s \<longleftrightarrow>
     (\<forall>u \<in> set (t_users s). user_check (u_Role u)) \<and>
     (\<forall>p \<in> set (t_projects s). name_check (p_Name p)) \<and>
     (\<forall>e \<in> set (t_environments s). name_check (e_Name e) \<and> settings_check e) \<and>
     (\<forall>m \<in> set (t_members s). member_check (m_Role m)) \<and>
     (\<forall>a \<in> set (t_access s). role_check (a_Role a))"

definition schema_ok :: "db \<Rightarrow> bool" where
  "schema_ok s \<longleftrightarrow>
     keys_ok (user_keys s) (project_keys s) (env_keys s) (member_keys s) (cell_keys s) (t_targets s)
       (map p_Name (t_projects s)) (env_names s) \<and> checks_ok s"

named_theorems schema_keeps "statements that keep the schema's constraints"

lemma stmt_InrD: "stmt d n r = Inr x \<Longrightarrow> r = Inr x"
  by (simp add: stmt_def split: option.splits)

lemma one_row_Inr [simp]: "one_row r = Inr x \<longleftrightarrow> r = Some x"
  by (simp add: one_row_def split: option.splits)

lemma WithTx_Inr: "WithTx d w f s = Inr r \<Longrightarrow> f s = Inr r"
  by (simp add: WithTx_def split: option.splits sum.splits)

lemma map_update_keys:
  "(\<And>x. P x \<Longrightarrow> k (f x) = k x) \<Longrightarrow> map k (map (\<lambda>x. if P x then f x else x) xs) = map k xs"
  by (induction xs) auto

lemma map_filter_key: "(\<And>x. P x = Q (k x)) \<Longrightarrow> map k (filter P xs) = filter Q (map k xs)"
  by (induction xs) auto

subsection \<open>How the key columns may change\<close>

lemma keys_add_user: "keys_ok U P E M A T PN EN \<Longrightarrow> u \<notin> set U \<Longrightarrow> keys_ok (U @ [u]) P E M A T PN EN"
  unfolding keys_ok_def by auto

lemma keys_del_user:
  "keys_ok U P E M A T PN EN \<Longrightarrow>
   keys_ok (filter (\<lambda>x. x \<noteq> u) U) P E (filter (\<lambda>(p, x). x \<noteq> u) M) (filter (\<lambda>(e, p, x). x \<noteq> u) A) T PN EN"
  unfolding keys_ok_def by (auto intro: distinct_map_filter)

lemma keys_add_project:
  "keys_ok U P E M A T PN EN \<Longrightarrow> p \<notin> set P \<Longrightarrow> n \<notin> set PN \<Longrightarrow> keys_ok U (P @ [p]) E M A T (PN @ [n]) EN"
  unfolding keys_ok_def by auto

lemma keys_add_env:
  "keys_ok U P E M A T PN EN \<Longrightarrow> e \<notin> fst ` set E \<Longrightarrow> p \<in> set P \<Longrightarrow> (p, n) \<notin> set EN \<Longrightarrow>
   keys_ok U P (E @ [(e, p)]) M A T PN (EN @ [(p, n)])"
  unfolding keys_ok_def by (auto 0 4)

lemma keys_add_target:
  "keys_ok U P E M A T PN EN \<Longrightarrow> e \<notin> set T \<Longrightarrow> e \<in> fst ` set E \<Longrightarrow> keys_ok U P E M A (T @ [e]) PN EN"
  unfolding keys_ok_def by auto

lemma keys_del_env:
  "keys_ok U P E M A T PN EN \<Longrightarrow> distinct EN' \<Longrightarrow>
   keys_ok U P (filter (\<lambda>(x, p). x \<noteq> e) E) M (filter (\<lambda>(x, p, u). x \<noteq> e) A) (filter (\<lambda>x. x \<noteq> e) T) PN EN'"
  unfolding keys_ok_def by (auto 0 4 intro: distinct_map_filter)

lemma keys_del_project:
  "keys_ok U P E M A T PN EN \<Longrightarrow> (\<forall>(e, q) \<in> set E. q \<noteq> p) \<Longrightarrow> distinct PN' \<Longrightarrow>
   keys_ok U (filter (\<lambda>q. q \<noteq> p) P) E (filter (\<lambda>(q, u). q \<noteq> p) M) (filter (\<lambda>(e, q, u). q \<noteq> p) A) T PN' EN"
  unfolding keys_ok_def by (auto intro: distinct_map_filter)

lemma keys_env_names: "keys_ok U P E M A T PN EN \<Longrightarrow> distinct EN' \<Longrightarrow> keys_ok U P E M A T PN EN'"
  unfolding keys_ok_def by blast

lemma keys_add_member:
  "keys_ok U P E M A T PN EN \<Longrightarrow> p \<in> set P \<Longrightarrow> u \<in> set U \<Longrightarrow> (p, u) \<notin> set M \<Longrightarrow>
   keys_ok U P E (M @ [(p, u)]) A T PN EN"
  unfolding keys_ok_def by auto

lemma keys_del_member:
  "keys_ok U P E M A T PN EN \<Longrightarrow>
   keys_ok U P E (filter (\<lambda>x. x \<noteq> (p, u)) M) (filter (\<lambda>(e, q, x). (q, x) \<noteq> (p, u)) A) T PN EN"
  unfolding keys_ok_def by (auto intro: distinct_map_filter)

lemma keys_add_cell:
  "keys_ok U P E M A T PN EN \<Longrightarrow> (e, p) \<in> set E \<Longrightarrow> (p, u) \<in> set M \<Longrightarrow>
   (e, u) \<notin> (\<lambda>(e, p, u). (e, u)) ` set A \<Longrightarrow> keys_ok U P E M (A @ [(e, p, u)]) T PN EN"
  unfolding keys_ok_def by auto

lemma keys_del_cell:
  "keys_ok U P E M A T PN EN \<Longrightarrow> keys_ok U P E M (filter Q A) T PN EN"
  unfolding keys_ok_def by (auto intro: distinct_map_filter)

subsection \<open>Every statement keeps the schema\<close>

lemma schema_auth_tables [simp]:
  "schema_ok (s\<lparr>t_accounts := a\<rparr>) = schema_ok s" "schema_ok (s\<lparr>t_sessions := b\<rparr>) = schema_ok s"
  "schema_ok (s\<lparr>t_two_factors := c\<rparr>) = schema_ok s" "schema_ok (s\<lparr>t_backup_codes := x\<rparr>) = schema_ok s"
  "schema_ok (s\<lparr>t_challenges := y\<rparr>) = schema_ok s" "schema_ok (s\<lparr>t_devices := z\<rparr>) = schema_ok s"
  by (simp_all add: schema_ok_def checks_ok_def)

lemma schema_delete_two_factors [simp]: "schema_ok (delete_two_factors P s) = schema_ok s"
  by (simp add: delete_two_factors_def schema_ok_def checks_ok_def)

lemma schema_delete_sessions [simp]: "schema_ok (delete_sessions P s) = schema_ok s"
  by (simp add: delete_sessions_def schema_ok_def checks_ok_def)

lemma schema_same_keys:
  assumes "schema_ok s" "checks_ok s'" "distinct (env_names s')"
    and "user_keys s' = user_keys s" "project_keys s' = project_keys s" "env_keys s' = env_keys s"
    and "member_keys s' = member_keys s" "cell_keys s' = cell_keys s" "t_targets s' = t_targets s"
    and "map p_Name (t_projects s') = map p_Name (t_projects s)"
  shows "schema_ok s'"
  using assms(1,2) keys_env_names [OF _ assms(3)] unfolding schema_ok_def assms(4-10) by blast

lemma schema_env_names: "schema_ok s \<Longrightarrow> distinct (env_names s)"
  by (simp only: schema_ok_def keys_ok_def)

lemma schema_checks: "schema_ok s \<Longrightarrow> checks_ok s"
  by (simp only: schema_ok_def)

lemma schema_update_users:
  assumes "schema_ok s" "\<And>u. u_ID (f u) = u_ID u" "\<And>u. user_check (u_Role u) \<Longrightarrow> user_check (u_Role (f u))"
  shows "schema_ok (update_users f i s)"
proof -
  have k: "user_keys (update_users f i s) = user_keys s"
    unfolding update_users_def using assms(2) by (simp add: map_update_keys)
  show ?thesis
    using assms unfolding schema_ok_def k by (auto simp: update_users_def checks_ok_def)
qed

lemma update_user_one_schema:
  assumes "update_user_one f i s = Inr (u, s')" "schema_ok s"
    and "\<And>u. u_ID (f u) = u_ID u" "\<And>u. user_check (u_Role u) \<Longrightarrow> user_check (u_Role (f u))"
  shows "schema_ok s'"
  using assms schema_update_users [of s f i]
  by (auto simp: update_user_one_def split: option.splits)

lemma CreateUser_q_schema [schema_keeps]:
  assumes "CreateUser_q d i email name role s = Inr (u, s')" "schema_ok s"
  shows "schema_ok s'"
proof -
  from stmt_InrD [OF assms(1) [unfolded CreateUser_q_def]]
  have s': "s' = s\<lparr>t_users := t_users s @ [u]\<rparr>" and u: "u_ID u = i" "u_Role u = role" "user_check role"
    "i \<notin> set (user_keys s)"
    by (auto simp: Let_def list_ex_iff split: if_splits)
  show ?thesis
    using assms(2) u keys_add_user [of "user_keys s"] unfolding schema_ok_def s'
    by (simp add: checks_ok_def)
qed

lemma SetUserRole_q_schema [schema_keeps]:
  assumes "SetUserRole_q d i role s = Inr (u, s')" "schema_ok s"
  shows "schema_ok s'"
proof -
  note r = stmt_InrD [OF assms(1) [unfolded SetUserRole_q_def]]
  have "user_check role"
    using r by (auto simp: update_user_one_def list_ex_iff split: if_splits option.splits dest: find_SomeD)
  then show ?thesis
    using r by (auto intro!: update_user_one_schema [OF _ assms(2)] split: if_splits)
qed

lemma SetUserName_q_schema [schema_keeps]:
  "SetUserName_q d i name s = Inr (u, s') \<Longrightarrow> schema_ok s \<Longrightarrow> schema_ok s'"
  unfolding SetUserName_q_def by (drule stmt_InrD, erule update_user_one_schema) simp_all

lemma SetUserCreateProjects_q_schema [schema_keeps]:
  "SetUserCreateProjects_q d i b s = Inr (u, s') \<Longrightarrow> schema_ok s \<Longrightarrow> schema_ok s'"
  unfolding SetUserCreateProjects_q_def by (drule stmt_InrD, erule update_user_one_schema) simp_all

lemma SetUserTwoFactorEnabled_schema [schema_keeps]:
  "SetUserTwoFactorEnabled d i b s = Inr (u, s') \<Longrightarrow> schema_ok s \<Longrightarrow> schema_ok s'"
  unfolding SetUserTwoFactorEnabled_def by (drule stmt_InrD) (auto intro: schema_update_users)

lemma DeleteUserByID_schema [schema_keeps]:
  assumes "DeleteUserByID d i s = Inr (n, s')" "schema_ok s"
  shows "schema_ok s'"
proof (cases "filter (\<lambda>u. u_ID u = i) (t_users s) = []")
  case True
  then show ?thesis
    using stmt_InrD [OF assms(1) [unfolded DeleteUserByID_def]] assms(2) by (simp add: Let_def)
next
  case False
  define s1 where "s1 = s\<lparr>t_users := filter (\<lambda>u. u_ID u \<noteq> i) (t_users s),
      t_members := filter (\<lambda>m. m_UserID m \<noteq> i) (t_members s), t_access := filter (\<lambda>a. a_UserID a \<noteq> i) (t_access s)\<rparr>"
  have "schema_ok s1"
  proof -
    have "user_keys s1 = filter (\<lambda>x. x \<noteq> i) (user_keys s)"
      "member_keys s1 = filter (\<lambda>(p, x). x \<noteq> i) (member_keys s)"
      "cell_keys s1 = filter (\<lambda>(e, p, x). x \<noteq> i) (cell_keys s)"
      by (auto simp: s1_def intro: map_filter_key)
    moreover have "checks_ok s1" using assms(2) by (simp add: s1_def schema_ok_def checks_ok_def)
    ultimately show ?thesis
      using keys_del_user [OF conjunct1 [OF assms(2) [unfolded schema_ok_def]], of i]
      unfolding schema_ok_def by (simp add: s1_def)
  qed
  moreover have "schema_ok s' = schema_ok s1"
    using stmt_InrD [OF assms(1) [unfolded DeleteUserByID_def]] False
    by (auto simp: Let_def s1_def delete_two_factors_def delete_sessions_def schema_ok_def checks_ok_def)
  ultimately show ?thesis by simp
qed

lemma CreateProject_schema [schema_keeps]:
  assumes "CreateProject d i name dn sm s = Inr (p, s')" "schema_ok s"
  shows "schema_ok s'"
proof -
  from stmt_InrD [OF assms(1) [unfolded CreateProject_def]]
  have s': "s' = s\<lparr>t_projects := t_projects s @ [p]\<rparr>" and p: "p_ID p = i" "p_Name p = name" "name_check name"
    "i \<notin> set (project_keys s)" "name \<notin> set (map p_Name (t_projects s))"
    by (auto simp: Let_def list_ex_iff split: if_splits)
  show ?thesis
    using assms(2) p keys_add_project [of _ "project_keys s"] unfolding schema_ok_def s'
    by (simp add: checks_ok_def)
qed

lemma UpdateProject_schema [schema_keeps]:
  assumes "UpdateProject d i dn sm s = Inr (p, s')" "schema_ok s"
  shows "schema_ok s'"
proof -
  let ?f = "\<lambda>p. p\<lparr>p_DisplayName := dn, p_SourceMode := sm\<rparr>"
  have s': "s' = s\<lparr>t_projects := map (\<lambda>p. if p_ID p = i then ?f p else p) (t_projects s)\<rparr>"
    using stmt_InrD [OF assms(1) [unfolded UpdateProject_def]]
    by (auto simp: Let_def split: option.splits if_splits)
  have "project_keys s' = project_keys s" "map p_Name (t_projects s') = map p_Name (t_projects s)"
    unfolding s' by (simp_all add: map_update_keys)
  moreover have "checks_ok s'"
    using schema_checks [OF assms(2)] by (auto simp: s' checks_ok_def)
  ultimately show ?thesis
    using schema_env_names [OF assms(2)] by (intro schema_same_keys [OF assms(2)]) (simp_all add: s')
qed

lemma CreateEnvironment_q_schema [schema_keeps]:
  assumes "CreateEnvironment_q d i pid name r pr s = Inr (e, s')" "schema_ok s"
  shows "schema_ok s'"
proof -
  from stmt_InrD [OF assms(1) [unfolded CreateEnvironment_q_def]]
  have s': "s' = s\<lparr>t_environments := t_environments s @ [e]\<rparr>"
    and e: "e_ID e = i" "e_ProjectID e = pid" "e_Name e = name" "name_check name" "settings_check e"
    "i \<notin> fst ` set (env_keys s)" "pid \<in> set (project_keys s)" "(pid, name) \<notin> set (env_names s)"
    by (auto simp: Let_def list_ex_iff settings_check_def split: if_splits)
  show ?thesis
    using assms(2) e keys_add_env [of _ "project_keys s" "env_keys s" _ _ _ _ _ i pid name]
    unfolding schema_ok_def s' by (simp add: checks_ok_def)
qed

lemma CreateEnvironmentTarget_schema [schema_keeps]:
  assumes "CreateEnvironmentTarget d i s = Inr (u, s')" "schema_ok s"
  shows "schema_ok s'"
proof -
  from stmt_InrD [OF assms(1) [unfolded CreateEnvironmentTarget_def]]
  have "s' = s\<lparr>t_targets := t_targets s @ [i]\<rparr>" "i \<notin> set (t_targets s)" "i \<in> fst ` set (env_keys s)"
    by (auto simp: list_ex_iff image_iff split: if_splits)
  then show ?thesis
    using assms(2) keys_add_target unfolding schema_ok_def by (simp add: checks_ok_def)
qed

text \<open>An update of environment rows that keeps their keys.\<close>

lemma schema_update_envs:
  assumes "schema_ok s" "\<And>e. e_ID (f e) = e_ID e" "\<And>e. e_ProjectID (f e) = e_ProjectID e"
    and "\<And>e. e \<in> set (t_environments s) \<Longrightarrow> name_check (e_Name e) \<Longrightarrow> settings_check e \<Longrightarrow>
      name_check (e_Name (f e)) \<and> settings_check (f e)"
    and "distinct (map (\<lambda>e. (e_ProjectID e, e_Name (f e))) (t_environments s))"
  shows "schema_ok (s\<lparr>t_environments := map f (t_environments s)\<rparr>)"
proof -
  have "checks_ok (s\<lparr>t_environments := map f (t_environments s)\<rparr>)"
    using schema_checks [OF assms(1)] assms(4) by (auto simp: checks_ok_def)
  then show ?thesis
    using assms(2,3,5) by (intro schema_same_keys [OF assms(1)]) (simp_all add: comp_def)
qed

lemma update_env_one_schema:
  assumes "update_env_one f i s = Inr (e, s')" "schema_ok s"
    and "\<And>e. e_ID (f e) = e_ID e" "\<And>e. e_ProjectID (f e) = e_ProjectID e" "\<And>e. e_Name (f e) = e_Name e"
    and "\<And>e. e \<in> set (t_environments s) \<Longrightarrow> e_ID e = i \<Longrightarrow> settings_check (f e)"
  shows "schema_ok s'"
proof -
  have "s' = s\<lparr>t_environments := map (\<lambda>e. if e_ID e = i then f e else e) (t_environments s)\<rparr>"
    using assms(1) by (auto simp: update_env_one_def split: option.splits)
  moreover have "distinct (map (\<lambda>e. (e_ProjectID e, e_Name (if e_ID e = i then f e else e))) (t_environments s))"
  proof -
    have "(\<lambda>e. (e_ProjectID e, e_Name (if e_ID e = i then f e else e))) = (\<lambda>e. (e_ProjectID e, e_Name e))"
      by (simp add: fun_eq_iff assms(5))
    then show ?thesis using schema_env_names [OF assms(2)] by simp
  qed
  ultimately show ?thesis
    using assms by (auto intro!: schema_update_envs)
qed

lemma env_ids_unique:
  assumes "schema_ok s" "x \<in> set (t_environments s)" "y \<in> set (t_environments s)" "e_ID x = e_ID y"
  shows "x = y"
proof -
  have "distinct (map e_ID (t_environments s))"
    using assms(1) by (simp add: schema_ok_def keys_ok_def comp_def)
  then show ?thesis using assms(2-4) by (simp add: distinct_map inj_on_def)
qed

lemma UpdateEnvironmentSettings_q_schema [schema_keeps]:
  assumes "UpdateEnvironmentSettings_q d i f s = Inr (e, s')" "schema_ok s"
    and "\<And>e. e_ID (f e) = e_ID e" "\<And>e. e_ProjectID (f e) = e_ProjectID e" "\<And>e. e_Name (f e) = e_Name e"
  shows "schema_ok s'"
proof -
  show ?thesis
    using stmt_InrD [OF assms(1) [unfolded UpdateEnvironmentSettings_q_def]] env_ids_unique [OF assms(2)]
    by (auto intro!: update_env_one_schema [OF _ assms(2-5)] dest: find_SomeD split: option.splits if_splits)
qed

lemma RenamePromotionSources_schema [schema_keeps]:
  assumes "RenamePromotionSources d pid a b s = Inr (u, s')" "schema_ok s"
  shows "schema_ok s'"
proof -
  have "s' = s\<lparr>t_environments := map (\<lambda>e. if e_ProjectID e = pid \<and> a \<in> set (e_PromoteFrom e)
      then e\<lparr>e_PromoteFrom := map (\<lambda>n. if n = a then b else n) (e_PromoteFrom e)\<rparr> else e) (t_environments s)\<rparr>"
    using stmt_InrD [OF assms(1) [unfolded RenamePromotionSources_def]] by simp
  moreover have "distinct (env_names s)" by (rule schema_env_names [OF assms(2)])
  ultimately show ?thesis
    using assms(2) by (auto intro!: schema_update_envs simp: settings_check_def if_distrib cong: if_cong)
qed

lemma RenameEnvironment_q_schema [schema_keeps]:
  assumes "RenameEnvironment_q d i name s = Inr (e, s')" "schema_ok s"
  shows "schema_ok s'"
proof -
  obtain e0 where e0: "find (\<lambda>e. e_ID e = i) (t_environments s) = Some e0" and n: "name_check name"
    and u: "\<And>x. x \<in> set (t_environments s) \<Longrightarrow> e_ID x \<noteq> i \<Longrightarrow> e_ProjectID x = e_ProjectID e0 \<Longrightarrow> e_Name x \<noteq> name"
    and s': "s' = s\<lparr>t_environments := map (\<lambda>e. if e_ID e = i then renamed name e else e) (t_environments s)\<rparr>"
    using stmt_InrD [OF assms(1) [unfolded RenameEnvironment_q_def]]
    by (auto simp: list_ex_iff update_env_one_def split: option.splits if_splits)
  have i: "e0 \<in> set (t_environments s)" "e_ID e0 = i" using e0 by (auto dest: find_SomeD)
  have eq: "x = e0" if "x \<in> set (t_environments s)" "e_ID x = i" for x
    using env_ids_unique [OF assms(2) that(1) i(1)] that(2) i(2) by simp
  have d: "distinct (t_environments s)" "inj_on (\<lambda>e. (e_ProjectID e, e_Name e)) (set (t_environments s))"
    using schema_env_names [OF assms(2)] by (simp_all add: distinct_map)
  have "inj_on (\<lambda>e. (e_ProjectID e, e_Name (if e_ID e = i then renamed name e else e))) (set (t_environments s))"
  proof (rule inj_onI)
    fix x y assume xy: "x \<in> set (t_environments s)" "y \<in> set (t_environments s)"
      "(e_ProjectID x, e_Name (if e_ID x = i then renamed name x else x)) =
       (e_ProjectID y, e_Name (if e_ID y = i then renamed name y else y))"
    show "x = y"
    proof (cases "e_ID x = i \<or> e_ID y = i")
      case False
      then show ?thesis using inj_onD [OF d(2) _ xy(1,2)] xy(3) by simp
    next
      case True
      have "e_ID x = i \<and> e_ID y = i"
      proof (rule ccontr)
        assume "\<not> (e_ID x = i \<and> e_ID y = i)"
        with True consider "e_ID x = i" "e_ID y \<noteq> i" | "e_ID y = i" "e_ID x \<noteq> i" by blast
        then show False
        proof cases
          case 1
          then show False using u [OF xy(2)] eq [OF xy(1)] xy(3) by (simp add: renamed_def)
        next
          case 2
          then show False using u [OF xy(1)] eq [OF xy(2)] xy(3) by (simp add: renamed_def)
        qed
      qed
      then show ?thesis using eq [OF xy(1)] eq [OF xy(2)] by simp
    qed
  qed
  with d(1) have "distinct (map (\<lambda>e. (e_ProjectID e, e_Name (if e_ID e = i then renamed name e else e))) (t_environments s))"
    by (simp add: distinct_map)
  then show ?thesis
    unfolding s' using n by (intro schema_update_envs [OF assms(2)]) (simp_all add: renamed_def settings_check_def)
qed

lemma DeleteEnvironmentByID_schema [schema_keeps]:
  assumes "DeleteEnvironmentByID d i s = Inr (n, s')" "schema_ok s"
  shows "schema_ok s'"
proof -
  have s': "s' = s\<lparr>t_environments := filter (\<lambda>e. e_ID e \<noteq> i) (t_environments s),
      t_access := filter (\<lambda>a. a_EnvironmentID a \<noteq> i) (t_access s), t_targets := filter (\<lambda>t. t \<noteq> i) (t_targets s)\<rparr>"
    using stmt_InrD [OF assms(1) [unfolded DeleteEnvironmentByID_def]] by simp
  have "env_keys s' = filter (\<lambda>(x, p). x \<noteq> i) (env_keys s)"
    "cell_keys s' = filter (\<lambda>(x, p, u). x \<noteq> i) (cell_keys s)"
    by (auto simp: s' intro: map_filter_key)
  moreover have "distinct (env_names s')"
    using schema_env_names [OF assms(2)] by (simp add: s' distinct_map_filter)
  moreover have "checks_ok s'" using assms(2) by (simp add: s' schema_ok_def checks_ok_def)
  ultimately show ?thesis
    using keys_del_env [OF conjunct1 [OF assms(2) [unfolded schema_ok_def]], of "env_names s'" i]
    unfolding schema_ok_def by (simp add: s')
qed

lemma MarkProjectDeleting_schema [schema_keeps]:
  assumes "MarkProjectDeleting d i s = Inr (p, s')" "schema_ok s"
  shows "schema_ok s'"
proof -
  obtain f where s': "s' = s\<lparr>t_projects := map (\<lambda>p. if p_ID p = i then f p else p) (t_projects s)\<rparr>"
    and f: "\<And>p. p_ID (f p) = p_ID p" "\<And>p. p_Name (f p) = p_Name p"
    using stmt_InrD [OF assms(1) [unfolded MarkProjectDeleting_def]] by (auto simp: Let_def split: option.splits)
  have "project_keys s' = project_keys s" "map p_Name (t_projects s') = map p_Name (t_projects s)"
    by (simp_all add: s' map_update_keys f)
  moreover have "checks_ok s'" using schema_checks [OF assms(2)] by (auto simp: s' checks_ok_def f)
  ultimately show ?thesis
    using schema_env_names [OF assms(2)] by (intro schema_same_keys [OF assms(2)]) (simp_all add: s')
qed

lemma DeleteDeletingProjectIfEmpty_schema [schema_keeps]:
  assumes "DeleteDeletingProjectIfEmpty d i s = Inr (n, s')" "schema_ok s"
  shows "schema_ok s'"
proof (cases "s' = s")
  case False
  then have s': "s' = s\<lparr>t_projects := filter (\<lambda>p. p_ID p \<noteq> i) (t_projects s),
      t_members := filter (\<lambda>m. m_ProjectID m \<noteq> i) (t_members s),
      t_access := filter (\<lambda>a. a_ProjectID a \<noteq> i) (t_access s)\<rparr>"
    and e: "\<forall>(e, q) \<in> set (env_keys s). q \<noteq> i"
    using stmt_InrD [OF assms(1) [unfolded DeleteDeletingProjectIfEmpty_def]] by (auto simp: list_ex_iff split: if_splits)
  have "project_keys s' = filter (\<lambda>q. q \<noteq> i) (project_keys s)"
    "member_keys s' = filter (\<lambda>(q, u). q \<noteq> i) (member_keys s)"
    "cell_keys s' = filter (\<lambda>(e, q, u). q \<noteq> i) (cell_keys s)"
    by (auto simp: s' intro: map_filter_key)
  moreover have "distinct (map p_Name (t_projects s'))"
    using assms(2) by (simp add: s' schema_ok_def keys_ok_def distinct_map_filter)
  moreover have "checks_ok s'" using schema_checks [OF assms(2)] by (simp add: s' checks_ok_def)
  ultimately show ?thesis
    using keys_del_project [OF conjunct1 [OF assms(2) [unfolded schema_ok_def]] e, of "map p_Name (t_projects s')"]
    unfolding schema_ok_def by (simp add: s')
qed (use assms(2) in simp)

lemma UpsertProjectMember_schema [schema_keeps]:
  assumes "UpsertProjectMember d pid uid role s = Inr (m, s')" "schema_ok s"
  shows "schema_ok s'"
proof -
  note r = stmt_InrD [OF assms(1) [unfolded UpsertProjectMember_def]]
  have m: "m = \<lparr>m_ProjectID = pid, m_UserID = uid, m_Role = role\<rparr>" and c: "member_check role"
    using r by (auto simp: Let_def split: if_splits)
  show ?thesis
  proof (cases "list_ex (is_member pid uid) (t_members s)")
    case True
    have s': "s' = s\<lparr>t_members := map (\<lambda>x. if is_member pid uid x then m else x) (t_members s)\<rparr>"
      using r True by (auto simp: Let_def m split: if_splits)
    have "member_keys s' = member_keys s"
      unfolding s' by (simp add: m is_member_def)
    moreover have "checks_ok s'"
      using schema_checks [OF assms(2)] c by (auto simp: s' checks_ok_def m)
    ultimately show ?thesis
      using schema_env_names [OF assms(2)] by (intro schema_same_keys [OF assms(2)]) (simp_all add: s')
  next
    case False
    have s': "s' = s\<lparr>t_members := t_members s @ [m]\<rparr>" and p: "pid \<in> set (project_keys s)" "uid \<in> set (user_keys s)"
      using r False by (auto simp: Let_def m list_ex_iff split: if_splits)
    have "(pid, uid) \<notin> set (member_keys s)"
      using False by (auto simp: list_ex_iff is_member_def)
    from keys_add_member [OF conjunct1 [OF assms(2) [unfolded schema_ok_def]] p this]
    show ?thesis
      using schema_checks [OF assms(2)] c unfolding schema_ok_def s' by (simp add: m checks_ok_def)
  qed
qed

lemma DeleteProjectMember_schema [schema_keeps]:
  assumes "DeleteProjectMember d pid uid s = Inr (n, s')" "schema_ok s"
  shows "schema_ok s'"
proof (cases "list_ex (is_member pid uid) (t_members s)")
  case True
  have s': "s' = s\<lparr>t_members := filter (\<lambda>m. \<not> is_member pid uid m) (t_members s),
      t_access := filter (\<lambda>a. \<not> (a_ProjectID a = pid \<and> a_UserID a = uid)) (t_access s)\<rparr>"
    using stmt_InrD [OF assms(1) [unfolded DeleteProjectMember_def]] True by simp
  have "member_keys s' = filter (\<lambda>x. x \<noteq> (pid, uid)) (member_keys s)"
    "cell_keys s' = filter (\<lambda>(e, q, x). (q, x) \<noteq> (pid, uid)) (cell_keys s)"
    by (auto simp: s' is_member_def intro!: map_filter_key)
  then show ?thesis
    using keys_del_member [OF conjunct1 [OF assms(2) [unfolded schema_ok_def]], of pid uid]
      schema_checks [OF assms(2)]
    unfolding schema_ok_def by (simp add: s' checks_ok_def)
next
  case False
  then show ?thesis
    using stmt_InrD [OF assms(1) [unfolded DeleteProjectMember_def]] assms(2) by simp
qed

lemma UpsertEnvironmentAccess_schema [schema_keeps]:
  assumes "UpsertEnvironmentAccess d eid pid uid role s = Inr (a, s')" "schema_ok s"
  shows "schema_ok s'"
proof -
  note r = stmt_InrD [OF assms(1) [unfolded UpsertEnvironmentAccess_def]]
  have c: "role_check role"
    using r by (auto split: if_splits)
  show ?thesis
  proof (cases "find (is_cell eid uid) (t_access s)")
    case (Some x)
    have s': "s' = s\<lparr>t_access := map (\<lambda>x. if is_cell eid uid x then x\<lparr>a_Role := role\<rparr> else x) (t_access s)\<rparr>"
      using r Some c by simp
    have "cell_keys s' = cell_keys s"
      unfolding s' by simp
    moreover have "checks_ok s'"
      using schema_checks [OF assms(2)] c by (auto simp: s' checks_ok_def)
    ultimately show ?thesis
      using schema_env_names [OF assms(2)] by (intro schema_same_keys [OF assms(2)]) (simp_all add: s')
  next
    case None
    have s': "s' = s\<lparr>t_access := t_access s @ [a]\<rparr>" and k: "(eid, pid) \<in> set (env_keys s)"
      "(pid, uid) \<in> set (member_keys s)"
      and a: "a = \<lparr>a_EnvironmentID = eid, a_ProjectID = pid, a_UserID = uid, a_Role = role\<rparr>"
      using r None by (auto simp: Let_def list_ex_iff is_member_def split: if_splits) force
    have "(eid, uid) \<notin> (\<lambda>(e, p, u). (e, u)) ` set (cell_keys s)"
      using None by (auto simp: find_None_iff is_cell_def)
    from keys_add_cell [OF conjunct1 [OF assms(2) [unfolded schema_ok_def]] k this]
    show ?thesis
      using schema_checks [OF assms(2)] c unfolding schema_ok_def s' by (simp add: a checks_ok_def)
  qed
qed

lemma DeleteEnvironmentAccess_schema [schema_keeps]:
  assumes "DeleteEnvironmentAccess d eid uid s = Inr (n, s')" "schema_ok s"
  shows "schema_ok s'"
proof -
  have s': "s' = s\<lparr>t_access := filter (\<lambda>a. \<not> is_cell eid uid a) (t_access s)\<rparr>"
    using stmt_InrD [OF assms(1) [unfolded DeleteEnvironmentAccess_def]] by simp
  have "cell_keys s' = filter (\<lambda>(e, p, u). \<not> (e = eid \<and> u = uid)) (cell_keys s)"
    by (auto simp: s' is_cell_def intro!: map_filter_key)
  then show ?thesis
    using keys_del_cell [OF conjunct1 [OF assms(2) [unfolded schema_ok_def]]] schema_checks [OF assms(2)]
    unfolding schema_ok_def by (simp add: s' checks_ok_def)
qed

end
