(* ===== verification/Programs.thy ===== *)
theory Programs
  imports Skali_Prelude
begin

text \<open>
  Requests that run at the same time. A request is a program: it ends with a
  result or performs one atomic action on the shared state (a statement, a
  transaction, a section under a mutex) and goes on. A server runs any number
  of requests, interleaved at their atomic actions; between two actions of
  one request the others may do anything their own actions do.
\<close>

section \<open>Programs\<close>

datatype ('s, 'r) prog =
    Ret 'r
  | Atomic "'s \<Rightarrow> ('s, 'r) prog \<times> 's"

primrec pbind :: "('s, 'a) prog \<Rightarrow> ('a \<Rightarrow> ('s, 'b) prog) \<Rightarrow> ('s, 'b) prog" where
  "pbind (Ret x) k = k x"
| "pbind (Atomic f) k = Atomic (\<lambda>s. map_prod (\<lambda>p. pbind p k) id (f s))"

text \<open>One action with a result, and going on only after success.\<close>

definition act :: "('s \<Rightarrow> 'a \<times> 's) \<Rightarrow> ('s, 'a) prog" where
  "act f = Atomic (\<lambda>s. map_prod Ret id (f s))"

definition after :: "('s, 'e + 'a) prog \<Rightarrow> ('a \<Rightarrow> ('s, 'e + 'b) prog) \<Rightarrow> ('s, 'e + 'b) prog" where
  "after p k = pbind p (\<lambda>r. case r of Inl e \<Rightarrow> Ret (Inl e) | Inr x \<Rightarrow> k x)"

text \<open>A program run with nothing in between.\<close>

primrec alone :: "('s, 'r) prog \<Rightarrow> 's \<Rightarrow> 'r \<times> 's" where
  "alone (Ret r) = (\<lambda>s. (r, s))"
| "alone (Atomic f) = (\<lambda>s. case map_prod alone id (f s) of (g, s') \<Rightarrow> g s')"

section \<open>What every action of a program guarantees\<close>

text \<open>In states of \<open>I\<close>, every action keeps \<open>G\<close>, also when others act in between.\<close>

primrec guar :: "('s \<Rightarrow> bool) \<Rightarrow> ('s \<Rightarrow> 's \<Rightarrow> bool) \<Rightarrow> ('s, 'r) prog \<Rightarrow> bool" where
  "guar I G (Ret r) = True"
| "guar I G (Atomic f) = (\<forall>s. I s \<longrightarrow> (case map_prod (guar I G) id (f s) of (ok, s') \<Rightarrow> ok \<and> G s s'))"

named_theorems guar_intros "actions that keep the guarantee"

lemma guar_Ret [simp, guar_intros]: "guar I G (Ret r)"
  by simp

lemma guar_act: "guar I G (act f) \<longleftrightarrow> (\<forall>s. I s \<longrightarrow> G s (snd (f s)))"
  by (simp add: act_def case_prod_beta)

text \<open>What is read in a state of \<open>I\<close> may be used in what follows.\<close>

lemma guar_act_pbind:
  assumes "\<And>s. I s \<Longrightarrow> G s (snd (f s)) \<and> guar I G (k (fst (f s)))"
  shows "guar I G (pbind (act f) k)"
  using assms by (simp add: act_def case_prod_beta)

lemma guar_pbind [guar_intros]: "guar I G p \<Longrightarrow> (\<And>x. guar I G (k x)) \<Longrightarrow> guar I G (pbind p k)"
proof (induction p)
  case (Atomic f)
  show ?case
  proof (clarsimp simp: case_prod_beta)
    fix s assume "I s"
    then have g: "guar I G (fst (f s))" "G s (snd (f s))"
      using Atomic.prems(1) by (simp_all add: case_prod_beta)
    have "fst (f s) \<in> Basic_BNFs.fsts (f s)" by (simp add: fsts.simps prod_eq_iff)
    from Atomic.IH [OF _ this g(1) Atomic.prems(2)]
    show "guar I G (pbind (fst (f s)) k) \<and> G s (snd (f s))" using g(2) by auto
  qed
qed simp

lemma guar_after [guar_intros]: "guar I G p \<Longrightarrow> (\<And>x. guar I G (k x)) \<Longrightarrow> guar I G (after p k)"
  by (auto simp: after_def intro!: guar_pbind split: sum.split)

lemma guar_if [guar_intros]: "guar I G p \<Longrightarrow> guar I G q \<Longrightarrow> guar I G (if b then p else q)"
  by simp

lemma guar_option [guar_intros]:
  "guar I G p \<Longrightarrow> (\<And>x. guar I G (q x)) \<Longrightarrow> guar I G (case r of None \<Rightarrow> p | Some x \<Rightarrow> q x)"
  by (simp split: option.split)

lemma guar_sum [guar_intros]:
  "(\<And>e. guar I G (p e)) \<Longrightarrow> (\<And>x. guar I G (q x)) \<Longrightarrow> guar I G (case r of Inl e \<Rightarrow> p e | Inr x \<Rightarrow> q x)"
  by (simp split: sum.split)

lemma guar_mono: "guar I G p \<Longrightarrow> (\<And>s s'. I s \<Longrightarrow> G s s' \<Longrightarrow> H s s') \<Longrightarrow> guar I H p"
proof (induction p)
  case (Atomic f)
  show ?case
  proof (clarsimp simp: case_prod_beta)
    fix s assume "I s"
    then have g: "guar I G (fst (f s))" "G s (snd (f s))"
      using Atomic.prems(1) by (simp_all add: case_prod_beta)
    have "fst (f s) \<in> Basic_BNFs.fsts (f s)" by (simp add: fsts.simps prod_eq_iff)
    from Atomic.IH [OF _ this g(1) Atomic.prems(2)]
    show "guar I H (fst (f s)) \<and> H s (snd (f s))" using g(2) Atomic.prems(2) \<open>I s\<close> by auto
  qed
qed simp

section \<open>One request among others\<close>

inductive runs :: "('s \<Rightarrow> 's \<Rightarrow> bool) \<Rightarrow> ('s, 'r) prog \<Rightarrow> 's \<Rightarrow> 'r \<Rightarrow> 's \<Rightarrow> bool" for R where
  runs_Ret: "R\<^sup>*\<^sup>* s s' \<Longrightarrow> runs R (Ret r) s r s'"
| runs_Atomic: "R\<^sup>*\<^sup>* s s1 \<Longrightarrow> f s1 = (p, s2) \<Longrightarrow> runs R p s2 r s' \<Longrightarrow> runs R (Atomic f) s r s'"

inductive_cases runs_RetE: "runs R (Ret r0) s r s'"
inductive_cases runs_AtomicE: "runs R (Atomic f) s r s'"

lemma runs_extend: "runs R p s r s1 \<Longrightarrow> R\<^sup>*\<^sup>* s1 s' \<Longrightarrow> runs R p s r s'"
  by (induction rule: runs.induct) (auto intro: runs.intros)

lemma runs_pbindE:
  assumes "runs R (pbind p k) s r s'"
  obtains x s1 where "runs R p s x s1" "runs R (k x) s1 r s'"
  using assms
proof (induction p arbitrary: s thesis)
  case (Ret x)
  then show ?case using runs_Ret [of R s s] by (metis pbind.simps(1) rtranclp.rtrancl_refl)
next
  case (Atomic f)
  from Atomic.prems(2) obtain s1 q s2 where q: "R\<^sup>*\<^sup>* s s1" "map_prod (\<lambda>p. pbind p k) id (f s1) = (q, s2)" "runs R q s2 r s'"
    by (auto elim: runs_AtomicE)
  then obtain p where p: "f s1 = (p, s2)" "q = pbind p k" by (cases "f s1") auto
  have "p \<in> Basic_BNFs.fsts (f s1)" by (simp add: p fsts.simps)
  from Atomic.IH [OF _ this, of s2] q(3) p(2) obtain x s3 where "runs R p s2 x s3" "runs R (k x) s3 r s'" by blast
  then show ?case using Atomic.prems(1) runs_Atomic [where f = f, OF q(1) p(1)] by blast
qed

lemma runs_actE:
  assumes "runs R (act f) s r s'"
  obtains s1 s2 where "R\<^sup>*\<^sup>* s s1" "f s1 = (r, s2)" "R\<^sup>*\<^sup>* s2 s'"
  using assms unfolding act_def by (auto elim!: runs_AtomicE runs_RetE simp: map_prod_def split: prod.splits)

lemma runs_afterE:
  assumes "runs R (after p k) s r s'"
  obtains (failed) e where "runs R p s (Inl e) s'" "r = Inl e"
  | (ok) x s1 where "runs R p s (Inr x) s1" "runs R (k x) s1 r s'"
proof -
  from assms obtain y s1 where y: "runs R p s y s1" "runs R (case y of Inl e \<Rightarrow> Ret (Inl e) | Inr x \<Rightarrow> k x) s1 r s'"
    unfolding after_def by (elim runs_pbindE)
  show thesis
  proof (cases y)
    case (Inr x)
    then show thesis using y ok by simp
  next
    case (Inl e)
    then have "R\<^sup>*\<^sup>* s1 s'" "r = Inl e" using y(2) by (auto elim: runs_RetE)
    moreover have "runs R p s (Inl e) s'" if "R\<^sup>*\<^sup>* s1 s'"
      using y(1) that unfolding Inl by (rule runs_extend)
    ultimately show thesis using failed by blast
  qed
qed

lemma alone_runs: "alone p s = (r, s') \<Longrightarrow> runs R p s r s'"
proof (induction p arbitrary: s)
  case (Ret x)
  then show ?case by (auto intro: runs_Ret)
next
  case (Atomic f)
  obtain p s1 where p: "f s = (p, s1)" by (cases "f s")
  have "p \<in> Basic_BNFs.fsts (f s)" by (simp add: p fsts.simps)
  moreover have "f s \<in> range f" by simp
  ultimately have "runs R p s1 r s'" using Atomic.IH [of "f s" p s1] Atomic.prems by (simp add: p)
  then show ?case using runs_Atomic [where f = f, OF rtranclp.rtrancl_refl p] by blast
qed

section \<open>A server\<close>

text \<open>
  The requests in flight and the shared state. A request arrives, the next
  action of one of them runs, or the world outside moves on.
\<close>

type_synonym 's server = "('s, unit) prog list \<times> 's"

inductive serves :: "('q \<Rightarrow> ('s, unit) prog) \<Rightarrow> ('s \<Rightarrow> 's \<Rightarrow> bool) \<Rightarrow> 's server \<Rightarrow> 's server \<Rightarrow> bool"
  for program outside where
  arrives: "serves program outside (ps, s) (ps @ [program q], s)"
| acts: "i < length ps \<Longrightarrow> ps ! i = Atomic f \<Longrightarrow> f s = (p, s') \<Longrightarrow>
     serves program outside (ps, s) (ps[i := p], s')"
| moves: "outside s s' \<Longrightarrow> serves program outside (ps, s) (ps, s')"

text \<open>Only executions through states of \<open>I\<close> are considered.\<close>

definition serves_in ::
    "('q \<Rightarrow> ('s, unit) prog) \<Rightarrow> ('s \<Rightarrow> 's \<Rightarrow> bool) \<Rightarrow> ('s \<Rightarrow> bool) \<Rightarrow> 's server \<Rightarrow> 's server \<Rightarrow> bool" where
  "serves_in program outside I c c' \<longleftrightarrow> serves program outside c c' \<and> I (snd c) \<and> I (snd c')"

lemma serves_in_True: "serves_in program outside (\<lambda>_. True) = serves program outside"
  by (simp add: fun_eq_iff serves_in_def)

text \<open>
  The contract of a server's requests: every action of every request, and
  every move of the world outside, keeps a relation on the shared state.
\<close>

locale guaranteed =
  fixes program :: "'q \<Rightarrow> ('s, unit) prog" and outside :: "'s \<Rightarrow> 's \<Rightarrow> bool"
    and I :: "'s \<Rightarrow> bool" and G :: "'s \<Rightarrow> 's \<Rightarrow> bool"
  assumes program_guar: "guar I G (program q)"
    and outside_guar: "outside s s' \<Longrightarrow> G s s'"
begin

lemma serves_guar:
  assumes "serves program outside (ps, s) (ps', s')" "I s" "\<forall>p \<in> set ps. guar I G p"
  shows "(\<forall>p \<in> set ps'. guar I G p) \<and> (s' = s \<or> G s s')"
  using assms(1)
proof cases
  case (arrives q)
  then show ?thesis using assms(3) program_guar by auto
next
  case (acts i f p)
  have "guar I G (Atomic f)" using assms(3) acts(2,3) nth_mem by metis
  then have "guar I G p" "G s s'"
    using acts(4) assms(2) by (metis case_prod_conv guar.simps(2) id_apply map_prod_simp)+
  then show ?thesis using assms(3) acts(1) set_update_subset_insert by fastforce
next
  case moves
  then show ?thesis using assms(3) outside_guar by auto
qed

text \<open>An invariant the relation keeps holds in every state served.\<close>

lemma served_inv:
  assumes "(serves_in program outside I)\<^sup>*\<^sup>* ([], s) (ps, s')" "J s"
    and "\<And>s s'. I s \<Longrightarrow> G s s' \<Longrightarrow> J s \<Longrightarrow> J s'"
  shows "J s'"
proof -
  have "(\<forall>p \<in> set (fst c). guar I G p) \<and> J (snd c)"
    if "(serves_in program outside I)\<^sup>*\<^sup>* ([], s) c" for c
    using that
  proof (induction rule: rtranclp_induct)
    case base
    then show ?case using assms(2) by simp
  next
    case (step c c')
    obtain ps1 s1 ps2 s2 where c: "c = (ps1, s1)" "c' = (ps2, s2)" by (cases c, cases c')
    have "I s1" "serves program outside (ps1, s1) (ps2, s2)" using step.hyps(2) by (auto simp: serves_in_def c)
    with serves_guar step.IH assms(3) show ?case unfolding c by (metis fst_conv snd_conv)
  qed
  from this [OF assms(1)] show ?thesis by simp
qed

end

text \<open>A request that runs with nothing in between is an execution of the server.\<close>

lemma serves_alone:
  "alone p s = (r, s') \<Longrightarrow> \<exists>ps. (serves program outside)\<^sup>*\<^sup>* ([p], s) (ps, s')"
proof (induction p arbitrary: s)
  case (Ret x)
  then show ?case by auto
next
  case (Atomic f)
  obtain p s1 where p: "f s = (p, s1)" by (cases "f s")
  have "p \<in> Basic_BNFs.fsts (f s)" by (simp add: p fsts.simps)
  moreover have "f s \<in> range f" by simp
  ultimately obtain ps where "(serves program outside)\<^sup>*\<^sup>* ([p], s1) (ps, s')"
    using Atomic.IH [of "f s" p s1] Atomic.prems by (auto simp: p)
  moreover have "serves program outside ([Atomic f], s) ([p], s1)"
    using acts [of 0 "[Atomic f]" f s p s1 program outside] p by simp
  ultimately show ?case by (meson converse_rtranclp_into_rtranclp)
qed

lemma served_alone:
  assumes "alone (program q) s = (r, s')"
  shows "\<exists>ps. (serves program outside)\<^sup>*\<^sup>* ([], s) (ps, s')"
  using serves_alone [OF assms, of program outside] arrives [of program outside "[]" s q]
  by (auto intro: converse_rtranclp_into_rtranclp)

text \<open>The states a program goes through when nothing comes in between.\<close>

primrec visits :: "('s, 'r) prog \<Rightarrow> 's \<Rightarrow> 's list" where
  "visits (Ret r) = (\<lambda>s. [s])"
| "visits (Atomic f) = (\<lambda>s. s # (case map_prod visits id (f s) of (g, s') \<Rightarrow> g s'))"

lemma visits_first: "list_all I (visits p s) \<Longrightarrow> I s"
  by (cases p) auto

lemma serves_in_alone:
  "alone p s = (r, s') \<Longrightarrow> list_all I (visits p s) \<Longrightarrow> \<exists>ps. (serves_in program outside I)\<^sup>*\<^sup>* ([p], s) (ps, s')"
proof (induction p arbitrary: s)
  case (Ret x)
  then show ?case by auto
next
  case (Atomic f)
  obtain p s1 where p: "f s = (p, s1)" by (cases "f s")
  have "p \<in> Basic_BNFs.fsts (f s)" by (simp add: p fsts.simps)
  moreover have "f s \<in> range f" by simp
  moreover have v: "I s" "list_all I (visits p s1)" using Atomic.prems(2) by (simp_all add: p)
  ultimately obtain ps where "(serves_in program outside I)\<^sup>*\<^sup>* ([p], s1) (ps, s')"
    using Atomic.IH [of "f s" p s1] Atomic.prems(1) by (auto simp: p)
  moreover have "serves_in program outside I ([Atomic f], s) ([p], s1)"
    using acts [of 0 "[Atomic f]" f s p s1 program outside] p v visits_first by (auto simp: serves_in_def)
  ultimately show ?case by (meson converse_rtranclp_into_rtranclp)
qed

lemma served_in_alone:
  assumes "alone (program q) s = (r, s')" "list_all I (visits (program q) s)"
  shows "\<exists>ps. (serves_in program outside I)\<^sup>*\<^sup>* ([], s) (ps, s')"
proof -
  have "serves_in program outside I ([], s) ([program q], s)"
    using arrives [of program outside "[]" s q] visits_first [OF assms(2)] by (simp add: serves_in_def)
  then show ?thesis
    using serves_in_alone [OF assms, of program outside] by (meson converse_rtranclp_into_rtranclp)
qed

section \<open>Rely and guarantee\<close>

text \<open>
  A program that goes on with what it read before others acted. \<open>R\<close> is what
  every action of every program does, so it is both relied on and guaranteed;
  \<open>J\<close> is kept by every action.
\<close>

primrec rg :: "('s \<Rightarrow> bool) \<Rightarrow> ('s \<Rightarrow> 's \<Rightarrow> bool) \<Rightarrow> ('s, 'r) prog \<Rightarrow> 's \<Rightarrow> bool" where
  "rg J R (Ret r) = (\<lambda>s. True)"
| "rg J R (Atomic f) = (\<lambda>s. \<forall>s1. R\<^sup>*\<^sup>* s s1 \<longrightarrow> J s1 \<longrightarrow>
     (case map_prod (rg J R) id (f s1) of (ok, s2) \<Rightarrow> ok s2 \<and> J s2 \<and> R s1 s2))"

lemma rg_stable: "rg J R p s \<Longrightarrow> R s s' \<Longrightarrow> rg J R p s'"
  by (cases p) (auto intro: converse_rtranclp_into_rtranclp)

lemma rg_act: "rg J R (act f) s \<longleftrightarrow> (\<forall>s1. R\<^sup>*\<^sup>* s s1 \<longrightarrow> J s1 \<longrightarrow> J (snd (f s1)) \<and> R s1 (snd (f s1)))"
  by (simp add: act_def case_prod_beta)

lemma rg_act_pbind:
  assumes "\<And>s1. R\<^sup>*\<^sup>* s s1 \<Longrightarrow> J s1 \<Longrightarrow>
    J (snd (f s1)) \<and> R s1 (snd (f s1)) \<and> rg J R (k (fst (f s1))) (snd (f s1))"
  shows "rg J R (pbind (act f) k) s"
  using assms by (simp add: act_def case_prod_beta)

lemma rg_pbind_Ret: "rg J R p s \<Longrightarrow> rg J R (pbind p (\<lambda>x. Ret (g x))) s"
proof (induction p arbitrary: s)
  case (Atomic f)
  show ?case
  proof (clarsimp simp: case_prod_beta)
    fix s1 assume "R\<^sup>*\<^sup>* s s1" "J s1"
    then have g: "rg J R (fst (f s1)) (snd (f s1))" "J (snd (f s1))" "R s1 (snd (f s1))"
      using Atomic.prems by (simp_all add: case_prod_beta)
    have "fst (f s1) \<in> Basic_BNFs.fsts (f s1)" by (simp add: fsts.simps prod_eq_iff)
    from Atomic.IH [OF _ this g(1)] g(2,3)
    show "rg J R (pbind (fst (f s1)) (\<lambda>x. Ret (g x))) (snd (f s1)) \<and> J (snd (f s1)) \<and> R s1 (snd (f s1))" by simp
  qed
qed simp

text \<open>A program whose actions need no memory of earlier reads.\<close>

lemma guar_rg: "guar J (\<lambda>s s'. J s' \<and> R s s') p \<Longrightarrow> rg J R p s"
proof (induction p arbitrary: s)
  case (Atomic f)
  show ?case
  proof (clarsimp simp: case_prod_beta)
    fix s1 assume "J s1"
    then have g: "guar J (\<lambda>s s'. J s' \<and> R s s') (fst (f s1))" "J (snd (f s1))" "R s1 (snd (f s1))"
      using Atomic.prems by (simp_all add: case_prod_beta)
    have "fst (f s1) \<in> Basic_BNFs.fsts (f s1)" by (simp add: fsts.simps prod_eq_iff)
    from Atomic.IH [OF _ this g(1)] g(2,3)
    show "rg J R (fst (f s1)) (snd (f s1)) \<and> J (snd (f s1)) \<and> R s1 (snd (f s1))" by simp
  qed
qed simp

locale relied =
  fixes program :: "'q \<Rightarrow> ('s, unit) prog" and outside :: "'s \<Rightarrow> 's \<Rightarrow> bool"
    and J :: "'s \<Rightarrow> bool" and R :: "'s \<Rightarrow> 's \<Rightarrow> bool"
  assumes program_rg: "J s \<Longrightarrow> rg J R (program q) s"
    and outside_rg: "outside s s' \<Longrightarrow> J s \<Longrightarrow> J s' \<and> R s s'"
begin

lemma serves_rg:
  assumes "serves program outside (ps, s) (ps', s')" "J s" "\<forall>p \<in> set ps. rg J R p s"
  shows "J s' \<and> (\<forall>p \<in> set ps'. rg J R p s')"
  using assms(1)
proof cases
  case (arrives q)
  then show ?thesis using assms(2,3) program_rg by auto
next
  case (acts i f p)
  have "rg J R (Atomic f) s" using assms(3) acts(2,3) nth_mem by metis
  then have "rg J R p s' \<and> J s' \<and> R s s'"
    using acts(4) assms(2) by (force simp: case_prod_beta map_prod_def)
  moreover have "rg J R q s'" if "q \<in> set ps'" "R s s'" "rg J R p s'" for q
  proof -
    have "q = p \<or> q \<in> set ps" using that(1) set_update_subset_insert [of ps i p] unfolding acts(1) by blast
    then show ?thesis using assms(3) rg_stable [where J = J and R = R and s = s and s' = s', OF _ that(2)] that(3) by blast
  qed
  ultimately show ?thesis by blast
next
  case moves
  have o: "J s'" "R s s'" using outside_rg [OF moves(2) assms(2)] by simp_all
  then show ?thesis
    using assms(3) rg_stable [where J = J and R = R and s = s and s' = s', OF _ o(2)] unfolding moves(1) by blast
qed

lemma served_kept:
  assumes "(serves program outside)\<^sup>*\<^sup>* ([], s) (ps, s')" "J s"
  shows "J s'"
proof -
  have "J (snd c) \<and> (\<forall>p \<in> set (fst c). rg J R p (snd c))"
    if "(serves program outside)\<^sup>*\<^sup>* ([], s) c" for c
    using that
  proof (induction rule: rtranclp_induct)
    case base
    then show ?case using assms(2) by simp
  next
    case (step c c')
    then show ?case using serves_rg by (cases c, cases c') auto
  qed
  from this [OF assms(1)] show ?thesis by simp
qed

end

text \<open>A request that runs with nothing in between, beside others that wait.\<close>

lemma serves_beside:
  "alone p s = (r, s') \<Longrightarrow> \<exists>p'. (serves prg out)\<^sup>*\<^sup>* (ps @ [p], s) (ps @ [p'], s')"
proof (induction p arbitrary: s)
  case (Ret x)
  then show ?case by auto
next
  case (Atomic f)
  obtain p s1 where p: "f s = (p, s1)" by (cases "f s")
  have "p \<in> Basic_BNFs.fsts (f s)" by (simp add: p fsts.simps)
  moreover have "f s \<in> range f" by simp
  ultimately obtain p' where "(serves prg out)\<^sup>*\<^sup>* (ps @ [p], s1) (ps @ [p'], s')"
    using Atomic.IH [of "f s" p s1] Atomic.prems by (auto simp: p)
  moreover have "serves prg out (ps @ [Atomic f], s) (ps @ [p], s1)"
    using acts [of "length ps" "ps @ [Atomic f]" f s p s1 prg out] p by simp
  ultimately show ?case by (meson converse_rtranclp_into_rtranclp)
qed

lemma arrives_beside:
  assumes "alone (prg q) s = (r, s')"
  obtains p' where "(serves prg out)\<^sup>*\<^sup>* (ps, s) (ps @ [p'], s')"
  using serves_beside [OF assms, of prg out ps] arrives [of prg out ps s q] that
  by (meson converse_rtranclp_into_rtranclp)

lemma alone_pbind: "alone (pbind p k) s = (case alone p s of (x, s') \<Rightarrow> alone (k x) s')"
proof (induction p arbitrary: s)
  case (Atomic f)
  have "fst (f s) \<in> Basic_BNFs.fsts (f s)" by (simp add: fsts.simps prod_eq_iff)
  from Atomic.IH [OF _ this] show ?case by (simp add: case_prod_beta)
qed simp

lemma alone_act [simp]: "alone (act f) s = f s"
  by (simp add: act_def case_prod_beta)

section \<open>Two requests at the same time\<close>

text \<open>Two programs interleaved at their actions, among others that do what \<open>R\<close> says.\<close>

inductive races :: "('s \<Rightarrow> 's \<Rightarrow> bool) \<Rightarrow> ('s, 'r) prog \<Rightarrow> ('s, 'r) prog \<Rightarrow> 's \<Rightarrow> 'r \<Rightarrow> 'r \<Rightarrow> 's \<Rightarrow> bool" for R where
  races_Ret: "R\<^sup>*\<^sup>* s s' \<Longrightarrow> races R (Ret a) (Ret b) s a b s'"
| races_left: "R\<^sup>*\<^sup>* s s1 \<Longrightarrow> f s1 = (p, s2) \<Longrightarrow> races R p q s2 a b s' \<Longrightarrow> races R (Atomic f) q s a b s'"
| races_right: "R\<^sup>*\<^sup>* s s1 \<Longrightarrow> g s1 = (q, s2) \<Longrightarrow> races R p q s2 a b s' \<Longrightarrow> races R p (Atomic g) s a b s'"

lemma races_flip: "races R p q s a b s' \<Longrightarrow> races R q p s b a s'"
  by (induction rule: races.induct) (auto intro: races.intros)

lemma races_done: "races R p q s a b s' \<Longrightarrow> p = Ret c \<Longrightarrow> a = c \<and> runs R q s b s'"
  by (induction rule: races.induct) (auto intro: runs.intros)

lemma runs_after_race: "runs R q s b s' \<Longrightarrow> races R (Ret a) q s a b s'"
  by (induction rule: runs.induct) (auto intro: races.intros)

text \<open>One request after the other is such an execution.\<close>

lemma races_sequential:
  "runs R p s a s1 \<Longrightarrow> runs R q s1 b s' \<Longrightarrow> races R p q s a b s'"
proof (induction rule: runs.induct)
  case (runs_Ret s s1 a)
  from this(2) show ?case
  proof cases
    case runs_Ret
    then show ?thesis using \<open>R\<^sup>*\<^sup>* s s1\<close> by (metis races_Ret rtranclp_trans)
  next
    case (runs_Atomic s2 f q1 s3)
    then show ?thesis using \<open>R\<^sup>*\<^sup>* s s1\<close> races_right [of R s s2 f q1 s3 "Ret a"] runs_after_race
      by (metis rtranclp_trans)
  qed
qed (blast intro: races_left)

text \<open>
  Something that can be claimed once. A request that seeks a claim may act as
  others do (\<open>R\<close>), and its last action claims one \<open>k\<close>; a claim that was taken
  is not had again, and what others do gives nothing back.
\<close>

inductive seeks ::
    "('s \<Rightarrow> 's \<Rightarrow> bool) \<Rightarrow> ('s \<Rightarrow> bool) \<Rightarrow> ('k \<Rightarrow> 's \<Rightarrow> 'r \<times> 's) \<Rightarrow> ('r \<Rightarrow> bool) \<Rightarrow> 'k set \<Rightarrow> ('s, 'r) prog \<Rightarrow> bool"
  for R I claim yes K where
  seeks_Ret: "\<not> yes r \<Longrightarrow> seeks R I claim yes K (Ret r)"
| seeks_claim: "k \<in> K \<Longrightarrow> seeks R I claim yes K (act (claim k))"
| seeks_acts: "(\<And>s. I s \<Longrightarrow> seeks R I claim yes K (fst (f s)) \<and> R\<^sup>*\<^sup>* s (snd (f s))) \<Longrightarrow> seeks R I claim yes K (Atomic f)"

lemma seeks_Ret_not: "seeks R I claim yes K (Ret r) \<Longrightarrow> \<not> yes r"
  by (erule seeks.cases) (simp_all add: act_def)

locale single_use =
  fixes R :: "'s \<Rightarrow> 's \<Rightarrow> bool" and I :: "'s \<Rightarrow> bool" and taken :: "'k \<Rightarrow> 's \<Rightarrow> bool"
    and claim :: "'k \<Rightarrow> 's \<Rightarrow> 'r \<times> 's" and yes :: "'r \<Rightarrow> bool"
  assumes I_kept: "I s \<Longrightarrow> R s s' \<Longrightarrow> I s'"
    and taken_kept: "taken k s \<Longrightarrow> R s s' \<Longrightarrow> taken k s'"
    and claim_I: "I s \<Longrightarrow> I (snd (claim k s))"
    and claim_takes: "I s \<Longrightarrow> yes (fst (claim k s)) \<Longrightarrow> taken k (snd (claim k s))"
    and claim_once: "taken k s \<Longrightarrow> \<not> yes (fst (claim k s))"
begin

lemma I_later: "R\<^sup>*\<^sup>* s s' \<Longrightarrow> I s \<Longrightarrow> I s'"
  by (induction rule: rtranclp_induct) (auto intro: I_kept)

lemma taken_later: "R\<^sup>*\<^sup>* s s' \<Longrightarrow> taken k s \<Longrightarrow> taken k s'"
  by (induction rule: rtranclp_induct) (auto intro: taken_kept)

lemma seeks_AtomicE:
  assumes "seeks R I claim yes K (Atomic f)" "I s" "f s = (p, s')"
  obtains (claims) k where "k \<in> K" "p = Ret (fst (claim k s))" "s' = snd (claim k s)"
  | (goes) "seeks R I claim yes K p" "R\<^sup>*\<^sup>* s s'"
  using assms(1)
proof cases
  case (seeks_claim k)
  then show thesis using claims [of k] assms(3) by (cases "claim k s") (auto simp: act_def)
next
  case seeks_acts
  then show thesis using goes assms(2,3) by (metis fst_conv snd_conv)
qed

lemma sought_when_taken:
  "runs R p s b s' \<Longrightarrow> yes b \<Longrightarrow> seeks R I claim yes K p \<Longrightarrow> I s \<Longrightarrow> taken j s \<Longrightarrow> \<exists>k \<in> K. k \<noteq> j"
proof (induction rule: runs.induct)
  case (runs_Ret s s' r)
  then show ?case by (blast dest: seeks_Ret_not)
next
  case (runs_Atomic s s1 f p s2 r s')
  have i: "I s1" "taken j s1" using I_later taken_later runs_Atomic by blast+
  from runs_Atomic.prems(2) i(1) runs_Atomic.hyps(2) show ?case
  proof (cases rule: seeks_AtomicE)
    case (claims k)
    have "yes (fst (claim k s1))"
      using runs_Atomic.hyps(3) runs_Atomic.prems(1) unfolding claims by (auto elim: runs_RetE)
    then have "k \<noteq> j" using claim_once i(2) by blast
    then show ?thesis using claims(1) by blast
  next
    case goes
    then show ?thesis using runs_Atomic.IH runs_Atomic.prems i I_later taken_later by blast
  qed
qed

lemma claimed_first:
  assumes "k \<in> K" "races R (Ret (fst (claim k s))) q (snd (claim k s)) a b s'" "yes a" "yes b"
    "I s" "seeks R I claim yes L q"
  shows "\<exists>k \<in> K. \<exists>l \<in> L. k \<noteq> l"
proof -
  from races_done [OF assms(2) refl] assms(3)
  have y: "yes (fst (claim k s))" "runs R q (snd (claim k s)) b s'" by auto
  from sought_when_taken [OF y(2) assms(4) assms(6) claim_I [OF assms(5)] claim_takes [OF assms(5) y(1)]]
  obtain l where "l \<in> L" "l \<noteq> k" by blast
  then show ?thesis using assms(1) by (intro bexI [of _ k] bexI [of _ l]) auto
qed

text \<open>Two requests that both succeed have claimed different things.\<close>

lemma race_once:
  "races R p q s a b s' \<Longrightarrow> yes a \<Longrightarrow> yes b \<Longrightarrow> I s \<Longrightarrow> seeks R I claim yes K p \<Longrightarrow> seeks R I claim yes L q \<Longrightarrow>
   \<exists>k \<in> K. \<exists>l \<in> L. k \<noteq> l"
proof (induction rule: races.induct)
  case (races_Ret s s' a b)
  then show ?case by (blast dest: seeks_Ret_not)
next
  case (races_left s s1 f p s2 q a b s')
  have i: "I s1" using I_later races_left by blast
  from races_left.prems(4) i races_left.hyps(2) show ?case
  proof (cases rule: seeks_AtomicE)
    case (claims k)
    from races_left.hyps(3) show ?thesis unfolding claims(2,3)
      by (rule claimed_first [OF claims(1)]) (use races_left.prems i in auto)
  next
    case goes
    then show ?thesis using races_left.IH races_left.prems i I_later by blast
  qed
next
  case (races_right s s1 g q s2 p a b s')
  have i: "I s1" using I_later races_right by blast
  from races_right.prems(5) i races_right.hyps(2) show ?case
  proof (cases rule: seeks_AtomicE)
    case (claims k)
    from races_flip [OF races_right.hyps(3)] have "\<exists>k \<in> L. \<exists>l \<in> K. k \<noteq> l" unfolding claims(2,3)
      by (rule claimed_first [OF claims(1)]) (use races_right.prems i in auto)
    then obtain k l where "k \<in> L" "l \<in> K" "k \<noteq> l" by blast
    then show ?thesis by (intro bexI [of _ l] bexI [of _ k]) auto
  next
    case goes
    then show ?thesis using races_right.IH races_right.prems i I_later by blast
  qed
qed

end

end
