(* ===== verification/Rate_Limit.thy ===== *)
theory Rate_Limit
  imports Skali_Prelude
begin

text \<open>
  The attempt limiter of the login endpoints (\<^verbatim>\<open>internal/auth/ratelimit.go\<close>): a
  fixed-window counter per key, in memory, under one mutex, so a call is one
  atomic action. Counters are unbounded integers: no process lives to see
  \<^verbatim>\<open>2^63\<close> attempts in a window.
\<close>

section \<open>The limiter\<close>

record rlEntry =
  windowStart :: gotime
  rl_count :: int

type_synonym rateLimiter = "(string, rlEntry) gomap"

definition pruneThreshold :: nat where
  "pruneThreshold = 16384"

definition newRateLimiter :: rateLimiter where
  "newRateLimiter = []"

definition window_passed :: "gotime \<Rightarrow> duration \<Rightarrow> rlEntry \<Rightarrow> bool" where
  "window_passed now window e \<longleftrightarrow> time_sub now (windowStart e) \<ge> window"

definition prune :: "gotime \<Rightarrow> duration \<Rightarrow> rateLimiter \<Rightarrow> rateLimiter" where
  "prune now window l = filter (\<lambda>(k, e). \<not> window_passed now window e) l"

definition allow :: "string \<Rightarrow> int \<Rightarrow> duration \<Rightarrow> gotime \<Rightarrow> rateLimiter \<Rightarrow> bool \<times> rateLimiter" where
  "allow key limit window now l =
     (let fresh = (limit \<ge> 1,
        mput key \<lparr>windowStart = now, rl_count = 1\<rparr>
          (if length l \<ge> pruneThreshold then prune now window l else l)) in
      case mget l key of
        None \<Rightarrow> fresh
      | Some e \<Rightarrow>
          if window_passed now window e then fresh
          else (rl_count e + 1 \<le> limit, mput key (e\<lparr>rl_count := rl_count e + 1\<rparr>) l))"

section \<open>A history of calls\<close>

text \<open>Calls carry the clock reading, the key and the limit; the window is one for all.\<close>

type_synonym call = "gotime \<times> string \<times> int"

fun calls :: "duration \<Rightarrow> call list \<Rightarrow> rateLimiter \<Rightarrow> (call \<times> bool) list \<times> rateLimiter" where
  "calls window [] l = ([], l)"
| "calls window ((now, key, limit) # cs) l =
     (let (ok, l1) = allow key limit window now l; (log, l2) = calls window cs l1
      in (((now, key, limit), ok) # log, l2))"

text \<open>The allowed calls under a key within a span of time.\<close>

definition allowed_in :: "string \<Rightarrow> gotime \<Rightarrow> gotime \<Rightarrow> (call \<times> bool) list \<Rightarrow> nat" where
  "allowed_in key t u log = length (filter (\<lambda>((now, k, limit), ok). ok \<and> k = key \<and> t \<le> now \<and> now < u) log)"

section \<open>The bound\<close>

lemma window_passed_iff: "is_int64 window \<Longrightarrow> 0 < window \<Longrightarrow>
    window_passed now window e \<longleftrightarrow> now - windowStart e \<ge> window"
  by (auto simp: window_passed_def time_sub_def is_int64_def int64_min_def)

abbreviation span :: "gotime \<Rightarrow> gotime \<Rightarrow> gotime list \<Rightarrow> nat" where
  "span t u A \<equiv> length (filter (\<lambda>a. t \<le> a \<and> a < u) A)"

lemma span_split: "t \<le> v \<Longrightarrow> v \<le> u \<Longrightarrow> span t u A = span t v A + span v u A"
  by (induction A) auto

lemma span_mono: "t' \<le> t \<Longrightarrow> u \<le> u' \<Longrightarrow> span t u A \<le> span t' u' A"
  by (induction A) auto

text \<open>
  What the times allowed so far look like when the key's window starts at \<open>w\<close>:
  those of the window count within it, those of the window before reach at
  most a window's length back.
\<close>

definition within :: "duration \<Rightarrow> nat \<Rightarrow> gotime \<Rightarrow> int \<Rightarrow> gotime list \<Rightarrow> bool" where
  "within W L w c A \<longleftrightarrow>
     0 \<le> c \<and> (\<forall>a \<in> set A. a < w + W) \<and> int (span w (w + W) A) \<le> min c (int L) \<and>
     (\<forall>t > w - W. span t w A \<le> L) \<and> (\<forall>t. span t (t + W) A \<le> 2 * L)"

lemma filter_le: "(\<And>a. a \<in> set A \<Longrightarrow> P a \<Longrightarrow> Q a) \<Longrightarrow> length (filter P A) \<le> length (filter Q A)"
  by (induction A) auto

lemma within_reset:
  assumes "within W L w c A" "0 < W" "w + W \<le> now"
  shows "within W L now 1 (if L \<ge> 1 then now # A else A)"
proof -
  have old: "a < w + W" if "a \<in> set A" for a using assms(1) that by (simp add: within_def)
  have none: "span t u A = 0" if "now \<le> t" for t u
    using old that assms(3) by (fastforce simp: filter_empty_conv)
  have prev: "span t u A \<le> L" if "t > now - W" for t u
  proof -
    have "span t u A \<le> span w (w + W) A" using old that assms(3) by (intro filter_le) force
    also have "\<dots> \<le> L" using assms(1) by (auto simp: within_def)
    finally show ?thesis .
  qed
  show ?thesis
    unfolding within_def
  proof (intro conjI allI impI ballI)
    fix t
    show "span t (t + W) (if L \<ge> 1 then now # A else A) \<le> 2 * L"
      using assms(1) prev [of t "t + W"] by (cases "t \<le> now \<and> now < t + W") (auto simp: within_def)
  next
    fix t assume "now - W < t"
    then show "span t now (if L \<ge> 1 then now # A else A) \<le> L" using prev [of t now] by simp
  next
    fix a assume "a \<in> set (if L \<ge> 1 then now # A else A)"
    then show "a < now + W" using old [of a] assms(2,3) by (auto split: if_splits)
  qed (use none assms(2) in auto)
qed

lemma within_count:
  assumes "within W L w c A" "0 < W" "w \<le> now" "now < w + W"
  shows "within W L w (c + 1) (if c + 1 \<le> int L then now # A else A)"
proof -
  have new: "int (span w (w + W) (if c + 1 \<le> int L then now # A else A)) \<le> min (c + 1) (int L)"
    using assms by (auto simp: within_def)
  have prev: "span t w (if c + 1 \<le> int L then now # A else A) \<le> L" if "t > w - W" for t
    using assms that by (auto simp: within_def)
  show ?thesis
    unfolding within_def
  proof (intro conjI allI impI ballI)
    fix t
    show "span t (t + W) (if c + 1 \<le> int L then now # A else A) \<le> 2 * L"
    proof (cases "t \<le> now \<and> now < t + W \<and> c + 1 \<le> int L")
      case False
      then show ?thesis using assms(1) by (auto simp: within_def)
    next
      case True
      let ?A = "if c + 1 \<le> int L then now # A else A"
      have all: "a < w + W" if "a \<in> set ?A" for a using assms that by (auto simp: within_def split: if_splits)
      have "span t (t + W) ?A \<le> span t w ?A + span w (w + W) ?A"
      proof (cases "t \<le> w")
        case tw: True
        have "span t (t + W) ?A = span t w ?A + span w (t + W) ?A"
          using True assms(3) by (intro span_split) (simp_all add: tw)
        moreover have "span w (t + W) ?A \<le> span w (w + W) ?A" using all by (intro filter_le) blast
        ultimately show ?thesis by simp
      next
        case False
        then have "span t (t + W) ?A \<le> span w (w + W) ?A" using all by (intro filter_le) force
        then show ?thesis by simp
      qed
      also have "\<dots> \<le> L + L" using new prev [of t] True assms(3) by auto
      finally show ?thesis by simp
    qed
  qed (use assms new prev in \<open>auto simp: within_def split: if_splits\<close>)
qed

text \<open>The limiter's entry for a key tells where its window is.\<close>

definition tracks :: "duration \<Rightarrow> nat \<Rightarrow> string \<Rightarrow> gotime \<Rightarrow> rateLimiter \<Rightarrow> gotime list \<Rightarrow> bool" where
  "tracks W L key T l A \<longleftrightarrow>
     gomap_ok l \<and>
     (\<exists>w c. within W L w c A \<and> w \<le> T \<and>
        (case mget l key of Some e \<Rightarrow> windowStart e = w \<and> rl_count e = c | None \<Rightarrow> w + W \<le> T))"

lemma prune_mget:
  assumes "gomap_ok l"
  shows "mget (prune now window l) k = (case mget l k of None \<Rightarrow> None
     | Some e \<Rightarrow> if window_passed now window e then None else Some e)"
  using assms
proof (induction l)
  case (Cons x xs)
  obtain k' e where x: "x = (k', e)" by (cases x)
  show ?case
    using Cons unfolding x by (auto simp: prune_def gomap_ok_def split: option.split dest!: map_of_SomeD)
      force
qed (simp add: prune_def)

lemma prune_ok: "gomap_ok l \<Longrightarrow> gomap_ok (prune now window l)"
  by (auto simp: prune_def gomap_ok_def intro: distinct_map_filter)

lemma tracks_prune:
  assumes "tracks W L key T l A" "is_int64 W" "0 < W" "T \<le> now"
  shows "tracks W L key now (if length l \<ge> pruneThreshold then prune now W l else l) A"
proof -
  obtain w c where w: "gomap_ok l" "within W L w c A" "w \<le> T"
    "case mget l key of Some e \<Rightarrow> windowStart e = w \<and> rl_count e = c | None \<Rightarrow> w + W \<le> T"
    using assms(1) by (auto simp: tracks_def)
  show ?thesis
    unfolding tracks_def using w assms(4) prune_ok [OF w(1)]
    by (intro conjI exI [of _ w] exI [of _ c])
      (auto simp: prune_mget [OF w(1)] window_passed_iff [OF assms(2,3)] split: option.splits)
qed

lemma tracks_allow:
  assumes "tracks W (nat limit) key T l A" "is_int64 W" "0 < W" "T \<le> now"
    and "allow key limit W now l = (ok, l')"
  shows "tracks W (nat limit) key now l' (if ok then now # A else A)"
proof -
  obtain w c where w: "gomap_ok l" "within W (nat limit) w c A" "w \<le> T"
    "case mget l key of Some e \<Rightarrow> windowStart e = w \<and> rl_count e = c | None \<Rightarrow> w + W \<le> T"
    using assms(1) by (auto simp: tracks_def)
  have nl: "int (nat limit) \<ge> 1 \<longleftrightarrow> limit \<ge> 1" "nat limit \<ge> 1 \<longleftrightarrow> limit \<ge> 1" by linarith+
  show ?thesis
  proof (cases "case mget l key of None \<Rightarrow> True | Some e \<Rightarrow> window_passed now W e")
    case True
    then have r: "ok = (limit \<ge> 1)" "l' = mput key \<lparr>windowStart = now, rl_count = 1\<rparr>
        (if length l \<ge> pruneThreshold then prune now W l else l)"
      using assms(5) by (auto simp: allow_def Let_def split: option.splits)
    have "w + W \<le> now"
      using True w assms(4) by (auto simp: window_passed_iff [OF assms(2,3)] split: option.splits)
    from within_reset [OF w(2) assms(3) this] show ?thesis
      unfolding tracks_def r nl using w(1) prune_ok [OF w(1)]
      by (intro conjI exI [of _ now] exI [of _ 1]) auto
  next
    case False
    then obtain e where e: "mget l key = Some e" "\<not> window_passed now W e" by (auto split: option.splits)
    then have r: "ok = (c + 1 \<le> limit)" "l' = mput key (e\<lparr>rl_count := c + 1\<rparr>) l"
      using assms(5) w(4) by (auto simp: allow_def Let_def)
    have c: "c + 1 \<le> limit \<longleftrightarrow> c + 1 \<le> int (nat limit)" using w(2) by (auto simp: within_def)
    have "w \<le> now" "now < w + W"
      using e w(3,4) assms(4) by (auto simp: window_passed_iff [OF assms(2,3)])
    from within_count [OF w(2) assms(3) this] show ?thesis
      unfolding tracks_def r c using w e \<open>w \<le> now\<close>
      by (intro conjI exI [of _ w] exI [of _ "c + 1"]) auto
  qed
qed

lemma tracks_other:
  assumes "tracks W L key T l A" "is_int64 W" "0 < W" "T \<le> now" "k \<noteq> key"
    and "allow k limit W now l = (ok, l')"
  shows "tracks W L key now l' A"
proof -
  let ?l = "if length l \<ge> pruneThreshold then prune now W l else l"
  have t: "tracks W L key now ?l A" by (rule tracks_prune [OF assms(1-4)])
  obtain w c where w: "gomap_ok l" "within W L w c A" "w \<le> T"
    "case mget l key of Some e \<Rightarrow> windowStart e = w \<and> rl_count e = c | None \<Rightarrow> w + W \<le> T"
    using assms(1) by (auto simp: tracks_def)
  then have t0: "tracks W L key now l A"
    unfolding tracks_def using assms(4)
    by (intro conjI exI [of _ w] exI [of _ c]) (auto split: option.splits)
  have same: "tracks W L key now (mput k e m) A" if "tracks W L key now m A" for e m
    using that assms(5) by (auto simp: tracks_def)
  have "l' = mput k \<lparr>windowStart = now, rl_count = 1\<rparr> ?l \<or> (\<exists>e. l' = mput k e l)"
    using assms(6) by (auto simp: allow_def Let_def split: option.splits if_splits)
  then show ?thesis using same [OF t] same [OF t0] by auto
qed

lemma tracks_calls:
  assumes "tracks W (nat limit) key T l A" "is_int64 W" "0 < W"
    and "sorted (T # map fst cs)" "\<forall>(now, k, lim) \<in> set cs. k = key \<longrightarrow> lim = limit"
    and "calls W cs l = (log, l')"
  shows "\<exists>T' A'. tracks W (nat limit) key T' l' A' \<and>
     (\<forall>t u. span t u A' = allowed_in key t u log + span t u A)"
  using assms(1,4-6)
proof (induction cs arbitrary: T l A log)
  case Nil
  then show ?case by (auto simp: allowed_in_def)
next
  case (Cons x cs)
  obtain now k lim where x: "x = (now, k, lim)" by (cases x)
  obtain ok l1 where a: "allow k lim W now l = (ok, l1)" by fastforce
  obtain log1 where l: "calls W cs l1 = (log1, l')" "log = ((now, k, lim), ok) # log1"
    using Cons.prems(4) a unfolding x by (auto split: prod.splits)
  have T: "T \<le> now" using Cons.prems(2) by (simp add: x)
  let ?A = "if ok \<and> k = key then now # A else A"
  have "tracks W (nat limit) key now l1 ?A"
  proof (cases "k = key")
    case True
    then show ?thesis using tracks_allow [OF Cons.prems(1) assms(2,3) T] a Cons.prems(3) x by simp
  next
    case False
    then show ?thesis using tracks_other [OF Cons.prems(1) assms(2,3) T False a] by simp
  qed
  from Cons.IH [OF this _ _ l(1)] Cons.prems(2,3) obtain T' A' where
    "tracks W (nat limit) key T' l' A'" "\<And>t u. span t u A' = allowed_in key t u log1 + span t u ?A"
    by (auto simp: x)
  then show ?case
    by (intro exI [of _ T'] exI [of _ A']) (auto simp: l(2) allowed_in_def)
qed

text \<open>
  C15. However requests interleave, the limiter allows at most twice the limit
  of attempts under a key within any span of a window's length (and so blunts
  guessing even around window borders): for calls with a clock that does not
  go back, for every start of the span, whatever other keys are used and
  however often the map is pruned.
\<close>

theorem attempts_are_limited:
  "is_int64 window \<and> 0 < window \<and> sorted (map fst cs) \<and>
   (\<forall>(now, k, lim) \<in> set cs. k = key \<longrightarrow> lim = limit) \<longrightarrow>
   allowed_in key t (t + window) (fst (calls window cs newRateLimiter)) \<le> 2 * nat limit"
proof (rule impI)
  assume h: "is_int64 window \<and> 0 < window \<and> sorted (map fst cs) \<and>
    (\<forall>(now, k, lim) \<in> set cs. k = key \<longrightarrow> lim = limit)"
  show "allowed_in key t (t + window) (fst (calls window cs newRateLimiter)) \<le> 2 * nat limit"
  proof (cases cs)
    case Nil
    then show ?thesis by (simp add: allowed_in_def)
  next
    case (Cons c cs')
    let ?T = "fst c"
    have "within window (nat limit) (?T - window) 0 []" by (simp add: within_def)
    then have "tracks window (nat limit) key ?T newRateLimiter []"
      unfolding tracks_def using h by (intro conjI exI [of _ "?T - window"] exI [of _ 0]) (auto simp: newRateLimiter_def)
    from tracks_calls [OF this, of cs] h obtain T' A' where
      "tracks window (nat limit) key T' (snd (calls window cs newRateLimiter)) A'"
      "\<And>t u. span t u A' = allowed_in key t u (fst (calls window cs newRateLimiter))"
      unfolding Cons by (cases "calls window (c # cs') newRateLimiter") auto
    then show ?thesis by (auto simp: tracks_def within_def)
  qed
qed

theorem attempts_are_limited_witness:
  "allowed_in ''k'' 8 18 (fst (calls 10 [(0, ''k'', 1), (9, ''k'', 1), (10, ''k'', 1), (11, ''j'', 5), (17, ''k'', 1)]
     newRateLimiter)) \<le> 2 \<and>
   allowed_in ''k'' 0 20 (fst (calls 10 [(0, ''k'', 1), (9, ''k'', 1), (10, ''k'', 1), (11, ''j'', 5), (17, ''k'', 1)]
     newRateLimiter)) = 2"
proof
  show "allowed_in ''k'' 8 18 (fst (calls 10 [(0, ''k'', 1), (9, ''k'', 1), (10, ''k'', 1), (11, ''j'', 5), (17, ''k'', 1)]
     newRateLimiter)) \<le> 2"
    using attempts_are_limited [of 10 "[(0, ''k'', 1), (9, ''k'', 1), (10, ''k'', 1), (11, ''j'', 5), (17, ''k'', 1)]"
        "''k''" 1 8] by (simp add: is_int64_def int64_min_def int64_max_def)
qed (simp add: allowed_in_def newRateLimiter_def allow_def pruneThreshold_def window_passed_def time_sub_def
    int64_min_def int64_max_def)

end
