(* ===== verification/Auth_Store.thy ===== *)
theory Auth_Store
  imports Store_Db Programs Rate_Limit
begin

text \<open>
  The tables of identity and what the services share: the statements of
  \<^verbatim>\<open>query/accounts.sql\<close>, \<^verbatim>\<open>sessions.sql\<close>, \<^verbatim>\<open>login_challenges.sql\<close>, \<^verbatim>\<open>two_factors.sql\<close>,
  \<^verbatim>\<open>backup_codes.sql\<close> and \<^verbatim>\<open>device_requests.sql\<close>, and the programs a request is
  made of: a statement, a transaction, a clock reading, a call of the limiter.
\<close>

section \<open>Accounts (query/accounts.sql)\<close>

definition is_account :: "uuid \<Rightarrow> Account \<Rightarrow> bool" where
  "is_account uid a \<longleftrightarrow> acc_UserID a = uid \<and> acc_ProviderID a = ''credential''"

abbreviation user_exists :: "uuid \<Rightarrow> db \<Rightarrow> bool" where
  "user_exists uid t \<equiv> list_ex (\<lambda>u. u_ID u = uid) (t_users t)"

definition CreateAccount :: "driver \<Rightarrow> uuid \<Rightarrow> uuid \<Rightarrow> string \<Rightarrow> string option \<Rightarrow> db \<Rightarrow> db_error + (Account \<times> db)" where
  "CreateAccount d i uid provider password t =
     stmt d ''CreateAccount''
       (if list_ex (\<lambda>a. acc_ID a = i \<or> acc_UserID a = uid \<and> acc_ProviderID a = provider) (t_accounts t)
        then Inl UniqueViolation
        else if \<not> user_exists uid t then Inl ForeignKeyViolation
        else let a = \<lparr>acc_ID = i, acc_UserID = uid, acc_ProviderID = provider, acc_Password = password\<rparr>
             in Inr (a, t\<lparr>t_accounts := t_accounts t @ [a]\<rparr>))"

definition GetCredentialAccount :: "driver \<Rightarrow> uuid \<Rightarrow> db \<Rightarrow> db_error + Account" where
  "GetCredentialAccount d uid t = stmt d ''GetCredentialAccount'' (one_row (find (is_account uid) (t_accounts t)))"

definition UpdateAccountPassword :: "driver \<Rightarrow> uuid \<Rightarrow> string option \<Rightarrow> db \<Rightarrow> db_error + (unit \<times> db)" where
  "UpdateAccountPassword d uid password t =
     stmt d ''UpdateAccountPassword''
       (Inr ((), t\<lparr>t_accounts := map (\<lambda>a. if is_account uid a then a\<lparr>acc_Password := password\<rparr> else a) (t_accounts t)\<rparr>))"

section \<open>Sessions (query/sessions.sql)\<close>

definition CreateSession ::
    "driver \<Rightarrow> uuid \<Rightarrow> uuid \<Rightarrow> string \<Rightarrow> gotime \<Rightarrow> string \<Rightarrow> string \<Rightarrow> gotime \<Rightarrow> db \<Rightarrow> db_error + (Session_row \<times> db)" where
  "CreateSession d i uid tokenHash expiresAt ip agent reauthenticatedAt t =
     stmt d ''CreateSession''
       (if list_ex (\<lambda>x. s_ID x = i \<or> s_TokenHash x = tokenHash) (t_sessions t) then Inl UniqueViolation
        else if \<not> user_exists uid t then Inl ForeignKeyViolation
        else let x = \<lparr>s_ID = i, s_UserID = uid, s_TokenHash = tokenHash, s_ExpiresAt = expiresAt,
                      s_IpAddress = ip, s_UserAgent = agent, s_CreatedAt = drv_now d, s_UpdatedAt = drv_now d,
                      s_ReauthenticatedAt = reauthenticatedAt\<rparr>
             in Inr (x, t\<lparr>t_sessions := t_sessions t @ [x]\<rparr>))"

definition GetSessionAndUserByTokenHash :: "driver \<Rightarrow> string \<Rightarrow> db \<Rightarrow> db_error + (Session_row \<times> User)" where
  "GetSessionAndUserByTokenHash d tokenHash t =
     stmt d ''GetSessionAndUserByTokenHash''
       (one_row (find (\<lambda>(x, u). s_TokenHash x = tokenHash)
          (concat (map (\<lambda>x. map (Pair x) (filter (\<lambda>u. u_ID u = s_UserID x) (t_users t))) (t_sessions t)))))"

definition update_sessions :: "(Session_row \<Rightarrow> bool) \<Rightarrow> (Session_row \<Rightarrow> Session_row) \<Rightarrow> db \<Rightarrow> nat \<times> db" where
  "update_sessions P f t =
     (length (filter P (t_sessions t)), t\<lparr>t_sessions := map (\<lambda>x. if P x then f x else x) (t_sessions t)\<rparr>)"

definition ExtendSession :: "driver \<Rightarrow> uuid \<Rightarrow> gotime \<Rightarrow> db \<Rightarrow> db_error + (unit \<times> db)" where
  "ExtendSession d i expiresAt t =
     stmt d ''ExtendSession''
       (Inr ((), snd (update_sessions (\<lambda>x. s_ID x = i)
          (\<lambda>x. x\<lparr>s_ExpiresAt := expiresAt, s_UpdatedAt := drv_now d\<rparr>) t)))"

definition TouchSessionReauthenticated :: "driver \<Rightarrow> uuid \<Rightarrow> uuid \<Rightarrow> gotime \<Rightarrow> db \<Rightarrow> db_error + (nat \<times> db)" where
  "TouchSessionReauthenticated d i uid at t =
     stmt d ''TouchSessionReauthenticated''
       (Inr (update_sessions (\<lambda>x. s_ID x = i \<and> s_UserID x = uid) (s_ReauthenticatedAt_update (\<lambda>_. at)) t))"

text \<open>The \<^verbatim>\<open>DELETE FROM sessions\<close> statements give the number of rows.\<close>

definition delete_sessions_n :: "(Session_row \<Rightarrow> bool) \<Rightarrow> db \<Rightarrow> nat \<times> db" where
  "delete_sessions_n P t = (length (filter P (t_sessions t)), delete_sessions P t)"

definition DeleteSessionByTokenHash :: "driver \<Rightarrow> string \<Rightarrow> db \<Rightarrow> db_error + (nat \<times> db)" where
  "DeleteSessionByTokenHash d tokenHash t =
     stmt d ''DeleteSessionByTokenHash'' (Inr (delete_sessions_n (\<lambda>x. s_TokenHash x = tokenHash) t))"

definition DeleteSessionByID :: "driver \<Rightarrow> uuid \<Rightarrow> uuid \<Rightarrow> db \<Rightarrow> db_error + (nat \<times> db)" where
  "DeleteSessionByID d i uid t =
     stmt d ''DeleteSessionByID'' (Inr (delete_sessions_n (\<lambda>x. s_ID x = i \<and> s_UserID x = uid) t))"

definition ListSessionsByUser :: "driver \<Rightarrow> uuid \<Rightarrow> db \<Rightarrow> db_error + Session_row list" where
  "ListSessionsByUser d uid t =
     stmt d ''ListSessionsByUser''
       (Inr (sort_by (\<lambda>a b. s_CreatedAt b < s_CreatedAt a)
          (filter (\<lambda>x. s_UserID x = uid \<and> s_ExpiresAt x > drv_now d) (t_sessions t))))"

definition DeleteUserSessionsExcept :: "driver \<Rightarrow> uuid \<Rightarrow> uuid \<Rightarrow> db \<Rightarrow> db_error + (nat \<times> db)" where
  "DeleteUserSessionsExcept d uid i t =
     stmt d ''DeleteUserSessionsExcept'' (Inr (delete_sessions_n (\<lambda>x. s_UserID x = uid \<and> s_ID x \<noteq> i) t))"

definition DeleteSessionsByUser :: "driver \<Rightarrow> uuid \<Rightarrow> db \<Rightarrow> db_error + (nat \<times> db)" where
  "DeleteSessionsByUser d uid t =
     stmt d ''DeleteSessionsByUser'' (Inr (delete_sessions_n (\<lambda>x. s_UserID x = uid) t))"

definition DeleteExpiredSessions :: "driver \<Rightarrow> db \<Rightarrow> db_error + (nat \<times> db)" where
  "DeleteExpiredSessions d t =
     stmt d ''DeleteExpiredSessions'' (Inr (delete_sessions_n (\<lambda>x. s_ExpiresAt x \<le> drv_now d) t))"

section \<open>Login challenges (query/login\_challenges.sql)\<close>

definition CreateLoginChallenge :: "driver \<Rightarrow> uuid \<Rightarrow> uuid \<Rightarrow> string \<Rightarrow> gotime \<Rightarrow> db \<Rightarrow> db_error + (LoginChallenge \<times> db)" where
  "CreateLoginChallenge d i uid tokenHash expiresAt t =
     stmt d ''CreateLoginChallenge''
       (if list_ex (\<lambda>c. lc_ID c = i \<or> lc_TokenHash c = tokenHash) (t_challenges t) then Inl UniqueViolation
        else if \<not> user_exists uid t then Inl ForeignKeyViolation
        else let c = \<lparr>lc_ID = i, lc_UserID = uid, lc_TokenHash = tokenHash, lc_Attempts = 0, lc_ExpiresAt = expiresAt\<rparr>
             in Inr (c, t\<lparr>t_challenges := t_challenges t @ [c]\<rparr>))"

definition GetLoginChallengeByTokenHash :: "driver \<Rightarrow> string \<Rightarrow> db \<Rightarrow> db_error + LoginChallenge" where
  "GetLoginChallengeByTokenHash d tokenHash t =
     stmt d ''GetLoginChallengeByTokenHash''
       (one_row (find (\<lambda>c. lc_TokenHash c = tokenHash \<and> lc_ExpiresAt c > drv_now d) (t_challenges t)))"

definition IncrementLoginChallengeAttempts :: "driver \<Rightarrow> uuid \<Rightarrow> db \<Rightarrow> db_error + (int \<times> db)" where
  "IncrementLoginChallengeAttempts d i t =
     stmt d ''IncrementLoginChallengeAttempts''
       (case find (\<lambda>c. lc_ID c = i) (t_challenges t) of
          None \<Rightarrow> Inl ErrNoRows
        | Some c \<Rightarrow>
            Inr (lc_Attempts c + 1,
                 t\<lparr>t_challenges := map (\<lambda>c. if lc_ID c = i then c\<lparr>lc_Attempts := lc_Attempts c + 1\<rparr> else c)
                                    (t_challenges t)\<rparr>))"

definition DeleteLoginChallenge :: "driver \<Rightarrow> uuid \<Rightarrow> db \<Rightarrow> db_error + (unit \<times> db)" where
  "DeleteLoginChallenge d i t =
     stmt d ''DeleteLoginChallenge'' (Inr ((), t\<lparr>t_challenges := filter (\<lambda>c. lc_ID c \<noteq> i) (t_challenges t)\<rparr>))"

definition DeleteExpiredLoginChallenges :: "driver \<Rightarrow> db \<Rightarrow> db_error + (nat \<times> db)" where
  "DeleteExpiredLoginChallenges d t =
     stmt d ''DeleteExpiredLoginChallenges''
       (Inr (length (filter (\<lambda>c. lc_ExpiresAt c \<le> drv_now d) (t_challenges t)),
             t\<lparr>t_challenges := filter (\<lambda>c. lc_ExpiresAt c > drv_now d) (t_challenges t)\<rparr>))"

section \<open>Second factors (query/two\_factors.sql, backup\_codes.sql)\<close>

definition UpsertPendingTwoFactor :: "driver \<Rightarrow> uuid \<Rightarrow> uuid \<Rightarrow> string \<Rightarrow> db \<Rightarrow> db_error + (TwoFactor \<times> db)" where
  "UpsertPendingTwoFactor d i uid secret t =
     stmt d ''UpsertPendingTwoFactor''
       (case find (\<lambda>x. tf_UserID x = uid) (t_two_factors t) of
          Some x \<Rightarrow>
            let f = (\<lambda>x. x\<lparr>tf_Secret := secret, tf_ConfirmedAt := None, tf_LastUsedStep := 0\<rparr>)
            in Inr (f x, t\<lparr>t_two_factors := map (\<lambda>x. if tf_UserID x = uid then f x else x) (t_two_factors t)\<rparr>)
        | None \<Rightarrow>
            if list_ex (\<lambda>x. tf_ID x = i) (t_two_factors t) then Inl UniqueViolation
            else if \<not> user_exists uid t then Inl ForeignKeyViolation
            else let x = \<lparr>tf_ID = i, tf_UserID = uid, tf_Secret = secret, tf_ConfirmedAt = None, tf_LastUsedStep = 0\<rparr>
                 in Inr (x, t\<lparr>t_two_factors := t_two_factors t @ [x]\<rparr>))"

definition GetTwoFactorByUserID :: "driver \<Rightarrow> uuid \<Rightarrow> db \<Rightarrow> db_error + TwoFactor" where
  "GetTwoFactorByUserID d uid t =
     stmt d ''GetTwoFactorByUserID'' (one_row (find (\<lambda>x. tf_UserID x = uid) (t_two_factors t)))"

definition update_two_factors :: "(TwoFactor \<Rightarrow> bool) \<Rightarrow> (TwoFactor \<Rightarrow> TwoFactor) \<Rightarrow> db \<Rightarrow> nat \<times> db" where
  "update_two_factors P f t =
     (length (filter P (t_two_factors t)),
      t\<lparr>t_two_factors := map (\<lambda>x. if P x then f x else x) (t_two_factors t)\<rparr>)"

definition ConfirmTwoFactor_q :: "driver \<Rightarrow> uuid \<Rightarrow> db \<Rightarrow> db_error + (nat \<times> db)" where
  "ConfirmTwoFactor_q d uid t =
     stmt d ''ConfirmTwoFactor''
       (Inr (update_two_factors (\<lambda>x. tf_UserID x = uid \<and> tf_ConfirmedAt x = None)
          (tf_ConfirmedAt_update (\<lambda>_. Some (drv_now d))) t))"

definition AdvanceTwoFactorStep :: "driver \<Rightarrow> uuid \<Rightarrow> int \<Rightarrow> db \<Rightarrow> db_error + (nat \<times> db)" where
  "AdvanceTwoFactorStep d uid step t =
     stmt d ''AdvanceTwoFactorStep''
       (Inr (update_two_factors (\<lambda>x. tf_UserID x = uid \<and> tf_LastUsedStep x < step)
          (tf_LastUsedStep_update (\<lambda>_. step)) t))"

definition DeleteTwoFactorByUserID :: "driver \<Rightarrow> uuid \<Rightarrow> db \<Rightarrow> db_error + (nat \<times> db)" where
  "DeleteTwoFactorByUserID d uid t =
     stmt d ''DeleteTwoFactorByUserID''
       (Inr (length (filter (\<lambda>x. tf_UserID x = uid) (t_two_factors t)),
             delete_two_factors (\<lambda>x. tf_UserID x = uid) t))"

definition CreateBackupCode :: "driver \<Rightarrow> uuid \<Rightarrow> uuid \<Rightarrow> string \<Rightarrow> db \<Rightarrow> db_error + (unit \<times> db)" where
  "CreateBackupCode d i tf hash t =
     stmt d ''CreateBackupCode''
       (if list_ex (\<lambda>c. bc_ID c = i) (t_backup_codes t) then Inl UniqueViolation
        else if \<not> list_ex (\<lambda>x. tf_ID x = tf) (t_two_factors t) then Inl ForeignKeyViolation
        else Inr ((), t\<lparr>t_backup_codes := t_backup_codes t @
          [\<lparr>bc_ID = i, bc_TwoFactorID = tf, bc_CodeHash = hash, bc_UsedAt = None\<rparr>]\<rparr>))"

definition ListUnusedBackupCodes :: "driver \<Rightarrow> uuid \<Rightarrow> db \<Rightarrow> db_error + BackupCode list" where
  "ListUnusedBackupCodes d uid t =
     stmt d ''ListUnusedBackupCodes''
       (Inr (filter (\<lambda>c. list_ex (\<lambda>x. tf_ID x = bc_TwoFactorID c \<and> tf_UserID x = uid) (t_two_factors t) \<and>
               bc_UsedAt c = None) (t_backup_codes t)))"

definition ConsumeBackupCode :: "driver \<Rightarrow> uuid \<Rightarrow> db \<Rightarrow> db_error + (nat \<times> db)" where
  "ConsumeBackupCode d i t =
     stmt d ''ConsumeBackupCode''
       (let P = (\<lambda>c. bc_ID c = i \<and> bc_UsedAt c = None) in
        Inr (length (filter P (t_backup_codes t)),
             t\<lparr>t_backup_codes := map (\<lambda>c. if P c then c\<lparr>bc_UsedAt := Some (drv_now d)\<rparr> else c) (t_backup_codes t)\<rparr>))"

definition DeleteBackupCodesByTwoFactorID :: "driver \<Rightarrow> uuid \<Rightarrow> db \<Rightarrow> db_error + (unit \<times> db)" where
  "DeleteBackupCodesByTwoFactorID d tf t =
     stmt d ''DeleteBackupCodesByTwoFactorID''
       (Inr ((), t\<lparr>t_backup_codes := filter (\<lambda>c. bc_TwoFactorID c \<noteq> tf) (t_backup_codes t)\<rparr>))"

section \<open>Device requests (query/device\_requests.sql)\<close>

definition CreateDeviceRequest :: "driver \<Rightarrow> DeviceRequest_row \<Rightarrow> db \<Rightarrow> db_error + (DeviceRequest_row \<times> db)" where
  "CreateDeviceRequest d new t =
     stmt d ''CreateDeviceRequest''
       (if dr_Intent new \<notin> {''login'', ''reauth''} then Inl CheckViolation
        else if list_ex (\<lambda>r. dr_ID r = dr_ID new \<or> dr_UserCode r = dr_UserCode new \<or>
                     dr_DeviceCodeHash r = dr_DeviceCodeHash new) (t_devices t)
        then Inl UniqueViolation
        else if (case dr_SessionID new of Some i \<Rightarrow> \<not> list_ex (\<lambda>x. s_ID x = i) (t_sessions t) | None \<Rightarrow> False) \<or>
                (case dr_UserID new of Some i \<Rightarrow> \<not> user_exists i t | None \<Rightarrow> False)
        then Inl ForeignKeyViolation
        else let r = new\<lparr>dr_Status := ''pending'', dr_PollCount := 0, dr_LastPolledAt := None,
                       dr_CreatedAt := drv_now d\<rparr>
             in Inr (r, t\<lparr>t_devices := t_devices t @ [r]\<rparr>))"

definition GetDeviceRequestByUserCode :: "driver \<Rightarrow> string \<Rightarrow> db \<Rightarrow> db_error + DeviceRequest_row" where
  "GetDeviceRequestByUserCode d code t =
     stmt d ''GetDeviceRequestByUserCode''
       (one_row (find (\<lambda>r. dr_UserCode r = code \<and> dr_ExpiresAt r > drv_now d) (t_devices t)))"

definition GetDeviceRequestByDeviceCodeHashForUpdate :: "driver \<Rightarrow> string \<Rightarrow> db \<Rightarrow> db_error + DeviceRequest_row" where
  "GetDeviceRequestByDeviceCodeHashForUpdate d hash t =
     stmt d ''GetDeviceRequestByDeviceCodeHashForUpdate'' (one_row (find (\<lambda>r. dr_DeviceCodeHash r = hash) (t_devices t)))"

definition update_devices :: "(DeviceRequest_row \<Rightarrow> bool) \<Rightarrow> (DeviceRequest_row \<Rightarrow> DeviceRequest_row) \<Rightarrow> db \<Rightarrow> nat \<times> db" where
  "update_devices P f t =
     (length (filter P (t_devices t)), t\<lparr>t_devices := map (\<lambda>r. if P r then f r else r) (t_devices t)\<rparr>)"

definition TouchDeviceRequestPoll :: "driver \<Rightarrow> uuid \<Rightarrow> gotime option \<Rightarrow> db \<Rightarrow> db_error + ((int \<times> gotime option) \<times> db)" where
  "TouchDeviceRequestPoll d i at t =
     stmt d ''TouchDeviceRequestPoll''
       (case find (\<lambda>r. dr_ID r = i) (t_devices t) of
          None \<Rightarrow> Inl ErrNoRows
        | Some r \<Rightarrow>
            Inr ((dr_PollCount r + 1, at),
                 snd (update_devices (\<lambda>r. dr_ID r = i)
                   (\<lambda>r. r\<lparr>dr_PollCount := dr_PollCount r + 1, dr_LastPolledAt := at\<rparr>) t)))"

definition ApproveDeviceRequest :: "driver \<Rightarrow> uuid \<Rightarrow> uuid option \<Rightarrow> db \<Rightarrow> db_error + (nat \<times> db)" where
  "ApproveDeviceRequest d i uid t =
     stmt d ''ApproveDeviceRequest''
       (let P = (\<lambda>r. dr_ID r = i \<and> dr_Status r = ''pending'' \<and> dr_ExpiresAt r > drv_now d) in
        if list_ex P (t_devices t) \<and> (case uid of Some u \<Rightarrow> \<not> user_exists u t | None \<Rightarrow> False)
        then Inl ForeignKeyViolation
        else Inr (update_devices P (\<lambda>r. r\<lparr>dr_Status := ''approved'', dr_UserID := uid\<rparr>) t))"

definition DenyDeviceRequest :: "driver \<Rightarrow> uuid \<Rightarrow> db \<Rightarrow> db_error + (nat \<times> db)" where
  "DenyDeviceRequest d i t =
     stmt d ''DenyDeviceRequest''
       (Inr (update_devices (\<lambda>r. dr_ID r = i \<and> dr_Status r = ''pending'' \<and> dr_ExpiresAt r > drv_now d)
          (dr_Status_update (\<lambda>_. ''denied'')) t))"

definition DeleteDeviceRequest :: "driver \<Rightarrow> uuid \<Rightarrow> db \<Rightarrow> db_error + (unit \<times> db)" where
  "DeleteDeviceRequest d i t =
     stmt d ''DeleteDeviceRequest'' (Inr ((), t\<lparr>t_devices := filter (\<lambda>r. dr_ID r \<noteq> i) (t_devices t)\<rparr>))"

definition DeleteExpiredDeviceRequests :: "driver \<Rightarrow> db \<Rightarrow> db_error + (nat \<times> db)" where
  "DeleteExpiredDeviceRequests d t =
     stmt d ''DeleteExpiredDeviceRequests''
       (Inr (length (filter (\<lambda>r. dr_ExpiresAt r \<le> drv_now d) (t_devices t)),
             t\<lparr>t_devices := filter (\<lambda>r. dr_ExpiresAt r > drv_now d) (t_devices t)\<rparr>))"

lemmas auth_stmt_defs =
  CreateAccount_def UpdateAccountPassword_def CreateSession_def ExtendSession_def TouchSessionReauthenticated_def
  DeleteSessionByTokenHash_def DeleteSessionByID_def DeleteUserSessionsExcept_def DeleteSessionsByUser_def
  DeleteExpiredSessions_def CreateLoginChallenge_def IncrementLoginChallengeAttempts_def DeleteLoginChallenge_def
  DeleteExpiredLoginChallenges_def UpsertPendingTwoFactor_def ConfirmTwoFactor_q_def AdvanceTwoFactorStep_def
  DeleteTwoFactorByUserID_def CreateBackupCode_def ConsumeBackupCode_def DeleteBackupCodesByTwoFactorID_def
  CreateDeviceRequest_def TouchDeviceRequestPoll_def ApproveDeviceRequest_def DenyDeviceRequest_def
  DeleteDeviceRequest_def DeleteExpiredDeviceRequests_def

lemmas auth_table_defs =
  update_sessions_def delete_sessions_n_def delete_sessions_def update_two_factors_def delete_two_factors_def
  update_devices_def

section \<open>The shared state and the actions on it\<close>

text \<open>What the random source gives next; \<open>None\<close> is a failed read of it.\<close>

record entropy =
  en_token :: "string option"
  en_uuid :: "nat \<Rightarrow> uuid option"
  en_salt :: "nat \<Rightarrow> string option"
  en_codes :: "string list option"
  en_totp :: "string option"
  en_bytes :: "nat \<Rightarrow> nat list"

record sys =
  sy_db :: db
  sy_limiter :: rateLimiter
  sy_feed :: "unit Broadcaster"
  sy_driver :: driver
  sy_now :: gotime
  sy_entropy :: entropy

text \<open>Time goes on, connections fail and recover, randomness is drawn, streams
  subscribe to the project feed and read it; the tables and the limiter
  change by actions of requests only.\<close>

definition outside :: "sys \<Rightarrow> sys \<Rightarrow> bool" where
  "outside s s' \<longleftrightarrow>
     sy_db s' = sy_db s \<and> sy_limiter s' = sy_limiter s \<and> sy_now s \<le> sy_now s' \<and>
     (broadcaster_ok (sy_feed s) \<longrightarrow> broadcaster_ok (sy_feed s'))"

definition query :: "(driver \<Rightarrow> db \<Rightarrow> db_error + 'a) \<Rightarrow> (sys, db_error + 'a) prog" where
  "query q = act (\<lambda>s. (q (sy_driver s) (sy_db s), s))"

definition update :: "(driver \<Rightarrow> db \<Rightarrow> db_error + ('a \<times> db)) \<Rightarrow> (sys, db_error + 'a) prog" where
  "update q = act (\<lambda>s. case settle (sy_db s) (q (sy_driver s) (sy_db s)) of (r, t) \<Rightarrow> (r, s\<lparr>sy_db := t\<rparr>))"

definition transaction ::
    "(db_error \<Rightarrow> 'e) \<Rightarrow> (sys \<Rightarrow> driver \<Rightarrow> db \<Rightarrow> 'e + ('a \<times> db)) \<Rightarrow> (sys, 'e + 'a) prog" where
  "transaction wrap f =
     act (\<lambda>s. case settle (sy_db s) (WithTx (sy_driver s) wrap (f s (sy_driver s)) (sy_db s)) of
                (r, t) \<Rightarrow> (r, s\<lparr>sy_db := t\<rparr>))"

text \<open>
  A transaction is one action when the store runs it as if alone: its reads
  lock the rows it decides on, or it decides in the statements that write. A
  plain read at the beginning of a transaction is not of that kind. The store
  runs statements at the isolation level \<^verbatim>\<open>READ COMMITTED\<close>, so other
  transactions may commit between that read and the writes: such a transaction
  is two actions, the read (\<open>tx_first\<close>) and the rest (\<open>tx_rest\<close>).
\<close>

definition tx_first :: "(db_error \<Rightarrow> 'e) \<Rightarrow> (driver \<Rightarrow> db \<Rightarrow> 'e + 'a) \<Rightarrow> (sys, 'e + 'a) prog" where
  "tx_first wrap q =
     act (\<lambda>s. ((case drv_fails (sy_driver s) ''Begin'' of
                 Some e \<Rightarrow> Inl (wrap (Failure e)) | None \<Rightarrow> q (sy_driver s) (sy_db s)), s))"

definition tx_rest ::
    "(db_error \<Rightarrow> 'e) \<Rightarrow> (sys \<Rightarrow> driver \<Rightarrow> db \<Rightarrow> 'e + ('a \<times> db)) \<Rightarrow> (sys, 'e + 'a) prog" where
  "tx_rest wrap f =
     act (\<lambda>s. case settle (sy_db s)
              (bind_r (f s (sy_driver s) (sy_db s)) (\<lambda>r.
                 case drv_fails (sy_driver s) ''Commit'' of Some e \<Rightarrow> Inl (wrap (Failure e)) | None \<Rightarrow> Inr r)) of
            (r, t) \<Rightarrow> (r, s\<lparr>sy_db := t\<rparr>))"

definition clock :: "(sys, gotime) prog" where
  "clock = act (\<lambda>s. (sy_now s, s))"

definition draw :: "(entropy \<Rightarrow> 'a) \<Rightarrow> (sys, 'a) prog" where
  "draw g = act (\<lambda>s. (g (sy_entropy s), s))"

definition limiter_allow :: "string \<Rightarrow> int \<Rightarrow> duration \<Rightarrow> (sys, bool) prog" where
  "limiter_allow key limit window =
     act (\<lambda>s. case allow key limit window (sy_now s) (sy_limiter s) of (ok, l) \<Rightarrow> (ok, s\<lparr>sy_limiter := l\<rparr>))"

text \<open>The project feed (\<^verbatim>\<open>internal/feed\<close>): a payload-free signal per project.\<close>

definition feed_Publish :: "uuid \<Rightarrow> (sys, unit) prog" where
  "feed_Publish projectID = act (\<lambda>s. ((), s\<lparr>sy_feed := Publish projectID () (sy_feed s)\<rparr>))"

section \<open>Guarantees on the tables\<close>

definition keeps :: "(db \<Rightarrow> db \<Rightarrow> bool) \<Rightarrow> sys \<Rightarrow> sys \<Rightarrow> bool" where
  "keeps H s s' \<longleftrightarrow> H (sy_db s) (sy_db s')"

text \<open>
  A relation that a table change may always satisfy by not happening; the
  reading actions then keep it, and a writing action keeps it when its
  statement does.
\<close>

locale table_guarantee =
  fixes H :: "db \<Rightarrow> db \<Rightarrow> bool"
  assumes H_refl: "H t t"
begin

lemma guar_query: "guar I (keeps H) (query q)"
  by (simp add: query_def guar_act keeps_def H_refl)

lemma guar_clock: "guar I (keeps H) clock"
  by (simp add: clock_def guar_act keeps_def H_refl)

lemma guar_draw: "guar I (keeps H) (draw g)"
  by (simp add: draw_def guar_act keeps_def H_refl)

lemma guar_limiter: "guar I (keeps H) (limiter_allow key limit window)"
  by (simp add: limiter_allow_def guar_act keeps_def H_refl split: prod.split)

lemma guar_feed: "guar I (keeps H) (feed_Publish pid)"
  by (simp add: feed_Publish_def guar_act keeps_def H_refl)

lemma guar_update:
  assumes "\<And>d t x t'. q d t = Inr (x, t') \<Longrightarrow> H t t'"
  shows "guar I (keeps H) (update q)"
  using assms by (auto simp: update_def guar_act keeps_def settle_def H_refl split: sum.splits)

lemma guar_transaction:
  assumes "\<And>s d t x t'. f s d t = Inr (x, t') \<Longrightarrow> H t t'"
  shows "guar I (keeps H) (transaction wrap f)"
  using assms by (auto simp: transaction_def guar_act keeps_def settle_def H_refl split: sum.splits dest!: WithTx_Inr)

lemma guar_tx_first: "guar I (keeps H) (tx_first wrap q)"
  by (simp add: tx_first_def guar_act keeps_def H_refl)

lemma guar_tx_rest:
  assumes "\<And>s d t x t'. f s d t = Inr (x, t') \<Longrightarrow> H t t'"
  shows "guar I (keeps H) (tx_rest wrap f)"
  using assms
  by (auto simp: tx_rest_def guar_act keeps_def settle_def H_refl bind_r_Inr split: sum.splits option.splits)

lemma outside_keeps: "outside s s' \<Longrightarrow> keeps H s s'"
  by (simp add: outside_def keeps_def H_refl)

lemmas guar_reads = guar_query guar_tx_first guar_clock guar_draw guar_limiter guar_feed

end

end
