(* ===== verification/Authz.thy ===== *)
theory Authz
  imports Store_Db
begin

text \<open>
  Who may do what (\<^verbatim>\<open>internal/authz\<close>): the ladder of roles, the effective role
  on an environment, and the resolver that turns stored memberships, cells
  and settings into grants. The resolver reads three tables in three
  statements; each is given the tables as they are when it runs.
\<close>

section \<open>The ladder of roles (role.go)\<close>

type_synonym Role = int

definition RoleNone :: Role where "RoleNone = 0"
definition Read :: Role where "Read = 1"
definition Deploy :: Role where "Deploy = 2"
definition Maintain :: Role where "Maintain = 3"
definition Admin :: Role where "Admin = 4"

lemmas role_defs = RoleNone_def Read_def Deploy_def Maintain_def Admin_def

definition roleNames :: "string list" where
  "roleNames = [''none'', ''read'', ''deploy'', ''maintain'', ''admin'']"

definition Role_String :: "Role \<Rightarrow> string" where
  "Role_String r =
     (if r < RoleNone \<or> r > Admin then ''role('' @ format_int r @ '')'' else roleNames ! nat r)"

definition AtLeast :: "Role \<Rightarrow> Role \<Rightarrow> bool" where
  "AtLeast r least = (r \<ge> least)"

fun parse_role_from :: "int \<Rightarrow> string list \<Rightarrow> string \<Rightarrow> Role option" where
  "parse_role_from i [] s = None"
| "parse_role_from i (name # names) s = (if name = s then Some i else parse_role_from (i + 1) names s)"

definition ParseRole :: "string \<Rightarrow> Role option" where
  "ParseRole s = parse_role_from 0 roleNames s"

definition ValidProjectRole :: "string \<Rightarrow> bool" where
  "ValidProjectRole s = (case ParseRole s of Some r \<Rightarrow> r \<ge> Read | None \<Rightarrow> False)"

definition ValidCellRole :: "string \<Rightarrow> bool" where
  "ValidCellRole s = (ParseRole s \<noteq> None)"

definition ValidMaxRole :: "string \<Rightarrow> bool" where
  "ValidMaxRole s = (ParseRole s \<noteq> None)"

definition ValidDeployPolicy :: "string \<Rightarrow> bool" where
  "ValidDeployPolicy s \<longleftrightarrow> s = ''direct'' \<or> s = ''promote-only''"

definition ValidPriority :: "string \<Rightarrow> bool" where
  "ValidPriority s \<longleftrightarrow> s = ''normal'' \<or> s = ''high''"

definition BackupStrategyComplete :: string where
  "BackupStrategyComplete = ''complete''"

definition MinBackupRetentionSeconds :: int where
  "MinBackupRetentionSeconds = 60"

definition ValidBackupStrategy :: "string \<Rightarrow> bool" where
  "ValidBackupStrategy s = (s = BackupStrategyComplete)"

definition ValidBackupRetention :: "int \<Rightarrow> bool" where
  "ValidBackupRetention seconds = (seconds \<ge> MinBackupRetentionSeconds)"

definition RoleNames :: "string list" where
  "RoleNames = roleNames"

definition ProjectRoleNames :: string where
  "ProjectRoleNames = join_with '', '' (drop (nat Read) roleNames)"

section \<open>The effective role (effective.go)\<close>

definition Effective :: "bool \<Rightarrow> bool \<Rightarrow> Role \<Rightarrow> Role option \<Rightarrow> Role \<Rightarrow> Role" where
  "Effective instanceAdmin member projectRole cell maxRole =
     (if instanceAdmin then Admin
      else case cell of
        Some r \<Rightarrow> r
      | None \<Rightarrow>
          if \<not> member then RoleNone
          else if projectRole = Admin then Admin
          else if projectRole > maxRole then maxRole
          else projectRole)"

section \<open>Grants (resolver.go, policy.go)\<close>

record BackupSchedule =
  bs_Schedule :: string
  bs_RetentionSeconds :: int
  bs_Strategy :: string

record Settings =
  set_MaxRole :: Role
  set_DeployPolicy :: string
  set_PromoteFrom :: "string list"
  set_Priority :: string
  set_Backup :: "BackupSchedule option"

record EnvironmentGrant =
  eg_ID :: uuid
  eg_Name :: string
  eg_Role :: Role
  eg_Cell :: "Role option"
  eg_Settings :: Settings

record Grant =
  g_ProjectID :: uuid
  g_ProjectName :: string
  g_InstanceAdmin :: bool
  g_Member :: bool
  g_ProjectRole :: Role
  g_Environments :: "(uuid, EnvironmentGrant) gomap"
  g_deployerCell :: bool

definition Locked :: "EnvironmentGrant \<Rightarrow> bool" where
  "Locked e = (eg_Role e = RoleNone)"

definition Protected :: "EnvironmentGrant \<Rightarrow> bool" where
  "Protected e = (set_DeployPolicy (eg_Settings e) = ''promote-only'')"

definition AcceptsPromotionFrom :: "EnvironmentGrant \<Rightarrow> string \<Rightarrow> bool" where
  "AcceptsPromotionFrom e source =
     (if \<not> Protected e then True
      else set_PromoteFrom (eg_Settings e) = [] \<or> source \<in> set (set_PromoteFrom (eg_Settings e)))"

definition Visible :: "Grant \<Rightarrow> bool" where
  "Visible g \<longleftrightarrow> g_InstanceAdmin g \<or> g_Member g"

definition Deployer :: "Grant \<Rightarrow> bool" where
  "Deployer g \<longleftrightarrow> g_InstanceAdmin g \<or> g_ProjectRole g \<ge> Deploy \<or> g_deployerCell g"

definition MayCreateEnvironments :: "Grant \<Rightarrow> bool" where
  "MayCreateEnvironments g \<longleftrightarrow> g_InstanceAdmin g \<or> g_ProjectRole g \<ge> Maintain"

definition Grant_Environment :: "Grant \<Rightarrow> uuid \<Rightarrow> EnvironmentGrant option" where
  "Grant_Environment g i = mget (g_Environments g) i"

definition EnvironmentByName :: "Grant \<Rightarrow> string \<Rightarrow> EnvironmentGrant option" where
  "EnvironmentByName g name = find (\<lambda>e. eg_Name e = name) (mvals (g_Environments g))"

definition Roles :: "Grant \<Rightarrow> (string, string) gomap" where
  "Roles g = foldl (\<lambda>roles e. mput (eg_Name e) (Role_String (eg_Role e)) roles) [] (mvals (g_Environments g))"

datatype authz_error =
    AuthzNotFound
  | UnknownStoredRole string
  | UnknownStoredMaxRole string
  | AuthzStore string db_error
  | NilGrant

definition settingsOf :: "Environment \<Rightarrow> authz_error + Settings" where
  "settingsOf env =
     (case ParseRole (e_MaxRole env) of
        None \<Rightarrow> Inl (UnknownStoredMaxRole (e_MaxRole env))
      | Some maxRole \<Rightarrow>
          Inr \<lparr>set_MaxRole = maxRole, set_DeployPolicy = e_DeployPolicy env,
               set_PromoteFrom = e_PromoteFrom env, set_Priority = e_Priority env,
               set_Backup = (if e_BackupSchedule env \<noteq> []
                 then Some \<lparr>bs_Schedule = e_BackupSchedule env,
                            bs_RetentionSeconds = e_BackupRetentionSeconds env,
                            bs_Strategy = e_BackupStrategy env\<rparr>
                 else None)\<rparr>)"

section \<open>Resolving grants\<close>

definition instance_admin :: "User \<Rightarrow> bool" where
  "instance_admin user = (u_Role user = ''admin'')"

definition MayCreateProject :: "User \<Rightarrow> bool" where
  "MayCreateProject user \<longleftrightarrow> instance_admin user \<or> u_CreateProjects user"

text \<open>The four loops of \<^verbatim>\<open>load\<close>: the empty grants, memberships, cells, environments.\<close>

definition fresh_grant :: "bool \<Rightarrow> Project \<Rightarrow> Grant" where
  "fresh_grant admin p =
     \<lparr>g_ProjectID = p_ID p, g_ProjectName = p_Name p, g_InstanceAdmin = admin, g_Member = False,
      g_ProjectRole = (if admin then Admin else RoleNone), g_Environments = [], g_deployerCell = False\<rparr>"

definition fresh_grants :: "bool \<Rightarrow> Project list \<Rightarrow> (uuid, Grant) gomap" where
  "fresh_grants admin projects = foldl (\<lambda>g p. mput (p_ID p) (fresh_grant admin p) g) [] projects"

fun member_loop :: "bool \<Rightarrow> (uuid, Grant) gomap \<Rightarrow> ProjectMember list \<Rightarrow> authz_error + (uuid, Grant) gomap" where
  "member_loop admin grants [] = Inr grants"
| "member_loop admin grants (m # ms) =
     (case mget grants (m_ProjectID m) of
        None \<Rightarrow> member_loop admin grants ms
      | Some g \<Rightarrow>
          (case ParseRole (m_Role m) of
             None \<Rightarrow> Inl (UnknownStoredRole (m_Role m))
           | Some role \<Rightarrow>
               member_loop admin
                 (mput (m_ProjectID m)
                    (g\<lparr>g_Member := True, g_ProjectRole := (if admin then g_ProjectRole g else role)\<rparr>) grants) ms))"

fun cell_loop ::
    "(uuid, Role) gomap \<Rightarrow> (uuid, Grant) gomap \<Rightarrow> EnvironmentAccess list
      \<Rightarrow> authz_error + ((uuid, Role) gomap \<times> (uuid, Grant) gomap)" where
  "cell_loop cells grants [] = Inr (cells, grants)"
| "cell_loop cells grants (c # cs) =
     (case ParseRole (a_Role c) of
        None \<Rightarrow> Inl (UnknownStoredRole (a_Role c))
      | Some role \<Rightarrow>
          cell_loop (mput (a_EnvironmentID c) role cells)
            (case mget grants (a_ProjectID c) of
               Some g \<Rightarrow> if role \<ge> Deploy then mput (a_ProjectID c) (g\<lparr>g_deployerCell := True\<rparr>) grants else grants
             | None \<Rightarrow> grants) cs)"

text \<open>A row of a project that was not asked for would dereference a nil grant.\<close>

fun env_loop ::
    "bool \<Rightarrow> (uuid, Role) gomap \<Rightarrow> (uuid, Grant) gomap \<Rightarrow> Environment list \<Rightarrow> authz_error + (uuid, Grant) gomap" where
  "env_loop admin cells grants [] = Inr grants"
| "env_loop admin cells grants (env # envs) =
     (case settingsOf env of
        Inl e \<Rightarrow> Inl e
      | Inr settings \<Rightarrow>
          (case mget grants (e_ProjectID env) of
             None \<Rightarrow> Inl NilGrant
           | Some g \<Rightarrow>
               let cell = mget cells (e_ID env);
                   eg = \<lparr>eg_ID = e_ID env, eg_Name = e_Name env,
                         eg_Role = Effective admin (g_Member g) (g_ProjectRole g) cell (set_MaxRole settings),
                         eg_Cell = cell, eg_Settings = settings\<rparr>
               in env_loop admin cells
                    (mput (e_ProjectID env) (g\<lparr>g_Environments := mput (e_ID env) eg (g_Environments g)\<rparr>) grants)
                    envs))"

definition load ::
    "driver \<Rightarrow> User \<Rightarrow> Project list \<Rightarrow> db \<Rightarrow> db \<Rightarrow> db \<Rightarrow> authz_error + (uuid, Grant) gomap" where
  "load d user projects sm sc se =
     (let admin = instance_admin user in
      bind_r (map_err (AuthzStore ''list memberships'') (ListProjectMembersForUser d (u_ID user) sm)) (\<lambda>memberships.
      bind_r (member_loop admin (fresh_grants admin projects) memberships) (\<lambda>grants.
      bind_r (if admin then Inr ([], grants)
              else bind_r (map_err (AuthzStore ''list cells'') (ListEnvironmentAccessForUser d (u_ID user) sc))
                     (cell_loop [] grants)) (\<lambda>(cells, grants).
      bind_r (map_err (AuthzStore ''list environments'')
                (ListEnvironmentsForProjects d (map p_ID projects) se)) (\<lambda>environments.
      env_loop admin cells grants environments)))))"

text \<open>A history gives the tables each statement of an operation sees.\<close>

type_synonym history = "nat \<Rightarrow> db"

definition resolve_Project :: "driver \<Rightarrow> User \<Rightarrow> uuid \<Rightarrow> history \<Rightarrow> authz_error + Grant" where
  "resolve_Project d user projectID h =
     (case GetProjectByID d projectID (h 0) of
        Inl ErrNoRows \<Rightarrow> Inl AuthzNotFound
      | Inl e \<Rightarrow> Inl (AuthzStore ''get project'' e)
      | Inr project \<Rightarrow>
          bind_r (load d user [project] (h 1) (h 2) (h 3)) (\<lambda>grants.
          case mget grants projectID of None \<Rightarrow> Inl NilGrant | Some g \<Rightarrow> Inr g))"

definition resolve_Environment ::
    "driver \<Rightarrow> User \<Rightarrow> uuid \<Rightarrow> history \<Rightarrow> authz_error + (Grant \<times> EnvironmentGrant)" where
  "resolve_Environment d user environmentID h =
     (case GetEnvironmentByID d environmentID (h 0) of
        Inl ErrNoRows \<Rightarrow> Inl AuthzNotFound
      | Inl e \<Rightarrow> Inl (AuthzStore ''get environment'' e)
      | Inr env \<Rightarrow>
          bind_r (resolve_Project d user (e_ProjectID env) (\<lambda>n. h (n + 1))) (\<lambda>grant.
          case Grant_Environment grant (e_ID env) of
            None \<Rightarrow> Inl AuthzNotFound
          | Some eg \<Rightarrow> Inr (grant, eg)))"

definition resolve_All ::
    "driver \<Rightarrow> User \<Rightarrow> history \<Rightarrow> authz_error + (Project list \<times> (uuid, Grant) gomap)" where
  "resolve_All d user h =
     bind_r (map_err (AuthzStore ''list projects'')
       (if instance_admin user then ListProjects d (h 0) else ListProjectsForUser d (u_ID user) (h 0))) (\<lambda>projects.
     bind_r (load d user projects (h 1) (h 2) (h 3)) (\<lambda>grants. Inr (projects, grants)))"

definition DeployerAnywhere :: "driver \<Rightarrow> User \<Rightarrow> db \<Rightarrow> authz_error + bool" where
  "DeployerAnywhere d user s =
     (if instance_admin user then Inr True
      else map_err (AuthzStore ''deployer anywhere'') (UserIsDeployerAnywhere d (u_ID user) s))"

definition Required :: "Role \<Rightarrow> string \<Rightarrow> string \<Rightarrow> string" where
  "Required least scope name = Role_String least @ '' on '' @ scope @ '' '' @ name @ '' required''"

record ErrForbidden =
  ef_Required :: Role
  ef_Scope :: string
  ef_Name :: string
  ef_Reason :: string

definition ErrForbidden_Error :: "ErrForbidden \<Rightarrow> string" where
  "ErrForbidden_Error e =
     (let msg = Required (ef_Required e) (ef_Scope e) (ef_Name e)
      in if ef_Reason e \<noteq> [] then msg @ '': '' @ ef_Reason e else msg)"

section \<open>Roles read and print\<close>

lemma ParseRole_names:
  "ParseRole ''none'' = Some 0" "ParseRole ''read'' = Some 1" "ParseRole ''deploy'' = Some 2"
  "ParseRole ''maintain'' = Some 3" "ParseRole ''admin'' = Some 4"
  by (simp_all add: ParseRole_def roleNames_def)

lemma ParseRole_known:
  assumes "ParseRole s = Some r"
  shows "(s, r) \<in> {(''none'', 0), (''read'', 1), (''deploy'', 2), (''maintain'', 3), (''admin'', 4)}"
proof -
  have "ParseRole s = (if ''none'' = s then Some 0 else if ''read'' = s then Some 1
      else if ''deploy'' = s then Some 2 else if ''maintain'' = s then Some 3
      else if ''admin'' = s then Some 4 else None)"
    by (simp add: ParseRole_def roleNames_def)
  then show ?thesis
    using assms by (cases "''none'' = s"; cases "''read'' = s"; cases "''deploy'' = s"; cases "''maintain'' = s";
        cases "''admin'' = s") auto
qed

lemma role_cases: "0 \<le> r \<Longrightarrow> r \<le> 4 \<Longrightarrow> r = 0 \<or> r = 1 \<or> r = 2 \<or> r = 3 \<or> r = (4 :: int)"
  by presburger

lemma Role_String_parses: "0 \<le> r \<Longrightarrow> r \<le> 4 \<Longrightarrow> ParseRole (Role_String r) = Some r"
  by (drule (1) role_cases) (elim disjE; simp add: Role_String_def role_defs roleNames_def ParseRole_names)

lemma Role_String_unknown: "r < 0 \<or> r > 4 \<Longrightarrow> ParseRole (Role_String r) = None"
  by (simp add: ParseRole_def roleNames_def Role_String_def role_defs)

lemma role_check_parses: "role_check s \<longleftrightarrow> (\<exists>r. ParseRole s = Some r)"
proof
  assume "role_check s"
  then show "\<exists>r. ParseRole s = Some r"
    unfolding role_check_def by (elim insertE) (simp_all add: ParseRole_names)
next
  assume "\<exists>r. ParseRole s = Some r"
  then obtain r where "ParseRole s = Some r" ..
  from ParseRole_known [OF this] show "role_check s" by (simp add: role_check_def) blast
qed

lemma member_check_parses: "member_check s \<longleftrightarrow> (\<exists>r. ParseRole s = Some r \<and> 1 \<le> r)"
proof
  assume "member_check s"
  then show "\<exists>r. ParseRole s = Some r \<and> 1 \<le> r"
    unfolding member_check_def by (elim insertE) (simp_all add: ParseRole_names)
next
  assume "\<exists>r. ParseRole s = Some r \<and> 1 \<le> r"
  then obtain r where r: "ParseRole s = Some r" "1 \<le> r" by blast
  from ParseRole_known [OF r(1)] r(2) show "member_check s" by (simp add: member_check_def) linarith
qed

lemma ValidProjectRole_String: "ValidProjectRole (Role_String r) \<longleftrightarrow> 1 \<le> r \<and> r \<le> 4"
  by (cases "0 \<le> r \<and> r \<le> 4")
    (auto simp: ValidProjectRole_def Role_String_parses Role_String_unknown Read_def)

lemma ValidCellRole_String: "ValidCellRole (Role_String r) \<longleftrightarrow> 0 \<le> r \<and> r \<le> 4"
  by (cases "0 \<le> r \<and> r \<le> 4") (auto simp: ValidCellRole_def Role_String_parses Role_String_unknown)

lemma role_check_String: "role_check (Role_String r) \<longleftrightarrow> 0 \<le> r \<and> r \<le> 4"
  using ValidCellRole_String by (auto simp: role_check_parses ValidCellRole_def)

lemma member_check_String: "member_check (Role_String r) \<longleftrightarrow> 1 \<le> r \<and> r \<le> 4"
  by (cases "0 \<le> r \<and> r \<le> 4")
    (auto simp: member_check_parses Role_String_parses Role_String_unknown)

section \<open>What the rows say\<close>

text \<open>The standing of a user, read straight off the tables.\<close>

definition member_row :: "User \<Rightarrow> uuid \<Rightarrow> db \<Rightarrow> ProjectMember option" where
  "member_row user pid s = find (is_member pid (u_ID user)) (t_members s)"

definition project_role :: "User \<Rightarrow> uuid \<Rightarrow> db \<Rightarrow> Role" where
  "project_role user pid s =
     (if instance_admin user then Admin
      else case member_row user pid s of Some m \<Rightarrow> the (ParseRole (m_Role m)) | None \<Rightarrow> RoleNone)"

definition cell_role :: "User \<Rightarrow> uuid \<Rightarrow> db \<Rightarrow> Role option" where
  "cell_role user eid s =
     (if instance_admin user then None
      else case find (is_cell eid (u_ID user)) (t_access s) of Some a \<Rightarrow> ParseRole (a_Role a) | None \<Rightarrow> None)"

text \<open>The effective role on an environment: memberships, cells and the
  environment row are each taken from the tables their statement saw.\<close>

definition role_on :: "User \<Rightarrow> Environment \<Rightarrow> db \<Rightarrow> db \<Rightarrow> Role" where
  "role_on user e sm sc =
     (if instance_admin user then Admin
      else case cell_role user (e_ID e) sc of
        Some r \<Rightarrow> r
      | None \<Rightarrow>
          (case member_row user (e_ProjectID e) sm of
             None \<Rightarrow> RoleNone
           | Some m \<Rightarrow>
               let r = the (ParseRole (m_Role m))
               in if r = Admin then Admin else min r (the (ParseRole (e_MaxRole e)))))"

lemma role_on_Effective:
  "role_on user e sm sc =
     Effective (instance_admin user) (member_row user (e_ProjectID e) sm \<noteq> None)
       (project_role user (e_ProjectID e) sm) (cell_role user (e_ID e) sc) (the (ParseRole (e_MaxRole e)))"
  by (simp add: role_on_def Effective_def project_role_def Let_def split: option.split)

definition deployer_cell :: "User \<Rightarrow> uuid \<Rightarrow> db \<Rightarrow> bool" where
  "deployer_cell user pid s \<longleftrightarrow>
     \<not> instance_admin user \<and>
     (\<exists>a \<in> set (t_access s). a_UserID a = u_ID user \<and> a_ProjectID a = pid \<and> the (ParseRole (a_Role a)) \<ge> Deploy)"

section \<open>The loops of the resolver\<close>

lemma fresh_key: "distinct (map k (x # xs)) \<Longrightarrow> y \<in> set xs \<Longrightarrow> k y \<noteq> k x"
  by (metis distinct.simps(2) imageI list.set_map list.simps(9))

lemma find_fresh_key: "distinct (map k (x # xs)) \<Longrightarrow> find (\<lambda>y. k y = k x) xs = None"
  using fresh_key [of k x xs] by (auto simp: find_None_iff)

lemma find_append: "find P (xs @ ys) = (case find P xs of None \<Rightarrow> find P ys | Some x \<Rightarrow> Some x)"
  by (induction xs) auto

lemma fresh_grants_mget:
  "distinct (map p_ID projects) \<Longrightarrow>
   mget (fresh_grants admin projects) pid =
     map_option (fresh_grant admin) (find (\<lambda>p. p_ID p = pid) projects)"
proof (induction projects rule: rev_induct)
  case Nil
  then show ?case by (simp add: fresh_grants_def)
next
  case (snoc p ps)
  then have IH: "mget (fresh_grants admin ps) pid = map_option (fresh_grant admin) (find (\<lambda>p. p_ID p = pid) ps)"
    by simp
  have eq: "fresh_grants admin (ps @ [p]) = mput (p_ID p) (fresh_grant admin p) (fresh_grants admin ps)"
    by (simp add: fresh_grants_def)
  show ?case
  proof (cases "p_ID p = pid")
    case True
    have "x \<in> set ps \<Longrightarrow> p_ID x \<noteq> p_ID p" for x
      using snoc.prems by (metis distinct_append imageI list.set_map map_append disjoint_iff list.set_intros(1) list.simps(9))
    then have "find (\<lambda>p. p_ID p = pid) ps = None" using True by (auto simp: find_None_iff)
    then show ?thesis unfolding eq using True by (simp add: find_append)
  next
    case False
    then show ?thesis unfolding eq using IH by (simp add: find_append split: option.splits)
  qed
qed

definition with_member :: "bool \<Rightarrow> ProjectMember \<Rightarrow> Grant \<Rightarrow> Grant" where
  "with_member admin m g =
     g\<lparr>g_Member := True, g_ProjectRole := (if admin then g_ProjectRole g else the (ParseRole (m_Role m)))\<rparr>"

lemma member_loop_exact:
  assumes "distinct (map m_ProjectID ms)" "\<forall>m \<in> set ms. ParseRole (m_Role m) \<noteq> None"
  shows "\<exists>grants'. member_loop admin grants ms = Inr grants' \<and>
     (\<forall>pid. mget grants' pid =
        map_option (\<lambda>g. case find (\<lambda>m. m_ProjectID m = pid) ms of None \<Rightarrow> g | Some m \<Rightarrow> with_member admin m g)
          (mget grants pid))"
  using assms
proof (induction ms arbitrary: grants)
  case Nil
  then show ?case by (auto simp: option.map_ident)
next
  case (Cons m ms)
  have none: "find (\<lambda>x. m_ProjectID x = m_ProjectID m) ms = None"
    by (rule find_fresh_key [OF Cons.prems(1)])
  obtain r where r: "ParseRole (m_Role m) = Some r" using Cons.prems(2) by auto
  let ?grants = "case mget grants (m_ProjectID m) of None \<Rightarrow> grants
    | Some g \<Rightarrow> mput (m_ProjectID m) (with_member admin m g) grants"
  have eq: "member_loop admin grants (m # ms) = member_loop admin ?grants ms"
    by (simp add: r with_member_def split: option.split)
  obtain grants' where g': "member_loop admin ?grants ms = Inr grants'"
    "\<forall>pid. mget grants' pid = map_option (\<lambda>g. case find (\<lambda>m. m_ProjectID m = pid) ms of None \<Rightarrow> g
       | Some m \<Rightarrow> with_member admin m g) (mget ?grants pid)"
    using Cons.IH [of ?grants] Cons.prems by auto
  show ?case
    unfolding eq using g' none
    by (intro exI [of _ grants']) (auto split: option.splits)
qed

lemma cell_loop_exact:
  assumes "distinct (map a_EnvironmentID cs)" "\<forall>c \<in> set cs. ParseRole (a_Role c) \<noteq> None"
  shows "\<exists>cells' grants'. cell_loop cells grants cs = Inr (cells', grants') \<and>
     (\<forall>eid. mget cells' eid =
        (case find (\<lambda>c. a_EnvironmentID c = eid) cs of Some c \<Rightarrow> ParseRole (a_Role c) | None \<Rightarrow> mget cells eid)) \<and>
     (\<forall>pid. mget grants' pid =
        map_option (\<lambda>g. if \<exists>c \<in> set cs. a_ProjectID c = pid \<and> the (ParseRole (a_Role c)) \<ge> Deploy
                        then g\<lparr>g_deployerCell := True\<rparr> else g) (mget grants pid))"
  using assms
proof (induction cs arbitrary: cells grants)
  case Nil
  then show ?case by (auto simp: option.map_ident)
next
  case (Cons c cs)
  have none: "find (\<lambda>x. a_EnvironmentID x = a_EnvironmentID c) cs = None"
    by (rule find_fresh_key [OF Cons.prems(1)])
  obtain r where r: "ParseRole (a_Role c) = Some r" using Cons.prems(2) by auto
  let ?cells = "mput (a_EnvironmentID c) r cells"
  let ?grants = "case mget grants (a_ProjectID c) of
      Some g \<Rightarrow> if r \<ge> Deploy then mput (a_ProjectID c) (g\<lparr>g_deployerCell := True\<rparr>) grants else grants
    | None \<Rightarrow> grants"
  obtain cells' grants' where g': "cell_loop ?cells ?grants cs = Inr (cells', grants')"
    "\<forall>eid. mget cells' eid =
        (case find (\<lambda>c. a_EnvironmentID c = eid) cs of Some c \<Rightarrow> ParseRole (a_Role c) | None \<Rightarrow> mget ?cells eid)"
    "\<forall>pid. mget grants' pid =
        map_option (\<lambda>g. if \<exists>c \<in> set cs. a_ProjectID c = pid \<and> the (ParseRole (a_Role c)) \<ge> Deploy
                        then g\<lparr>g_deployerCell := True\<rparr> else g) (mget ?grants pid)"
    using Cons.IH [of ?cells ?grants] Cons.prems by auto
  have "mget cells' eid =
        (case find (\<lambda>c. a_EnvironmentID c = eid) (c # cs) of Some c \<Rightarrow> ParseRole (a_Role c) | None \<Rightarrow> mget cells eid)"
    for eid
    using g'(2) none r by (auto split: option.splits)
  moreover have "mget grants' pid =
        map_option (\<lambda>g. if \<exists>c \<in> set (c # cs). a_ProjectID c = pid \<and> the (ParseRole (a_Role c)) \<ge> Deploy
                        then g\<lparr>g_deployerCell := True\<rparr> else g) (mget grants pid)" for pid
    using g'(3) r by (cases "pid = a_ProjectID c") (auto split: option.splits)
  ultimately show ?case
    using g'(1) r by auto
qed

definition env_grant :: "bool \<Rightarrow> (uuid, Role) gomap \<Rightarrow> Grant \<Rightarrow> Environment \<Rightarrow> EnvironmentGrant" where
  "env_grant admin cells g e =
     \<lparr>eg_ID = e_ID e, eg_Name = e_Name e,
      eg_Role = Effective admin (g_Member g) (g_ProjectRole g) (mget cells (e_ID e)) (the (ParseRole (e_MaxRole e))),
      eg_Cell = mget cells (e_ID e), eg_Settings = projr (settingsOf e)\<rparr>"

lemma settingsOf_ok: "ParseRole (e_MaxRole e) = Some r \<Longrightarrow> \<exists>st. settingsOf e = Inr st \<and> set_MaxRole st = r"
  by (simp add: settingsOf_def)

lemma env_loop_exact:
  assumes "distinct (map e_ID es)" "\<forall>e \<in> set es. ParseRole (e_MaxRole e) \<noteq> None \<and> mget grants (e_ProjectID e) \<noteq> None"
  shows "\<exists>grants'. env_loop admin cells grants es = Inr grants' \<and>
     (\<forall>pid. \<exists>f. mget grants' pid = map_option (\<lambda>g. g\<lparr>g_Environments := f g\<rparr>) (mget grants pid) \<and>
        (\<forall>g eid. mget grants pid = Some g \<longrightarrow> mget (f g) eid =
           (case find (\<lambda>e. e_ID e = eid \<and> e_ProjectID e = pid) es of
              Some e \<Rightarrow> Some (env_grant admin cells g e) | None \<Rightarrow> mget (g_Environments g) eid)))"
  using assms
proof (induction es arbitrary: grants)
  case Nil
  then show ?case by (auto intro!: exI [of _ g_Environments] simp: option.map_ident)
next
  case (Cons e es)
  obtain g0 where g0: "mget grants (e_ProjectID e) = Some g0" using Cons.prems(2) by auto
  obtain st where st: "settingsOf e = Inr st" "set_MaxRole st = the (ParseRole (e_MaxRole e))"
    using Cons.prems(2) settingsOf_ok by force
  define g1 where "g1 = g0\<lparr>g_Environments := mput (e_ID e) (env_grant admin cells g0 e) (g_Environments g0)\<rparr>"
  let ?grants = "mput (e_ProjectID e) g1 grants"
  have eq: "env_loop admin cells grants (e # es) = env_loop admin cells ?grants es"
    by (simp add: st g0 Let_def g1_def env_grant_def)
  have ne: "\<And>x. x \<in> set es \<Longrightarrow> e_ID x \<noteq> e_ID e" by (rule fresh_key [OF Cons.prems(1)])
  obtain grants' where g': "env_loop admin cells ?grants es = Inr grants'"
    "\<And>pid. \<exists>f. mget grants' pid = map_option (\<lambda>g. g\<lparr>g_Environments := f g\<rparr>) (mget ?grants pid) \<and>
        (\<forall>g eid. mget ?grants pid = Some g \<longrightarrow> mget (f g) eid =
           (case find (\<lambda>e. e_ID e = eid \<and> e_ProjectID e = pid) es of
              Some e \<Rightarrow> Some (env_grant admin cells g e) | None \<Rightarrow> mget (g_Environments g) eid))"
  proof -
    have "distinct (map e_ID es)"
      "\<forall>x \<in> set es. ParseRole (e_MaxRole x) \<noteq> None \<and> mget ?grants (e_ProjectID x) \<noteq> None"
      using Cons.prems by auto
    from Cons.IH [OF this] show thesis using that by blast
  qed
  have eg: "env_grant admin cells g1 x = env_grant admin cells g0 x" for x
    by (simp add: g1_def env_grant_def)
  have "\<exists>f. mget grants' pid = map_option (\<lambda>g. g\<lparr>g_Environments := f g\<rparr>) (mget grants pid) \<and>
        (\<forall>g eid. mget grants pid = Some g \<longrightarrow> mget (f g) eid =
           (case find (\<lambda>e. e_ID e = eid \<and> e_ProjectID e = pid) (e # es) of
              Some e \<Rightarrow> Some (env_grant admin cells g e) | None \<Rightarrow> mget (g_Environments g) eid))" for pid
  proof (cases "pid = e_ProjectID e")
    case True
    obtain f where f: "mget grants' pid = Some (g1\<lparr>g_Environments := f g1\<rparr>)"
      "\<And>eid. mget (f g1) eid = (case find (\<lambda>e. e_ID e = eid \<and> e_ProjectID e = pid) es of
              Some e \<Rightarrow> Some (env_grant admin cells g1 e) | None \<Rightarrow> mget (g_Environments g1) eid)"
      using g'(2) [of pid] True by auto
    have none: "find (\<lambda>x. e_ID x = e_ID e \<and> e_ProjectID x = e_ProjectID e) es = None"
      using ne by (auto simp: find_None_iff)
    show ?thesis
      using f g0 True none
      by (intro exI [of _ "\<lambda>_. f g1"]) (auto simp: g1_def eg [unfolded g1_def] split: option.splits)
  next
    case False
    then show ?thesis using g'(2) [of pid] by auto
  qed
  then show ?case using g'(1) unfolding eq by auto
qed

section \<open>What the resolver answers\<close>

definition grant_env :: "User \<Rightarrow> Environment \<Rightarrow> db \<Rightarrow> db \<Rightarrow> EnvironmentGrant" where
  "grant_env user e sm sc =
     \<lparr>eg_ID = e_ID e, eg_Name = e_Name e, eg_Role = role_on user e sm sc,
      eg_Cell = cell_role user (e_ID e) sc, eg_Settings = projr (settingsOf e)\<rparr>"

definition env_row :: "uuid \<Rightarrow> uuid \<Rightarrow> db \<Rightarrow> Environment option" where
  "env_row eid pid s = find (\<lambda>e. e_ID e = eid \<and> e_ProjectID e = pid) (t_environments s)"

text \<open>A grant says exactly what the rows say.\<close>

definition grant_is :: "User \<Rightarrow> Project \<Rightarrow> db \<Rightarrow> db \<Rightarrow> db \<Rightarrow> Grant \<Rightarrow> bool" where
  "grant_is user p sm sc se g \<longleftrightarrow>
     g_ProjectID g = p_ID p \<and> g_ProjectName g = p_Name p \<and> g_InstanceAdmin g = instance_admin user \<and>
     g_Member g = (member_row user (p_ID p) sm \<noteq> None) \<and> g_ProjectRole g = project_role user (p_ID p) sm \<and>
     g_deployerCell g = deployer_cell user (p_ID p) sc \<and>
     (\<forall>eid. Grant_Environment g eid = map_option (\<lambda>e. grant_env user e sm sc) (env_row eid (p_ID p) se))"

definition driver_ok :: "driver \<Rightarrow> bool" where
  "driver_ok d \<longleftrightarrow> drv_fails d = (\<lambda>_. None)"

lemma find_filter: "find P (filter Q xs) = find (\<lambda>x. P x \<and> Q x) xs"
  by (induction xs) auto

lemma is_member_fun: "is_member pid uid = (\<lambda>m. m_ProjectID m = pid \<and> m_UserID m = uid)"
  by (simp add: fun_eq_iff is_member_def)

lemma is_cell_fun: "is_cell eid uid = (\<lambda>a. a_EnvironmentID a = eid \<and> a_UserID a = uid)"
  by (simp add: fun_eq_iff is_cell_def)

lemma find_unique:
  assumes "set xs = set ys" "\<And>x y. x \<in> set xs \<Longrightarrow> y \<in> set xs \<Longrightarrow> P x \<Longrightarrow> P y \<Longrightarrow> x = y"
  shows "find P xs = find P ys"
proof (cases "find P xs")
  case None
  then show ?thesis using assms(1) by (metis find_None_iff)
next
  case (Some x)
  then have x: "x \<in> set xs" "P x" by (auto dest: find_SomeD)
  then obtain y where "find P ys = Some y" using assms(1) by (metis find_None_iff not_None_eq)
  moreover have "y = x" using find_SomeD [OF calculation] x assms by blast
  ultimately show ?thesis using Some by simp
qed

lemma stmt_cases: "stmt d n r = r \<or> (\<exists>e. stmt d n r = Inl (Failure e))"
  by (simp add: stmt_def split: option.split)

lemma stmt_ok: "driver_ok d \<Longrightarrow> stmt d n r = r"
  by (simp add: stmt_def driver_ok_def)

lemma user_memberships:
  assumes "schema_ok s"
  shows "distinct (map m_ProjectID (filter (\<lambda>m. m_UserID m = uid) (t_members s)))"
    and "\<forall>m \<in> set (t_members s). ParseRole (m_Role m) \<noteq> None"
proof -
  have "distinct (member_keys s)" using assms by (simp only: schema_ok_def keys_ok_def)
  then have "distinct (map (\<lambda>m. (m_ProjectID m, m_UserID m)) (filter (\<lambda>m. m_UserID m = uid) (t_members s)))"
    by (rule distinct_map_filter)
  then show "distinct (map m_ProjectID (filter (\<lambda>m. m_UserID m = uid) (t_members s)))"
    by (simp add: distinct_map inj_on_def)
  show "\<forall>m \<in> set (t_members s). ParseRole (m_Role m) \<noteq> None"
    using schema_checks [OF assms] by (auto simp: checks_ok_def member_check_parses)
qed

lemma user_cells:
  assumes "schema_ok s"
  shows "distinct (map a_EnvironmentID (filter (\<lambda>a. a_UserID a = uid) (t_access s)))"
    and "\<forall>a \<in> set (t_access s). ParseRole (a_Role a) \<noteq> None"
proof -
  have "distinct (map (\<lambda>a. (a_EnvironmentID a, a_UserID a)) (t_access s))"
    using assms by (simp add: schema_ok_def keys_ok_def comp_def)
  then have "distinct (map (\<lambda>a. (a_EnvironmentID a, a_UserID a)) (filter (\<lambda>a. a_UserID a = uid) (t_access s)))"
    by (rule distinct_map_filter)
  then show "distinct (map a_EnvironmentID (filter (\<lambda>a. a_UserID a = uid) (t_access s)))"
    by (simp add: distinct_map inj_on_def)
  show "\<forall>a \<in> set (t_access s). ParseRole (a_Role a) \<noteq> None"
    using schema_checks [OF assms] by (auto simp: checks_ok_def role_check_parses)
qed

lemma env_ids_distinct: "schema_ok s \<Longrightarrow> distinct (map e_ID (t_environments s))"
  by (simp add: schema_ok_def keys_ok_def comp_def)

lemma load_grants:
  assumes d: "distinct (map p_ID projects)" and sm: "schema_ok sm" and sc: "schema_ok sc" and se: "schema_ok se"
  shows "(\<exists>w e. load d user projects sm sc se = Inl (AuthzStore w (Failure e)) \<and> \<not> driver_ok d) \<or>
     (\<exists>grants. load d user projects sm sc se = Inr grants \<and>
        (\<forall>p \<in> set projects. \<exists>g. mget grants (p_ID p) = Some g \<and> grant_is user p sm sc se g))"
proof -
  let ?admin = "instance_admin user" and ?uid = "u_ID user"
  let ?ms = "filter (\<lambda>m. m_UserID m = ?uid) (t_members sm)"
  let ?cs = "filter (\<lambda>a. a_UserID a = ?uid) (t_access sc)"
  define es where "es = sort_by (\<lambda>a b. e_ProjectID a < e_ProjectID b \<or>
      e_ProjectID a = e_ProjectID b \<and> drv_less d (e_Name a) (e_Name b))
      (filter (\<lambda>e. e_ProjectID e \<in> set (map p_ID projects)) (t_environments se))"
  obtain g1 where g1: "member_loop ?admin (fresh_grants ?admin projects) ?ms = Inr g1"
    "\<And>pid. mget g1 pid = map_option (\<lambda>g. case find (\<lambda>m. m_ProjectID m = pid) ?ms of None \<Rightarrow> g
       | Some m \<Rightarrow> with_member ?admin m g) (mget (fresh_grants ?admin projects) pid)"
    using member_loop_exact [of ?ms] user_memberships [OF sm] by force
  obtain cells g2 where g2: "(if ?admin then Inr ([], g1) else cell_loop [] g1 ?cs) = Inr (cells, g2)"
    "\<And>eid. mget cells eid = cell_role user eid sc"
    "\<And>pid. mget g2 pid = map_option (\<lambda>g. if deployer_cell user pid sc then g\<lparr>g_deployerCell := True\<rparr> else g) (mget g1 pid)"
  proof (cases ?admin)
    case True
    then show thesis
      by (intro that [of "[]" g1]) (simp_all add: cell_role_def deployer_cell_def option.map_ident)
  next
    case False
    obtain c' g' where c: "cell_loop [] g1 ?cs = Inr (c', g')"
      "\<And>eid. mget c' eid = (case find (\<lambda>c. a_EnvironmentID c = eid) ?cs of Some c \<Rightarrow> ParseRole (a_Role c) | None \<Rightarrow> None)"
      "\<And>pid. mget g' pid = map_option (\<lambda>g. if \<exists>c \<in> set ?cs. a_ProjectID c = pid \<and> the (ParseRole (a_Role c)) \<ge> Deploy
                        then g\<lparr>g_deployerCell := True\<rparr> else g) (mget g1 pid)"
    proof -
      have "\<forall>c \<in> set ?cs. ParseRole (a_Role c) \<noteq> None" using user_cells(2) [OF sc] by simp
      from cell_loop_exact [OF user_cells(1) [OF sc] this, of "[]" g1] show thesis
        unfolding map_of.simps(1) using that by blast
    qed
    have "mget c' eid = cell_role user eid sc" for eid
      using False by (simp add: c(2) cell_role_def find_filter is_cell_fun)
    moreover have "deployer_cell user pid sc \<longleftrightarrow> (\<exists>c \<in> set ?cs. a_ProjectID c = pid \<and> the (ParseRole (a_Role c)) \<ge> Deploy)" for pid
      using False by (auto simp: deployer_cell_def)
    ultimately show thesis using False c(1,3) by (intro that [of c' g']) simp_all
  qed
  have keys: "mget g2 pid \<noteq> None \<longleftrightarrow> pid \<in> p_ID ` set projects" for pid
    by (auto simp: g2(3) g1(2) fresh_grants_mget [OF d] find_None_iff image_iff split: option.splits dest: find_SomeD)
  have des: "distinct (map e_ID es)"
  proof -
    have "mset (map e_ID es) = mset (map e_ID (filter (\<lambda>e. e_ProjectID e \<in> set (map p_ID projects)) (t_environments se)))"
      by (simp add: es_def)
    then show ?thesis
      using distinct_map_filter [OF env_ids_distinct [OF se]] mset_eq_imp_distinct_iff by blast
  qed
  have pes: "\<forall>e \<in> set es. ParseRole (e_MaxRole e) \<noteq> None \<and> mget g2 (e_ProjectID e) \<noteq> None"
    using schema_checks [OF se] keys by (auto simp: es_def checks_ok_def settings_check_def role_check_parses)
  obtain g3 where g3: "env_loop ?admin cells g2 es = Inr g3"
    "\<And>pid. \<exists>f. mget g3 pid = map_option (\<lambda>g. g\<lparr>g_Environments := f g\<rparr>) (mget g2 pid) \<and>
        (\<forall>g eid. mget g2 pid = Some g \<longrightarrow> mget (f g) eid =
           (case find (\<lambda>e. e_ID e = eid \<and> e_ProjectID e = pid) es of
              Some e \<Rightarrow> Some (env_grant ?admin cells g e) | None \<Rightarrow> mget (g_Environments g) eid))"
    using env_loop_exact [OF des pes, of ?admin cells] by blast
  have grants: "\<exists>g. mget g3 (p_ID p) = Some g \<and> grant_is user p sm sc se g" if p: "p \<in> set projects" for p
  proof -
    have fp: "find (\<lambda>q. p_ID q = p_ID p) projects = Some p"
    proof -
      have "find (\<lambda>q. p_ID q = p_ID p) projects = find (\<lambda>q. p_ID q = p_ID p) (p # projects)"
        using p d by (intro find_unique) (auto simp: distinct_map inj_on_def)
      then show ?thesis by simp
    qed
    have fm: "find (\<lambda>m. m_ProjectID m = p_ID p) ?ms = member_row user (p_ID p) sm"
      by (simp add: member_row_def find_filter is_member_fun)
    define g0 where "g0 = (case member_row user (p_ID p) sm of None \<Rightarrow> fresh_grant ?admin p
      | Some m \<Rightarrow> with_member ?admin m (fresh_grant ?admin p))"
    define g where "g = (if deployer_cell user (p_ID p) sc then g0\<lparr>g_deployerCell := True\<rparr> else g0)"
    have g: "mget g2 (p_ID p) = Some g" "g_ProjectID g = p_ID p" "g_ProjectName g = p_Name p"
      "g_InstanceAdmin g = ?admin" "g_Member g = (member_row user (p_ID p) sm \<noteq> None)"
      "g_ProjectRole g = project_role user (p_ID p) sm" "g_deployerCell g = deployer_cell user (p_ID p) sc"
      "g_Environments g = []"
      by (simp_all add: g_def g0_def g2(3) g1(2) fresh_grants_mget [OF d] fp fm fresh_grant_def with_member_def
          project_role_def split: option.split)
    obtain f where f: "mget g3 (p_ID p) = Some (g\<lparr>g_Environments := f g\<rparr>)"
      "\<And>eid. mget (f g) eid = map_option (env_grant ?admin cells g) (find (\<lambda>e. e_ID e = eid \<and> e_ProjectID e = p_ID p) es)"
      using g3(2) [of "p_ID p"] g(1,8) by (force split: option.splits)
    have "find (\<lambda>e. e_ID e = eid \<and> e_ProjectID e = p_ID p) es = env_row eid (p_ID p) se" for eid
    proof -
      have "find (\<lambda>e. e_ID e = eid \<and> e_ProjectID e = p_ID p) es =
          find (\<lambda>e. e_ID e = eid \<and> e_ProjectID e = p_ID p)
            (filter (\<lambda>e. e_ProjectID e \<in> set (map p_ID projects)) (t_environments se))"
        using env_ids_unique [OF se] by (intro find_unique) (auto simp: es_def)
      also have "\<dots> = env_row eid (p_ID p) se"
        unfolding env_row_def find_filter using p by (intro arg_cong [where f = "\<lambda>P. find P _"]) auto
      finally show ?thesis .
    qed
    moreover have "env_grant ?admin cells g e = grant_env user e sm sc" if "e_ProjectID e = p_ID p" for e
      using that by (simp add: env_grant_def grant_env_def role_on_Effective g g2(2))
    ultimately have "mget (f g) eid = map_option (\<lambda>e. grant_env user e sm sc) (env_row eid (p_ID p) se)" for eid
      unfolding f(2) by (auto simp: env_row_def map_option_case split: option.split dest: find_SomeD)
    then show ?thesis
      using f(1) g by (intro exI [of _ "g\<lparr>g_Environments := f g\<rparr>"]) (simp add: grant_is_def Grant_Environment_def)
  qed
  define n1 n2 n3 where n: "n1 = ''ListProjectMembersForUser''" "n2 = ''ListEnvironmentAccessForUser''"
    "n3 = ''ListEnvironmentsForProjects''"
  have load: "load d user projects sm sc se =
      (case drv_fails d n1 of Some e \<Rightarrow> Inl (AuthzStore ''list memberships'' (Failure e))
       | None \<Rightarrow> (case if ?admin then None else drv_fails d n2 of Some e \<Rightarrow> Inl (AuthzStore ''list cells'' (Failure e))
       | None \<Rightarrow> (case drv_fails d n3 of Some e \<Rightarrow> Inl (AuthzStore ''list environments'' (Failure e))
       | None \<Rightarrow> Inr g3)))"
    using g1(1) g2(1) g3(1)
    by (cases ?admin; cases "drv_fails d n1"; cases "drv_fails d n2"; cases "drv_fails d n3")
      (simp_all add: load_def Let_def stmt_def ListProjectMembersForUser_def
        ListEnvironmentAccessForUser_def ListEnvironmentsForProjects_def n es_def)
  have "driver_ok d \<Longrightarrow> drv_fails d n = None" for n
    by (simp add: driver_ok_def)
  then show ?thesis
    unfolding load using grants by (auto split: option.split)
qed

section \<open>Everything a caller sees\<close>

lemma filter_key_single:
  "distinct (map k xs) \<Longrightarrow> filter (\<lambda>x. k x = v) xs = (case find (\<lambda>x. k x = v) xs of None \<Rightarrow> [] | Some x \<Rightarrow> [x])"
proof (induction xs)
  case (Cons x xs)
  then have IH: "filter (\<lambda>x. k x = v) xs = (case find (\<lambda>x. k x = v) xs of None \<Rightarrow> [] | Some x \<Rightarrow> [x])" by simp
  show ?case
    using IH find_fresh_key [OF Cons.prems] by (cases "k x = v") auto
qed simp

lemma memberships_of_project:
  assumes "schema_ok s"
  shows "filter (\<lambda>m. m_ProjectID m = pid \<and> m_UserID m = uid) (t_members s) =
     (case find (is_member pid uid) (t_members s) of None \<Rightarrow> [] | Some m \<Rightarrow> [m])"
proof -
  have "distinct (member_keys s)" using assms by (simp only: schema_ok_def keys_ok_def)
  from filter_key_single [OF this, of "(pid, uid)"] show ?thesis by (simp add: is_member_fun)
qed

definition listed :: "User \<Rightarrow> db \<Rightarrow> Project list" where
  "listed user s = filter (\<lambda>p. instance_admin user \<or> member_row user (p_ID p) s \<noteq> None) (t_projects s)"

lemma concat_map_single: "concat (map (\<lambda>x. if P x then [x] else []) xs) = filter P xs"
  by (induction xs) auto

lemma ListProjectsForUser_rows:
  assumes "schema_ok s" "\<not> instance_admin user"
  shows "concat (map (\<lambda>p. map (\<lambda>_. p) (filter (\<lambda>m. m_ProjectID m = p_ID p \<and> m_UserID m = u_ID user) (t_members s)))
       (t_projects s)) = listed user s"
proof -
  have "map (\<lambda>_. p) (filter (\<lambda>m. m_ProjectID m = p_ID p \<and> m_UserID m = u_ID user) (t_members s)) =
      (if member_row user (p_ID p) s \<noteq> None then [p] else [])" for p :: Project
    by (simp add: memberships_of_project [OF assms(1)] member_row_def split: option.split)
  then show ?thesis using assms(2) by (simp only: listed_def concat_map_single simp_thms)
qed

lemma project_list:
  assumes "schema_ok s"
  shows "(if instance_admin user then ListProjects d s else ListProjectsForUser d (u_ID user) s) =
     stmt d (if instance_admin user then ''ListProjects'' else ''ListProjectsForUser'')
       (Inr (sort_by (\<lambda>a b. drv_less d (p_Name a) (p_Name b)) (listed user s)))"
  using ListProjectsForUser_rows [OF assms, of user]
  by (simp add: ListProjects_def ListProjectsForUser_def listed_def)

lemma listed_distinct:
  assumes "schema_ok s"
  shows "distinct (map p_ID (sort_by lt (listed user s)))"
proof -
  have "distinct (project_keys s)" using assms by (simp only: schema_ok_def keys_ok_def)
  then have "distinct (map p_ID (listed user s))" unfolding listed_def by (rule distinct_map_filter)
  moreover have "mset (map p_ID (sort_by lt (listed user s))) = mset (map p_ID (listed user s))" by simp
  ultimately show ?thesis using mset_eq_imp_distinct_iff by blast
qed

section \<open>A store to look at\<close>

definition wit_env :: "uuid \<Rightarrow> string \<Rightarrow> string \<Rightarrow> Environment" where
  "wit_env i name cap =
     \<lparr>e_ID = i, e_ProjectID = ''p'', e_Name = name, e_PreviousNames = [], e_MaxRole = cap,
      e_DeployPolicy = ''direct'', e_PromoteFrom = [], e_Priority = ''normal'', e_BackupSchedule = [],
      e_BackupRetentionSeconds = 0, e_BackupStrategy = ''complete'', e_BackupNamespace = []\<rparr>"

definition wit_user :: User where
  "wit_user = \<lparr>u_ID = ''u'', u_Email = ''u@x'', u_Name = ''u'', u_Role = ''member'', u_CreateProjects = False,
     u_TwoFactorEnabled = False\<rparr>"

definition wit_db :: db where
  "wit_db =
     \<lparr>t_users = [wit_user],
      t_projects = [\<lparr>p_ID = ''p'', p_Name = ''shop'', p_DisplayName = ''Shop'', p_SourceMode = ''managed'',
                     p_DeletingAt = None\<rparr>],
      t_environments = [wit_env ''dev'' ''dev'' ''admin'', wit_env ''prod'' ''prod'' ''read''],
      t_members = [\<lparr>m_ProjectID = ''p'', m_UserID = ''u'', m_Role = ''deploy''\<rparr>],
      t_access = [], t_targets = [], t_accounts = [], t_sessions = [], t_two_factors = [],
      t_backup_codes = [], t_challenges = [], t_devices = []\<rparr>"

definition wit_driver :: driver where
  "wit_driver = \<lparr>drv_fails = (\<lambda>_. None), drv_now = 0, drv_lower = id, drv_less = (<)\<rparr>"

lemma wit_db_schema: "schema_ok wit_db"
  by (simp add: schema_ok_def keys_ok_def checks_ok_def wit_db_def wit_env_def wit_user_def user_check_def
      name_check_def settings_check_def role_check_def member_check_def is_digit_def)

text \<open>
  C14. Whatever other requests commit between its four statements, resolving
  a caller's access either fails because a statement failed, or lists exactly
  the projects that exist for the caller (all of them for an instance admin,
  the caller's memberships otherwise) with a grant for each that says what
  the rows say: the membership and its role, whether a cell makes the caller
  a deployer, and for each environment the cell if there is one, otherwise
  the project role cut to the environment's ceiling (an admin is never cut).
  No stored row makes it fail.
\<close>

theorem resolver_answers_what_the_rows_say:
  "(\<forall>n. schema_ok (h n)) \<longrightarrow>
   (case resolve_All d user h of
      Inl e \<Rightarrow> \<not> driver_ok d
    | Inr (projects, grants) \<Rightarrow>
        mset projects = mset (filter (\<lambda>p. instance_admin user \<or> member_row user (p_ID p) (h 0) \<noteq> None) (t_projects (h 0))) \<and>
        (\<forall>p \<in> set projects. \<exists>g. mget grants (p_ID p) = Some g \<and> grant_is user p (h 1) (h 2) (h 3) g))"
proof (rule impI)
  assume h: "\<forall>n. schema_ok (h n)"
  let ?ps = "sort_by (\<lambda>a b. drv_less d (p_Name a) (p_Name b)) (listed user (h 0))"
  let ?n = "if instance_admin user then ''ListProjects'' else ''ListProjectsForUser''"
  have r: "resolve_All d user h = bind_r (map_err (AuthzStore ''list projects'') (stmt d ?n (Inr ?ps)))
      (\<lambda>projects. bind_r (load d user projects (h 1) (h 2) (h 3)) (\<lambda>grants. Inr (projects, grants)))"
    using h by (simp only: resolve_All_def project_list)
  have "distinct (map p_ID ?ps)" using listed_distinct h by blast
  then have l: "(\<exists>w e. load d user ?ps (h 1) (h 2) (h 3) = Inl (AuthzStore w (Failure e)) \<and> \<not> driver_ok d) \<or>
     (\<exists>grants. load d user ?ps (h 1) (h 2) (h 3) = Inr grants \<and>
        (\<forall>p \<in> set ?ps. \<exists>g. mget grants (p_ID p) = Some g \<and> grant_is user p (h 1) (h 2) (h 3) g))"
    using load_grants h by blast
  show "case resolve_All d user h of
      Inl e \<Rightarrow> \<not> driver_ok d
    | Inr (projects, grants) \<Rightarrow>
        mset projects = mset (filter (\<lambda>p. instance_admin user \<or> member_row user (p_ID p) (h 0) \<noteq> None) (t_projects (h 0))) \<and>
        (\<forall>p \<in> set projects. \<exists>g. mget grants (p_ID p) = Some g \<and> grant_is user p (h 1) (h 2) (h 3) g)"
  proof (cases "drv_fails d ?n")
    case (Some e)
    then have "\<not> driver_ok d" by (auto simp: driver_ok_def)
    with Some show ?thesis by (simp add: r stmt_def)
  next
    case None
    then have r': "resolve_All d user h =
        bind_r (load d user ?ps (h 1) (h 2) (h 3)) (\<lambda>grants. Inr (?ps, grants))"
      by (simp add: r stmt_def)
    from l show ?thesis unfolding r' by (elim disjE exE conjE) (simp_all add: listed_def)
  qed
qed

theorem resolver_answers_what_the_rows_say_witness:
  "\<exists>projects grants p g. resolve_All wit_driver wit_user (\<lambda>_. wit_db) = Inr (projects, grants) \<and>
     mset projects = mset (t_projects wit_db) \<and> p \<in> set (t_projects wit_db) \<and>
     mget grants (p_ID p) = Some g \<and> grant_is wit_user p wit_db wit_db wit_db g"
proof -
  have ok: "\<forall>n. schema_ok ((\<lambda>_. wit_db) n)" by (simp add: wit_db_schema)
  have all: "filter (\<lambda>p. instance_admin wit_user \<or> member_row wit_user (p_ID p) wit_db \<noteq> None) (t_projects wit_db) =
      t_projects wit_db" by code_simp
  have "driver_ok wit_driver" by (simp add: driver_ok_def wit_driver_def)
  with resolver_answers_what_the_rows_say [of "\<lambda>_. wit_db" wit_driver wit_user] ok obtain projects grants where
    r: "resolve_All wit_driver wit_user (\<lambda>_. wit_db) = Inr (projects, grants)"
      "mset projects = mset (t_projects wit_db)"
      "\<forall>p \<in> set projects. \<exists>g. mget grants (p_ID p) = Some g \<and> grant_is wit_user p wit_db wit_db wit_db g"
    unfolding all by (cases "resolve_All wit_driver wit_user (\<lambda>_. wit_db)") auto
  have p: "hd (t_projects wit_db) \<in> set (t_projects wit_db)" by (simp add: wit_db_def)
  then have "hd (t_projects wit_db) \<in> set projects" using r(2) by (metis set_mset_mset)
  with r p show ?thesis by blast
qed

end
