(* ===== verification/Auth.thy ===== *)
theory Auth
  imports Auth_Store Authz
begin

text \<open>
  Users and logins (\<^verbatim>\<open>internal/auth/users.go\<close>, \<^verbatim>\<open>auth.go\<close>, \<^verbatim>\<open>totp.go\<close>, \<^verbatim>\<open>token.go\<close>):
  each function is a program over the shared state; statements outside a
  transaction are separate actions, so other requests run in between.
\<close>

section \<open>What the services are built on\<close>

text \<open>
  Code outside the repository (hashes, ciphers, the one-time password
  library, address parsing, Unicode case) and the password hash built on it.
\<close>

record crypto =
  cr_hashToken :: "string \<Rightarrow> string"
  cr_hash :: "string \<Rightarrow> string \<Rightarrow> string"
  cr_verify :: "string \<Rightarrow> string \<Rightarrow> bool"
  cr_encrypt :: "string \<Rightarrow> string option"
  cr_decrypt :: "string \<Rightarrow> string option"
  cr_totp :: "string \<Rightarrow> string \<Rightarrow> int \<Rightarrow> bool"
  cr_ParseAddress :: "string \<Rightarrow> string option"
  cr_ToLower :: "string \<Rightarrow> string"
  cr_ToUpper :: "string \<Rightarrow> string"

record Config =
  cfg_Secret :: string
  SessionTTL :: duration
  SessionUpdateAge :: duration
  ChallengeTTL :: duration
  ReauthWindow :: duration
  DeviceTTL :: duration

datatype auth_error =
    ErrInvalidCredentials | ErrInvalidToken | ErrInvalidCode | ErrRateLimited | ErrTwoFactorAlreadyEnabled
  | ErrTwoFactorNotEnabled | ErrNotFound | ErrEmailTaken | ErrInvalidRole | ErrLastAdmin | ErrDeviceNotFound
  | ErrDeviceForeign | ErrSlowDown | ErrInvalidEmail | ErrWeakPassword
  | AuthStore db_error | Entropy string | Decrypt | Auth_Other string

definition loginUserLimit :: int where "loginUserLimit = 10"
definition loginIPLimit :: int where "loginIPLimit = 30"
definition twoFactorLimit :: int where "twoFactorLimit = 30"
definition reauthUserLimit :: int where "reauthUserLimit = 10"
definition rateLimitWindow :: duration where "rateLimitWindow = 15 * minute_d"
definition challengeMaxAttempts :: int where "challengeMaxAttempts = 5"

definition or_default :: "duration \<Rightarrow> duration \<Rightarrow> duration" where
  "or_default x y = (if x = 0 then y else x)"

text \<open>\<^verbatim>\<open>New\<close>: the configuration a service runs with.\<close>

definition New_Service :: "Config \<Rightarrow> auth_error + Config" where
  "New_Service cfg =
     (if length (cfg_Secret cfg) < 32 then Inl (Auth_Other ''auth: secret must be at least 32 characters'')
      else Inr (cfg\<lparr>SessionTTL := or_default (SessionTTL cfg) (30 * 24 * 60 * minute_d),
                    SessionUpdateAge := or_default (SessionUpdateAge cfg) (24 * 60 * minute_d),
                    ChallengeTTL := or_default (ChallengeTTL cfg) (5 * minute_d),
                    ReauthWindow := or_default (ReauthWindow cfg) (15 * minute_d),
                    DeviceTTL := or_default (DeviceTTL cfg) (10 * minute_d)\<rparr>))"

text \<open>The answer to no row; a program with its failures mapped; a drawn value.\<close>

definition no_rows :: "auth_error \<Rightarrow> db_error \<Rightarrow> auth_error" where
  "no_rows x e = (if e = ErrNoRows then x else AuthStore e)"

definition failing :: "(db_error \<Rightarrow> auth_error) \<Rightarrow> (sys, db_error + 'a) prog \<Rightarrow> (sys, auth_error + 'a) prog" where
  "failing w p = pbind p (\<lambda>r. Ret (map_err w r))"

definition drawn :: "string \<Rightarrow> 'a option \<Rightarrow> auth_error + 'a" where
  "drawn what x = (case x of None \<Rightarrow> Inl (Entropy what) | Some y \<Rightarrow> Inr y)"

definition drawing :: "string \<Rightarrow> (entropy \<Rightarrow> 'a option) \<Rightarrow> (sys, auth_error + 'a) prog" where
  "drawing what g = pbind (draw g) (\<lambda>x. Ret (drawn what x))"

section \<open>Users (users.go)\<close>

definition RoleAdmin :: string where "RoleAdmin = ''admin''"
definition RoleMember :: string where "RoleMember = ''member''"

definition ValidRole :: "string \<Rightarrow> bool" where
  "ValidRole s \<longleftrightarrow> s = RoleAdmin \<or> s = RoleMember"

definition ensureAdminRemains :: "driver \<Rightarrow> db \<Rightarrow> auth_error + unit" where
  "ensureAdminRemains d t =
     bind_r (map_err AuthStore (CountAdminsForUpdate d t)) (\<lambda>n. if n = 0 then Inl ErrLastAdmin else Inr ())"

text \<open>
  The bodies of the transactions are definitions of their own. The four
  below begin with a read of the user that locks nothing, a separate action.
  What follows is one action: the update or deletion locks the user's row,
  and the count locks the rows of the admins it counts.
\<close>

definition read_user :: "uuid \<Rightarrow> (sys, auth_error + User) prog" where
  "read_user userID = tx_first AuthStore (\<lambda>d t. map_err (no_rows ErrNotFound) (GetUserByID d userID t))"

definition set_role_tx :: "uuid \<Rightarrow> string \<Rightarrow> User \<Rightarrow> sys \<Rightarrow> driver \<Rightarrow> db \<Rightarrow> auth_error + (User \<times> db)" where
  "set_role_tx userID role current s d t =
     (if u_Role current = role then Inr (current, t)
      else bind_r (map_err AuthStore (SetUserRole_q d userID role t)) (\<lambda>(user, t1).
        if u_Role current = RoleAdmin then bind_r (ensureAdminRemains d t1) (\<lambda>_. Inr (user, t1))
        else Inr (user, t1)))"

definition SetUserRole :: "uuid \<Rightarrow> string \<Rightarrow> (sys, auth_error + User) prog" where
  "SetUserRole userID role =
     (if \<not> ValidRole role then Ret (Inl ErrInvalidRole)
      else after (read_user userID) (\<lambda>current. tx_rest AuthStore (set_role_tx userID role current)))"

definition SetUserName :: "uuid \<Rightarrow> string \<Rightarrow> (sys, auth_error + User) prog" where
  "SetUserName userID name = failing (no_rows ErrNotFound) (update (\<lambda>d. SetUserName_q d userID name))"

definition SetUserCreateProjects :: "uuid \<Rightarrow> bool \<Rightarrow> (sys, auth_error + User) prog" where
  "SetUserCreateProjects userID allowed =
     failing (no_rows ErrNotFound) (update (\<lambda>d. SetUserCreateProjects_q d userID allowed))"

definition delete_user_tx :: "uuid \<Rightarrow> User \<Rightarrow> sys \<Rightarrow> driver \<Rightarrow> db \<Rightarrow> auth_error + (unit \<times> db)" where
  "delete_user_tx userID user s d t =
     bind_r (map_err AuthStore (DeleteUserByID d userID t)) (\<lambda>(_, t1).
     if u_Role user = RoleAdmin then bind_r (ensureAdminRemains d t1) (\<lambda>_. Inr ((), t1))
     else Inr ((), t1))"

definition DeleteUser :: "uuid \<Rightarrow> (sys, auth_error + unit) prog" where
  "DeleteUser userID = after (read_user userID) (\<lambda>user. tx_rest AuthStore (delete_user_tx userID user))"

definition validateEmail :: "crypto \<Rightarrow> string \<Rightarrow> auth_error + unit" where
  "validateEmail cr email =
     (if length email > 254 then Inl ErrInvalidEmail
      else if cr_ParseAddress cr email \<noteq> Some email then Inl ErrInvalidEmail else Inr ())"

definition validatePassword :: "string \<Rightarrow> auth_error + unit" where
  "validatePassword password = (if length password < 8 then Inl ErrWeakPassword else Inr ())"

definition hashPassword :: "crypto \<Rightarrow> string \<Rightarrow> nat \<Rightarrow> entropy \<Rightarrow> auth_error + string" where
  "hashPassword cr password n e =
     bind_r (drawn ''salt'' (en_salt e n)) (\<lambda>salt. Inr (cr_hash cr password salt))"

definition reset_password_tx :: "uuid \<Rightarrow> string \<Rightarrow> sys \<Rightarrow> driver \<Rightarrow> db \<Rightarrow> auth_error + (unit \<times> db)" where
  "reset_password_tx userID phc s d t =
     bind_r (map_err AuthStore (UpdateAccountPassword d userID (Some phc) t)) (\<lambda>(_, t1).
     bind_r (map_err AuthStore (DeleteSessionsByUser d userID t1)) (\<lambda>(_, t2). Inr ((), t2)))"

definition ResetUserPassword :: "crypto \<Rightarrow> uuid \<Rightarrow> string \<Rightarrow> (sys, auth_error + unit) prog" where
  "ResetUserPassword cr userID newPassword =
     after (Ret (validatePassword newPassword)) (\<lambda>_.
     after (draw (hashPassword cr newPassword 0)) (\<lambda>phc.
     after (read_user userID) (\<lambda>_. tx_rest AuthStore (reset_password_tx userID phc))))"

definition clear_tx :: "uuid \<Rightarrow> sys \<Rightarrow> driver \<Rightarrow> db \<Rightarrow> auth_error + (unit \<times> db)" where
  "clear_tx userID s d t =
     bind_r (map_err AuthStore (DeleteTwoFactorByUserID d userID t)) (\<lambda>(_, t1).
     map_err AuthStore (SetUserTwoFactorEnabled d userID False t1))"

definition ClearUserTwoFactor :: "uuid \<Rightarrow> (sys, auth_error + unit) prog" where
  "ClearUserTwoFactor userID = after (read_user userID) (\<lambda>_. tx_rest AuthStore (clear_tx userID))"

definition create_user_tx ::
    "string \<Rightarrow> string \<Rightarrow> string \<Rightarrow> string \<Rightarrow> sys \<Rightarrow> driver \<Rightarrow> db \<Rightarrow> auth_error + (User \<times> db)" where
  "create_user_tx email name role phc s d t =
     bind_r (drawn ''uuid'' (en_uuid (sy_entropy s) 0)) (\<lambda>userID.
     bind_r (map_err (\<lambda>e. if e = UniqueViolation then ErrEmailTaken else AuthStore e)
       (CreateUser_q d userID email name role t)) (\<lambda>(user, t1).
     bind_r (drawn ''uuid'' (en_uuid (sy_entropy s) 1)) (\<lambda>acctID.
     bind_r (map_err AuthStore (CreateAccount d acctID (u_ID user) ''credential'' (Some phc) t1)) (\<lambda>(_, t2).
     Inr (user, t2)))))"

definition CreateUser :: "crypto \<Rightarrow> string \<Rightarrow> string \<Rightarrow> string \<Rightarrow> string \<Rightarrow> (sys, auth_error + User) prog" where
  "CreateUser cr email name password role =
     after (Ret (validateEmail cr email)) (\<lambda>_.
     after (Ret (validatePassword password)) (\<lambda>_.
     if \<not> ValidRole role then Ret (Inl ErrInvalidRole)
     else after (draw (hashPassword cr password 0)) (\<lambda>phc.
       transaction AuthStore (create_user_tx email name role phc))))"

section \<open>Passwords, second factors, sessions (auth.go, totp.go)\<close>

record SessionMeta =
  IPAddress :: string
  UserAgent :: string

record Session =
  sess_ID :: uuid
  sess_Token :: string
  sess_ExpiresAt :: gotime
  sess_User :: User

record Challenge =
  ch_Token :: string
  ch_ExpiresAt :: gotime

datatype LoginResult = LR_Session Session | LR_Challenge Challenge

definition verifyUserPassword :: "crypto \<Rightarrow> uuid \<Rightarrow> string \<Rightarrow> (sys, auth_error + unit) prog" where
  "verifyUserPassword cr userID password =
     after (failing (no_rows ErrInvalidCredentials) (query (\<lambda>d. GetCredentialAccount d userID))) (\<lambda>acct.
     Ret (case acc_Password acct of
            None \<Rightarrow> Inl ErrInvalidCredentials
          | Some phc \<Rightarrow> if \<not> cr_verify cr password phc then Inl ErrInvalidCredentials else Inr ()))"

definition isTOTPCode :: "string \<Rightarrow> bool" where
  "isTOTPCode code \<longleftrightarrow> length code = 6 \<and> list_all is_digit code"

definition totpPeriod :: int where "totpPeriod = 30"

text \<open>Seconds since 1970 of an instant.\<close>

definition unix :: "gotime \<Rightarrow> int" where
  "unix t = t div second - 62135596800"

definition matchTOTPStep :: "crypto \<Rightarrow> string \<Rightarrow> string \<Rightarrow> gotime \<Rightarrow> int option" where
  "matchTOTPStep cr secret code now =
     (let current = quot (unix now) totpPeriod
      in find (cr_totp cr code secret) (map ((+) current) [0, -1, 1]))"

definition normalizeBackupCode :: "crypto \<Rightarrow> string \<Rightarrow> string" where
  "normalizeBackupCode cr code =
     filter (\<lambda>c. c \<noteq> CHR ''-'' \<and> c \<noteq> CHR '' '') (cr_ToLower cr (trim_space code))"

text \<open>The first unused code the input verifies against is consumed.\<close>

definition checkSecondFactor :: "crypto \<Rightarrow> uuid \<Rightarrow> string \<Rightarrow> (sys, auth_error + bool) prog" where
  "checkSecondFactor cr userID code =
     pbind (query (\<lambda>d. GetTwoFactorByUserID d userID)) (\<lambda>r.
     case r of
       Inl ErrNoRows \<Rightarrow> Ret (Inr False)
     | Inl e \<Rightarrow> Ret (Inl (AuthStore e))
     | Inr tf \<Rightarrow>
         if tf_ConfirmedAt tf = None then Ret (Inr False)
         else if isTOTPCode code then
           (case cr_decrypt cr (tf_Secret tf) of
              None \<Rightarrow> Ret (Inl Decrypt)
            | Some secret \<Rightarrow>
                pbind clock (\<lambda>now.
                case matchTOTPStep cr secret code now of
                  None \<Rightarrow> Ret (Inr False)
                | Some step \<Rightarrow>
                    after (failing AuthStore (update (\<lambda>d. AdvanceTwoFactorStep d userID step))) (\<lambda>n.
                    Ret (Inr (n = 1)))))
         else
           after (failing AuthStore (query (\<lambda>d. ListUnusedBackupCodes d userID))) (\<lambda>unused.
           case find (\<lambda>bc. cr_verify cr (normalizeBackupCode cr code) (bc_CodeHash bc)) unused of
             None \<Rightarrow> Ret (Inr False)
           | Some bc \<Rightarrow>
               after (failing AuthStore (update (\<lambda>d. ConsumeBackupCode d (bc_ID bc)))) (\<lambda>n. Ret (Inr (n = 1)))))"

definition createChallenge :: "crypto \<Rightarrow> Config \<Rightarrow> uuid \<Rightarrow> (sys, auth_error + Challenge) prog" where
  "createChallenge cr cfg userID =
     after (drawing ''token'' en_token) (\<lambda>tok.
     after (drawing ''uuid'' (\<lambda>e. en_uuid e 0)) (\<lambda>i.
     pbind clock (\<lambda>now.
     after (failing AuthStore (update (\<lambda>d.
       CreateLoginChallenge d i userID (cr_hashToken cr tok) (now + ChallengeTTL cfg)))) (\<lambda>row.
     Ret (Inr \<lparr>ch_Token = tok, ch_ExpiresAt = lc_ExpiresAt row\<rparr>)))))"

text \<open>\<^verbatim>\<open>createSession\<close>, with the statement run on a pool connection or in a transaction.\<close>

definition session_row :: "crypto \<Rightarrow> Config \<Rightarrow> User \<Rightarrow> SessionMeta \<Rightarrow> string \<Rightarrow> uuid \<Rightarrow> gotime \<Rightarrow> gotime
    \<Rightarrow> driver \<Rightarrow> db \<Rightarrow> db_error + (Session_row \<times> db)" where
  "session_row cr cfg user meta tok i now1 now2 d t =
     CreateSession d i (u_ID user) (cr_hashToken cr tok) (now1 + SessionTTL cfg) (IPAddress meta) (UserAgent meta) now2 t"

definition session_of :: "User \<Rightarrow> string \<Rightarrow> Session_row \<Rightarrow> Session" where
  "session_of user tok row = \<lparr>sess_ID = s_ID row, sess_Token = tok, sess_ExpiresAt = s_ExpiresAt row, sess_User = user\<rparr>"

definition createSession :: "crypto \<Rightarrow> Config \<Rightarrow> User \<Rightarrow> SessionMeta \<Rightarrow> (sys, auth_error + Session) prog" where
  "createSession cr cfg user meta =
     after (drawing ''token'' en_token) (\<lambda>tok.
     after (drawing ''uuid'' (\<lambda>e. en_uuid e 0)) (\<lambda>i.
     pbind clock (\<lambda>now1.
     pbind clock (\<lambda>now2.
     after (failing AuthStore (update (session_row cr cfg user meta tok i now1 now2))) (\<lambda>row.
     Ret (Inr (session_of user tok row)))))))"

definition createSession_tx ::
    "crypto \<Rightarrow> Config \<Rightarrow> User \<Rightarrow> SessionMeta \<Rightarrow> sys \<Rightarrow> driver \<Rightarrow> db \<Rightarrow> auth_error + (Session \<times> db)" where
  "createSession_tx cr cfg user meta s d t =
     bind_r (drawn ''token'' (en_token (sy_entropy s))) (\<lambda>tok.
     bind_r (drawn ''uuid'' (en_uuid (sy_entropy s) 0)) (\<lambda>i.
     bind_r (map_err AuthStore (session_row cr cfg user meta tok i (sy_now s) (sy_now s) d t)) (\<lambda>(row, t1).
     Inr (session_of user tok row, t1))))"

definition Login :: "crypto \<Rightarrow> Config \<Rightarrow> string \<Rightarrow> string \<Rightarrow> SessionMeta \<Rightarrow> (sys, auth_error + LoginResult) prog" where
  "Login cr cfg email password meta =
     pbind (limiter_allow (''login:user:'' @ cr_ToLower cr email) loginUserLimit rateLimitWindow) (\<lambda>userOK.
     pbind (limiter_allow (''login:ip:'' @ IPAddress meta) loginIPLimit rateLimitWindow) (\<lambda>ipOK.
     if \<not> userOK \<or> \<not> ipOK then Ret (Inl ErrRateLimited)
     else
       after (failing (no_rows ErrInvalidCredentials) (query (\<lambda>d. GetUserByEmail d email))) (\<lambda>user.
       after (verifyUserPassword cr (u_ID user) password) (\<lambda>_.
       if u_TwoFactorEnabled user
       then after (createChallenge cr cfg (u_ID user)) (\<lambda>ch. Ret (Inr (LR_Challenge ch)))
       else after (createSession cr cfg user meta) (\<lambda>sess. Ret (Inr (LR_Session sess)))))))"

definition verify_tx ::
    "crypto \<Rightarrow> Config \<Rightarrow> LoginChallenge \<Rightarrow> User \<Rightarrow> SessionMeta \<Rightarrow> sys \<Rightarrow> driver \<Rightarrow> db \<Rightarrow> auth_error + (Session \<times> db)" where
  "verify_tx cr cfg ch user meta s d t =
     bind_r (map_err AuthStore (DeleteLoginChallenge d (lc_ID ch) t)) (\<lambda>(_, t1).
     createSession_tx cr cfg user meta s d t1)"

definition VerifyTwoFactor ::
    "crypto \<Rightarrow> Config \<Rightarrow> string \<Rightarrow> string \<Rightarrow> SessionMeta \<Rightarrow> (sys, auth_error + Session) prog" where
  "VerifyTwoFactor cr cfg challengeToken code meta =
     pbind (limiter_allow (''2fa:ip:'' @ IPAddress meta) twoFactorLimit rateLimitWindow) (\<lambda>ipOK.
     if \<not> ipOK then Ret (Inl ErrRateLimited)
     else
       after (failing (no_rows ErrInvalidToken)
         (query (\<lambda>d. GetLoginChallengeByTokenHash d (cr_hashToken cr challengeToken)))) (\<lambda>ch.
       after (checkSecondFactor cr (lc_UserID ch) code) (\<lambda>ok.
       if \<not> ok then
         pbind (update (\<lambda>d. IncrementLoginChallengeAttempts d (lc_ID ch))) (\<lambda>r.
         case r of
           Inr attempts \<Rightarrow>
             if attempts \<ge> challengeMaxAttempts
             then pbind (update (\<lambda>d. DeleteLoginChallenge d (lc_ID ch))) (\<lambda>_. Ret (Inl ErrInvalidCode))
             else Ret (Inl ErrInvalidCode)
         | Inl _ \<Rightarrow> Ret (Inl ErrInvalidCode))
       else
         after (failing AuthStore (query (\<lambda>d. GetUserByID d (lc_UserID ch)))) (\<lambda>user.
         transaction AuthStore (verify_tx cr cfg ch user meta)))))"

text \<open>The session of a token, extended when its last touch is old; a failed
  extension is only logged.\<close>

definition Authenticate :: "crypto \<Rightarrow> Config \<Rightarrow> string \<Rightarrow> (sys, auth_error + (User \<times> Session_row)) prog" where
  "Authenticate cr cfg token =
     after (failing (no_rows ErrInvalidToken)
       (query (\<lambda>d. GetSessionAndUserByTokenHash d (cr_hashToken cr token)))) (\<lambda>(session, user).
     pbind clock (\<lambda>now.
     if \<not> s_ExpiresAt session > now then Ret (Inl ErrInvalidToken)
     else if time_sub now (s_UpdatedAt session) > SessionUpdateAge cfg then
       let exp = now + SessionTTL cfg in
       pbind (update (\<lambda>d. ExtendSession d (s_ID session) exp)) (\<lambda>r.
       case r of
         Inl _ \<Rightarrow> Ret (Inr (user, session))
       | Inr _ \<Rightarrow> Ret (Inr (user, session\<lparr>s_ExpiresAt := exp\<rparr>)))
     else Ret (Inr (user, session))))"

definition some_rows :: "auth_error \<Rightarrow> (sys, db_error + nat) prog \<Rightarrow> (sys, auth_error + unit) prog" where
  "some_rows none p = after (failing AuthStore p) (\<lambda>n. Ret (if n = 0 then Inl none else Inr ()))"

definition Logout :: "crypto \<Rightarrow> string \<Rightarrow> (sys, auth_error + unit) prog" where
  "Logout cr token = some_rows ErrInvalidToken (update (\<lambda>d. DeleteSessionByTokenHash d (cr_hashToken cr token)))"

definition IsSessionFresh :: "Config \<Rightarrow> Session_row \<Rightarrow> (sys, bool) prog" where
  "IsSessionFresh cfg sess = pbind clock (\<lambda>now. Ret (time_sub now (s_ReauthenticatedAt sess) \<le> ReauthWindow cfg))"

definition Reauthenticate ::
    "crypto \<Rightarrow> User \<Rightarrow> uuid \<Rightarrow> string \<Rightarrow> string \<Rightarrow> string \<Rightarrow> (sys, auth_error + unit) prog" where
  "Reauthenticate cr user sessionID password code ip =
     pbind (limiter_allow (''reauth:user:'' @ u_ID user) reauthUserLimit rateLimitWindow) (\<lambda>userOK.
     pbind (limiter_allow (''2fa:ip:'' @ ip) twoFactorLimit rateLimitWindow) (\<lambda>ipOK.
     if \<not> userOK \<or> \<not> ipOK then Ret (Inl ErrRateLimited)
     else
       after (if u_TwoFactorEnabled user
              then after (checkSecondFactor cr (u_ID user) code) (\<lambda>ok. Ret (if \<not> ok then Inl ErrInvalidCode else Inr ()))
              else verifyUserPassword cr (u_ID user) password) (\<lambda>_.
       pbind clock (\<lambda>now.
       some_rows ErrInvalidToken (update (\<lambda>d. TouchSessionReauthenticated d sessionID (u_ID user) now))))))"

definition ListSessions :: "uuid \<Rightarrow> (sys, auth_error + Session_row list) prog" where
  "ListSessions userID = failing AuthStore (query (\<lambda>d. ListSessionsByUser d userID))"

definition RevokeSession :: "uuid \<Rightarrow> uuid \<Rightarrow> (sys, auth_error + unit) prog" where
  "RevokeSession userID sessionID = some_rows ErrNotFound (update (\<lambda>d. DeleteSessionByID d sessionID userID))"

definition change_password_tx :: "uuid \<Rightarrow> string \<Rightarrow> uuid \<Rightarrow> sys \<Rightarrow> driver \<Rightarrow> db \<Rightarrow> auth_error + (unit \<times> db)" where
  "change_password_tx userID phc keepSession s d t =
     bind_r (map_err AuthStore (UpdateAccountPassword d userID (Some phc) t)) (\<lambda>(_, t1).
     bind_r (map_err AuthStore (DeleteUserSessionsExcept d userID keepSession t1)) (\<lambda>(_, t2). Inr ((), t2)))"

definition ChangePassword :: "crypto \<Rightarrow> uuid \<Rightarrow> string \<Rightarrow> string \<Rightarrow> uuid \<Rightarrow> (sys, auth_error + unit) prog" where
  "ChangePassword cr userID current newPassword keepSession =
     after (Ret (validatePassword newPassword)) (\<lambda>_.
     after (verifyUserPassword cr userID current) (\<lambda>_.
     after (draw (hashPassword cr newPassword 0)) (\<lambda>phc.
     transaction AuthStore (change_password_tx userID phc keepSession))))"

section \<open>Enrolment (auth.go)\<close>

text \<open>\<^verbatim>\<open>insertBackupCodes\<close>: the n-th code takes the n-th drawn salt and identifier.\<close>

fun insertBackupCodes :: "crypto \<Rightarrow> entropy \<Rightarrow> driver \<Rightarrow> uuid \<Rightarrow> nat \<Rightarrow> string list \<Rightarrow> db \<Rightarrow> auth_error + (unit \<times> db)" where
  "insertBackupCodes cr e d tf n [] t = Inr ((), t)"
| "insertBackupCodes cr e d tf n (code # codes) t =
     bind_r (hashPassword cr (normalizeBackupCode cr code) n e) (\<lambda>hash.
     bind_r (drawn ''uuid'' (en_uuid e n)) (\<lambda>i.
     bind_r (map_err AuthStore (CreateBackupCode d i tf hash t)) (\<lambda>(_, t1).
     insertBackupCodes cr e d tf (n + 1) codes t1)))"

record TwoFactorEnrollment =
  tfe_Secret :: string
  tfe_BackupCodes :: "string list"

definition enable_tx ::
    "crypto \<Rightarrow> uuid \<Rightarrow> string \<Rightarrow> string list \<Rightarrow> sys \<Rightarrow> driver \<Rightarrow> db \<Rightarrow> auth_error + (unit \<times> db)" where
  "enable_tx cr userID encSecret codes s d t =
     bind_r (drawn ''uuid'' (en_uuid (sy_entropy s) 0)) (\<lambda>i.
     bind_r (map_err AuthStore (UpsertPendingTwoFactor d i userID encSecret t)) (\<lambda>(row, t1).
     bind_r (map_err AuthStore (DeleteBackupCodesByTwoFactorID d (tf_ID row) t1)) (\<lambda>(_, t2).
     insertBackupCodes cr (sy_entropy s) d (tf_ID row) 1 codes t2)))"

definition EnableTwoFactor :: "crypto \<Rightarrow> uuid \<Rightarrow> (sys, auth_error + TwoFactorEnrollment) prog" where
  "EnableTwoFactor cr userID =
     pbind (query (\<lambda>d. GetTwoFactorByUserID d userID)) (\<lambda>r.
     if (case r of Inr tf \<Rightarrow> tf_ConfirmedAt tf \<noteq> None | Inl _ \<Rightarrow> False) then Ret (Inl ErrTwoFactorAlreadyEnabled)
     else if (case r of Inl e \<Rightarrow> e \<noteq> ErrNoRows | Inr _ \<Rightarrow> False) then Ret (Inl (AuthStore (projl r)))
     else
       after (failing AuthStore (query (\<lambda>d. GetUserByID d userID))) (\<lambda>user.
       after (drawing ''totp'' en_totp) (\<lambda>secret.
       after (Ret (drawn ''encrypt'' (cr_encrypt cr secret))) (\<lambda>encSecret.
       after (drawing ''backup code'' en_codes) (\<lambda>codes.
       after (transaction AuthStore (enable_tx cr userID encSecret codes)) (\<lambda>_.
       Ret (Inr \<lparr>tfe_Secret = secret, tfe_BackupCodes = codes\<rparr>)))))))"

definition confirm_tx :: "uuid \<Rightarrow> int \<Rightarrow> sys \<Rightarrow> driver \<Rightarrow> db \<Rightarrow> auth_error + (unit \<times> db)" where
  "confirm_tx userID step s d t =
     bind_r (map_err AuthStore (ConfirmTwoFactor_q d userID t)) (\<lambda>(n, t1).
     if n = 0 then Inl ErrTwoFactorNotEnabled
     else
       bind_r (map_err AuthStore (AdvanceTwoFactorStep d userID step t1)) (\<lambda>(_, t2).
       map_err AuthStore (SetUserTwoFactorEnabled d userID True t2)))"

definition ConfirmTwoFactor :: "crypto \<Rightarrow> uuid \<Rightarrow> string \<Rightarrow> (sys, auth_error + unit) prog" where
  "ConfirmTwoFactor cr userID code =
     after (failing (no_rows ErrTwoFactorNotEnabled) (query (\<lambda>d. GetTwoFactorByUserID d userID))) (\<lambda>tf.
     if tf_ConfirmedAt tf \<noteq> None then Ret (Inl ErrTwoFactorAlreadyEnabled)
     else (case cr_decrypt cr (tf_Secret tf) of
       None \<Rightarrow> Ret (Inl Decrypt)
     | Some secret \<Rightarrow>
         pbind clock (\<lambda>now.
         case matchTOTPStep cr secret code now of
           None \<Rightarrow> Ret (Inl ErrInvalidCode)
         | Some step \<Rightarrow>
             transaction AuthStore (confirm_tx userID step))))"

definition disable_tx :: "uuid \<Rightarrow> sys \<Rightarrow> driver \<Rightarrow> db \<Rightarrow> auth_error + (unit \<times> db)" where
  "disable_tx userID s d t =
     bind_r (map_err AuthStore (DeleteTwoFactorByUserID d userID t)) (\<lambda>(_, t1).
     map_err AuthStore (SetUserTwoFactorEnabled d userID False t1))"

definition DisableTwoFactor :: "uuid \<Rightarrow> (sys, auth_error + unit) prog" where
  "DisableTwoFactor userID =
     after (failing (no_rows ErrTwoFactorNotEnabled) (query (\<lambda>d. GetTwoFactorByUserID d userID))) (\<lambda>_.
     transaction AuthStore (disable_tx userID))"

definition regenerate_tx ::
    "crypto \<Rightarrow> TwoFactor \<Rightarrow> string list \<Rightarrow> sys \<Rightarrow> driver \<Rightarrow> db \<Rightarrow> auth_error + (unit \<times> db)" where
  "regenerate_tx cr tf codes s d t =
     bind_r (map_err AuthStore (DeleteBackupCodesByTwoFactorID d (tf_ID tf) t)) (\<lambda>(_, t1).
     insertBackupCodes cr (sy_entropy s) d (tf_ID tf) 0 codes t1)"

definition RegenerateBackupCodes :: "crypto \<Rightarrow> uuid \<Rightarrow> (sys, auth_error + string list) prog" where
  "RegenerateBackupCodes cr userID =
     after (failing (no_rows ErrTwoFactorNotEnabled) (query (\<lambda>d. GetTwoFactorByUserID d userID))) (\<lambda>tf.
     if tf_ConfirmedAt tf = None then Ret (Inl ErrTwoFactorNotEnabled)
     else
       after (drawing ''backup code'' en_codes) (\<lambda>codes.
       after (transaction AuthStore (regenerate_tx cr tf codes)) (\<lambda>_.
       Ret (Inr codes))))"

definition SweepExpired :: "(sys, auth_error + unit) prog" where
  "SweepExpired =
     after (failing AuthStore (update DeleteExpiredSessions)) (\<lambda>_.
     after (failing AuthStore (update DeleteExpiredLoginChallenges)) (\<lambda>_.
     after (failing AuthStore (update DeleteExpiredDeviceRequests)) (\<lambda>_. Ret (Inr ()))))"

end
