(* ===== verification/Device.thy ===== *)
theory Device
  imports Auth
begin

text \<open>
  Browser device authorization (\<^verbatim>\<open>internal/auth/device.go\<close>): the terminal opens a
  request and polls with the device code, the signed-in browser looks the
  user code up and approves or denies it.
\<close>

section \<open>Codes and labels\<close>

definition DeviceLogin :: string where "DeviceLogin = ''login''"
definition DeviceReauth :: string where "DeviceReauth = ''reauth''"

definition DevicePollInterval :: duration where "DevicePollInterval = 5 * second"
definition devicePollSlack :: duration where "devicePollSlack = 1 * second"
definition devicePollCap :: int where "devicePollCap = 300"
definition userCodeLength :: nat where "userCodeLength = 8"
definition userCodeAlphabet :: string where "userCodeAlphabet = ''BCDFGHJKLMNPQRSTVWXZ23456789''"
definition deviceLabelMax :: nat where "deviceLabelMax = 128"
definition deviceCreateIPLimit :: int where "deviceCreateIPLimit = 20"
definition devicePollIPLimit :: int where "devicePollIPLimit = 600"
definition deviceLookupUserLimit :: int where "deviceLookupUserLimit = 30"
definition deviceApproveUserLimit :: int where "deviceApproveUserLimit = 10"

definition FormatUserCode :: "string \<Rightarrow> string" where
  "FormatUserCode code = (if length code \<noteq> userCodeLength then code else take 4 code @ ''-'' @ drop 4 code)"

fun normalize_loop :: "string \<Rightarrow> string \<Rightarrow> string option" where
  "normalize_loop code [] = Some code"
| "normalize_loop code (r # rs) =
     (if r = CHR ''-'' \<or> r = CHR '' '' then normalize_loop code rs
      else if r \<notin> set userCodeAlphabet then None
      else normalize_loop (code @ [r]) rs)"

definition NormalizeUserCode :: "crypto \<Rightarrow> string \<Rightarrow> string option" where
  "NormalizeUserCode cr input =
     (case normalize_loop [] (cr_ToUpper cr input) of
        None \<Rightarrow> None
      | Some code \<Rightarrow> if length code \<noteq> userCodeLength then None else Some code)"

text \<open>Random bytes to a code: a byte beyond the last full run of the alphabet is
  skipped; running out of bytes is a failed read.\<close>

fun newUserCode :: "nat list \<Rightarrow> string \<Rightarrow> string option" where
  "newUserCode bytes code =
     (if length code \<ge> userCodeLength then Some code
      else case bytes of
        [] \<Rightarrow> None
      | b # bs \<Rightarrow>
          if b \<ge> 256 - 256 mod length userCodeAlphabet then newUserCode bs code
          else newUserCode bs (code @ [userCodeAlphabet ! (b mod length userCodeAlphabet)]))"

declare newUserCode.simps [simp del]

text \<open>The label's loop over bytes: a rune beyond ASCII is bytes of 128 and above.\<close>

definition is_print :: "char \<Rightarrow> bool" where
  "is_print c \<longleftrightarrow> 32 \<le> (of_char c :: nat) \<and> (of_char c :: nat) < 127"

fun label_loop :: "string \<Rightarrow> string \<Rightarrow> string" where
  "label_loop out [] = out"
| "label_loop out (r # rs) =
     (if \<not> is_print r then label_loop out rs
      else let out = out @ [r] in if length out \<ge> deviceLabelMax then out else label_loop out rs)"

definition sanitizeDeviceLabel :: "string \<Rightarrow> string" where
  "sanitizeDeviceLabel label =
     (let out = label_loop [] (trim_space label) in if out = [] then ''Skali CLI'' else out)"

section \<open>Opening a request\<close>

record DeviceRequest =
  DeviceCode :: string
  UserCode :: string
  dq_ExpiresAt :: gotime
  dq_Interval :: duration

text \<open>At most five attempts, each with a newly drawn user code.\<close>

fun device_attempts ::
    "nat \<Rightarrow> (string \<Rightarrow> DeviceRequest_row) \<Rightarrow> string \<Rightarrow> (sys, auth_error + DeviceRequest) prog" where
  "device_attempts 0 row deviceCode = Ret (Inl (Auth_Other ''auth: could not allocate a device user code''))"
| "device_attempts (Suc n) row deviceCode =
     after (drawing ''user code'' (\<lambda>e. newUserCode (en_bytes e n) [])) (\<lambda>userCode.
     pbind (update (\<lambda>d. CreateDeviceRequest d (row userCode))) (\<lambda>r.
     case r of
       Inl UniqueViolation \<Rightarrow> device_attempts n row deviceCode
     | Inl e \<Rightarrow> Ret (Inl (AuthStore e))
     | Inr new \<Rightarrow>
         Ret (Inr \<lparr>DeviceCode = deviceCode, UserCode = FormatUserCode (dr_UserCode new),
                   dq_ExpiresAt = dr_ExpiresAt new, dq_Interval = DevicePollInterval\<rparr>)))"

definition createDeviceRequest ::
    "crypto \<Rightarrow> Config \<Rightarrow> string \<Rightarrow> uuid option \<Rightarrow> uuid option \<Rightarrow> string \<Rightarrow> SessionMeta
      \<Rightarrow> (sys, auth_error + DeviceRequest) prog" where
  "createDeviceRequest cr cfg intent sessionID userID label meta =
     after (drawing ''token'' en_token) (\<lambda>deviceCode.
     after (drawing ''uuid'' (\<lambda>e. en_uuid e 0)) (\<lambda>i.
     pbind clock (\<lambda>now.
     device_attempts 5
       (\<lambda>userCode. \<lparr>dr_ID = i, dr_Intent = intent, dr_UserCode = userCode,
          dr_DeviceCodeHash = cr_hashToken cr deviceCode, dr_Status = ''pending'', dr_SessionID = sessionID,
          dr_UserID = userID, dr_ClientLabel = sanitizeDeviceLabel label, dr_IpAddress = IPAddress meta,
          dr_UserAgent = UserAgent meta, dr_PollCount = 0, dr_LastPolledAt = None,
          dr_ExpiresAt = now + DeviceTTL cfg, dr_CreatedAt = now\<rparr>)
       deviceCode)))"

definition StartDeviceLogin :: "crypto \<Rightarrow> Config \<Rightarrow> string \<Rightarrow> SessionMeta \<Rightarrow> (sys, auth_error + DeviceRequest) prog" where
  "StartDeviceLogin cr cfg label meta =
     pbind (limiter_allow (''device:create:ip:'' @ IPAddress meta) deviceCreateIPLimit rateLimitWindow) (\<lambda>ok.
     if \<not> ok then Ret (Inl ErrRateLimited)
     else createDeviceRequest cr cfg DeviceLogin None None label meta)"

definition StartDeviceReauth ::
    "crypto \<Rightarrow> Config \<Rightarrow> User \<Rightarrow> uuid \<Rightarrow> string \<Rightarrow> SessionMeta \<Rightarrow> (sys, auth_error + DeviceRequest) prog" where
  "StartDeviceReauth cr cfg user sessionID label meta =
     pbind (limiter_allow (''device:create:ip:'' @ IPAddress meta) deviceCreateIPLimit rateLimitWindow) (\<lambda>ok.
     if \<not> ok then Ret (Inl ErrRateLimited)
     else createDeviceRequest cr cfg DeviceReauth (Some sessionID) (Some (u_ID user)) label meta)"

section \<open>Polling\<close>

datatype DevicePoll = DevicePending | DeviceDenied | DeviceExpired | DeviceApproved "Session option"

definition poll_tx :: "crypto \<Rightarrow> Config \<Rightarrow> string \<Rightarrow> sys \<Rightarrow> driver \<Rightarrow> db \<Rightarrow> auth_error + (DevicePoll \<times> db)" where
  "poll_tx cr cfg deviceCode s d t =
     bind_r (map_err (no_rows ErrDeviceNotFound)
       (GetDeviceRequestByDeviceCodeHashForUpdate d (cr_hashToken cr deviceCode) t)) (\<lambda>row.
     let now = sy_now s; delete = (\<lambda>t. map_err AuthStore (DeleteDeviceRequest d (dr_ID row) t)) in
     if \<not> dr_ExpiresAt row > now \<or> dr_PollCount row \<ge> devicePollCap then
       bind_r (delete t) (\<lambda>(_, t1). Inr (DeviceExpired, t1))
     else
       bind_r (map_err AuthStore (TouchDeviceRequestPoll d (dr_ID row) (Some now) t)) (\<lambda>(_, t1).
       if (case dr_LastPolledAt row of None \<Rightarrow> False
           | Some polled \<Rightarrow> time_sub now polled < DevicePollInterval - devicePollSlack)
       then Inl ErrSlowDown
       else if dr_Status row = ''pending'' then Inr (DevicePending, t1)
       else if dr_Status row = ''denied'' then bind_r (delete t1) (\<lambda>(_, t2). Inr (DeviceDenied, t2))
       else
         bind_r (delete t1) (\<lambda>(_, t2).
         if dr_Intent row \<noteq> DeviceLogin then Inr (DeviceApproved None, t2)
         else case dr_UserID row of
           None \<Rightarrow> Inl (Auth_Other ''auth: approved device login without an approver'')
         | Some uid \<Rightarrow>
             bind_r (map_err AuthStore (GetUserByID d uid t2)) (\<lambda>user.
             bind_r (createSession_tx cr cfg user \<lparr>IPAddress = dr_IpAddress row, UserAgent = dr_UserAgent row\<rparr> s d t2)
               (\<lambda>(sess, t3). Inr (DeviceApproved (Some sess), t3))))))"

definition PollDevice :: "crypto \<Rightarrow> Config \<Rightarrow> string \<Rightarrow> string \<Rightarrow> (sys, auth_error + DevicePoll) prog" where
  "PollDevice cr cfg deviceCode ip =
     pbind (limiter_allow (''device:poll:ip:'' @ ip) devicePollIPLimit rateLimitWindow) (\<lambda>ok.
     if \<not> ok then Ret (Inl ErrRateLimited) else transaction AuthStore (poll_tx cr cfg deviceCode))"

section \<open>Deciding\<close>

definition pendingDevice :: "crypto \<Rightarrow> string \<Rightarrow> (sys, auth_error + DeviceRequest_row) prog" where
  "pendingDevice cr userCode =
     (case NormalizeUserCode cr userCode of
        None \<Rightarrow> Ret (Inl ErrDeviceNotFound)
      | Some normalized \<Rightarrow>
          after (failing (no_rows ErrDeviceNotFound) (query (\<lambda>d. GetDeviceRequestByUserCode d normalized))) (\<lambda>row.
          if dr_Status row \<noteq> ''pending'' then Ret (Inl ErrDeviceNotFound)
          else pbind clock (\<lambda>now.
            Ret (if \<not> dr_ExpiresAt row > now then Inl ErrDeviceNotFound else Inr row))))"

record DeviceInfo =
  di_Intent :: string
  di_ClientLabel :: string
  di_CreatedAt :: gotime
  di_ExpiresAt :: gotime
  di_Mine :: bool

definition LookupDevice :: "crypto \<Rightarrow> User \<Rightarrow> string \<Rightarrow> (sys, auth_error + DeviceInfo) prog" where
  "LookupDevice cr caller userCode =
     pbind (limiter_allow (''device:lookup:user:'' @ u_ID caller) deviceLookupUserLimit rateLimitWindow) (\<lambda>ok.
     if \<not> ok then Ret (Inl ErrRateLimited)
     else after (pendingDevice cr userCode) (\<lambda>row.
       Ret (Inr \<lparr>di_Intent = dr_Intent row, di_ClientLabel = dr_ClientLabel row, di_CreatedAt = dr_CreatedAt row,
                 di_ExpiresAt = dr_ExpiresAt row, di_Mine = (dr_UserID row = Some (u_ID caller))\<rparr>)))"

definition approve_tx :: "User \<Rightarrow> DeviceRequest_row \<Rightarrow> sys \<Rightarrow> driver \<Rightarrow> db \<Rightarrow> auth_error + (unit \<times> db)" where
  "approve_tx caller row s d t =
     bind_r (if dr_Intent row = DeviceReauth then
               (case dr_SessionID row of
                  None \<Rightarrow> Inl ErrDeviceForeign
                | Some session \<Rightarrow>
                    if dr_UserID row \<noteq> Some (u_ID caller) then Inl ErrDeviceForeign
                    else
                      bind_r (map_err AuthStore (TouchSessionReauthenticated d session (u_ID caller) (sy_now s) t))
                        (\<lambda>(n, t1). if n = 0 then Inl ErrDeviceNotFound else Inr ((), t1)))
             else Inr ((), t)) (\<lambda>(_, t1).
     bind_r (map_err AuthStore (ApproveDeviceRequest d (dr_ID row) (Some (u_ID caller)) t1)) (\<lambda>(n, t2).
     if n = 0 then Inl ErrDeviceNotFound else Inr ((), t2)))"

definition ApproveDevice :: "crypto \<Rightarrow> User \<Rightarrow> string \<Rightarrow> (sys, auth_error + unit) prog" where
  "ApproveDevice cr caller userCode =
     pbind (limiter_allow (''device:approve:user:'' @ u_ID caller) deviceApproveUserLimit rateLimitWindow) (\<lambda>ok.
     if \<not> ok then Ret (Inl ErrRateLimited)
     else after (pendingDevice cr userCode) (\<lambda>row. transaction AuthStore (approve_tx caller row)))"

definition DenyDevice :: "crypto \<Rightarrow> string \<Rightarrow> (sys, auth_error + unit) prog" where
  "DenyDevice cr userCode =
     after (pendingDevice cr userCode) (\<lambda>row.
     some_rows ErrDeviceNotFound (update (\<lambda>d. DenyDeviceRequest d (dr_ID row))))"

end
