(* ===== verification/Go_Time.thy ===== *)
theory Go_Time
  imports Skali_Prelude
begin

text \<open>
  The calendar of Go's \<^verbatim>\<open>time\<close> package in UTC: the proleptic Gregorian date
  of an instant (\<^verbatim>\<open>Year\<close>, \<^verbatim>\<open>Month\<close>, \<^verbatim>\<open>Day\<close>, \<^verbatim>\<open>Weekday\<close>, \<^verbatim>\<open>Hour\<close>, \<^verbatim>\<open>Minute\<close>) and
  \<^verbatim>\<open>time.Date\<close>, which normalises a month or a day outside its usual range.
  An instant is a number of nanoseconds since January 1 of year 1, day 0.
\<close>

section \<open>Dates\<close>

definition hour_d :: duration where "hour_d = 60 * minute_d"
definition day_d :: duration where "day_d = 24 * hour_d"

lemmas duration_defs = second_def minute_d_def hour_d_def day_d_def

definition is_leap :: "int \<Rightarrow> bool" where
  "is_leap y \<longleftrightarrow> y mod 4 = 0 \<and> (y mod 100 \<noteq> 0 \<or> y mod 400 = 0)"

text \<open>The days before January 1 of a year, and before the first of a month.\<close>

definition days_before_year :: "int \<Rightarrow> int" where
  "days_before_year y = 365 * (y - 1) + (y - 1) div 4 - (y - 1) div 100 + (y - 1) div 400"

definition days_before_month :: "bool \<Rightarrow> int \<Rightarrow> int" where
  "days_before_month leap m =
     (if m \<le> 1 then 0 else if m = 2 then 31 else
        (if leap then 1 else 0) +
        (if m = 3 then 59 else if m = 4 then 90 else if m = 5 then 120 else if m = 6 then 151
         else if m = 7 then 181 else if m = 8 then 212 else if m = 9 then 243
         else if m = 10 then 273 else if m = 11 then 304 else if m = 12 then 334 else 365))"

text \<open>The year of a day: 400-year, 100-year, 4-year and 1-year cycles.\<close>

definition year_of :: "int \<Rightarrow> int" where
  "year_of n =
     (let q = n div 146097; r = n mod 146097;
          c = min 3 (r div 36524); r2 = r - 36524 * c;
          f = r2 div 1461; r3 = r2 - 1461 * f;
          k = min 3 (r3 div 365)
      in 400 * q + 100 * c + 4 * f + k + 1)"

definition month_of :: "bool \<Rightarrow> int \<Rightarrow> int" where
  "month_of leap yd =
     (case find (\<lambda>m. yd < days_before_month leap (m + 1)) [1, 2, 3, 4, 5, 6, 7, 8, 9, 10, 11, 12] of
        Some m \<Rightarrow> m | None \<Rightarrow> 12)"

definition day_number :: "gotime \<Rightarrow> int" where
  "day_number t = t div day_d"

definition Year :: "gotime \<Rightarrow> int" where
  "Year t = year_of (day_number t)"

definition Month :: "gotime \<Rightarrow> int" where
  "Month t = month_of (is_leap (Year t)) (day_number t - days_before_year (Year t))"

definition Day :: "gotime \<Rightarrow> int" where
  "Day t = day_number t - days_before_year (Year t)
             - days_before_month (is_leap (Year t)) (Month t) + 1"

text \<open>January 1 of year 1 was a Monday; Sunday is 0.\<close>

definition Weekday :: "gotime \<Rightarrow> int" where
  "Weekday t = (day_number t + 1) mod 7"

definition Hour :: "gotime \<Rightarrow> int" where
  "Hour t = t mod day_d div hour_d"

definition Minute :: "gotime \<Rightarrow> int" where
  "Minute t = t mod hour_d div minute_d"

text \<open>\<^verbatim>\<open>time.Date(y, m, d, h, mi, 0, 0, time.UTC)\<close>\<close>

definition go_date :: "int \<Rightarrow> int \<Rightarrow> int \<Rightarrow> int \<Rightarrow> int \<Rightarrow> gotime" where
  "go_date y m d h mi =
     (let y' = y + (m - 1) div 12; m' = (m - 1) mod 12 + 1
      in (days_before_year y' + days_before_month (is_leap y') m' + d - 1) * day_d
           + h * hour_d + mi * minute_d)"

text \<open>\<^verbatim>\<open>t.Truncate(time.Minute)\<close>\<close>

definition truncate_m :: "gotime \<Rightarrow> gotime" where
  "truncate_m t = t - t mod minute_d"

lemma minute_pos: "0 < minute_d" and hour_pos: "0 < hour_d" and day_pos: "0 < day_d"
  by (simp_all add: duration_defs)

section \<open>Every day lies in one year and one month\<close>

lemma days_before_year_cycles:
  assumes "0 \<le> c" "c \<le> 3" "0 \<le> f" "f \<le> 24" "0 \<le> k" "k \<le> 3"
  shows "days_before_year (400 * q + 100 * c + 4 * f + k + 1)
           = 146097 * q + 36524 * c + 1461 * f + 365 * k"
proof -
  let ?n = "400 * q + 100 * c + 4 * f + k"
  have "?n div 4 = 100 * q + 25 * c + f"
    using assms by (intro int_div_pos_eq [where r = k]) auto
  moreover have "?n div 100 = 4 * q + c"
    using assms by (intro int_div_pos_eq [where r = "4 * f + k"]) auto
  moreover have "?n div 400 = q"
    using assms by (intro int_div_pos_eq [where r = "100 * c + 4 * f + k"]) auto
  ultimately show ?thesis
    by (simp add: days_before_year_def)
qed

lemma mod_eq_0_iff_rest: "a = b * q + r \<Longrightarrow> 0 < r \<Longrightarrow> r \<le> b \<Longrightarrow> a mod b = 0 \<longleftrightarrow> r = (b :: int)"
  by (cases "r = b") (auto simp: int_mod_pos_eq)

lemma is_leap_cycles:
  assumes "0 \<le> c" "c \<le> 3" "0 \<le> f" "f \<le> 24" "0 \<le> k" "k \<le> 3"
  shows "is_leap (400 * q + 100 * c + 4 * f + k + 1) \<longleftrightarrow> k = 3 \<and> (f \<noteq> 24 \<or> c = 3)"
proof -
  let ?y = "400 * q + 100 * c + 4 * f + k + 1"
  have "?y mod 4 = 0 \<longleftrightarrow> k + 1 = 4"
    using assms by (intro mod_eq_0_iff_rest [where q = "100 * q + 25 * c + f"]) auto
  moreover have "?y mod 100 = 0 \<longleftrightarrow> 4 * f + k + 1 = 100"
    using assms by (intro mod_eq_0_iff_rest [where q = "4 * q + c"]) auto
  moreover have "?y mod 400 = 0 \<longleftrightarrow> 100 * c + 4 * f + k + 1 = 400"
    using assms by (intro mod_eq_0_iff_rest [where q = q]) auto
  ultimately show ?thesis
    using assms by (auto simp: is_leap_def)
qed

lemma div_pred: "0 < b \<Longrightarrow> y div b = (y - 1) div b + (if y mod b = 0 then 1 else (0 :: int))"
proof -
  assume b: "0 < b"
  have y: "y = b * (y div b) + y mod b" by simp
  have m: "0 \<le> y mod b" "y mod b < b" using b by simp_all
  show ?thesis
  proof (cases "y mod b = 0")
    case True
    have "(y - 1) div b = y div b - 1"
      using y True b by (intro int_div_pos_eq [where r = "b - 1"]) (auto simp: algebra_simps)
    with True show ?thesis by simp
  next
    case False
    have "(y - 1) div b = y div b"
      using y m False by (intro int_div_pos_eq [where r = "y mod b - 1"]) (auto simp: algebra_simps)
    with False show ?thesis by simp
  qed
qed

lemma leap_days_step:
  fixes y p q r :: int
  assumes "m400 \<longrightarrow> m100" "m100 \<longrightarrow> m4"
  shows "365 * y + (p + (if m4 then 1 else 0)) - (q + (if m100 then 1 else 0))
             + (r + (if m400 then 1 else 0))
           = 365 * (y - 1) + p - q + r + (if m4 \<and> (\<not> m100 \<or> m400) then 366 else 365)"
  using assms by (cases m4; cases m100; cases m400) simp_all

lemma days_before_year_Suc:
  "days_before_year (y + 1) = days_before_year y + (if is_leap y then 366 else 365)"
proof -
  have "days_before_year (y + 1) = 365 * y + y div 4 - y div 100 + y div 400"
    by (simp add: days_before_year_def)
  also have "\<dots> = 365 * y + ((y - 1) div 4 + (if y mod 4 = 0 then 1 else 0))
      - ((y - 1) div 100 + (if y mod 100 = 0 then 1 else 0))
      + ((y - 1) div 400 + (if y mod 400 = 0 then 1 else 0))"
    by (intro arg_cong2 [where f = "(+)"] arg_cong2 [where f = "(-)"] refl div_pred zero_less_numeral)
  also have "\<dots> = days_before_year y + (if is_leap y then 366 else 365)"
    unfolding days_before_year_def is_leap_def
    using dvd_trans [of 100 400 y] dvd_trans [of 4 100 y]
    by (intro leap_days_step) (simp_all add: mod_eq_0_iff_dvd)
  finally show ?thesis .
qed

lemma days_before_year_mono: "y < z \<Longrightarrow> days_before_year (y + 1) \<le> days_before_year z"
proof (induction "nat (z - y)" arbitrary: z)
  case 0
  then show ?case by simp
next
  case (Suc n)
  show ?case
  proof (cases "z = y + 1")
    case False
    with Suc have "days_before_year (y + 1) \<le> days_before_year (z - 1)"
      by (intro Suc.hyps(1)) auto
    also have "\<dots> \<le> days_before_year z"
      using days_before_year_Suc [of "z - 1"] by (simp split: if_splits)
    finally show ?thesis .
  qed simp
qed

lemma year_of_bounds: "days_before_year (year_of n) \<le> n \<and> n < days_before_year (year_of n + 1)"
proof -
  define q r where "q = n div 146097" and "r = n mod 146097"
  define c where "c = min 3 (r div 36524)"
  define r2 where "r2 = r - 36524 * c"
  define f where "f = r2 div 1461"
  define r3 where "r3 = r2 - 1461 * f"
  define k where "k = min 3 (r3 div 365)"
  have r: "0 \<le> r" "r < 146097" and n: "n = 146097 * q + r"
    by (simp_all add: r_def q_def)
  have c: "0 \<le> c" "c \<le> 3" and r2: "0 \<le> r2" "r2 < 36524 \<or> c = 3 \<and> r2 = 36524"
    using r by (auto simp: c_def r2_def min_def split: if_splits)
  have f: "0 \<le> f" "f \<le> 24" and r3: "0 \<le> r3" "r3 < 1461" "f = 24 \<and> c \<noteq> 3 \<longrightarrow> r3 < 1460"
    using r2 by (auto simp: f_def r3_def)
  have k: "0 \<le> k" "k \<le> 3" and rk: "365 * k \<le> r3"
    "r3 < 365 * k + 365 \<or> k = 3 \<and> (f \<noteq> 24 \<or> c = 3) \<and> r3 = 365 * k + 365"
    using r3 by (auto simp: k_def min_def split: if_splits)
  have y: "year_of n = 400 * q + 100 * c + 4 * f + k + 1"
    unfolding year_of_def Let_def k_def r3_def f_def r2_def c_def q_def r_def by (rule refl)
  have d: "days_before_year (year_of n) = 146097 * q + 36524 * c + 1461 * f + 365 * k"
    unfolding y by (rule days_before_year_cycles [OF c f k])
  have l: "is_leap (year_of n) \<longleftrightarrow> k = 3 \<and> (f \<noteq> 24 \<or> c = 3)"
    unfolding y by (rule is_leap_cycles [OF c f k])
  have "n = 146097 * q + 36524 * c + 1461 * f + r3"
    using n by (simp add: r3_def r2_def)
  then show ?thesis
    using d l rk by (auto simp: days_before_year_Suc)
qed

lemma year_of_unique:
  assumes "days_before_year y \<le> n" "n < days_before_year (y + 1)"
  shows "year_of n = y"
proof (rule ccontr)
  assume "year_of n \<noteq> y"
  then consider "year_of n < y" | "y < year_of n" by linarith
  then show False
    using year_of_bounds [of n] assms days_before_year_mono by cases (force, force)
qed

lemma days_before_month_table:
  "days_before_month leap 1 = 0" "days_before_month leap 2 = 31"
  "days_before_month leap 3 = (if leap then 60 else 59)"
  "days_before_month leap 4 = (if leap then 91 else 90)"
  "days_before_month leap 5 = (if leap then 121 else 120)"
  "days_before_month leap 6 = (if leap then 152 else 151)"
  "days_before_month leap 7 = (if leap then 182 else 181)"
  "days_before_month leap 8 = (if leap then 213 else 212)"
  "days_before_month leap 9 = (if leap then 244 else 243)"
  "days_before_month leap 10 = (if leap then 274 else 273)"
  "days_before_month leap 11 = (if leap then 305 else 304)"
  "days_before_month leap 12 = (if leap then 335 else 334)"
  "days_before_month leap 13 = (if leap then 366 else 365)"
  by (simp_all add: days_before_month_def)

lemma month_cases:
  "1 \<le> m \<Longrightarrow> m \<le> 12 \<Longrightarrow>
   m = 1 \<or> m = 2 \<or> m = 3 \<or> m = 4 \<or> m = 5 \<or> m = 6 \<or> m = 7 \<or> m = 8 \<or> m = 9 \<or>
   m = 10 \<or> m = 11 \<or> m = (12 :: int)"
  by presburger

lemma days_before_month_step:
  assumes "1 \<le> m" "m \<le> 12"
  shows "days_before_month leap m + 28 \<le> days_before_month leap (m + 1)"
    and "days_before_month leap (m + 1) \<le> days_before_month leap m + 31"
  using month_cases [OF assms] by (cases leap; elim disjE; simp add: days_before_month_table)+

lemma days_before_month_mono:
  "1 \<le> m \<Longrightarrow> m < m' \<Longrightarrow> m' \<le> 13 \<Longrightarrow> days_before_month leap (m + 1) \<le> days_before_month leap m'"
proof (induction "nat (m' - m)" arbitrary: m')
  case 0
  then show ?case by simp
next
  case (Suc n)
  show ?case
  proof (cases "m' = m + 1")
    case False
    with Suc have "days_before_month leap (m + 1) \<le> days_before_month leap (m' - 1)"
      by (intro Suc.hyps(1)) auto
    also have "\<dots> \<le> days_before_month leap m'"
      using days_before_month_step(1) [of "m' - 1" leap] Suc.prems False by simp
    finally show ?thesis .
  qed simp
qed

lemma month_of_bounds:
  assumes "0 \<le> yd" "yd < (if leap then 366 else 365)"
  shows "1 \<le> month_of leap yd \<and> month_of leap yd \<le> 12 \<and>
         days_before_month leap (month_of leap yd) \<le> yd \<and>
         yd < days_before_month leap (month_of leap yd + 1)"
  using assms by (cases leap) (simp_all add: month_of_def days_before_month_table)

lemma month_of_unique:
  assumes "1 \<le> m" "m \<le> 12" "days_before_month leap m \<le> yd" "yd < days_before_month leap (m + 1)"
    and "0 \<le> yd" "yd < (if leap then 366 else 365)"
  shows "month_of leap yd = m"
proof (rule ccontr)
  assume "month_of leap yd \<noteq> m"
  then consider "month_of leap yd < m" | "m < month_of leap yd" by linarith
  then show False
    using month_of_bounds [OF assms(5,6)] assms
      days_before_month_mono [of "month_of leap yd" m leap]
      days_before_month_mono [of m "month_of leap yd" leap]
    by cases force+
qed

section \<open>The fields of an instant\<close>

text \<open>The first instant of the month of \<open>t\<close>, and of the month after it.\<close>

definition month_start :: "gotime \<Rightarrow> gotime" where
  "month_start t = go_date (Year t) (Month t) 1 0 0"

definition next_month :: "gotime \<Rightarrow> gotime" where
  "next_month t = go_date (Year t) (Month t + 1) 1 0 0"

definition next_day :: "gotime \<Rightarrow> gotime" where
  "next_day t = go_date (Year t) (Month t) (Day t + 1) 0 0"

definition next_hour :: "gotime \<Rightarrow> gotime" where
  "next_hour t = go_date (Year t) (Month t) (Day t) (Hour t + 1) 0"

lemma year_day_bounds:
  "0 \<le> day_number t - days_before_year (Year t)"
  "day_number t - days_before_year (Year t) < (if is_leap (Year t) then 366 else 365)"
  using year_of_bounds [of "day_number t"] days_before_year_Suc [of "Year t"]
  by (simp_all add: Year_def)

lemma Month_bounds:
  "1 \<le> Month t" "Month t \<le> 12"
  "days_before_month (is_leap (Year t)) (Month t) \<le> day_number t - days_before_year (Year t)"
  "day_number t - days_before_year (Year t) < days_before_month (is_leap (Year t)) (Month t + 1)"
  using month_of_bounds [OF year_day_bounds [of t]] by (simp_all add: Month_def)

lemma Day_range: "1 \<le> Day t" "Day t \<le> 31"
  using Month_bounds [of t] days_before_month_step(2) [of "Month t" "is_leap (Year t)"]
  by (simp_all add: Day_def)

lemma div_floor:
  assumes "0 < (b :: int)"
  shows "t div b * b \<le> t \<and> t < (t div b + 1) * b"
proof -
  have "t = t div b * b + t mod b" by simp
  moreover have "0 \<le> t mod b" "t mod b < b" using assms by simp_all
  moreover have "(t div b + 1) * b = t div b * b + b" by (simp add: distrib_right)
  ultimately show ?thesis by linarith
qed

lemma div_between:
  assumes "0 < (b :: int)" "a * b \<le> t" "t < c * b"
  shows "a \<le> t div b \<and> t div b < c"
proof -
  have "t div b * b < c * b" using div_floor [OF assms(1), of t] assms(3) by linarith
  then have "t div b < c" using assms(1) by (simp add: mult_less_cancel_right)
  moreover have "a \<le> t div b" using zdiv_mono1 [OF assms(2,1)] assms(1) by simp
  ultimately show ?thesis by simp
qed

lemma div_split:
  assumes "0 < (h :: int)" "0 < k"
  shows "t div (h * k) * (h * k) + t mod (h * k) div h * h = t div h * h"
proof -
  have m: "t mod (h * k) div h = t div h mod k"
    using assms by (simp add: zmod_zmult2_eq)
  have d: "t div (h * k) = t div h div k"
    using assms by (simp add: zdiv_zmult2_eq)
  have "t div h = t div h div k * k + t div h mod k" by simp
  then show ?thesis
    unfolding m d by (metis distrib_right mult.assoc mult.commute)
qed

lemma Weekday_range: "0 \<le> Weekday t" "Weekday t < 7"
  by (simp_all add: Weekday_def)

lemma Hour_range: "0 \<le> Hour t" "Hour t < 24"
  by (simp_all add: Hour_def duration_defs)

lemma Minute_range: "0 \<le> Minute t" "Minute t < 60"
  by (simp_all add: Minute_def duration_defs)

lemma go_date_plain:
  "1 \<le> m \<Longrightarrow> m \<le> 12 \<Longrightarrow>
   go_date y m d h mi =
     (days_before_year y + days_before_month (is_leap y) m + d - 1) * day_d + h * hour_d + mi * minute_d"
  by (simp add: go_date_def Let_def)

text \<open>The fields of an instant determine its day.\<close>

lemma go_date_day:
  "go_date (Year t) (Month t) (Day t + k) h mi = (day_number t + k) * day_d + h * hour_d + mi * minute_d"
  using Month_bounds [of t] by (simp add: go_date_plain Day_def algebra_simps)

lemma go_date_fields: "go_date (Year t) (Month t) (Day t) (Hour t) (Minute t) = truncate_m t"
proof -
  have "go_date (Year t) (Month t) (Day t) (Hour t) (Minute t) =
      day_number t * day_d + Hour t * hour_d + Minute t * minute_d"
    using go_date_day [of t 0] by simp
  also have "\<dots> = t div minute_d * minute_d"
    using minute_pos div_split [of hour_d 24 t] div_split [of minute_d 60 t]
    by (simp add: day_number_def Hour_def Minute_def day_d_def hour_d_def mult.commute)
  also have "\<dots> = t - t mod minute_d"
    by (simp add: minus_mod_eq_div_mult)
  finally show ?thesis by (simp add: truncate_m_def)
qed

lemma next_month_eq:
  "next_month t = (days_before_year (Year t) + days_before_month (is_leap (Year t)) (Month t + 1)) * day_d"
proof (cases "Month t = 12")
  case True
  then show ?thesis
    by (simp add: next_month_def go_date_def days_before_year_Suc days_before_month_def)
next
  case False
  with Month_bounds [of t] have "1 \<le> Month t + 1" "Month t + 1 \<le> 12" by auto
  then show ?thesis by (simp add: next_month_def go_date_plain)
qed

lemma month_start_eq:
  "month_start t = (days_before_year (Year t) + days_before_month (is_leap (Year t)) (Month t)) * day_d"
  using Month_bounds [of t] by (simp add: month_start_def go_date_plain)

lemma next_day_eq: "next_day t = (day_number t + 1) * day_d"
  by (simp add: next_day_def go_date_day)

lemma next_hour_eq: "next_hour t = (t div hour_d + 1) * hour_d"
  using go_date_day [of t 0 "Hour t + 1" 0] div_split [of hour_d 24 t]
  by (simp add: next_hour_def day_number_def Hour_def duration_defs algebra_simps)

lemma instant_in_month: "month_start t \<le> t \<and> t < next_month t"
proof -
  note d = day_pos
  have t: "day_number t * day_d \<le> t" "t < (day_number t + 1) * day_d"
    using div_floor [OF d] by (simp_all add: day_number_def)
  have "(days_before_year (Year t) + days_before_month (is_leap (Year t)) (Month t)) * day_d
      \<le> day_number t * day_d"
    by (rule mult_right_mono) (use Month_bounds(3) [of t] d in linarith)+
  moreover have "(day_number t + 1) * day_d
      \<le> (days_before_year (Year t) + days_before_month (is_leap (Year t)) (Month t + 1)) * day_d"
    by (rule mult_right_mono) (use Month_bounds(4) [of t] d in linarith)+
  ultimately show ?thesis
    unfolding month_start_eq next_month_eq using t by linarith
qed

text \<open>All instants of a month share its year and its month.\<close>

lemma same_month:
  assumes "month_start t \<le> u" "u < next_month t"
  shows "Year u = Year t \<and> Month u = Month t"
proof -
  let ?y = "days_before_year (Year t)" and ?l = "is_leap (Year t)"
  note d = day_pos
  have n: "?y + days_before_month ?l (Month t) \<le> day_number u"
    "day_number u < ?y + days_before_month ?l (Month t + 1)"
    using div_between [OF d assms [unfolded month_start_eq next_month_eq]] by (simp_all add: day_number_def)
  have lo: "0 \<le> days_before_month ?l (Month t)"
    by (simp add: days_before_month_def)
  have "days_before_month ?l (Month t + 1) \<le> days_before_month ?l 13"
    using Month_bounds [of t] days_before_month_mono [of "Month t" 13] by auto
  then have hi: "days_before_month ?l (Month t + 1) \<le> (if ?l then 366 else 365)"
    by (simp add: days_before_month_def)
  have y: "Year u = Year t"
    unfolding Year_def [of u]
    by (rule year_of_unique) (use n lo hi days_before_year_Suc [of "Year t"] in linarith)+
  moreover have "Month u = Month t"
    unfolding Month_def [of u] y
    by (rule month_of_unique) (use n lo hi Month_bounds [of t] in linarith)+
  ultimately show ?thesis ..
qed

lemma same_day:
  assumes "day_number u = day_number t"
  shows "Year u = Year t \<and> Month u = Month t \<and> Day u = Day t \<and> Weekday u = Weekday t"
  using assms by (simp add: Year_def Month_def Day_def Weekday_def)

end
