(* ===== verification/Cron.thy ===== *)
theory Cron
  imports Go_Time Go_Strings "HOL-Library.Word"
begin

text \<open>
  The cron expressions of backup schedules (\<^verbatim>\<open>internal/cron/cron.go\<close> and
  \<^verbatim>\<open>describe.go\<close>): the parser of the five fields into 64-bit sets, the search
  for the next fire time, and the wording of an expression. The parser's
  loop over a list element adds its step in 64-bit arithmetic; a
  \<^verbatim>\<open>partial_function\<close> leaves open whether it returns, and that it always does
  is proved.
\<close>

unbundle bit_operations_syntax

section \<open>Schedules and fields\<close>

record Schedule =
  sch_expr :: string
  sch_minute :: "64 word"
  sch_hour :: "64 word"
  sch_dom :: "64 word"
  sch_month :: "64 word"
  sch_dow :: "64 word"
  domStar :: bool
  dowStar :: bool

record fieldSpec =
  fs_name :: string
  fs_min :: int
  fs_max :: int
  fs_names :: "(string, int) gomap option"

definition cron_fields :: "fieldSpec list" where
  "cron_fields =
     [\<lparr>fs_name = ''minute'', fs_min = 0, fs_max = 59, fs_names = None\<rparr>,
      \<lparr>fs_name = ''hour'', fs_min = 0, fs_max = 23, fs_names = None\<rparr>,
      \<lparr>fs_name = ''day of month'', fs_min = 1, fs_max = 31, fs_names = None\<rparr>,
      \<lparr>fs_name = ''month'', fs_min = 1, fs_max = 12, fs_names = Some
         [(''jan'', 1), (''feb'', 2), (''mar'', 3), (''apr'', 4), (''may'', 5), (''jun'', 6),
          (''jul'', 7), (''aug'', 8), (''sep'', 9), (''oct'', 10), (''nov'', 11), (''dec'', 12)]\<rparr>,
      \<lparr>fs_name = ''day of week'', fs_min = 0, fs_max = 7, fs_names = Some
         [(''sun'', 0), (''mon'', 1), (''tue'', 2), (''wed'', 3), (''thu'', 4), (''fri'', 5), (''sat'', 6)]\<rparr>]"

definition searchHorizon :: duration where
  "searchHorizon = 5 * 366 * 24 * hour_d"

datatype item_error =
    FieldEmpty
  | EmptyElement
  | BadStep string
  | RunsBackwards string
  | NotNumber string
  | NotNumberOrName string
  | ValueOutOfRange int int int

datatype cron_error =
    FieldCount nat
  | FieldError nat string item_error
  | NeverFires string string

section \<open>Parsing a field\<close>

text \<open>\<^verbatim>\<open>1 << uint(v)\<close> on a uint64: a shift by 64 or more gives 0, and a negative
  value reads as a shift count of at least $2^{63}$.\<close>

definition bit_of :: "int \<Rightarrow> 64 word" where
  "bit_of v = (if 0 \<le> v \<and> v < 64 then push_bit (nat v) 1 else 0)"

definition parseValue :: "fieldSpec \<Rightarrow> string \<Rightarrow> item_error + int" where
  "parseValue spec text =
     (case (case fs_names spec of None \<Rightarrow> None | Some names \<Rightarrow> mget names (to_lower text)) of
        Some v \<Rightarrow> Inr v
      | None \<Rightarrow>
          (case atoi text of
             None \<Rightarrow> Inl (if fs_names spec \<noteq> None then NotNumberOrName text else NotNumber text)
           | Some v \<Rightarrow>
               if v < fs_min spec \<or> v > fs_max spec
               then Inl (ValueOutOfRange v (fs_min spec) (fs_max spec))
               else Inr v))"

text \<open>The loop \<^verbatim>\<open>for v := low; v <= high; v += step\<close>, whose addition wraps.\<close>

partial_function (option) item_bits :: "int \<Rightarrow> int \<Rightarrow> int \<Rightarrow> 64 word \<Rightarrow> 64 word option" where
  "item_bits step high v bits =
     (if v \<le> high then item_bits step high (wrap64 (v + step)) (bits OR bit_of v) else Some bits)"

declare item_bits.simps [code]

text \<open>The step after the slash, and the range before it: low and high.\<close>

definition item_step :: "string \<Rightarrow> bool \<Rightarrow> item_error + int" where
  "item_step stepPart hasStep =
     (if hasStep
      then (case atoi stepPart of
              None \<Rightarrow> Inl (BadStep stepPart)
            | Some n \<Rightarrow> if n < 1 then Inl (BadStep stepPart) else Inr n)
      else Inr 1)"

definition item_range :: "fieldSpec \<Rightarrow> string \<Rightarrow> bool \<Rightarrow> item_error + (int \<times> int)" where
  "item_range spec rangePart hasStep =
     (if rangePart = ''*'' then Inr (fs_min spec, fs_max spec)
      else if CHR ''-'' \<in> set rangePart then
        (case cut_at (CHR ''-'') rangePart of (lowText, highText, _) \<Rightarrow>
         case parseValue spec lowText of
           Inl e \<Rightarrow> Inl e
         | Inr low \<Rightarrow>
             (case parseValue spec highText of
                Inl e \<Rightarrow> Inl e
              | Inr high \<Rightarrow>
                  if low > high then Inl (RunsBackwards rangePart) else Inr (low, high)))
      else
        (case parseValue spec rangePart of
           Inl e \<Rightarrow> Inl e
         | Inr low \<Rightarrow> Inr (low, if hasStep then fs_max spec else low)))"

definition parseItem :: "fieldSpec \<Rightarrow> string \<Rightarrow> (item_error + 64 word) option" where
  "parseItem spec item =
     (if item = [] then Some (Inl EmptyElement) else
      case cut_at (CHR ''/'') item of (rangePart, stepPart, hasStep) \<Rightarrow>
      case item_step stepPart hasStep of
        Inl e \<Rightarrow> Some (Inl e)
      | Inr step \<Rightarrow>
          (case item_range spec rangePart hasStep of
             Inl e \<Rightarrow> Some (Inl e)
           | Inr (low, high) \<Rightarrow> map_option Inr (item_bits step high low 0)))"

fun parse_items :: "fieldSpec \<Rightarrow> 64 word \<Rightarrow> string list \<Rightarrow> (item_error + 64 word) option" where
  "parse_items spec bits [] = Some (Inr bits)"
| "parse_items spec bits (item # items) =
     (case parseItem spec item of
        None \<Rightarrow> None
      | Some (Inl e) \<Rightarrow> Some (Inl e)
      | Some (Inr itemBits) \<Rightarrow> parse_items spec (bits OR itemBits) items)"

definition parseField :: "fieldSpec \<Rightarrow> string \<Rightarrow> (item_error + 64 word) option" where
  "parseField spec field =
     (if field = [] then Some (Inl FieldEmpty)
      else parse_items spec 0 (split_at (CHR '','') field))"

section \<open>Fire times\<close>

text \<open>\<^verbatim>\<open>s & (1 << uint(n)) != 0\<close>\<close>

definition has_bit :: "64 word \<Rightarrow> int \<Rightarrow> bool" where
  "has_bit w v \<longleftrightarrow> w AND bit_of v \<noteq> 0"

definition dayMatches :: "Schedule \<Rightarrow> gotime \<Rightarrow> bool" where
  "dayMatches s t =
     (let domHit = has_bit (sch_dom s) (Day t); dowHit = has_bit (sch_dow s) (Weekday t)
      in if domStar s \<and> dowStar s then True
         else if domStar s then dowHit
         else if dowStar s then domHit
         else domHit \<or> dowHit)"

lemma next_month_gt: "t < next_month t"
  using instant_in_month by blast

lemma next_day_gt: "t < next_day t"
  using div_floor [OF day_pos, of t] by (simp add: next_day_eq day_number_def)

lemma next_hour_gt: "t < next_hour t"
  using div_floor [OF hour_pos, of t] by (simp add: next_hour_eq)

lemma next_minute_gt: "t < t + minute_d"
  by (simp add: minute_pos)

function Next_loop :: "Schedule \<Rightarrow> gotime \<Rightarrow> gotime \<Rightarrow> gotime" where
  "Next_loop s limit t =
     (if t < limit then
        (if \<not> has_bit (sch_month s) (Month t)
         then Next_loop s limit (go_date (Year t) (Month t + 1) 1 0 0)
         else if \<not> dayMatches s t
         then Next_loop s limit (go_date (Year t) (Month t) (Day t + 1) 0 0)
         else if \<not> has_bit (sch_hour s) (Hour t)
         then Next_loop s limit (go_date (Year t) (Month t) (Day t) (Hour t + 1) 0)
         else if \<not> has_bit (sch_minute s) (Minute t)
         then Next_loop s limit (t + minute_d)
         else t)
      else 0)"
  by pat_completeness auto
termination
  using next_month_gt next_day_gt next_hour_gt next_minute_gt
  by (relation "measure (\<lambda>(s, limit, t). nat (limit - t))")
    (simp_all add: next_month_def next_day_def next_hour_def)

declare Next_loop.simps [simp del]

definition Next :: "Schedule \<Rightarrow> gotime \<Rightarrow> gotime" where
  "Next s after = (let t = truncate_m after + minute_d in Next_loop s (t + searchHorizon) t)"

section \<open>Parsing an expression\<close>

text \<open>The loop over the five parts; the first bad field ends it.\<close>

fun parse_parts :: "nat \<Rightarrow> fieldSpec list \<Rightarrow> string list \<Rightarrow> (cron_error + 64 word list) option" where
  "parse_parts i (spec # specs) (part # parts) =
     (case parseField spec part of
        None \<Rightarrow> None
      | Some (Inl e) \<Rightarrow> Some (Inl (FieldError (i + 1) (fs_name spec) e))
      | Some (Inr bits) \<Rightarrow>
          (case parse_parts (i + 1) specs parts of
             Some (Inr values) \<Rightarrow> Some (Inr (bits # values))
           | r \<Rightarrow> r))"
| "parse_parts i specs parts = Some (Inr [])"

definition fold_sunday :: "64 word \<Rightarrow> 64 word" where
  "fold_sunday dow =
     (if dow AND push_bit 7 1 \<noteq> 0 then (dow AND NOT (push_bit 7 1)) OR 1 else dow)"

definition Parse :: "string \<Rightarrow> (cron_error + Schedule) option" where
  "Parse expr =
     (let parts = Go_Strings.fields expr in
      if length parts \<noteq> 5 then Some (Inl (FieldCount (length parts)))
      else case parse_parts 0 cron_fields parts of
        None \<Rightarrow> None
      | Some (Inl e) \<Rightarrow> Some (Inl e)
      | Some (Inr values) \<Rightarrow>
          let s = \<lparr>sch_expr = join_with '' '' parts, sch_minute = values ! 0, sch_hour = values ! 1,
                   sch_dom = values ! 2, sch_month = values ! 3, sch_dow = fold_sunday (values ! 4),
                   domStar = (parts ! 2 = ''*''), dowStar = (parts ! 4 = ''*'')\<rparr>
          in if Next s (go_date 2000 1 1 0 0) = 0
             then Some (Inl (NeverFires (parts ! 2) (parts ! 3)))
             else Some (Inr s))"

section \<open>Wording an expression\<close>

text \<open>\<^verbatim>\<open>fmt.Sprintf("%02d", n)\<close> for a number that is not negative.\<close>

definition pad2 :: "int \<Rightarrow> string" where
  "pad2 n = (if n < 10 then CHR ''0'' # format_int n else format_int n)"

definition ordinal :: "int \<Rightarrow> string" where
  "ordinal n =
     (if 11 \<le> n mod 100 \<and> n mod 100 \<le> 13 then format_int n @ ''th''
      else if n mod 10 = 1 then format_int n @ ''st''
      else if n mod 10 = 2 then format_int n @ ''nd''
      else if n mod 10 = 3 then format_int n @ ''rd''
      else format_int n @ ''th'')"

definition dayNames :: "string list" where
  "dayNames = [''Sunday'', ''Monday'', ''Tuesday'', ''Wednesday'', ''Thursday'', ''Friday'', ''Saturday'']"

text \<open>The closures \<^verbatim>\<open>number\<close>, \<^verbatim>\<open>every\<close> and \<^verbatim>\<open>clock\<close> of \<^verbatim>\<open>Describe\<close>.\<close>

definition desc_number :: "string \<Rightarrow> int option" where
  "desc_number field = (case atoi field of Some n \<Rightarrow> if n \<ge> 0 then Some n else None | None \<Rightarrow> None)"

definition desc_every :: "string \<Rightarrow> int option" where
  "desc_every field =
     (if \<not> has_prefix ''*/'' field then None
      else case atoi (drop 2 field) of Some n \<Rightarrow> if n > 0 then Some n else None | None \<Rightarrow> None)"

definition desc_clock :: "int \<Rightarrow> int \<Rightarrow> string" where
  "desc_clock h m = pad2 h @ '':'' @ pad2 m"

definition describe_fields :: "string \<Rightarrow> string \<Rightarrow> string \<Rightarrow> string \<Rightarrow> string \<Rightarrow> string \<Rightarrow> string" where
  "describe_fields expr minute hour day month weekday =
     (if month \<noteq> ''*'' then expr
      else if day = ''*'' \<and> weekday = ''*'' then
        (if minute = ''*'' \<and> hour = ''*'' then ''every minute''
         else if desc_every minute \<noteq> None \<and> hour = ''*'' then
           (if the (desc_every minute) = 1 then ''every minute''
            else ''every '' @ format_int (the (desc_every minute)) @ '' minutes'')
         else if desc_every hour \<noteq> None \<and> desc_number minute \<noteq> None then
           (if the (desc_every hour) = 1 then ''hourly''
            else ''every '' @ format_int (the (desc_every hour)) @ '' hours'')
         else if desc_number minute \<noteq> None \<and> hour = ''*'' then
           ''hourly at :'' @ pad2 (the (desc_number minute))
         else if desc_number minute \<noteq> None \<and> desc_number hour \<noteq> None then
           ''daily at '' @ desc_clock (the (desc_number hour)) (the (desc_number minute))
         else expr)
      else if day = ''*'' \<and> desc_number minute \<noteq> None \<and> desc_number hour \<noteq> None then
        (case desc_number weekday of
           Some d \<Rightarrow>
             if d \<le> 7 then
               ''weekly on '' @ dayNames ! nat (d mod 7) @ '' at ''
                 @ desc_clock (the (desc_number hour)) (the (desc_number minute))
             else expr
         | None \<Rightarrow> expr)
      else if weekday = ''*'' \<and> desc_number minute \<noteq> None \<and> desc_number hour \<noteq> None then
        (case desc_number day of
           Some d \<Rightarrow>
             if 1 \<le> d \<and> d \<le> 31 then
               ''monthly on the '' @ ordinal d @ '' at ''
                 @ desc_clock (the (desc_number hour)) (the (desc_number minute))
             else expr
         | None \<Rightarrow> expr)
      else expr)"

definition Describe :: "string \<Rightarrow> string" where
  "Describe expr =
     (case Go_Strings.fields expr of
        [minute, hour, day, month, weekday] \<Rightarrow> describe_fields expr minute hour day month weekday
      | _ \<Rightarrow> expr)"

section \<open>Bit sets\<close>

lemma has_bit_iff: "has_bit w v \<longleftrightarrow> 0 \<le> v \<and> v < 64 \<and> bit w (nat v)"
proof (cases "0 \<le> v \<and> v < 64")
  case True
  then show ?thesis
    by (simp only: has_bit_def bit_of_def bit_iff_and_push_bit_not_eq_0 if_True simp_thms)
next
  case False
  then show ?thesis by (auto simp: has_bit_def bit_of_def)
qed

lemma has_bit_zero [simp]: "\<not> has_bit 0 v"
  by (simp add: has_bit_def)

lemma has_bit_or [simp]: "has_bit (a OR b) v \<longleftrightarrow> has_bit a v \<or> has_bit b v"
  by (auto simp: has_bit_iff bit_or_iff)

lemma has_bit_bit_of [simp]: "has_bit (bit_of u) v \<longleftrightarrow> u = v \<and> 0 \<le> v \<and> v < 64"
  by (auto simp: has_bit_iff bit_of_def bit_exp_iff)

lemma has_bit_fold_sunday:
  "has_bit (fold_sunday w) v \<longleftrightarrow>
     (if v = 0 then has_bit w 0 \<or> has_bit w 7 else v \<noteq> 7 \<and> has_bit w v)"
proof -
  have c: "w AND push_bit 7 1 \<noteq> 0 \<longleftrightarrow> bit w 7"
    by (simp only: bit_iff_and_push_bit_not_eq_0)
  have b: "bit ((w AND NOT (push_bit 7 1)) OR 1) n \<longleftrightarrow> bit w n \<and> n \<noteq> 7 \<or> n = 0" for n
    by (auto simp only: bit_or_iff bit_and_iff bit_not_iff bit_push_bit_iff bit_1_iff
        dest: bit_imp_possible_bit)
  have f: "bit (fold_sunday w) n \<longleftrightarrow> (if n = 0 then bit w 0 \<or> bit w 7 else n \<noteq> 7 \<and> bit w n)" for n
    by (cases "bit w 7") (auto simp only: fold_sunday_def c if_True if_False b simp_thms split: if_split)
  show ?thesis
    by (auto simp: has_bit_iff f nat_eq_iff split: if_splits)
qed

section \<open>The element loop\<close>

lemma item_bits_stop: "high < v \<Longrightarrow> item_bits step high v bits = Some bits"
  by (subst item_bits.simps) simp

lemma item_bits_step:
  "v \<le> high \<Longrightarrow> item_bits step high v bits = item_bits step high (wrap64 (v + step)) (bits OR bit_of v)"
  by (subst item_bits.simps) simp

text \<open>Without overflow the loop sets exactly the multiples of the step.\<close>

lemma item_bits_plain:
  assumes "0 < step" "step \<le> int64_max - 64" "high < 64" "0 \<le> v" "v \<le> high + step"
  shows "\<exists>w. item_bits step high v bits = Some w \<and>
     (\<forall>x. has_bit w x \<longleftrightarrow> has_bit bits x \<or> v \<le> x \<and> x \<le> high \<and> (x - v) mod step = 0)"
  using assms(4,5)
proof (induction "nat (high + 1 - v)" arbitrary: v bits rule: less_induct)
  case less
  show ?case
  proof (cases "v \<le> high")
    case False
    then show ?thesis
      using item_bits_stop [of high v step bits] by auto
  next
    case True
    have w: "wrap64 (v + step) = v + step"
      using True assms(1-3) less.prems
      by (intro wrap64_id) (simp add: is_int64_def int64_min_def int64_max_def)
    obtain w' where w': "item_bits step high (v + step) (bits OR bit_of v) = Some w'"
      and b: "\<And>x. has_bit w' x \<longleftrightarrow> has_bit (bits OR bit_of v) x \<or>
        v + step \<le> x \<and> x \<le> high \<and> (x - (v + step)) mod step = 0"
      using less.hyps [of "v + step" "bits OR bit_of v"] True assms(1) less.prems by auto
    have eq: "v \<le> x \<and> x \<le> high \<and> (x - v) mod step = 0 \<longleftrightarrow>
        v = x \<or> v + step \<le> x \<and> x \<le> high \<and> (x - (v + step)) mod step = 0" for x
    proof -
      have "(x - (v + step)) mod step = (x - v) mod step"
        by (metis diff_diff_eq minus_mod_self2)
      moreover have "v + step \<le> x" if "v < x" "(x - v) mod step = 0"
        using that mod_pos_pos_trivial [of "x - v" step] by (cases "x - v < step") auto
      ultimately show ?thesis
        using True assms(1) by (cases "x = v") auto
    qed
    show ?thesis
    proof (intro exI conjI allI)
      show "item_bits step high v bits = Some w'"
        using True w w' by (simp add: item_bits_step)
      show "has_bit w' x \<longleftrightarrow> has_bit bits x \<or> v \<le> x \<and> x \<le> high \<and> (x - v) mod step = 0" for x
        unfolding b has_bit_or has_bit_bit_of eq using True less.prems assms(3) by auto
    qed
  qed
qed

text \<open>With a step close to the largest int the sum wraps, twice, and the loop goes down.\<close>

lemma item_bits_wraps:
  assumes "int64_max - 64 < step" "step \<le> int64_max" "high < 64" "0 \<le> v"
  shows "\<exists>w. item_bits step high v bits = Some w"
  using assms(4)
proof (induction "nat v" arbitrary: v bits rule: less_induct)
  case less
  consider "high < v" | "v \<le> high" "v + step \<le> int64_max" | "v \<le> high" "int64_max < v + step"
    by linarith
  then show ?case
  proof cases
    case 1
    then show ?thesis by (simp add: item_bits_stop)
  next
    case 2
    then have "wrap64 (v + step) = v + step"
      using assms less.prems by (intro wrap64_id) (simp add: is_int64_def int64_min_def int64_max_def)
    moreover have "high < v + step"
      using assms less.prems by (simp add: int64_max_def)
    ultimately show ?thesis using 2 by (simp add: item_bits_step item_bits_stop)
  next
    case 3
    have w1: "wrap64 (v + step) = v + step - 18446744073709551616"
      unfolding wrap64_def using 3 assms
      by (subst int_mod_pos_eq [where q = 1 and r = "v + step - 9223372036854775808"])
        (simp_all add: int64_max_def)
    have w2: "wrap64 (v + step - 18446744073709551616 + step) = v + 2 * step - 18446744073709551616"
      using 3 assms by (subst wrap64_id) (simp_all add: is_int64_def int64_min_def int64_max_def)
    have h: "v + step - 18446744073709551616 \<le> high"
      using 3 assms less.prems by (simp add: int64_max_def)
    let ?u = "v + 2 * step - 18446744073709551616"
    have eq: "item_bits step high v bits =
        item_bits step high ?u ((bits OR bit_of v) OR bit_of (v + step - 18446744073709551616))"
      by (simp only: item_bits_step [OF 3(1)] w1 item_bits_step [OF h] w2)
    show ?thesis
    proof (cases "0 \<le> ?u")
      case True
      then show ?thesis unfolding eq using assms less.prems
        by (intro less.hyps) (simp_all add: int64_max_def nat_less_eq_zless)
    next
      case False
      have "wrap64 (?u + step) = ?u + step"
        using 3 assms False by (subst wrap64_id) (simp_all add: is_int64_def int64_min_def int64_max_def)
      moreover have "high < ?u + step" using 3 assms by (simp add: int64_max_def)
      moreover have "?u \<le> high" using False less.prems 3 by linarith
      ultimately show ?thesis unfolding eq by (simp add: item_bits_step item_bits_stop)
    qed
  qed
qed


section \<open>What a list element means\<close>

text \<open>
  The grammar of an element and the values it stands for: a star, a value, a
  range, each with an optional step; a value with a step runs to the top of
  the field.
\<close>

definition stepped :: "int \<Rightarrow> int \<Rightarrow> int \<Rightarrow> int set" where
  "stepped low high step = {v. low \<le> v \<and> v \<le> high \<and> (v - low) mod step = 0}"

inductive range_means :: "fieldSpec \<Rightarrow> string \<Rightarrow> bool \<Rightarrow> int \<Rightarrow> int \<Rightarrow> bool" for spec where
  star: "range_means spec ''*'' st (fs_min spec) (fs_max spec)"
| interval: "CHR ''-'' \<notin> set a \<Longrightarrow> parseValue spec a = Inr low \<Longrightarrow> parseValue spec b = Inr high \<Longrightarrow>
    low \<le> high \<Longrightarrow> range_means spec (a @ CHR ''-'' # b) st low high"
| single: "CHR ''-'' \<notin> set a \<Longrightarrow> a \<noteq> ''*'' \<Longrightarrow> parseValue spec a = Inr v \<Longrightarrow>
    range_means spec a st v (if st then fs_max spec else v)"

inductive item_means :: "fieldSpec \<Rightarrow> string \<Rightarrow> int \<Rightarrow> int set \<Rightarrow> bool" for spec where
  plain: "CHR ''/'' \<notin> set r \<Longrightarrow> r \<noteq> [] \<Longrightarrow> range_means spec r False low high \<Longrightarrow>
    item_means spec r 1 (stepped low high 1)"
| step: "CHR ''/'' \<notin> set r \<Longrightarrow> range_means spec r True low high \<Longrightarrow> atoi n = Some k \<Longrightarrow> 1 \<le> k \<Longrightarrow>
    item_means spec (r @ CHR ''/'' # n) k (stepped low high k)"

inductive_cases range_meansE: "range_means spec r st low high"

lemma item_range_iff: "item_range spec r st = Inr (low, high) \<longleftrightarrow> range_means spec r st low high"
proof
  assume r: "item_range spec r st = Inr (low, high)"
  consider "r = ''*''" | "r \<noteq> ''*''" "CHR ''-'' \<in> set r" | "CHR ''-'' \<notin> set r" "r \<noteq> ''*''" by blast
  then show "range_means spec r st low high"
  proof cases
    case 1
    then show ?thesis using r range_means.star [of spec st] by (auto simp: item_range_def)
  next
    case 2
    then obtain a b where ab: "r = a @ CHR ''-'' # b" "CHR ''-'' \<notin> set a"
      by (meson split_list_first)
    show ?thesis
      using r 2 range_means.interval [OF ab(2), of spec low b high st]
      unfolding ab(1) by (simp add: item_range_def cut_at_append [OF ab(2)] split: sum.splits if_splits)
  next
    case 3
    then show ?thesis
      using r range_means.single [of r spec low st]
      by (simp add: item_range_def split: sum.splits if_splits)
  qed
next
  assume "range_means spec r st low high"
  then show "item_range spec r st = Inr (low, high)"
  proof cases
    case star
    then show ?thesis by (simp add: item_range_def)
  next
    case (interval a b)
    then have "r \<noteq> ''*''" by (cases a) auto
    then show ?thesis using interval by (simp add: item_range_def cut_at_append)
  next
    case single
    then show ?thesis by (simp add: item_range_def)
  qed
qed

lemma item_step_iff:
  "item_step n st = Inr k \<longleftrightarrow> (if st then atoi n = Some k \<and> 1 \<le> k else k = 1)"
  by (auto simp: item_step_def split: option.splits)

text \<open>The two readings of an element agree.\<close>

lemma item_means_iff:
  "item_means spec item k V \<longleftrightarrow>
     (\<exists>r n st low high. cut_at (CHR ''/'') item = (r, n, st) \<and> item \<noteq> [] \<and> item_step n st = Inr k \<and>
        item_range spec r st = Inr (low, high) \<and> V = stepped low high k)"
proof
  assume "item_means spec item k V"
  then show "\<exists>r n st low high. cut_at (CHR ''/'') item = (r, n, st) \<and> item \<noteq> [] \<and>
      item_step n st = Inr k \<and> item_range spec r st = Inr (low, high) \<and> V = stepped low high k"
  proof cases
    case (plain low high)
    then show ?thesis
      by (intro exI [of _ item] exI [of _ "[]"] exI [of _ False] exI [of _ low] exI [of _ high])
        (simp add: cut_at_absent item_step_iff item_range_iff)
  next
    case (step r low high n)
    then show ?thesis
      by (intro exI [of _ r] exI [of _ n] exI [of _ True] exI [of _ low] exI [of _ high])
        (simp add: cut_at_append item_step_iff item_range_iff)
  qed
next
  assume "\<exists>r n st low high. cut_at (CHR ''/'') item = (r, n, st) \<and> item \<noteq> [] \<and>
      item_step n st = Inr k \<and> item_range spec r st = Inr (low, high) \<and> V = stepped low high k"
  then obtain r n st low high where c: "cut_at (CHR ''/'') item = (r, n, st)" "item \<noteq> []"
    "item_step n st = Inr k" "range_means spec r st low high" "V = stepped low high k"
    by (auto simp: item_range_iff)
  show "item_means spec item k V"
  proof (cases st)
    case True
    then show ?thesis
      using cut_at_found [of "CHR ''/''" item r n] c item_means.step [of r spec low high n k]
      by (simp add: item_step_iff)
  next
    case False
    then show ?thesis
      using cut_at_missing [of "CHR ''/''" item r n] c item_means.plain [of r spec low high]
      by (simp add: item_step_iff)
  qed
qed

lemma item_means_unique:
  assumes "item_means spec item k V" "item_means spec item k' V'"
  shows "k = k' \<and> V = V'"
proof -
  obtain r n st low high where c: "cut_at (CHR ''/'') item = (r, n, st)" "item_step n st = Inr k"
    "item_range spec r st = Inr (low, high)" "V = stepped low high k"
    using assms(1) unfolding item_means_iff by blast
  obtain r' n' st' low' high' where c': "cut_at (CHR ''/'') item = (r', n', st')" "item_step n' st' = Inr k'"
    "item_range spec r' st' = Inr (low', high')" "V' = stepped low' high' k'"
    using assms(2) unfolding item_means_iff by blast
  show ?thesis using c c' by simp
qed

section \<open>Values stay within the field\<close>

definition spec_ok :: "fieldSpec \<Rightarrow> bool" where
  "spec_ok spec \<longleftrightarrow> 0 \<le> fs_min spec \<and> fs_min spec \<le> fs_max spec \<and> fs_max spec < 64 \<and>
     (\<forall>names. fs_names spec = Some names \<longrightarrow> (\<forall>(k, v) \<in> set names. fs_min spec \<le> v \<and> v \<le> fs_max spec))"

lemma cron_fields_ok: "list_all spec_ok cron_fields"
  by (simp add: cron_fields_def spec_ok_def)

lemma parseValue_range:
  assumes "spec_ok spec" "parseValue spec text = Inr v"
  shows "fs_min spec \<le> v \<and> v \<le> fs_max spec"
  using assms by (auto simp: parseValue_def spec_ok_def dest!: map_of_SomeD
      split: option.splits if_splits)

lemma item_range_bounds:
  assumes "spec_ok spec" "item_range spec r st = Inr (low, high)"
  shows "fs_min spec \<le> low" "high \<le> fs_max spec" "low \<le> high"
proof -
  have "range_means spec r st low high" using assms(2) by (simp add: item_range_iff)
  then have "fs_min spec \<le> low \<and> high \<le> fs_max spec \<and> low \<le> high"
    using assms(1) parseValue_range [OF assms(1)] by cases (auto simp: spec_ok_def)
  then show "fs_min spec \<le> low" "high \<le> fs_max spec" "low \<le> high" by simp_all
qed

lemma item_step_bounds: "item_step n st = Inr k \<Longrightarrow> 1 \<le> k \<and> k \<le> int64_max"
  by (auto simp: item_step_iff atoi_def Let_def is_int64_def int64_max_def split: if_splits)

lemma parseItem_cases:
  assumes "spec_ok spec"
  obtains e where "parseItem spec item = Some (Inl e)" "\<And>k V. \<not> item_means spec item k V"
  | k low high where "parseItem spec item = map_option Inr (item_bits k high low 0)"
      "item_means spec item k (stepped low high k)" "0 \<le> low" "low \<le> high" "high < 64"
      "1 \<le> k" "k \<le> int64_max"
proof -
  obtain r n st where c: "cut_at (CHR ''/'') item = (r, n, st)" by (cases "cut_at (CHR ''/'') item")
  show thesis
  proof (cases "item = [] \<or> (\<exists>e. item_step n st = Inl e) \<or> (\<exists>e. item_range spec r st = Inl e)")
    case True
    then show thesis
      by (intro that(1) [of "case item_step n st of Inl e \<Rightarrow> if item = [] then EmptyElement else e
            | Inr _ \<Rightarrow> if item = [] then EmptyElement else projl (item_range spec r st)"])
        (auto simp: parseItem_def c item_means_iff split: sum.splits)
  next
    case False
    then obtain k low high where k: "item_step n st = Inr k" "item_range spec r st = Inr (low, high)"
      and ne: "item \<noteq> []"
      by (metis surj_pair sum.exhaust)
    show thesis
    proof (rule that(2))
      show "parseItem spec item = map_option Inr (item_bits k high low 0)"
        using k ne by (simp add: parseItem_def c)
      show "item_means spec item k (stepped low high k)"
        using k ne c by (auto simp: item_means_iff)
    qed (use item_range_bounds [OF assms k(2)] item_step_bounds [OF k(1)] assms in
        \<open>auto simp: spec_ok_def\<close>)
  qed
qed

lemma parseItem_returns:
  assumes "spec_ok spec"
  shows "\<exists>r. parseItem spec item = Some r"
proof (cases item rule: parseItem_cases [OF assms])
  case (2 k low high)
  have "\<exists>w. item_bits k high low 0 = Some w"
    using item_bits_plain [of k high low 0] item_bits_wraps [of k high low 0] 2
    by (cases "k \<le> int64_max - 64") auto
  then show ?thesis using 2 by auto
qed auto

text \<open>An element parses exactly when the grammar gives it a meaning, and to that meaning.\<close>

lemma parseItem_denotes:
  assumes "spec_ok spec" "\<And>k V. item_means spec item k V \<Longrightarrow> k \<le> int64_max - 64"
  shows "(\<exists>w. parseItem spec item = Some (Inr w) \<and> V = {v. has_bit w v}) \<longleftrightarrow>
         (\<exists>k. item_means spec item k V)"
proof (cases item rule: parseItem_cases [OF assms(1)])
  case 1
  then show ?thesis by simp
next
  case (2 k low high)
  have "low \<le> high + k" "0 < k" using 2(4,6) by linarith+
  then obtain w where w: "item_bits k high low 0 = Some w"
    and b: "\<And>x. has_bit w x \<longleftrightarrow> low \<le> x \<and> x \<le> high \<and> (x - low) mod k = 0"
    using item_bits_plain [of k high low 0] 2(3,5) assms(2) [OF 2(2)] by auto
  have w': "{v. has_bit w v} = stepped low high k"
    by (simp add: b stepped_def)
  have "(\<exists>k'. item_means spec item k' V) \<longleftrightarrow> V = stepped low high k"
    using 2(2) item_means_unique by blast
  then show ?thesis unfolding 2(1) w by (simp add: w' [symmetric])
qed

section \<open>Fields and expressions\<close>

text \<open>A step so large that adding it can overflow.\<close>

definition plain_steps :: "fieldSpec \<Rightarrow> string \<Rightarrow> bool" where
  "plain_steps spec field \<longleftrightarrow>
     (\<forall>item \<in> set (split_at (CHR '','') field). \<forall>k V. item_means spec item k V \<longrightarrow> k \<le> int64_max - 64)"

text \<open>A field stands for the union of its elements.\<close>

definition items_mean :: "fieldSpec \<Rightarrow> string list \<Rightarrow> int set \<Rightarrow> bool" where
  "items_mean spec items V \<longleftrightarrow>
     (\<exists>Vs. list_all2 (\<lambda>item W. \<exists>k. item_means spec item k W) items Vs \<and> V = \<Union> (set Vs))"

definition field_means :: "fieldSpec \<Rightarrow> string \<Rightarrow> int set \<Rightarrow> bool" where
  "field_means spec field V \<longleftrightarrow> field \<noteq> [] \<and> items_mean spec (split_at (CHR '','') field) V"

lemma items_mean_Nil [simp]: "items_mean spec [] V \<longleftrightarrow> V = {}"
  by (simp add: items_mean_def)

lemma items_mean_Cons:
  "items_mean spec (item # items) V \<longleftrightarrow>
     (\<exists>k W V'. item_means spec item k W \<and> items_mean spec items V' \<and> V = W \<union> V')"
proof
  assume "items_mean spec (item # items) V"
  then obtain W Vs k where "item_means spec item k W"
    "list_all2 (\<lambda>item W. \<exists>k. item_means spec item k W) items Vs" "V = W \<union> \<Union> (set Vs)"
    by (auto simp: items_mean_def list_all2_Cons1)
  then show "\<exists>k W V'. item_means spec item k W \<and> items_mean spec items V' \<and> V = W \<union> V'"
    unfolding items_mean_def by blast
next
  assume "\<exists>k W V'. item_means spec item k W \<and> items_mean spec items V' \<and> V = W \<union> V'"
  then obtain W Vs k where "item_means spec item k W"
    "list_all2 (\<lambda>item W. \<exists>k. item_means spec item k W) items Vs" "V = W \<union> \<Union> (set Vs)"
    by (auto simp: items_mean_def)
  then show "items_mean spec (item # items) V"
    unfolding items_mean_def by (intro exI [of _ "W # Vs"]) auto
qed

lemma parse_items_returns: "spec_ok spec \<Longrightarrow> \<exists>r. parse_items spec bits items = Some r"
proof (induction items arbitrary: bits)
  case (Cons item items)
  then show ?case
    using parseItem_returns [OF Cons.prems, of item] by (auto split: sum.splits)
qed simp

lemma parse_items_denotes:
  assumes "spec_ok spec" "\<forall>item \<in> set items. \<forall>k V. item_means spec item k V \<longrightarrow> k \<le> int64_max - 64"
  shows "(\<exists>w. parse_items spec bits items = Some (Inr w) \<and> V = {v. has_bit w v}) \<longleftrightarrow>
         (\<exists>V'. items_mean spec items V' \<and> V = {v. has_bit bits v} \<union> V')"
  using assms(2)
proof (induction items arbitrary: bits)
  case Nil
  then show ?case by auto
next
  case (Cons item items)
  have d: "(\<exists>w. parseItem spec item = Some (Inr w) \<and> W = {v. has_bit w v}) \<longleftrightarrow>
      (\<exists>k. item_means spec item k W)" for W
    by (rule parseItem_denotes [OF assms(1)]) (use Cons.prems in auto)
  have "(\<exists>w. parse_items spec bits (item # items) = Some (Inr w) \<and> V = {v. has_bit w v}) \<longleftrightarrow>
      (\<exists>u. parseItem spec item = Some (Inr u) \<and>
         (\<exists>w. parse_items spec (bits OR u) items = Some (Inr w) \<and> V = {v. has_bit w v}))"
    by (auto split: option.splits sum.splits)
  also have "\<dots> \<longleftrightarrow> (\<exists>u. parseItem spec item = Some (Inr u) \<and>
      (\<exists>V'. items_mean spec items V' \<and> V = {v. has_bit (bits OR u) v} \<union> V'))"
    using Cons.prems by (intro ex_cong1 conj_cong refl Cons.IH) auto
  also have "\<dots> \<longleftrightarrow> (\<exists>W. (\<exists>u. parseItem spec item = Some (Inr u) \<and> W = {v. has_bit u v}) \<and>
      (\<exists>V'. items_mean spec items V' \<and> V = {v. has_bit bits v} \<union> W \<union> V'))"
    by (auto simp: Collect_disj_eq)
  also have "\<dots> \<longleftrightarrow> (\<exists>V'. items_mean spec (item # items) V' \<and> V = {v. has_bit bits v} \<union> V')"
    unfolding d items_mean_Cons by (auto simp: Un_assoc)
  finally show ?case .
qed

lemma parseField_returns: "spec_ok spec \<Longrightarrow> \<exists>r. parseField spec field = Some r"
  by (simp add: parseField_def parse_items_returns)

lemma parseField_denotes:
  assumes "spec_ok spec" "plain_steps spec field"
  shows "(\<exists>w. parseField spec field = Some (Inr w) \<and> V = {v. has_bit w v}) \<longleftrightarrow> field_means spec field V"
  using parse_items_denotes [OF assms(1), of "split_at (CHR '','') field" 0 V] assms(2)
  by (simp add: parseField_def field_means_def plain_steps_def)

lemma length5E:
  assumes "length xs = 5"
  obtains a b c d e where "xs = [a, b, c, d, e]"
  using assms by (auto simp: numeral_eq_Suc length_Suc_conv)

lemma parse_parts_returns:
  "list_all spec_ok specs \<Longrightarrow> \<exists>r. parse_parts i specs parts = Some r"
proof (induction i specs parts rule: parse_parts.induct)
  case (1 i spec specs part parts)
  then show ?case
    using parseField_returns [of spec part] by (fastforce split: sum.splits)
qed simp_all

lemma parse_parts_iff:
  "length specs = length parts \<Longrightarrow>
   parse_parts i specs parts = Some (Inr ws) \<longleftrightarrow>
   list_all2 (\<lambda>(spec, part) w. parseField spec part = Some (Inr w)) (zip specs parts) ws"
proof (induction i specs parts arbitrary: ws rule: parse_parts.induct)
  case (1 i spec specs part parts)
  then show ?case
    by (cases ws) (auto split: option.splits sum.splits simp: list_all2_Cons2)
qed (auto)

section \<open>The search for the next fire time\<close>

text \<open>The minutes a schedule fires at.\<close>

definition fires :: "Schedule \<Rightarrow> gotime \<Rightarrow> bool" where
  "fires s t \<longleftrightarrow> t mod minute_d = 0 \<and> has_bit (sch_month s) (Month t) \<and> dayMatches s t \<and>
     has_bit (sch_hour s) (Hour t) \<and> has_bit (sch_minute s) (Minute t)"

lemma same_minute_hour:
  assumes "t div hour_d = u div hour_d"
  shows "day_number u = day_number t \<and> Hour u = Hour t"
proof -
  have "v div day_d = v div hour_d div 24" "v mod day_d div hour_d = v div hour_d mod 24" for v
    using zdiv_zmult2_eq [of 24 v hour_d] zmod_zmult2_eq [of 24 v hour_d] hour_pos
    by (simp_all add: day_d_def mult.commute)
  then show ?thesis using assms by (simp add: day_number_def Hour_def)
qed

lemma skip_month:
  "\<not> has_bit (sch_month s) (Month t) \<Longrightarrow> t \<le> u \<Longrightarrow> u < next_month t \<Longrightarrow> \<not> fires s u"
  using same_month [of t u] instant_in_month [of t] by (auto simp: fires_def)

lemma skip_day:
  assumes "\<not> dayMatches s t" "t \<le> u" "u < next_day t"
  shows "\<not> fires s u"
proof -
  have "day_number u = day_number t"
    using div_between [OF day_pos, of "day_number t" u "day_number t + 1"] assms
      div_floor [OF day_pos, of t]
    by (simp add: next_day_eq day_number_def)
  then show ?thesis
    using same_day [of u t] assms(1) by (simp add: fires_def dayMatches_def)
qed

lemma skip_hour:
  assumes "\<not> has_bit (sch_hour s) (Hour t)" "t \<le> u" "u < next_hour t"
  shows "\<not> fires s u"
proof -
  have "u div hour_d = t div hour_d"
    using div_between [OF hour_pos, of "t div hour_d" u "t div hour_d + 1"] assms
      div_floor [OF hour_pos, of t]
    by (simp add: next_hour_eq)
  then show ?thesis
    using same_minute_hour [of t u] assms(1) by (simp add: fires_def)
qed

lemma aligned_between:
  assumes "t mod minute_d = 0" "u mod minute_d = 0" "t \<le> u" "u < t + minute_d"
  shows "u = t"
proof -
  have "t = t div minute_d * minute_d" "u = u div minute_d * minute_d"
    using assms(1,2) by (metis add.right_neutral div_mult_mod_eq)+
  moreover have "t div minute_d \<le> u div minute_d \<and> u div minute_d < t div minute_d + 1"
    by (rule div_between [OF minute_pos]) (use assms calculation in \<open>auto simp: distrib_right\<close>)
  ultimately show ?thesis by (metis add_le_cancel_right order_antisym zless_imp_add1_zle)
qed

lemma aligned_jumps:
  "next_month t mod minute_d = 0" "next_day t mod minute_d = 0" "next_hour t mod minute_d = 0"
  by (simp_all add: next_month_eq next_day_eq next_hour_eq day_d_def hour_d_def mod_eq_0_iff_dvd)

text \<open>The loop finds the first fire time before its limit, or there is none.\<close>

lemma Next_loop_first:
  assumes "t mod minute_d = 0"
  shows "(\<exists>r. Next_loop s limit t = r \<and> t \<le> r \<and> r < limit \<and> fires s r \<and> (\<forall>u. t \<le> u \<and> u < r \<longrightarrow> \<not> fires s u))
    \<or> Next_loop s limit t = 0 \<and> (\<forall>u. t \<le> u \<and> u < limit \<longrightarrow> \<not> fires s u)"
  using assms
proof (induction s limit t rule: Next_loop.induct)
  case (1 s limit t)
  define P where "P = (\<lambda>t'. (\<exists>r. Next_loop s limit t' = r \<and> t' \<le> r \<and> r < limit \<and> fires s r \<and>
      (\<forall>u. t' \<le> u \<and> u < r \<longrightarrow> \<not> fires s u))
    \<or> Next_loop s limit t' = 0 \<and> (\<forall>u. t' \<le> u \<and> u < limit \<longrightarrow> \<not> fires s u))"
  have jump: "P t" if "Next_loop s limit t = Next_loop s limit t'" "P t'" "t < t'"
    "\<And>u. t \<le> u \<Longrightarrow> u < t' \<Longrightarrow> \<not> fires s u" for t'
  proof -
    from that(2) [unfolded P_def] consider
      "t' \<le> Next_loop s limit t'" "Next_loop s limit t' < limit" "fires s (Next_loop s limit t')"
        "\<forall>u. t' \<le> u \<and> u < Next_loop s limit t' \<longrightarrow> \<not> fires s u"
      | "Next_loop s limit t' = 0" "\<forall>u. t' \<le> u \<and> u < limit \<longrightarrow> \<not> fires s u"
      by blast
    then show "P t"
      unfolding P_def that(1) using that(3,4) by cases (metis linorder_not_less order_less_imp_le order.trans)+
  qed
  note step = Next_loop.simps [of s limit t]
  consider "\<not> t < limit"
    | "t < limit" "\<not> has_bit (sch_month s) (Month t)"
    | "t < limit" "has_bit (sch_month s) (Month t)" "\<not> dayMatches s t"
    | "t < limit" "has_bit (sch_month s) (Month t)" "dayMatches s t" "\<not> has_bit (sch_hour s) (Hour t)"
    | "t < limit" "has_bit (sch_month s) (Month t)" "dayMatches s t" "has_bit (sch_hour s) (Hour t)"
      "\<not> has_bit (sch_minute s) (Minute t)"
    | "t < limit" "has_bit (sch_month s) (Month t)" "dayMatches s t" "has_bit (sch_hour s) (Hour t)"
      "has_bit (sch_minute s) (Minute t)"
    by blast
  then have "P t"
  proof cases
    case 2
    show ?thesis
      by (rule jump [of "next_month t"])
        (use 1(1) [OF 2] 2 step next_month_gt skip_month aligned_jumps in \<open>auto simp: P_def next_month_def\<close>)
  next
    case 3
    show ?thesis
      by (rule jump [of "next_day t"])
        (use 1(2) [OF 3(1)] 3 step next_day_gt skip_day aligned_jumps in \<open>auto simp: P_def next_day_def\<close>)
  next
    case 4
    show ?thesis
      by (rule jump [of "next_hour t"])
        (use 1(3) [OF 4(1)] 4 step next_hour_gt skip_hour aligned_jumps in \<open>auto simp: P_def next_hour_def\<close>)
  next
    case 5
    have "\<not> fires s u" if "t \<le> u" "u < t + minute_d" for u
      using aligned_between [OF 1(5) _ that] 5 by (auto simp: fires_def)
    then show ?thesis
      by (intro jump [of "t + minute_d"])
        (use 1(4) [OF 5(1)] 1(5) 5 step next_minute_gt in \<open>auto simp: P_def\<close>)
  next
    case 6
    then show ?thesis using step 1(5) by (auto simp: P_def fires_def)
  qed (use step in \<open>auto simp: P_def\<close>)
  then show ?case by (simp add: P_def)
qed

lemma truncate_next: "truncate_m t \<le> t \<and> t < truncate_m t + minute_d \<and> truncate_m t mod minute_d = 0"
  using div_floor [OF minute_pos, of t]
  by (simp add: truncate_m_def minus_mod_eq_div_mult distrib_right)

lemma has_bit_ext: "(\<And>v. has_bit a v \<longleftrightarrow> has_bit b v) \<Longrightarrow> a = b"
proof (rule bit_word_eqI)
  fix n assume eq: "\<And>v. has_bit a v \<longleftrightarrow> has_bit b v" and "n < LENGTH(64)"
  then show "bit a n \<longleftrightarrow> bit b n"
    using eq [of "int n"] by (simp add: has_bit_iff)
qed

lemma has_bit_set_eq: "{v. has_bit a v} = {v. has_bit b v} \<longleftrightarrow> a = b"
  using has_bit_ext by blast

lemma Next_cases:
  assumes "0 \<le> after"
  obtains "Next s after = 0" "\<And>u. after < u \<Longrightarrow> u < truncate_m after + minute_d + searchHorizon \<Longrightarrow> \<not> fires s u"
  | "Next s after \<noteq> 0" "after < Next s after" "fires s (Next s after)"
    "Next s after < truncate_m after + minute_d + searchHorizon"
    "\<And>u. after < u \<Longrightarrow> u < Next s after \<Longrightarrow> \<not> fires s u"
proof -
  let ?t = "truncate_m after + minute_d"
  note tr = truncate_next [of after]
  have pos: "0 < ?t" using assms tr by linarith
  have al: "?t mod minute_d = 0" using tr by simp
  have early: "\<not> fires s u" if "after < u" "u < ?t" for u
    using aligned_between [of "truncate_m after" u] tr that by (auto simp: fires_def)
  show thesis
    using Next_loop_first [OF al, of s "?t + searchHorizon"]
  proof (elim disjE exE conjE)
    fix r assume r: "Next_loop s (?t + searchHorizon) ?t = r" "?t \<le> r" "r < ?t + searchHorizon" "fires s r"
      "\<forall>u. ?t \<le> u \<and> u < r \<longrightarrow> \<not> fires s u"
    have n: "Next s after = r" using r(1) by (simp add: Next_def Let_def)
    show thesis
      by (rule that(2); unfold n) (use r pos tr early in \<open>auto simp: not_le [symmetric]\<close>)
  next
    assume z: "Next_loop s (?t + searchHorizon) ?t = 0"
      "\<forall>u. ?t \<le> u \<and> u < ?t + searchHorizon \<longrightarrow> \<not> fires s u"
    show thesis
      by (rule that(1)) (use z early in \<open>auto simp: Next_def Let_def not_le [symmetric]\<close>)
  qed
qed

text \<open>
  C16. For every schedule and every instant, \<open>Next\<close> is the first fire time
  strictly after the instant: it lies after it, the schedule fires at it, and
  at no instant in between; and when \<open>Next\<close> answers the zero time, the
  schedule fires at no instant of the next five years (the search horizon).
  The jumps to the next month, day and hour never pass over a fire time, and
  the loop always ends.
\<close>

theorem Next_is_first_fire_time:
  assumes "0 \<le> after"
  shows "(Next s after \<noteq> 0 \<longrightarrow>
            after < Next s after \<and> fires s (Next s after) \<and>
            (\<forall>u. after < u \<and> u < Next s after \<longrightarrow> \<not> fires s u)) \<and>
         (Next s after = 0 \<longrightarrow>
            (\<forall>u. after < u \<and> u \<le> after + searchHorizon \<longrightarrow> \<not> fires s u))"
  using truncate_next [of after]
  by (cases rule: Next_cases [OF assms, of s]) auto

definition wit_daily :: Schedule where
  "wit_daily = \<lparr>sch_expr = ''2 1 * * *'', sch_minute = 4, sch_hour = 2, sch_dom = 4294967294,
     sch_month = 8190, sch_dow = 127, domStar = True, dowStar = True\<rparr>"

lemma wit_daily_next:
  "Next wit_daily (go_date 2024 2 28 12 0) = go_date 2024 2 29 1 2"
  "go_date 2024 2 29 1 2 \<noteq> 0" "0 \<le> go_date 2024 2 28 12 0"
  by code_simp+

theorem Next_is_first_fire_time_witness:
  "fires wit_daily (go_date 2024 2 29 1 2) \<and>
   {u. go_date 2024 2 28 12 0 < u \<and> u < go_date 2024 2 29 1 2 \<and> fires wit_daily u} = {}"
  using Next_is_first_fire_time [OF wit_daily_next(3), of wit_daily, THEN conjunct1]
  unfolding wit_daily_next(1) using wit_daily_next(2) by blast

section \<open>What an accepted expression means\<close>

definition sunday_folded :: "int set \<Rightarrow> int set" where
  "sunday_folded W = (W - {7}) \<union> (if 7 \<in> W then {0} else {})"

definition no_wrapping_step :: "string \<Rightarrow> bool" where
  "no_wrapping_step expr \<longleftrightarrow>
     (\<forall>(spec, field) \<in> set (zip cron_fields (Go_Strings.fields expr)). plain_steps spec field)"

definition expression_means :: "string \<Rightarrow> Schedule \<Rightarrow> bool" where
  "expression_means expr s \<longleftrightarrow>
     (\<exists>mi h d mo w W. Go_Strings.fields expr = [mi, h, d, mo, w] \<and>
        field_means (cron_fields ! 0) mi {v. has_bit (sch_minute s) v} \<and>
        field_means (cron_fields ! 1) h {v. has_bit (sch_hour s) v} \<and>
        field_means (cron_fields ! 2) d {v. has_bit (sch_dom s) v} \<and>
        field_means (cron_fields ! 3) mo {v. has_bit (sch_month s) v} \<and>
        field_means (cron_fields ! 4) w W \<and> {v. has_bit (sch_dow s) v} = sunday_folded W \<and>
        domStar s = (d = ''*'') \<and> dowStar s = (w = ''*'') \<and>
        sch_expr s = join_with '' '' [mi, h, d, mo, w] \<and>
        (\<exists>u > go_date 2000 1 1 0 0. u < go_date 2000 1 1 0 1 + searchHorizon \<and> fires s u))"

lemma fold_sunday_set: "{v. has_bit (fold_sunday w) v} = sunday_folded {v. has_bit w v}"
  by (auto simp: has_bit_fold_sunday sunday_folded_def split: if_splits)

lemma year_2000: "0 \<le> go_date 2000 1 1 0 0" "truncate_m (go_date 2000 1 1 0 0) = go_date 2000 1 1 0 0"
  "go_date 2000 1 1 0 1 = go_date 2000 1 1 0 0 + minute_d"
  by (simp_all add: go_date_def days_before_year_def days_before_month_def duration_defs truncate_m_def)

lemma Next_2000:
  "Next s (go_date 2000 1 1 0 0) \<noteq> 0 \<longleftrightarrow>
     (\<exists>u > go_date 2000 1 1 0 0. u < go_date 2000 1 1 0 1 + searchHorizon \<and> fires s u)"
  by (cases rule: Next_cases [OF year_2000(1), of s]) (auto simp: year_2000(2,3))

lemma Parse_returns: "\<exists>r. Parse expr = Some r"
  using parse_parts_returns [OF cron_fields_ok, of 0 "Go_Strings.fields expr"]
  by (auto simp: Parse_def Let_def split: sum.splits)

lemma cron_fields_eq:
  "cron_fields = [cron_fields ! 0, cron_fields ! 1, cron_fields ! 2, cron_fields ! 3, cron_fields ! 4]"
  by (simp add: cron_fields_def)

lemma cron_field_ok: "i < 5 \<Longrightarrow> spec_ok (cron_fields ! i)"
  using cron_fields_ok by (simp add: list_all_length cron_fields_def)


lemma parse_parts_Cons:
  "parse_parts i (spec # specs) (part # parts) = Some (Inr ws) \<longleftrightarrow>
     (\<exists>w ws'. ws = w # ws' \<and> parseField spec part = Some (Inr w) \<and>
        parse_parts (i + 1) specs parts = Some (Inr ws'))"
  by (auto split: option.splits sum.splits)

lemma parse_parts_five:
  "(parse_parts i [s0, s1, s2, s3, s4] [mi, h, d, mo, w] = Some (Inr ws)) \<longleftrightarrow>
     (\<exists>a b c x y. ws = [a, b, c, x, y] \<and>
        parseField s0 mi = Some (Inr a) \<and> parseField s1 h = Some (Inr b) \<and>
        parseField s2 d = Some (Inr c) \<and> parseField s3 mo = Some (Inr x) \<and>
        parseField s4 w = Some (Inr y))"
  unfolding parse_parts_Cons parse_parts.simps(2) by auto

lemma parse_five:
  "(parse_parts 0 cron_fields [mi, h, d, mo, w] = Some (Inr ws)) \<longleftrightarrow>
     (\<exists>a b c x y. ws = [a, b, c, x, y] \<and>
        parseField (cron_fields ! 0) mi = Some (Inr a) \<and> parseField (cron_fields ! 1) h = Some (Inr b) \<and>
        parseField (cron_fields ! 2) d = Some (Inr c) \<and> parseField (cron_fields ! 3) mo = Some (Inr x) \<and>
        parseField (cron_fields ! 4) w = Some (Inr y))"
  by (subst cron_fields_eq) (rule parse_parts_five)

lemma field_denotes:
  assumes "i < 5" "plain_steps (cron_fields ! i) f"
  shows "parseField (cron_fields ! i) f = Some (Inr w) \<longleftrightarrow>
         field_means (cron_fields ! i) f {v. has_bit w v}"
  using parseField_denotes [OF cron_field_ok [OF assms(1)] assms(2), of "{v. has_bit w v}"]
  by (auto simp: has_bit_set_eq)

lemma field_denotes_set:
  assumes "i < 5" "plain_steps (cron_fields ! i) f"
  shows "field_means (cron_fields ! i) f W \<longleftrightarrow>
         (\<exists>w. parseField (cron_fields ! i) f = Some (Inr w) \<and> W = {v. has_bit w v})"
  using parseField_denotes [OF cron_field_ok [OF assms(1)] assms(2)] by simp

lemma Parse_five:
  assumes f: "Go_Strings.fields expr = [mi, h, d, mo, w]"
    and p: "no_wrapping_step expr"
  shows "Parse expr = Some (Inr s) \<longleftrightarrow> expression_means expr s"
proof -
  have pl: "plain_steps (cron_fields ! 0) mi" "plain_steps (cron_fields ! 1) h"
    "plain_steps (cron_fields ! 2) d" "plain_steps (cron_fields ! 3) mo" "plain_steps (cron_fields ! 4) w"
    using p unfolding no_wrapping_step_def f by (simp_all add: cron_fields_def)
  define sch where "sch = (\<lambda>a b c x y. \<lparr>sch_expr = join_with '' '' [mi, h, d, mo, w], sch_minute = a, sch_hour = b,
      sch_dom = c, sch_month = x, sch_dow = fold_sunday y, domStar = (d = ''*''), dowStar = (w = ''*'')\<rparr>)"
  have n: "[mi, h, d, mo, w] ! 2 = d" "[mi, h, d, mo, w] ! 3 = mo" "[mi, h, d, mo, w] ! 4 = w"
    "length [mi, h, d, mo, w] = 5"
    by simp_all
  have P: "Parse expr = (case parse_parts 0 cron_fields [mi, h, d, mo, w] of
        None \<Rightarrow> None | Some (Inl e) \<Rightarrow> Some (Inl e)
      | Some (Inr ws) \<Rightarrow>
          let s = sch (ws ! 0) (ws ! 1) (ws ! 2) (ws ! 3) (ws ! 4)
          in if Next s (go_date 2000 1 1 0 0) = 0 then Some (Inl (NeverFires d mo)) else Some (Inr s))"
    unfolding Parse_def Let_def f sch_def n by (simp only: simp_thms if_False)
  have "Parse expr = Some (Inr s) \<longleftrightarrow>
      (\<exists>a b c x y. parse_parts 0 cron_fields [mi, h, d, mo, w] = Some (Inr [a, b, c, x, y]) \<and>
         s = sch a b c x y \<and> Next s (go_date 2000 1 1 0 0) \<noteq> 0)"
  proof (cases "parse_parts 0 cron_fields [mi, h, d, mo, w]")
    case (Some r)
    show ?thesis
    proof (cases r)
      case (Inr ws)
      then obtain a b c x y where "ws = [a, b, c, x, y]"
        using Some parse_five by blast
      with Some Inr show ?thesis by (auto simp: P Let_def)
    qed (simp add: P Some)
  qed (simp add: P)
  also have "\<dots> \<longleftrightarrow> expression_means expr s"
    (is "?l \<longleftrightarrow> ?r")
  proof
    assume ?l
    then obtain a b c x y where a: "parseField (cron_fields ! 0) mi = Some (Inr a)"
      "parseField (cron_fields ! 1) h = Some (Inr b)" "parseField (cron_fields ! 2) d = Some (Inr c)"
      "parseField (cron_fields ! 3) mo = Some (Inr x)" "parseField (cron_fields ! 4) w = Some (Inr y)"
      and s: "s = sch a b c x y" and n: "Next s (go_date 2000 1 1 0 0) \<noteq> 0"
      unfolding parse_five by blast
    have m: "field_means (cron_fields ! 0) mi {v. has_bit a v}" "field_means (cron_fields ! 1) h {v. has_bit b v}"
      "field_means (cron_fields ! 2) d {v. has_bit c v}" "field_means (cron_fields ! 3) mo {v. has_bit x v}"
      "field_means (cron_fields ! 4) w {v. has_bit y v}"
      using a pl by (simp_all add: field_denotes)
    show ?r
      unfolding expression_means_def f
      by (intro exI [of _ mi] exI [of _ h] exI [of _ d] exI [of _ mo] exI [of _ w]
          exI [of _ "{v. has_bit y v}"] conjI n [unfolded Next_2000])
        (simp_all add: s sch_def m fold_sunday_set del: One_nat_def)
  next
    assume ?r
    then obtain W where m: "field_means (cron_fields ! 0) mi {v. has_bit (sch_minute s) v}"
      "field_means (cron_fields ! 1) h {v. has_bit (sch_hour s) v}"
      "field_means (cron_fields ! 2) d {v. has_bit (sch_dom s) v}"
      "field_means (cron_fields ! 3) mo {v. has_bit (sch_month s) v}"
      "field_means (cron_fields ! 4) w W"
      and W: "{v. has_bit (sch_dow s) v} = sunday_folded W"
      and st: "domStar s = (d = ''*'')" "dowStar s = (w = ''*'')"
      "sch_expr s = join_with '' '' [mi, h, d, mo, w]"
      and n: "Next s (go_date 2000 1 1 0 0) \<noteq> 0"
      unfolding expression_means_def f Next_2000 by blast
    obtain y where y: "parseField (cron_fields ! 4) w = Some (Inr y)" "W = {v. has_bit y v}"
      using m(5) pl(5) field_denotes_set [of 4 w W] by auto
    have "sch_dow s = fold_sunday y"
      using W unfolding y(2) fold_sunday_set [symmetric] has_bit_set_eq .
    then have "s = sch (sch_minute s) (sch_hour s) (sch_dom s) (sch_month s) y"
      using st by (cases s) (simp add: sch_def)
    moreover have "parse_parts 0 cron_fields [mi, h, d, mo, w] =
        Some (Inr [sch_minute s, sch_hour s, sch_dom s, sch_month s, y])"
      using m(1-4) y(1) pl by (simp add: parse_five field_denotes del: One_nat_def)
    ultimately show ?l using n by blast
  qed
  finally show ?thesis .
qed


text \<open>
  C17. \<open>Parse\<close> always returns. Text that does not have exactly five
  white-space separated fields is refused with the number it has. Where no
  step is within 64 of the largest int (such a step makes the sum wrap
  around), an expression is accepted exactly when it has five fields, each
  field has a meaning in the cron grammar (star, value, range, list, step,
  month and day names) and the schedule fires at least once in the five years
  after the start of 2000; the schedule then holds exactly the denoted
  minutes, hours, days, months and week days, 7 folded onto Sunday, the star
  flags of the day rule, and the normalised expression.
\<close>

theorem Parse_exact:
  assumes "no_wrapping_step expr"
  shows "(\<exists>r. Parse expr = Some r) \<and>
    (length (Go_Strings.fields expr) \<noteq> 5 \<longrightarrow>
       Parse expr = Some (Inl (FieldCount (length (Go_Strings.fields expr))))) \<and>
    (Parse expr = Some (Inr s) \<longleftrightarrow> expression_means expr s)"
proof (intro conjI impI)
  show "\<exists>r. Parse expr = Some r" by (rule Parse_returns)
  show count: "Parse expr = Some (Inl (FieldCount (length (Go_Strings.fields expr))))"
    if "length (Go_Strings.fields expr) \<noteq> 5" using that by (simp add: Parse_def Let_def)
  show "Parse expr = Some (Inr s) \<longleftrightarrow> expression_means expr s"
  proof (cases "length (Go_Strings.fields expr) = 5")
    case True
    then obtain mi h d mo w where "Go_Strings.fields expr = [mi, h, d, mo, w]" by (rule length5E)
    then show ?thesis by (rule Parse_five [OF _ assms])
  next
    case False
    then have "\<not> expression_means expr s" by (auto simp: expression_means_def)
    with count [OF False] show ?thesis by simp
  qed
qed

lemma split_at_subset: "w \<in> set (split_at c s) \<Longrightarrow> set w \<subseteq> set s"
  by (induction s arbitrary: w) (fastforce split: if_splits list.splits)+

lemma no_slash_plain:
  assumes "CHR ''/'' \<notin> set field"
  shows "plain_steps spec field"
  unfolding plain_steps_def
proof (intro ballI allI impI)
  fix item k V
  assume "item \<in> set (split_at (CHR '','') field)" and m: "item_means spec item k V"
  then have "CHR ''/'' \<notin> set item" using assms split_at_subset by blast
  then have "item_step [] False = Inr k"
    using m unfolding item_means_iff by (auto simp: cut_at_absent)
  then show "k \<le> int64_max - 64" by (simp add: item_step_iff int64_max_def)
qed

lemma wit_daily_parse:
  "Parse ''2 1 * * *'' = Some (Inr wit_daily)" "Go_Strings.fields ''2 1 * * *'' = [''2'', ''1'', ''*'', ''*'', ''*'']"
  by code_simp+

lemma wit_six_fields: "Go_Strings.fields ''2 1 * * * *'' = [''2'', ''1'', ''*'', ''*'', ''*'', ''*'']"
  by code_simp

theorem Parse_exact_witness:
  "expression_means ''2 1 * * *'' wit_daily \<and> Parse ''2 1 * * * *'' = Some (Inl (FieldCount 6))"
proof -
  have "no_wrapping_step ''2 1 * * *''" "no_wrapping_step ''2 1 * * * *''"
    unfolding no_wrapping_step_def wit_daily_parse(2) wit_six_fields cron_fields_def by (simp_all add: no_slash_plain)
  from Parse_exact [OF this(1), of wit_daily] Parse_exact [OF this(2), of wit_daily] wit_daily_parse(1)
  show ?thesis by (simp add: wit_six_fields)
qed

text \<open>
  Without the bound on the step the sum wraps around: the element \<^verbatim>\<open>5/n\<close> with
  the largest int as step also fires at minutes 3 and 1.
\<close>

lemma wrapping_step:
  "parseField (cron_fields ! 0) ''5/9223372036854775807'' = Some (Inr (bit_of 5 OR bit_of 3 OR bit_of 1))"
  by code_simp

text \<open>
  A step beyond the field leaves only its lowest value: \<^verbatim>\<open>*/90 * * * *\<close> fires at
  minute 0 of every hour, and is worded as a 90-minute interval.
\<close>

lemma every_ninety_minutes:
  "Describe ''*/90 * * * *'' = ''every 90 minutes''"
  "parseField (cron_fields ! 0) ''*/90'' = Some (Inr (bit_of 0))"
  by code_simp+

end
