(* ===== verification/Projects.thy ===== *)
theory Projects
  imports Auth_Store Authz Cron Naming
begin

text \<open>
  Projects, environments, memberships and cells (\<^verbatim>\<open>internal/project/project.go\<close>,
  \<^verbatim>\<open>access.go\<close>), as programs over the shared state. The transactions that touch
  environment names take the project row's lock first, so each is one action.
\<close>

section \<open>Projects and environments (project.go)\<close>

datatype project_error =
    ErrProjectNotFound | ErrEnvironmentNotFound | ErrProjectNameTaken | ErrEnvironmentNameTaken
  | ErrInvalidName name_error | ErrInvalidSourceMode | ErrUserNotFound | ErrProjectDeleting | ErrNotMember
  | ErrProjectRole | ErrInvalidSettings string | UnknownRole string | GenerateID | ProjectStore string db_error

definition or_store :: "db_error \<Rightarrow> project_error \<Rightarrow> string \<Rightarrow> db_error \<Rightarrow> project_error" where
  "or_store special x what e = (if e = special then x else ProjectStore what e)"

definition failing_p ::
    "(db_error \<Rightarrow> project_error) \<Rightarrow> (sys, db_error + 'a) prog \<Rightarrow> (sys, project_error + 'a) prog" where
  "failing_p w p = pbind p (\<lambda>r. Ret (map_err w r))"

definition check_key :: "string \<Rightarrow> project_error + unit" where
  "check_key name = map_err ErrInvalidName (CheckKey name)"

definition new_id :: "(sys, project_error + uuid) prog" where
  "new_id = pbind (draw (\<lambda>e. en_uuid e 0)) (\<lambda>i. Ret (case i of None \<Rightarrow> Inl GenerateID | Some i \<Rightarrow> Inr i))"

text \<open>Publishing follows the commit.\<close>

definition published :: "uuid \<Rightarrow> 'a \<Rightarrow> (sys, project_error + 'a) prog" where
  "published projectID x = pbind (feed_Publish projectID) (\<lambda>_. Ret (Inr x))"

definition create_tx ::
    "uuid \<Rightarrow> string \<Rightarrow> string \<Rightarrow> uuid \<Rightarrow> sys \<Rightarrow> driver \<Rightarrow> db \<Rightarrow> project_error + (Project \<times> db)" where
  "create_tx i name displayName creator s d t =
     bind_r (map_err (or_store UniqueViolation ErrProjectNameTaken ''create'')
       (CreateProject d i name displayName ''managed'' t)) (\<lambda>(proj, t1).
     if creator = uuid_Nil then Inr (proj, t1)
     else
       bind_r (map_err (ProjectStore ''add creator as admin'')
         (UpsertProjectMember d (p_ID proj) creator (Role_String Admin) t1)) (\<lambda>(_, t2).
       Inr (proj, t2)))"

definition Create :: "string \<Rightarrow> string \<Rightarrow> uuid \<Rightarrow> (sys, project_error + Project) prog" where
  "Create name displayName creator =
     after (Ret (check_key name)) (\<lambda>_.
     after new_id (\<lambda>i.
     transaction (ProjectStore ''transaction'') (create_tx i name displayName creator)))"

definition List_projects :: "(sys, project_error + Project list) prog" where
  "List_projects = failing_p (ProjectStore ''list'') (query ListProjects)"

definition Get :: "uuid \<Rightarrow> (sys, project_error + Project) prog" where
  "Get i = failing_p (or_store ErrNoRows ErrProjectNotFound ''get'') (query (\<lambda>d. GetProjectByID d i))"

definition Update :: "uuid \<Rightarrow> string option \<Rightarrow> string option \<Rightarrow> (sys, project_error + Project) prog" where
  "Update i displayName sourceMode =
     after (Get i) (\<lambda>current.
     let name = (case displayName of Some n \<Rightarrow> n | None \<Rightarrow> p_DisplayName current);
         mode = (case sourceMode of Some m \<Rightarrow> m | None \<Rightarrow> p_SourceMode current) in
     if (case sourceMode of Some m \<Rightarrow> m \<noteq> ''managed'' \<and> m \<noteq> ''file'' | None \<Rightarrow> False)
     then Ret (Inl ErrInvalidSourceMode)
     else
       after (failing_p (ProjectStore ''update'') (update (\<lambda>d. UpdateProject d i name mode))) (\<lambda>proj.
       published i proj))"

record EnvironmentOptions =
  opt_Creator :: uuid
  opt_Priority :: string

definition create_env_tx ::
    "uuid \<Rightarrow> uuid \<Rightarrow> string \<Rightarrow> string \<Rightarrow> uuid \<Rightarrow> sys \<Rightarrow> driver \<Rightarrow> db \<Rightarrow> project_error + (Environment \<times> db)" where
  "create_env_tx i projectID name priority creator s d t =
     bind_r (map_err (ProjectStore ''lock environment names'') (GetProjectForUpdate d projectID t)) (\<lambda>locked.
     if p_DeletingAt locked \<noteq> None then Inl ErrProjectDeleting
     else (case GetEnvironmentNameOwner d projectID name t of
       Inr _ \<Rightarrow> Inl ErrEnvironmentNameTaken
     | Inl e \<Rightarrow>
         if e \<noteq> ErrNoRows then Inl (ProjectStore ''check environment name'' e)
         else
           bind_r (map_err (or_store UniqueViolation ErrEnvironmentNameTaken ''create environment'')
             (CreateEnvironment_q d i projectID name
                (Role_String (if priority = ''high'' then Read else Admin)) priority t)) (\<lambda>(env, t1).
           bind_r (map_err (ProjectStore ''create environment target'')
             (CreateEnvironmentTarget d (e_ID env) t1)) (\<lambda>(_, t2).
           if creator = uuid_Nil then Inr (env, t2)
           else (case GetProjectMember d projectID creator t2 of
             Inl e \<Rightarrow> if e = ErrNoRows then Inr (env, t2) else Inl (ProjectStore ''get creator membership'' e)
           | Inr member \<Rightarrow>
               if m_Role member = Role_String Admin then Inr (env, t2)
               else
                 bind_r (map_err (ProjectStore ''grant creator admin cell'')
                   (UpsertEnvironmentAccess d (e_ID env) projectID creator (Role_String Admin) t2)) (\<lambda>(_, t3).
                 Inr (env, t3)))))))"

definition CreateEnvironment ::
    "uuid \<Rightarrow> string \<Rightarrow> EnvironmentOptions \<Rightarrow> (sys, project_error + Environment) prog" where
  "CreateEnvironment projectID name opts =
     after (Ret (check_key name)) (\<lambda>_.
     let priority = (if opt_Priority opts = [] then ''normal'' else opt_Priority opts) in
     if \<not> ValidPriority priority then Ret (Inl (ErrInvalidSettings ''priority must be normal or high''))
     else
       after (Get projectID) (\<lambda>_.
       after new_id (\<lambda>i.
       after (transaction (ProjectStore ''transaction'')
         (create_env_tx i projectID name priority (opt_Creator opts))) (\<lambda>env.
       published projectID env))))"

definition GetEnvironment :: "uuid \<Rightarrow> (sys, project_error + Environment) prog" where
  "GetEnvironment i =
     failing_p (or_store ErrNoRows ErrEnvironmentNotFound ''get environment'') (query (\<lambda>d. GetEnvironmentByID d i))"

definition rename_tx ::
    "uuid \<Rightarrow> uuid \<Rightarrow> string \<Rightarrow> sys \<Rightarrow> driver \<Rightarrow> db \<Rightarrow> project_error + (Environment \<times> db)" where
  "rename_tx i projectID name s d t =
     bind_r (map_err (ProjectStore ''lock environment names'') (GetProjectForUpdate d projectID t)) (\<lambda>_.
     bind_r (map_err (ProjectStore ''get environment to rename'') (GetEnvironmentByID d i t)) (\<lambda>current.
     if e_Name current = name then Inr (current, t)
     else
       (let owner = GetEnvironmentNameOwner d projectID name t in
        if (case owner of Inr o' \<Rightarrow> e_ID o' \<noteq> i | Inl _ \<Rightarrow> False) then Inl ErrEnvironmentNameTaken
        else if (case owner of Inl e \<Rightarrow> e \<noteq> ErrNoRows | Inr _ \<Rightarrow> False)
        then Inl (ProjectStore ''check environment name'' (projl owner))
        else
          bind_r (map_err (ProjectStore ''rename environment'') (RenameEnvironment_q d i name t)) (\<lambda>(env, t1).
          bind_r (map_err (ProjectStore ''rename promotion sources'')
            (RenamePromotionSources d projectID (e_Name current) name t1)) (\<lambda>(_, t2).
          Inr (env, t2))))))"

definition RenameEnvironment :: "uuid \<Rightarrow> string \<Rightarrow> (sys, project_error + Environment) prog" where
  "RenameEnvironment i name =
     after (Ret (check_key name)) (\<lambda>_.
     after (GetEnvironment i) (\<lambda>env.
     after (transaction (ProjectStore ''transaction'') (rename_tx i (e_ProjectID env) name)) (\<lambda>renamed.
     published (e_ProjectID env) renamed)))"

definition ListEnvironments_p :: "uuid \<Rightarrow> (sys, project_error + Environment list) prog" where
  "ListEnvironments_p projectID =
     after (Get projectID) (\<lambda>_.
     failing_p (ProjectStore ''list environments'') (query (\<lambda>d. ListEnvironments d projectID)))"

definition DeleteEnvironment :: "uuid \<Rightarrow> (sys, project_error + unit) prog" where
  "DeleteEnvironment i =
     after (GetEnvironment i) (\<lambda>env.
     after (failing_p (ProjectStore ''delete environment'') (update (\<lambda>d. DeleteEnvironmentByID d i))) (\<lambda>rows.
     if rows = 0 then Ret (Inl ErrEnvironmentNotFound) else published (e_ProjectID env) ()))"

section \<open>Deleting (internal/deploy/teardown.go, projectdelete.go)\<close>

text \<open>
  The end of a purge: the environment goes, and with the last environment of a
  project being deleted the project. Deleting a project marks it first;
  \<open>refused\<close> is what the checks of running deployments before the mark answer,
  and the purges started after it work on tables of deployments.
\<close>

definition purge_tx :: "uuid \<Rightarrow> uuid \<Rightarrow> sys \<Rightarrow> driver \<Rightarrow> db \<Rightarrow> project_error + (unit \<times> db)" where
  "purge_tx environmentID projectID s d t =
     bind_r (map_err (ProjectStore ''lock project'') (GetProjectForUpdate d projectID t)) (\<lambda>_.
     bind_r (map_err (ProjectStore ''delete environment'') (DeleteEnvironmentByID d environmentID t)) (\<lambda>(_, t1).
     bind_r (map_err (ProjectStore ''delete emptied project'') (DeleteDeletingProjectIfEmpty d projectID t1)) (\<lambda>(_, t2).
     Inr ((), t2))))"

definition purge_DeleteEnvironment :: "uuid \<Rightarrow> (sys, project_error + unit) prog" where
  "purge_DeleteEnvironment environmentID =
     pbind (query (\<lambda>d. GetEnvironmentByID d environmentID)) (\<lambda>r.
     case r of
       Inl e \<Rightarrow> Ret (if e = ErrNoRows then Inr () else Inl (ProjectStore ''get environment'' e))
     | Inr env \<Rightarrow>
         after (transaction (ProjectStore ''transaction'') (purge_tx environmentID (e_ProjectID env))) (\<lambda>_.
         published (e_ProjectID env) ()))"

definition delete_project_tx :: "uuid \<Rightarrow> sys \<Rightarrow> driver \<Rightarrow> db \<Rightarrow> project_error + (bool \<times> db)" where
  "delete_project_tx projectID s d t =
     bind_r (map_err (or_store ErrNoRows ErrProjectNotFound ''lock project'') (GetProjectForUpdate d projectID t)) (\<lambda>_.
     bind_r (map_err (ProjectStore ''mark project deleting'') (MarkProjectDeleting d projectID t)) (\<lambda>(_, t1).
     bind_r (map_err (ProjectStore ''delete empty project'') (DeleteDeletingProjectIfEmpty d projectID t1)) (\<lambda>(rows, t2).
     Inr (rows > 0, t2))))"

definition DeleteProject :: "project_error option \<Rightarrow> uuid \<Rightarrow> (sys, project_error + bool) prog" where
  "DeleteProject refused projectID =
     (case refused of
        Some e \<Rightarrow> Ret (Inl e)
      | None \<Rightarrow>
          after (transaction (ProjectStore ''transaction'') (delete_project_tx projectID)) (\<lambda>deleted.
          published projectID deleted))"

section \<open>Memberships and cells (access.go)\<close>

record Member =
  mem_UserID :: uuid
  mem_Email :: string
  mem_Name :: string
  mem_Role :: Role
  mem_InstanceAdmin :: bool

record ProjectCell =
  pc_EnvironmentID :: uuid
  pc_UserID :: uuid
  pc_Role :: Role

record Cell =
  cell_EnvironmentID :: uuid
  cell_UserID :: uuid
  cell_Email :: string
  cell_Name :: string
  cell_Role :: Role

text \<open>The loops that turn rows into their display form stop at an unknown role.\<close>

fun rows_with_roles :: "('a \<Rightarrow> string) \<Rightarrow> ('a \<Rightarrow> Role \<Rightarrow> 'b) \<Rightarrow> 'a list \<Rightarrow> project_error + 'b list" where
  "rows_with_roles role mk [] = Inr []"
| "rows_with_roles role mk (row # rows) =
     (case ParseRole (role row) of
        None \<Rightarrow> Inl (UnknownRole (role row))
      | Some r \<Rightarrow> bind_r (rows_with_roles role mk rows) (\<lambda>rest. Inr (mk row r # rest)))"

definition ListMembers :: "uuid \<Rightarrow> (sys, project_error + Member list) prog" where
  "ListMembers projectID =
     after (Get projectID) (\<lambda>_.
     after (failing_p (ProjectStore ''list members'') (query (\<lambda>d. ListProjectMembers d projectID))) (\<lambda>rows.
     Ret (rows_with_roles (\<lambda>(m, u). m_Role m)
       (\<lambda>(m, u) role. \<lparr>mem_UserID = m_UserID m, mem_Email = u_Email u, mem_Name = u_Name u, mem_Role = role,
          mem_InstanceAdmin = (u_Role u = ''admin'')\<rparr>) rows)))"

definition ListProjectCells :: "uuid \<Rightarrow> (sys, project_error + ProjectCell list) prog" where
  "ListProjectCells projectID =
     after (failing_p (ProjectStore ''list project cells'')
       (query (\<lambda>d. ListEnvironmentAccessForProject d projectID))) (\<lambda>rows.
     Ret (rows_with_roles a_Role
       (\<lambda>a role. \<lparr>pc_EnvironmentID = a_EnvironmentID a, pc_UserID = a_UserID a, pc_Role = role\<rparr>) rows))"

definition get_user :: "uuid \<Rightarrow> (sys, project_error + User) prog" where
  "get_user userID =
     failing_p (or_store ErrNoRows ErrUserNotFound ''get user'') (query (\<lambda>d. GetUserByID d userID))"

definition SetMember :: "uuid \<Rightarrow> uuid \<Rightarrow> Role \<Rightarrow> (sys, project_error + Member) prog" where
  "SetMember projectID userID role =
     (if \<not> ValidProjectRole (Role_String role) then Ret (Inl ErrProjectRole)
      else
        after (Get projectID) (\<lambda>_.
        after (get_user userID) (\<lambda>user.
        after (failing_p (ProjectStore ''set member'')
          (update (\<lambda>d. UpsertProjectMember d projectID userID (Role_String role)))) (\<lambda>_.
        Ret (Inr \<lparr>mem_UserID = u_ID user, mem_Email = u_Email user, mem_Name = u_Name user, mem_Role = role,
                  mem_InstanceAdmin = (u_Role user = ''admin'')\<rparr>)))))"

definition RemoveMember :: "uuid \<Rightarrow> uuid \<Rightarrow> (sys, project_error + unit) prog" where
  "RemoveMember projectID userID =
     after (failing_p (ProjectStore ''remove member'') (update (\<lambda>d. DeleteProjectMember d projectID userID))) (\<lambda>rows.
     Ret (if rows = 0 then Inl ErrNotMember else Inr ()))"

definition ListEnvironmentAccess_p :: "uuid \<Rightarrow> (sys, project_error + Cell list) prog" where
  "ListEnvironmentAccess_p environmentID =
     after (GetEnvironment environmentID) (\<lambda>_.
     after (failing_p (ProjectStore ''list environment access'')
       (query (\<lambda>d. ListEnvironmentAccess d environmentID))) (\<lambda>rows.
     Ret (rows_with_roles (\<lambda>(a, u). a_Role a)
       (\<lambda>(a, u) role. \<lparr>cell_EnvironmentID = a_EnvironmentID a, cell_UserID = a_UserID a, cell_Email = u_Email u,
          cell_Name = u_Name u, cell_Role = role\<rparr>) rows)))"

definition SetEnvironmentAccess :: "uuid \<Rightarrow> uuid \<Rightarrow> Role \<Rightarrow> (sys, project_error + Cell) prog" where
  "SetEnvironmentAccess environmentID userID role =
     (if \<not> ValidCellRole (Role_String role) then Ret (Inl ErrProjectRole)
      else
        after (GetEnvironment environmentID) (\<lambda>env.
        after (get_user userID) (\<lambda>user.
        after (failing_p (or_store ForeignKeyViolation ErrNotMember ''set environment access'')
          (update (\<lambda>d. UpsertEnvironmentAccess d (e_ID env) (e_ProjectID env) userID (Role_String role)))) (\<lambda>_.
        Ret (Inr \<lparr>cell_EnvironmentID = e_ID env, cell_UserID = u_ID user, cell_Email = u_Email user,
                  cell_Name = u_Name user, cell_Role = role\<rparr>)))))"

definition RemoveEnvironmentAccess :: "uuid \<Rightarrow> uuid \<Rightarrow> (sys, project_error + unit) prog" where
  "RemoveEnvironmentAccess environmentID userID =
     after (failing_p (ProjectStore ''remove environment access'')
       (update (\<lambda>d. DeleteEnvironmentAccess d environmentID userID))) (\<lambda>rows.
     Ret (if rows = 0 then Inl ErrEnvironmentNotFound else Inr ()))"

section \<open>Environment settings (access.go)\<close>

text \<open>The backup columns of a setting: normalised schedule, retention, strategy.\<close>

definition backup_columns :: "BackupSchedule option \<Rightarrow> project_error + (string \<times> int \<times> string)" where
  "backup_columns backup =
     (case backup of
        None \<Rightarrow> Inr ([], 0, BackupStrategyComplete)
      | Some b \<Rightarrow>
          (case Parse (bs_Schedule b) of
             Some (Inr parsed) \<Rightarrow>
               if \<not> ValidBackupRetention (bs_RetentionSeconds b)
               then Inl (ErrInvalidSettings ''backup.retention_seconds'')
               else let strategy = (if bs_Strategy b \<noteq> [] then bs_Strategy b else BackupStrategyComplete) in
                 if \<not> ValidBackupStrategy strategy then Inl (ErrInvalidSettings ''backup.strategy'')
                 else Inr (sch_expr parsed, bs_RetentionSeconds b, strategy)
           | _ \<Rightarrow> Inl (ErrInvalidSettings ''backup.schedule'')))"

text \<open>The names other environments of the project go by, with their current name.\<close>

definition known_names :: "uuid \<Rightarrow> Environment list \<Rightarrow> (string, string) gomap" where
  "known_names self siblings =
     foldl (\<lambda>known e. if e_ID e \<noteq> self then foldl (\<lambda>known name. mput name (e_Name e) known) known (names_of e) else known)
       [] siblings"

fun canonical_names :: "(string, string) gomap \<Rightarrow> string list \<Rightarrow> string list \<Rightarrow> project_error + string list" where
  "canonical_names known seen [] = Inr []"
| "canonical_names known seen (name # names) =
     (case mget known name of
        None \<Rightarrow> Inl (ErrInvalidSettings ''promote_from: not another environment of the project'')
      | Some canonical \<Rightarrow>
          if canonical \<in> set seen then Inl (ErrInvalidSettings ''promote_from lists a name twice'')
          else bind_r (canonical_names known (canonical # seen) names) (\<lambda>rest. Inr (canonical # rest)))"

definition updateEnvironmentSettings ::
    "driver \<Rightarrow> Environment \<Rightarrow> Settings \<Rightarrow> db \<Rightarrow> project_error + (Environment \<times> db)" where
  "updateEnvironmentSettings d env settings t =
     (if \<not> ValidMaxRole (Role_String (set_MaxRole settings)) then Inl (ErrInvalidSettings ''max_role'')
      else if \<not> ValidDeployPolicy (set_DeployPolicy settings)
      then Inl (ErrInvalidSettings ''deploy_policy must be direct or promote-only'')
      else if \<not> ValidPriority (set_Priority settings)
      then Inl (ErrInvalidSettings ''priority must be normal or high'')
      else
        bind_r (backup_columns (set_Backup settings)) (\<lambda>(schedule, retention, strategy).
        bind_r (if set_PromoteFrom settings = [] then Inr []
                else
                  bind_r (map_err (ProjectStore ''list environments'') (ListEnvironments d (e_ProjectID env) t))
                    (\<lambda>siblings. canonical_names (known_names (e_ID env) siblings) [] (set_PromoteFrom settings)))
          (\<lambda>promoteFrom.
        map_err (ProjectStore ''update environment settings'')
          (UpdateEnvironmentSettings_q d (e_ID env)
             (\<lambda>e. e\<lparr>e_MaxRole := Role_String (set_MaxRole settings), e_DeployPolicy := set_DeployPolicy settings,
                    e_PromoteFrom := promoteFrom, e_Priority := set_Priority settings,
                    e_BackupSchedule := schedule, e_BackupRetentionSeconds := retention,
                    e_BackupStrategy := strategy\<rparr>) t))))"

definition settings_tx ::
    "uuid \<Rightarrow> uuid \<Rightarrow> Settings \<Rightarrow> sys \<Rightarrow> driver \<Rightarrow> db \<Rightarrow> project_error + (Environment \<times> db)" where
  "settings_tx environmentID projectID settings s d t =
     bind_r (map_err (ProjectStore ''lock environment settings'') (GetProjectForUpdate d projectID t)) (\<lambda>_.
     bind_r (map_err (ProjectStore ''get environment'') (GetEnvironmentByID d environmentID t)) (\<lambda>current.
     updateEnvironmentSettings d current settings t))"

definition UpdateEnvironmentSettings :: "uuid \<Rightarrow> Settings \<Rightarrow> (sys, project_error + Environment) prog" where
  "UpdateEnvironmentSettings environmentID settings =
     after (GetEnvironment environmentID) (\<lambda>env.
     after (transaction (ProjectStore ''transaction'') (settings_tx environmentID (e_ProjectID env) settings)) (\<lambda>updated.
     published (e_ProjectID env) updated))"

text \<open>\<^verbatim>\<open>uuid.Parse\<close> accepts what \<open>parse\<close> gives a value for.\<close>

definition ResolveUser :: "(string \<Rightarrow> uuid option) \<Rightarrow> string \<Rightarrow> (sys, project_error + User) prog" where
  "ResolveUser parse idOrEmail =
     (let found = failing_p (or_store ErrNoRows ErrUserNotFound ''resolve user'') in
      case parse idOrEmail of
        Some i \<Rightarrow> found (query (\<lambda>d. GetUserByID d i))
      | None \<Rightarrow>
          if CHR ''@'' \<in> set idOrEmail then found (query (\<lambda>d. GetUserByEmail d idOrEmail))
          else Ret (Inl ErrUserNotFound))"

end
