(* ===== verification/Access_Api.thy ===== *)
theory Access_Api
  imports Authz
begin

text \<open>
  The authorization layer of the HTTP API (\<^verbatim>\<open>internal/api/access.go\<close>): every
  route has one class, and the class's middleware loads the addressed
  entity, resolves the caller's grant and answers 404 or 403 before the
  handler runs. A request reads the store in several statements; the
  history gives the tables each of them sees, in order.
\<close>

section \<open>Route classes\<close>

datatype scopeKind =
    scopeNone | scopeInstanceAdmin | scopeProject | scopeDeployer | scopeEnvironment | scopeRevision
  | scopeDeployment | scopeRun | scopeStep | scopeArtifact | scopeBuild

record routeClass =
  rc_name :: string
  rc_scope :: scopeKind
  rc_min :: Role

abbreviation rclass :: "string \<Rightarrow> scopeKind \<Rightarrow> Role \<Rightarrow> routeClass" where
  "rclass n s r \<equiv> \<lparr>rc_name = n, rc_scope = s, rc_min = r\<rparr>"

definition route_classes :: "routeClass list" where
  "route_classes =
     [rclass ''public'' scopeNone RoleNone, rclass ''self'' scopeNone RoleNone,
      rclass ''instance-admin'' scopeInstanceAdmin RoleNone,
      rclass ''project:create'' scopeNone RoleNone, rclass ''project:list'' scopeNone RoleNone,
      rclass ''project:read'' scopeProject Read, rclass ''project:maintain'' scopeProject Maintain,
      rclass ''project:admin'' scopeProject Admin, rclass ''project:deployer'' scopeDeployer Read,
      rclass ''environment:none'' scopeEnvironment RoleNone, rclass ''environment:read'' scopeEnvironment Read,
      rclass ''environment:deploy'' scopeEnvironment Deploy,
      rclass ''environment:maintain'' scopeEnvironment Maintain,
      rclass ''environment:admin'' scopeEnvironment Admin,
      rclass ''revision:read'' scopeRevision Read, rclass ''deployment:read'' scopeDeployment Read,
      rclass ''deployment:deploy'' scopeDeployment Deploy, rclass ''run:read'' scopeRun Read,
      rclass ''run:deploy'' scopeRun Deploy, rclass ''step:read'' scopeStep Read,
      rclass ''step:deploy'' scopeStep Deploy, rclass ''artifact:deployer'' scopeArtifact RoleNone,
      rclass ''build:deployer'' scopeBuild RoleNone]"

section \<open>What the middleware reads and answers\<close>

text \<open>
  The owner columns of the entities a route can address, each as the one
  statement of the request that reads it found it. The columns need not agree
  with each other: a run deleted between the read of a step and the read of
  its run is a record with the step and without the run.
\<close>

record owners =
  own_runs :: "(uuid, uuid option) gomap"
  own_steps :: "(uuid, uuid) gomap"
  own_deployments :: "(uuid, uuid) gomap"
  own_revisions :: "(uuid, uuid) gomap"
  own_artifacts :: "(uuid, uuid option) gomap"
  own_builds :: "(uuid, uuid option) gomap"

definition GetRunByID :: "driver \<Rightarrow> uuid \<Rightarrow> owners \<Rightarrow> db_error + uuid option" where
  "GetRunByID d i ow = stmt d ''GetRunByID'' (one_row (mget (own_runs ow) i))"

definition GetStepByID :: "driver \<Rightarrow> uuid \<Rightarrow> owners \<Rightarrow> db_error + uuid" where
  "GetStepByID d i ow = stmt d ''GetStepByID'' (one_row (mget (own_steps ow) i))"

definition GetDeploymentByID :: "driver \<Rightarrow> uuid \<Rightarrow> owners \<Rightarrow> db_error + uuid" where
  "GetDeploymentByID d i ow = stmt d ''GetDeploymentByID'' (one_row (mget (own_deployments ow) i))"

definition GetRevisionByID :: "driver \<Rightarrow> uuid \<Rightarrow> owners \<Rightarrow> db_error + uuid" where
  "GetRevisionByID d i ow = stmt d ''GetRevisionByID'' (one_row (mget (own_revisions ow) i))"

definition GetArtifactByID :: "driver \<Rightarrow> uuid \<Rightarrow> owners \<Rightarrow> db_error + uuid option" where
  "GetArtifactByID d i ow = stmt d ''GetArtifactByID'' (one_row (mget (own_artifacts ow) i))"

definition GetBuildByID :: "driver \<Rightarrow> uuid \<Rightarrow> owners \<Rightarrow> db_error + uuid option" where
  "GetBuildByID d i ow = stmt d ''GetBuildByID'' (one_row (mget (own_builds ow) i))"

text \<open>The request context the handler finds what was resolved in.\<close>

record req_context =
  ctx_Grant :: "Grant option"
  ctx_EnvironmentGrant :: "EnvironmentGrant option"
  ctx_Environment :: "Environment option"
  ctx_Run :: "uuid option"
  ctx_Step :: "uuid option"
  ctx_Deployment :: "uuid option"
  ctx_Revision :: "uuid option"

definition empty_context :: req_context where
  "empty_context = \<lparr>ctx_Grant = None, ctx_EnvironmentGrant = None, ctx_Environment = None, ctx_Run = None,
     ctx_Step = None, ctx_Deployment = None, ctx_Revision = None\<rparr>"

datatype response = NotFound | Forbidden string | InternalError string | Served req_context

text \<open>The answer to a failed read of the addressed entity.\<close>

definition read_failed :: "string \<Rightarrow> db_error \<Rightarrow> response" where
  "read_failed what e = (if e = ErrNoRows then NotFound else InternalError what)"

section \<open>The checks\<close>

definition projectGrant :: "driver \<Rightarrow> User \<Rightarrow> uuid \<Rightarrow> history \<Rightarrow> response + Grant" where
  "projectGrant d user projectID h =
     (case resolve_Project d user projectID h of
        Inl AuthzNotFound \<Rightarrow> Inl NotFound
      | Inl e \<Rightarrow> Inl (InternalError ''resolve access'')
      | Inr grant \<Rightarrow> if \<not> Visible grant then Inl NotFound else Inr grant)"

definition environmentGrant :: "Grant \<Rightarrow> uuid \<Rightarrow> Role \<Rightarrow> response + EnvironmentGrant" where
  "environmentGrant grant environmentID least =
     (case Grant_Environment grant environmentID of
        None \<Rightarrow> Inl NotFound
      | Some envGrant \<Rightarrow>
          if \<not> AtLeast (eg_Role envGrant) least
          then Inl (Forbidden (Required least ''environment'' (eg_Name envGrant)))
          else Inr envGrant)"

definition deployer_required :: "Grant \<Rightarrow> string" where
  "deployer_required grant =
     Required Deploy ''project'' (g_ProjectName grant) @ '' (on at least one environment)''"

definition requireProject :: "driver \<Rightarrow> User \<Rightarrow> Role \<Rightarrow> bool \<Rightarrow> uuid option \<Rightarrow> history \<Rightarrow> response" where
  "requireProject d user least deployer pathID h =
     (case pathID of
        None \<Rightarrow> NotFound
      | Some i \<Rightarrow>
          (case projectGrant d user i h of
             Inl r \<Rightarrow> r
           | Inr grant \<Rightarrow>
               if \<not> AtLeast (g_ProjectRole grant) least
               then Forbidden (Required least ''project'' (g_ProjectName grant))
               else if deployer \<and> \<not> Deployer grant then Forbidden (deployer_required grant)
               else Served (empty_context\<lparr>ctx_Grant := Some grant\<rparr>)))"

definition withEnvironment :: "req_context \<Rightarrow> Grant \<Rightarrow> EnvironmentGrant \<Rightarrow> Environment \<Rightarrow> req_context" where
  "withEnvironment ctx grant envGrant env =
     ctx\<lparr>ctx_Grant := Some grant, ctx_EnvironmentGrant := Some envGrant, ctx_Environment := Some env\<rparr>"

definition isInstanceAdmin :: "User \<Rightarrow> bool" where
  "isInstanceAdmin user = instance_admin user"

definition scoped :: "driver \<Rightarrow> User \<Rightarrow> uuid option \<Rightarrow> Role \<Rightarrow> req_context \<Rightarrow> history \<Rightarrow> response + req_context" where
  "scoped d user environmentID least ctx h =
     (case environmentID of
        None \<Rightarrow> if \<not> isInstanceAdmin user then Inl NotFound else Inr ctx
      | Some eid \<Rightarrow>
          (case GetEnvironmentByID d eid (h 0) of
             Inl e \<Rightarrow> Inl (read_failed ''get environment'' e)
           | Inr env \<Rightarrow>
               (case projectGrant d user (e_ProjectID env) (\<lambda>n. h (n + 1)) of
                  Inl r \<Rightarrow> Inl r
                | Inr grant \<Rightarrow>
                    (case environmentGrant grant (e_ID env) least of
                       Inl r \<Rightarrow> Inl r
                     | Inr envGrant \<Rightarrow> Inr (withEnvironment ctx grant envGrant env)))))"

definition requireEnvironment :: "driver \<Rightarrow> User \<Rightarrow> Role \<Rightarrow> uuid option \<Rightarrow> history \<Rightarrow> response" where
  "requireEnvironment d user least pathID h =
     (case pathID of
        None \<Rightarrow> NotFound
      | Some i \<Rightarrow>
          (case GetEnvironmentByID d i (h 0) of
             Inl e \<Rightarrow> read_failed ''get environment'' e
           | Inr env \<Rightarrow>
               (case projectGrant d user (e_ProjectID env) (\<lambda>n. h (n + 1)) of
                  Inl r \<Rightarrow> r
                | Inr grant \<Rightarrow>
                    (case environmentGrant grant (e_ID env) least of
                       Inl r \<Rightarrow> r
                     | Inr envGrant \<Rightarrow> Served (withEnvironment empty_context grant envGrant env)))))"

definition served :: "(req_context \<Rightarrow> req_context) \<Rightarrow> response + req_context \<Rightarrow> response" where
  "served f r = (case r of Inl e \<Rightarrow> e | Inr ctx \<Rightarrow> Served (f ctx))"

definition requireRun :: "driver \<Rightarrow> owners \<Rightarrow> User \<Rightarrow> Role \<Rightarrow> uuid option \<Rightarrow> history \<Rightarrow> response" where
  "requireRun d ow user least pathID h =
     (case pathID of
        None \<Rightarrow> NotFound
      | Some i \<Rightarrow>
          (case GetRunByID d i ow of
             Inl e \<Rightarrow> read_failed ''get run'' e
           | Inr env \<Rightarrow> served (ctx_Run_update (\<lambda>_. Some i)) (scoped d user env least empty_context h)))"

definition requireStep :: "driver \<Rightarrow> owners \<Rightarrow> User \<Rightarrow> Role \<Rightarrow> uuid option \<Rightarrow> history \<Rightarrow> response" where
  "requireStep d ow user least pathID h =
     (case pathID of
        None \<Rightarrow> NotFound
      | Some i \<Rightarrow>
          (case GetStepByID d i ow of
             Inl e \<Rightarrow> read_failed ''get step'' e
           | Inr run \<Rightarrow>
               (case GetRunByID d run ow of
                  Inl e \<Rightarrow> read_failed ''get run'' e
                | Inr env \<Rightarrow>
                    served (\<lambda>ctx. ctx\<lparr>ctx_Run := Some run, ctx_Step := Some i\<rparr>)
                      (scoped d user env least empty_context h))))"

definition requireDeployment :: "driver \<Rightarrow> owners \<Rightarrow> User \<Rightarrow> Role \<Rightarrow> uuid option \<Rightarrow> history \<Rightarrow> response" where
  "requireDeployment d ow user least pathID h =
     (case pathID of
        None \<Rightarrow> NotFound
      | Some i \<Rightarrow>
          (case GetDeploymentByID d i ow of
             Inl e \<Rightarrow> read_failed ''get deployment'' e
           | Inr env \<Rightarrow>
               served (ctx_Deployment_update (\<lambda>_. Some i)) (scoped d user (Some env) least empty_context h)))"

definition requireRevision :: "driver \<Rightarrow> owners \<Rightarrow> User \<Rightarrow> Role \<Rightarrow> uuid option \<Rightarrow> history \<Rightarrow> response" where
  "requireRevision d ow user least pathID h =
     (case pathID of
        None \<Rightarrow> NotFound
      | Some i \<Rightarrow>
          (case GetRevisionByID d i ow of
             Inl e \<Rightarrow> read_failed ''get revision'' e
           | Inr env \<Rightarrow>
               served (ctx_Revision_update (\<lambda>_. Some i)) (scoped d user (Some env) least empty_context h)))"

definition projectDeployer :: "driver \<Rightarrow> User \<Rightarrow> uuid option \<Rightarrow> history \<Rightarrow> response + req_context" where
  "projectDeployer d user projectID h =
     (case projectID of
        None \<Rightarrow> if \<not> isInstanceAdmin user then Inl NotFound else Inr empty_context
      | Some pid \<Rightarrow>
          (case projectGrant d user pid h of
             Inl r \<Rightarrow> Inl r
           | Inr grant \<Rightarrow>
               if \<not> Deployer grant then Inl (Forbidden (deployer_required grant))
               else Inr (empty_context\<lparr>ctx_Grant := Some grant\<rparr>)))"

definition requireArtifact :: "driver \<Rightarrow> owners \<Rightarrow> User \<Rightarrow> uuid option \<Rightarrow> history \<Rightarrow> response" where
  "requireArtifact d ow user pathID h =
     (case pathID of
        None \<Rightarrow> NotFound
      | Some i \<Rightarrow>
          (case GetArtifactByID d i ow of
             Inl e \<Rightarrow> read_failed ''get artifact'' e
           | Inr pid \<Rightarrow> served id (projectDeployer d user pid h)))"

definition requireBuild :: "driver \<Rightarrow> owners \<Rightarrow> User \<Rightarrow> uuid option \<Rightarrow> history \<Rightarrow> response" where
  "requireBuild d ow user pathID h =
     (case pathID of
        None \<Rightarrow> NotFound
      | Some i \<Rightarrow>
          (case GetBuildByID d i ow of
             Inl e \<Rightarrow> read_failed ''get build'' e
           | Inr pid \<Rightarrow> served id (projectDeployer d user pid h)))"

text \<open>\<^verbatim>\<open>UserFrom\<close> returns nil on a request no session was attached to.\<close>

definition RequireAdmin :: "User option \<Rightarrow> response" where
  "RequireAdmin user =
     (case user of
        None \<Rightarrow> Forbidden ''admin role required''
      | Some u \<Rightarrow> if u_Role u \<noteq> ''admin'' then Forbidden ''admin role required'' else Served empty_context)"

text \<open>
  The middleware chain of a class: one check, or none. It sits inside
  \<^verbatim>\<open>RequireAuth\<close>, which has put the user on the context.
\<close>

definition middleware :: "driver \<Rightarrow> owners \<Rightarrow> User \<Rightarrow> routeClass \<Rightarrow> uuid option \<Rightarrow> history \<Rightarrow> response" where
  "middleware d ow user class pathID h =
     (case rc_scope class of
        scopeInstanceAdmin \<Rightarrow> RequireAdmin (Some user)
      | scopeProject \<Rightarrow> requireProject d user (rc_min class) False pathID h
      | scopeDeployer \<Rightarrow> requireProject d user Read True pathID h
      | scopeEnvironment \<Rightarrow> requireEnvironment d user (rc_min class) pathID h
      | scopeRevision \<Rightarrow> requireRevision d ow user (rc_min class) pathID h
      | scopeDeployment \<Rightarrow> requireDeployment d ow user (rc_min class) pathID h
      | scopeRun \<Rightarrow> requireRun d ow user (rc_min class) pathID h
      | scopeStep \<Rightarrow> requireStep d ow user (rc_min class) pathID h
      | scopeArtifact \<Rightarrow> requireArtifact d ow user pathID h
      | scopeBuild \<Rightarrow> requireBuild d ow user pathID h
      | scopeNone \<Rightarrow> Served empty_context)"

section \<open>Who is entitled, read off the tables\<close>

definition sees :: "User \<Rightarrow> uuid \<Rightarrow> db \<Rightarrow> bool" where
  "sees user pid s \<longleftrightarrow> instance_admin user \<or> member_row user pid s \<noteq> None"

definition project_row :: "uuid \<Rightarrow> db \<Rightarrow> Project option" where
  "project_row pid s = find (\<lambda>p. p_ID p = pid) (t_projects s)"

definition deployer_on :: "User \<Rightarrow> uuid \<Rightarrow> db \<Rightarrow> db \<Rightarrow> bool" where
  "deployer_on user pid sm sc \<longleftrightarrow>
     instance_admin user \<or> project_role user pid sm \<ge> Deploy \<or> deployer_cell user pid sc"

definition project_seen :: "User \<Rightarrow> uuid \<Rightarrow> history \<Rightarrow> bool" where
  "project_seen user pid h \<longleftrightarrow> project_row pid (h 0) \<noteq> None \<and> sees user pid (h 1)"

definition holds_on_env :: "User \<Rightarrow> uuid \<Rightarrow> Role \<Rightarrow> history \<Rightarrow> bool" where
  "holds_on_env user eid least h \<longleftrightarrow>
     (\<exists>e0 e. find (\<lambda>e. e_ID e = eid) (t_environments (h 0)) = Some e0 \<and>
        project_seen user (e_ProjectID e0) (\<lambda>n. h (n + 1)) \<and>
        env_row eid (e_ProjectID e0) (h 4) = Some e \<and> role_on user e (h 2) (h 3) \<ge> least)"

text \<open>The environment an entity belongs to: unknown entity, no environment, an environment.\<close>

definition entity_env :: "owners \<Rightarrow> scopeKind \<Rightarrow> uuid \<Rightarrow> uuid option option" where
  "entity_env ow sc i =
     (case sc of
        scopeEnvironment \<Rightarrow> Some (Some i)
      | scopeRevision \<Rightarrow> map_option Some (mget (own_revisions ow) i)
      | scopeDeployment \<Rightarrow> map_option Some (mget (own_deployments ow) i)
      | scopeRun \<Rightarrow> mget (own_runs ow) i
      | scopeStep \<Rightarrow> (case mget (own_steps ow) i of None \<Rightarrow> None | Some run \<Rightarrow> mget (own_runs ow) run)
      | _ \<Rightarrow> None)"

definition entity_project :: "owners \<Rightarrow> scopeKind \<Rightarrow> uuid \<Rightarrow> uuid option option" where
  "entity_project ow sc i =
     (case sc of
        scopeArtifact \<Rightarrow> mget (own_artifacts ow) i
      | scopeBuild \<Rightarrow> mget (own_builds ow) i
      | scopeProject \<Rightarrow> Some (Some i)
      | scopeDeployer \<Rightarrow> Some (Some i)
      | _ \<Rightarrow> None)"

definition entitled :: "owners \<Rightarrow> User \<Rightarrow> routeClass \<Rightarrow> uuid option \<Rightarrow> history \<Rightarrow> bool" where
  "entitled ow user class pathID h =
     (case rc_scope class of
        scopeNone \<Rightarrow> True
      | scopeInstanceAdmin \<Rightarrow> instance_admin user
      | scopeProject \<Rightarrow>
          (\<exists>i. pathID = Some i \<and> project_seen user i h \<and> project_role user i (h 1) \<ge> rc_min class)
      | scopeDeployer \<Rightarrow>
          (\<exists>i. pathID = Some i \<and> project_seen user i h \<and> project_role user i (h 1) \<ge> Read \<and>
               deployer_on user i (h 1) (h 2))
      | sc \<Rightarrow>
          (if sc = scopeArtifact \<or> sc = scopeBuild then
             (\<exists>i own. pathID = Some i \<and> entity_project ow sc i = Some own \<and>
                (case own of None \<Rightarrow> instance_admin user
                 | Some pid \<Rightarrow> project_seen user pid h \<and> deployer_on user pid (h 1) (h 2)))
           else
             (\<exists>i own. pathID = Some i \<and> entity_env ow sc i = Some own \<and>
                (case own of None \<Rightarrow> instance_admin user
                 | Some eid \<Rightarrow> holds_on_env user eid (rc_min class) h))))"

section \<open>What a caller may learn about\<close>

definition env_visible :: "User \<Rightarrow> uuid \<Rightarrow> history \<Rightarrow> bool" where
  "env_visible user eid h \<longleftrightarrow>
     (\<exists>e0 e. find (\<lambda>e. e_ID e = eid) (t_environments (h 0)) = Some e0 \<and>
        project_seen user (e_ProjectID e0) (\<lambda>n. h (n + 1)) \<and> env_row eid (e_ProjectID e0) (h 4) = Some e)"

definition visible_entity :: "owners \<Rightarrow> User \<Rightarrow> routeClass \<Rightarrow> uuid option \<Rightarrow> history \<Rightarrow> bool" where
  "visible_entity ow user class pathID h =
     (case rc_scope class of
        scopeNone \<Rightarrow> True
      | scopeInstanceAdmin \<Rightarrow> True
      | sc \<Rightarrow>
          (if sc \<in> {scopeProject, scopeDeployer, scopeArtifact, scopeBuild} then
             (\<exists>i own. pathID = Some i \<and> entity_project ow sc i = Some own \<and>
                (case own of None \<Rightarrow> instance_admin user | Some pid \<Rightarrow> project_seen user pid h))
           else
             (\<exists>i own. pathID = Some i \<and> entity_env ow sc i = Some own \<and>
                (case own of None \<Rightarrow> instance_admin user | Some eid \<Rightarrow> env_visible user eid h))))"

text \<open>
  An answer decides a request: served to the entitled, forbidden to those who
  may see the entity only, not found for all others, and an internal error
  only when the store failed.
\<close>

definition decides :: "driver \<Rightarrow> bool \<Rightarrow> bool \<Rightarrow> response \<Rightarrow> bool" where
  "decides d vis ent r =
     (case r of Served _ \<Rightarrow> vis \<and> ent | Forbidden _ \<Rightarrow> vis \<and> \<not> ent | NotFound \<Rightarrow> \<not> vis
      | InternalError _ \<Rightarrow> \<not> driver_ok d)"

lemma decides_simps [simp]:
  "decides d vis ent (Served c) \<longleftrightarrow> vis \<and> ent" "decides d vis ent (Forbidden m) \<longleftrightarrow> vis \<and> \<not> ent"
  "decides d vis ent NotFound \<longleftrightarrow> \<not> vis" "decides d vis ent (InternalError m) \<longleftrightarrow> \<not> driver_ok d"
  by (simp_all add: decides_def)

lemma stmt_one_row_cases:
  obtains e where "stmt d n (one_row r) = Inl (Failure e)" "\<not> driver_ok d"
  | "stmt d n (one_row r) = Inl ErrNoRows" "r = None"
  | x where "stmt d n (one_row r) = Inr x" "r = Some x"
proof (cases "drv_fails d n")
  case None
  then show thesis using that(2,3) by (cases r) (auto simp: stmt_def one_row_def)
next
  case (Some e)
  then have "\<not> driver_ok d" by (auto simp: driver_ok_def)
  with Some show thesis using that(1) by (simp add: stmt_def)
qed

section \<open>Resolving a project\<close>

lemma projectGrant_cases:
  assumes "\<forall>n. schema_ok (h n)"
  obtains (failed) w where "projectGrant d user pid h = Inl (InternalError w)" "\<not> driver_ok d"
  | (hidden) "projectGrant d user pid h = Inl NotFound" "\<not> project_seen user pid h"
  | (granted) p g where "projectGrant d user pid h = Inr g" "project_row pid (h 0) = Some p" "p_ID p = pid"
      "grant_is user p (h 1) (h 2) (h 3) g" "project_seen user pid h"
proof (cases rule: stmt_one_row_cases [of d "''GetProjectByID''" "find (\<lambda>p. p_ID p = pid) (t_projects (h 0))"])
  case (1 e)
  then show thesis
    by (intro failed) (simp_all add: projectGrant_def resolve_Project_def GetProjectByID_def)
next
  case 2
  then show thesis
    by (intro hidden)
      (simp_all add: projectGrant_def resolve_Project_def GetProjectByID_def project_seen_def project_row_def)
next
  case (3 p)
  have p: "project_row pid (h 0) = Some p" "p_ID p = pid"
    using 3(2) find_SomeD by (force simp: project_row_def)+
  have r: "resolve_Project d user pid h = bind_r (load d user [p] (h 1) (h 2) (h 3))
      (\<lambda>grants. case mget grants pid of None \<Rightarrow> Inl NilGrant | Some g \<Rightarrow> Inr g)"
    using 3(1) by (simp add: resolve_Project_def GetProjectByID_def)
  from load_grants [of "[p]" "h 1" "h 2" "h 3" d user] assms consider
    w e where "load d user [p] (h 1) (h 2) (h 3) = Inl (AuthzStore w (Failure e))" "\<not> driver_ok d"
    | grants g where "load d user [p] (h 1) (h 2) (h 3) = Inr grants" "mget grants pid = Some g"
      "grant_is user p (h 1) (h 2) (h 3) g"
    using p(2) by auto
  then show thesis
  proof cases
    case 1
    then show thesis by (intro failed) (simp_all add: projectGrant_def r)
  next
    case 2
    have v: "Visible g \<longleftrightarrow> project_seen user pid h"
      using 2(3) p by (auto simp: Visible_def grant_is_def project_seen_def sees_def)
    show thesis
    proof (cases "Visible g")
      case True
      then show thesis using 2 p v by (intro granted [of g p]) (simp_all add: projectGrant_def r)
    next
      case False
      then show thesis using 2 p v by (intro hidden) (simp_all add: projectGrant_def r)
    qed
  qed
qed

lemma environmentGrant_eq:
  assumes "grant_is user p sm sc se g" "p_ID p = pid"
  shows "environmentGrant g eid least =
     (case env_row eid pid se of
        None \<Rightarrow> Inl NotFound
      | Some e \<Rightarrow> if role_on user e sm sc \<ge> least then Inr (grant_env user e sm sc)
                  else Inl (Forbidden (Required least ''environment'' (e_Name e))))"
  using assms by (auto simp: environmentGrant_def grant_is_def AtLeast_def grant_env_def split: option.split)

lemma holds_visible: "holds_on_env user eid least h \<Longrightarrow> env_visible user eid h"
  by (auto simp: holds_on_env_def env_visible_def)

lemma scoped_decides:
  assumes "\<forall>n. schema_ok (h n)"
  shows "decides d (env_visible user eid h) (holds_on_env user eid least h)
     (served f (scoped d user (Some eid) least ctx h))"
proof (cases rule: stmt_one_row_cases [of d "''GetEnvironmentByID''" "find (\<lambda>e. e_ID e = eid) (t_environments (h 0))"])
  case (1 e)
  then show ?thesis by (simp add: scoped_def served_def GetEnvironmentByID_def read_failed_def)
next
  case 2
  then show ?thesis by (simp add: scoped_def served_def GetEnvironmentByID_def read_failed_def env_visible_def)
next
  case (3 env)
  have i: "e_ID env = eid" using 3(2) find_SomeD by force
  let ?h = "\<lambda>n. h (n + 1)"
  have sc: "scoped d user (Some eid) least ctx h = (case projectGrant d user (e_ProjectID env) ?h of
      Inl r \<Rightarrow> Inl r | Inr grant \<Rightarrow> (case environmentGrant grant eid least of Inl r \<Rightarrow> Inl r
        | Inr envGrant \<Rightarrow> Inr (withEnvironment ctx grant envGrant env)))"
    using 3(1) i by (simp add: scoped_def GetEnvironmentByID_def split: sum.split)
  have vis: "env_visible user eid h \<longleftrightarrow> project_seen user (e_ProjectID env) ?h \<and> env_row eid (e_ProjectID env) (h 4) \<noteq> None"
    using 3(2) by (auto simp: env_visible_def)
  have ent: "holds_on_env user eid least h \<longleftrightarrow> project_seen user (e_ProjectID env) ?h \<and>
      (\<exists>e. env_row eid (e_ProjectID env) (h 4) = Some e \<and> role_on user e (h 2) (h 3) \<ge> least)"
    using 3(2) by (auto simp: holds_on_env_def)
  have "\<forall>n. schema_ok (?h n)" using assms by simp
  then show ?thesis
  proof (cases rule: projectGrant_cases [of ?h d user "e_ProjectID env"])
    case (failed w)
    then show ?thesis by (simp add: sc served_def)
  next
    case hidden
    then show ?thesis by (simp add: sc served_def vis)
  next
    case (granted p g)
    have gi: "grant_is user p (h 2) (h 3) (h 4) g" using granted(4) by (simp add: numeral_eq_Suc)
    have eg: "environmentGrant g eid least = (case env_row eid (e_ProjectID env) (h 4) of
        None \<Rightarrow> Inl NotFound
      | Some e \<Rightarrow> if role_on user e (h 2) (h 3) \<ge> least then Inr (grant_env user e (h 2) (h 3))
                  else Inl (Forbidden (Required least ''environment'' (e_Name e))))"
      by (rule environmentGrant_eq [OF gi granted(3)])
    show ?thesis
      unfolding vis ent using granted(1,5) by (simp add: sc eg served_def split: option.split)
  qed
qed

lemma scoped_none: "decides d (instance_admin user) (instance_admin user) (served f (scoped d user None least ctx h))"
  by (simp add: scoped_def served_def isInstanceAdmin_def)

lemma requireEnvironment_scoped:
  "requireEnvironment d user least (Some i) h = served id (scoped d user (Some i) least empty_context h)"
  by (simp add: requireEnvironment_def scoped_def served_def split: sum.split)

lemma projectDeployer_decides:
  assumes "\<forall>n. schema_ok (h n)"
  shows "decides d (project_seen user pid h) (project_seen user pid h \<and> deployer_on user pid (h 1) (h 2))
     (served f (projectDeployer d user (Some pid) h))"
  using assms
proof (cases rule: projectGrant_cases [of h d user pid])
  case (granted p g)
  then have "Deployer g \<longleftrightarrow> deployer_on user pid (h 1) (h 2)"
    by (auto simp: Deployer_def deployer_on_def grant_is_def)
  with granted show ?thesis by (auto simp: projectDeployer_def served_def)
qed (simp_all add: projectDeployer_def served_def)

lemma requireProject_decides:
  assumes "\<forall>n. schema_ok (h n)"
  shows "decides d (project_seen user pid h)
     (project_seen user pid h \<and> project_role user pid (h 1) \<ge> least \<and> (dep \<longrightarrow> deployer_on user pid (h 1) (h 2)))
     (requireProject d user least dep (Some pid) h)"
  using assms
proof (cases rule: projectGrant_cases [of h d user pid])
  case (granted p g)
  then have "Deployer g \<longleftrightarrow> deployer_on user pid (h 1) (h 2)" "g_ProjectRole g = project_role user pid (h 1)"
    by (auto simp: Deployer_def deployer_on_def grant_is_def)
  with granted show ?thesis by (auto simp: requireProject_def AtLeast_def)
qed (simp_all add: requireProject_def)

section \<open>Complete mediation\<close>

lemma entitled_env:
  "rc_scope class \<in> {scopeEnvironment, scopeRevision, scopeDeployment, scopeRun, scopeStep} \<Longrightarrow>
   entitled ow user class (Some i) h = (\<exists>own. entity_env ow (rc_scope class) i = Some own \<and>
      (case own of None \<Rightarrow> instance_admin user | Some eid \<Rightarrow> holds_on_env user eid (rc_min class) h))"
  "rc_scope class \<in> {scopeEnvironment, scopeRevision, scopeDeployment, scopeRun, scopeStep} \<Longrightarrow>
   visible_entity ow user class (Some i) h = (\<exists>own. entity_env ow (rc_scope class) i = Some own \<and>
      (case own of None \<Rightarrow> instance_admin user | Some eid \<Rightarrow> env_visible user eid h))"
  by (auto simp: entitled_def visible_entity_def)

lemma entitled_project:
  "rc_scope class \<in> {scopeArtifact, scopeBuild} \<Longrightarrow>
   entitled ow user class (Some i) h = (\<exists>own. entity_project ow (rc_scope class) i = Some own \<and>
      (case own of None \<Rightarrow> instance_admin user
       | Some pid \<Rightarrow> project_seen user pid h \<and> deployer_on user pid (h 1) (h 2)))"
  "rc_scope class \<in> {scopeArtifact, scopeBuild} \<Longrightarrow>
   visible_entity ow user class (Some i) h = (\<exists>own. entity_project ow (rc_scope class) i = Some own \<and>
      (case own of None \<Rightarrow> instance_admin user | Some pid \<Rightarrow> project_seen user pid h))"
  by (auto simp: entitled_def visible_entity_def)

text \<open>The middleware of an entity that leads to an environment, and to a project.\<close>

lemma env_entity_decides:
  assumes "\<forall>n. schema_ok (h n)"
    and "rc_scope class \<in> {scopeEnvironment, scopeRevision, scopeDeployment, scopeRun, scopeStep}"
    and "entity_env ow (rc_scope class) i = Some own"
  shows "decides d (visible_entity ow user class (Some i) h) (entitled ow user class (Some i) h)
     (served f (scoped d user own (rc_min class) ctx h))"
  using scoped_decides [OF assms(1)] scoped_none assms(2,3) by (cases own) (simp_all add: entitled_env)

lemma project_entity_decides:
  assumes "\<forall>n. schema_ok (h n)"
    and "rc_scope class \<in> {scopeArtifact, scopeBuild}" "entity_project ow (rc_scope class) i = Some own"
  shows "decides d (visible_entity ow user class (Some i) h) (entitled ow user class (Some i) h)
     (served f (projectDeployer d user own h))"
  using projectDeployer_decides [OF assms(1)] assms(2,3)
  by (cases own) (simp_all add: entitled_project, simp add: projectDeployer_def served_def isInstanceAdmin_def)

lemma unknown_entity:
  "rc_scope class \<in> {scopeEnvironment, scopeRevision, scopeDeployment, scopeRun, scopeStep} \<Longrightarrow>
   entity_env ow (rc_scope class) i = None \<Longrightarrow> \<not> visible_entity ow user class (Some i) h"
  "rc_scope class \<in> {scopeArtifact, scopeBuild} \<Longrightarrow>
   entity_project ow (rc_scope class) i = None \<Longrightarrow> \<not> visible_entity ow user class (Some i) h"
  by (simp_all add: entitled_env entitled_project)

lemma bad_path:
  "rc_scope class \<noteq> scopeNone \<Longrightarrow> rc_scope class \<noteq> scopeInstanceAdmin \<Longrightarrow>
   middleware d ow user class None h = NotFound \<and> \<not> visible_entity ow user class None h"
  by (cases "rc_scope class")
    (auto simp: middleware_def visible_entity_def requireProject_def requireEnvironment_def requireRevision_def
      requireDeployment_def requireRun_def requireStep_def requireArtifact_def requireBuild_def)

lemma middleware_env_decides:
  assumes "\<forall>n. schema_ok (h n)"
    and sc: "rc_scope class \<in> {scopeEnvironment, scopeRevision, scopeDeployment, scopeRun}"
  shows "decides d (visible_entity ow user class (Some i) h) (entitled ow user class (Some i) h)
     (middleware d ow user class (Some i) h)"
proof -
  note env = env_entity_decides [OF assms(1), where ctx = empty_context, of "class" ow i _ d user]
  note none = unknown_entity [of "class" ow i]
  from sc consider "rc_scope class = scopeEnvironment" | "rc_scope class = scopeRevision"
    | "rc_scope class = scopeDeployment" | "rc_scope class = scopeRun" by auto
  then show ?thesis
  proof cases
    case 1
    then show ?thesis
      using env [of "Some i" id] by (simp add: middleware_def requireEnvironment_scoped entity_env_def)
  next
    case 2
    then show ?thesis
      by (cases rule: stmt_one_row_cases [of d "''GetRevisionByID''" "mget (own_revisions ow) i"])
        (use env [of _ "ctx_Revision_update (\<lambda>_. Some i)"] none in
          \<open>simp_all add: middleware_def requireRevision_def GetRevisionByID_def read_failed_def entity_env_def\<close>)
  next
    case 3
    then show ?thesis
      by (cases rule: stmt_one_row_cases [of d "''GetDeploymentByID''" "mget (own_deployments ow) i"])
        (use env [of _ "ctx_Deployment_update (\<lambda>_. Some i)"] none in
          \<open>simp_all add: middleware_def requireDeployment_def GetDeploymentByID_def read_failed_def entity_env_def\<close>)
  next
    case 4
    then show ?thesis
      by (cases rule: stmt_one_row_cases [of d "''GetRunByID''" "mget (own_runs ow) i"])
        (use env [of _ "ctx_Run_update (\<lambda>_. Some i)"] none in
          \<open>simp_all add: middleware_def requireRun_def GetRunByID_def read_failed_def entity_env_def\<close>)
  qed
qed

lemma middleware_step_decides:
  assumes "\<forall>n. schema_ok (h n)" and sc: "rc_scope class = scopeStep"
  shows "decides d (visible_entity ow user class (Some i) h) (entitled ow user class (Some i) h)
     (middleware d ow user class (Some i) h)"
proof (cases rule: stmt_one_row_cases [of d "''GetStepByID''" "mget (own_steps ow) i"])
  case (3 run)
  then show ?thesis
    by (cases rule: stmt_one_row_cases [of d "''GetRunByID''" "mget (own_runs ow) run"])
      (use sc unknown_entity [of "class" ow i] env_entity_decides [OF assms(1), where ctx = empty_context,
          of "class" ow i _ d user "\<lambda>ctx. ctx\<lparr>ctx_Run := Some run, ctx_Step := Some i\<rparr>"] in
        \<open>simp_all add: middleware_def requireStep_def GetStepByID_def GetRunByID_def read_failed_def entity_env_def\<close>)
qed (use sc unknown_entity [of "class" ow i] in
    \<open>simp_all add: middleware_def requireStep_def GetStepByID_def read_failed_def entity_env_def\<close>)

lemma middleware_project_decides:
  assumes "\<forall>n. schema_ok (h n)"
    and sc: "rc_scope class \<in> {scopeProject, scopeDeployer, scopeArtifact, scopeBuild}"
  shows "decides d (visible_entity ow user class (Some i) h) (entitled ow user class (Some i) h)
     (middleware d ow user class (Some i) h)"
proof -
  note project = requireProject_decides [OF assms(1), of d user i]
    and entity = project_entity_decides [OF assms(1), of "class" ow i _ d user id]
    and none = unknown_entity [of "class" ow i]
  from sc consider "rc_scope class = scopeProject" | "rc_scope class = scopeDeployer"
    | "rc_scope class = scopeArtifact" | "rc_scope class = scopeBuild" by auto
  then show ?thesis
  proof cases
    case 1
    then show ?thesis using project [of "rc_min class" False]
      by (simp add: middleware_def visible_entity_def entitled_def entity_project_def)
  next
    case 2
    then show ?thesis using project [of Read True]
      by (simp add: middleware_def visible_entity_def entitled_def entity_project_def)
  next
    case 3
    then show ?thesis
      by (cases rule: stmt_one_row_cases [of d "''GetArtifactByID''" "mget (own_artifacts ow) i"])
        (use entity none in
          \<open>simp_all add: middleware_def requireArtifact_def GetArtifactByID_def read_failed_def entity_project_def\<close>)
  next
    case 4
    then show ?thesis
      by (cases rule: stmt_one_row_cases [of d "''GetBuildByID''" "mget (own_builds ow) i"])
        (use entity none in
          \<open>simp_all add: middleware_def requireBuild_def GetBuildByID_def read_failed_def entity_project_def\<close>)
  qed
qed

lemma middleware_decides:
  assumes "\<forall>n. schema_ok (h n)"
  shows "decides d (visible_entity ow user class pathID h) (entitled ow user class pathID h)
     (middleware d ow user class pathID h)"
proof (cases "rc_scope class \<in> {scopeNone, scopeInstanceAdmin}")
  case True
  then show ?thesis
    by (auto simp: middleware_def visible_entity_def entitled_def RequireAdmin_def instance_admin_def)
next
  case False
  note scope = this
  show ?thesis
  proof (cases pathID)
    case None
    then show ?thesis using bad_path scope by simp
  next
    case (Some i)
    show ?thesis
      unfolding Some using scope middleware_env_decides [OF assms, of "class" d ow user i]
        middleware_step_decides [OF assms, of "class" d ow user i]
        middleware_project_decides [OF assms, of "class" d ow user i]
      by (cases "rc_scope class") simp_all
  qed
qed

section \<open>Mediation\<close>

definition wit_owners :: owners where
  "wit_owners = \<lparr>own_runs = [(''run1'', Some ''dev''), (''run2'', Some ''prod'')], own_steps = [],
     own_deployments = [], own_revisions = [], own_artifacts = [], own_builds = []\<rparr>"

abbreviation run_deploy :: routeClass where
  "run_deploy \<equiv> rclass ''run:deploy'' scopeRun Deploy"

text \<open>
  C9. Complete mediation. Whatever other requests commit between the
  statements of a request, the middleware of a route lets it through to the
  handler only if the tables it read entitle the caller to the route's class
  at the addressed entity. It answers 403 only to a caller who may see the
  entity but is not entitled to it, 404 only when the caller may not see it,
  and 500 only when the store failed.
\<close>

theorem requests_are_mediated:
  "(\<forall>n. schema_ok (h n)) \<longrightarrow>
   (case middleware d ow user rc pathID h of
      Served _ \<Rightarrow> visible_entity ow user rc pathID h \<and> entitled ow user rc pathID h
    | Forbidden _ \<Rightarrow> visible_entity ow user rc pathID h \<and> \<not> entitled ow user rc pathID h
    | NotFound \<Rightarrow> \<not> visible_entity ow user rc pathID h
    | InternalError _ \<Rightarrow> \<not> driver_ok d)"
  using middleware_decides [of h d ow user rc pathID] unfolding decides_def by blast

theorem requests_are_mediated_witness:
  "visible_entity wit_owners wit_user run_deploy (Some ''run1'') (\<lambda>_. wit_db) \<and>
   entitled wit_owners wit_user run_deploy (Some ''run1'') (\<lambda>_. wit_db) \<and>
   \<not> entitled wit_owners wit_user run_deploy (Some ''run2'') (\<lambda>_. wit_db)"
proof -
  have a: "case middleware wit_driver wit_owners wit_user run_deploy (Some ''run1'') (\<lambda>_. wit_db) of
      Served _ \<Rightarrow> True | _ \<Rightarrow> False"
    by code_simp
  have b: "case middleware wit_driver wit_owners wit_user run_deploy (Some ''run2'') (\<lambda>_. wit_db) of
      Forbidden _ \<Rightarrow> True | _ \<Rightarrow> False"
    by code_simp
  have "\<forall>n. schema_ok ((\<lambda>_. wit_db) n)" by (simp add: wit_db_schema)
  then show ?thesis
    using a b requests_are_mediated [where h = "\<lambda>_. wit_db" and d = wit_driver and ow = wit_owners and user = wit_user
          and pathID = "Some ''run1''" and rc = run_deploy]
      requests_are_mediated [where h = "\<lambda>_. wit_db" and d = wit_driver and ow = wit_owners and user = wit_user
          and pathID = "Some ''run2''" and rc = run_deploy]
    by (simp split: response.splits)
qed

end
