(* ===== verification/Requests.thy ===== *)
theory Requests
  imports Device Projects Access_Api
begin

text \<open>
  The requests of the identity and project services on one server. Each
  request that can change the tables is a constructor; its program is the
  service function. What a request can commit is a labelled step on the
  tables, and every action of every program is such a step or leaves the
  tables alone: the invariants of the tables are proved on the steps and
  hold in every interleaving.
\<close>

section \<open>Requests\<close>

datatype request =
    Q_CreateUser string string string string
  | Q_SetUserRole uuid string
  | Q_SetUserName uuid string
  | Q_SetUserCreateProjects uuid bool
  | Q_DeleteUser uuid
  | Q_ResetUserPassword uuid string
  | Q_ClearUserTwoFactor uuid
  | Q_Login string string SessionMeta
  | Q_VerifyTwoFactor string string SessionMeta
  | Q_Authenticate string
  | Q_Logout string
  | Q_Reauthenticate User uuid string string string
  | Q_RevokeSession uuid uuid
  | Q_ChangePassword uuid string string uuid
  | Q_EnableTwoFactor uuid
  | Q_ConfirmTwoFactor uuid string
  | Q_DisableTwoFactor uuid
  | Q_RegenerateBackupCodes uuid
  | Q_SweepExpired
  | Q_StartDeviceLogin string SessionMeta
  | Q_StartDeviceReauth User uuid string SessionMeta
  | Q_PollDevice string string
  | Q_ApproveDevice User string
  | Q_DenyDevice string
  | Q_CreateProject string string uuid
  | Q_UpdateProject uuid "string option" "string option"
  | Q_CreateEnvironment uuid string EnvironmentOptions
  | Q_RenameEnvironment uuid string
  | Q_DeleteEnvironment uuid
  | Q_SetMember uuid uuid Role
  | Q_RemoveMember uuid uuid
  | Q_SetEnvironmentAccess uuid uuid Role
  | Q_RemoveEnvironmentAccess uuid uuid
  | Q_UpdateEnvironmentSettings uuid Settings
  | Q_PurgeEnvironment uuid
  | Q_DeleteProject "project_error option" uuid

definition void :: "('s, 'r) prog \<Rightarrow> ('s, unit) prog" where
  "void p = pbind p (\<lambda>_. Ret ())"

primrec program :: "crypto \<Rightarrow> Config \<Rightarrow> request \<Rightarrow> (sys, unit) prog" where
  "program cr cfg (Q_CreateUser email name password role) = void (CreateUser cr email name password role)"
| "program cr cfg (Q_SetUserRole uid role) = void (SetUserRole uid role)"
| "program cr cfg (Q_SetUserName uid name) = void (SetUserName uid name)"
| "program cr cfg (Q_SetUserCreateProjects uid b) = void (SetUserCreateProjects uid b)"
| "program cr cfg (Q_DeleteUser uid) = void (DeleteUser uid)"
| "program cr cfg (Q_ResetUserPassword uid password) = void (ResetUserPassword cr uid password)"
| "program cr cfg (Q_ClearUserTwoFactor uid) = void (ClearUserTwoFactor uid)"
| "program cr cfg (Q_Login email password meta) = void (Login cr cfg email password meta)"
| "program cr cfg (Q_VerifyTwoFactor tok code meta) = void (VerifyTwoFactor cr cfg tok code meta)"
| "program cr cfg (Q_Authenticate tok) = void (Authenticate cr cfg tok)"
| "program cr cfg (Q_Logout tok) = void (Logout cr tok)"
| "program cr cfg (Q_Reauthenticate user sid password code ip) = void (Reauthenticate cr user sid password code ip)"
| "program cr cfg (Q_RevokeSession uid sid) = void (RevokeSession uid sid)"
| "program cr cfg (Q_ChangePassword uid current new keep) = void (ChangePassword cr uid current new keep)"
| "program cr cfg (Q_EnableTwoFactor uid) = void (EnableTwoFactor cr uid)"
| "program cr cfg (Q_ConfirmTwoFactor uid code) = void (ConfirmTwoFactor cr uid code)"
| "program cr cfg (Q_DisableTwoFactor uid) = void (DisableTwoFactor uid)"
| "program cr cfg (Q_RegenerateBackupCodes uid) = void (RegenerateBackupCodes cr uid)"
| "program cr cfg Q_SweepExpired = void SweepExpired"
| "program cr cfg (Q_StartDeviceLogin label meta) = void (StartDeviceLogin cr cfg label meta)"
| "program cr cfg (Q_StartDeviceReauth user sid label meta) = void (StartDeviceReauth cr cfg user sid label meta)"
| "program cr cfg (Q_PollDevice code ip) = void (PollDevice cr cfg code ip)"
| "program cr cfg (Q_ApproveDevice caller code) = void (ApproveDevice cr caller code)"
| "program cr cfg (Q_DenyDevice code) = void (DenyDevice cr code)"
| "program cr cfg (Q_CreateProject name display creator) = void (Create name display creator)"
| "program cr cfg (Q_UpdateProject i display mode) = void (Update i display mode)"
| "program cr cfg (Q_CreateEnvironment pid name opts) = void (CreateEnvironment pid name opts)"
| "program cr cfg (Q_RenameEnvironment i name) = void (RenameEnvironment i name)"
| "program cr cfg (Q_DeleteEnvironment i) = void (DeleteEnvironment i)"
| "program cr cfg (Q_SetMember pid uid role) = void (SetMember pid uid role)"
| "program cr cfg (Q_RemoveMember pid uid) = void (RemoveMember pid uid)"
| "program cr cfg (Q_SetEnvironmentAccess eid uid role) = void (SetEnvironmentAccess eid uid role)"
| "program cr cfg (Q_RemoveEnvironmentAccess eid uid) = void (RemoveEnvironmentAccess eid uid)"
| "program cr cfg (Q_UpdateEnvironmentSettings eid settings) = void (UpdateEnvironmentSettings eid settings)"
| "program cr cfg (Q_PurgeEnvironment i) = void (purge_DeleteEnvironment i)"
| "program cr cfg (Q_DeleteProject refused pid) = void (DeleteProject refused pid)"

section \<open>What a request can commit\<close>

text \<open>
  Renaming and changing settings first read the environment and then lock
  the project it was found in; \<open>P\<close> is what such a read says of an environment
  and its project.
\<close>

inductive commit :: "crypto \<Rightarrow> Config \<Rightarrow> (uuid \<Rightarrow> uuid \<Rightarrow> bool) \<Rightarrow> request \<Rightarrow> db \<Rightarrow> db \<Rightarrow> bool" for cr cfg P where
  "create_user_tx email name role phc s d t = Inr (u, t') \<Longrightarrow> commit cr cfg P (Q_CreateUser email name password role) t t'"
| "set_role_tx uid role cur s d t = Inr (u, t') \<Longrightarrow> commit cr cfg P (Q_SetUserRole uid role) t t'"
| "SetUserName_q d uid name t = Inr (u, t') \<Longrightarrow> commit cr cfg P (Q_SetUserName uid name) t t'"
| "SetUserCreateProjects_q d uid b t = Inr (u, t') \<Longrightarrow> commit cr cfg P (Q_SetUserCreateProjects uid b) t t'"
| "delete_user_tx uid cur s d t = Inr (x, t') \<Longrightarrow> commit cr cfg P (Q_DeleteUser uid) t t'"
| "reset_password_tx uid phc s d t = Inr (x, t') \<Longrightarrow> commit cr cfg P (Q_ResetUserPassword uid password) t t'"
| "clear_tx uid s d t = Inr (x, t') \<Longrightarrow> commit cr cfg P (Q_ClearUserTwoFactor uid) t t'"
| "CreateLoginChallenge d i uid th ex t = Inr (c, t') \<Longrightarrow> commit cr cfg P (Q_Login email password meta) t t'"
| "session_row cr cfg user meta tok i now1 now2 d t = Inr (r, t') \<Longrightarrow> commit cr cfg P (Q_Login email password meta) t t'"
| "AdvanceTwoFactorStep d uid step t = Inr (n, t') \<Longrightarrow> commit cr cfg P (Q_VerifyTwoFactor tok code meta) t t'"
| "ConsumeBackupCode d i t = Inr (n, t') \<Longrightarrow> commit cr cfg P (Q_VerifyTwoFactor tok code meta) t t'"
| "IncrementLoginChallengeAttempts d i t = Inr (a, t') \<Longrightarrow> commit cr cfg P (Q_VerifyTwoFactor tok code meta) t t'"
| "DeleteLoginChallenge d i t = Inr (x, t') \<Longrightarrow> commit cr cfg P (Q_VerifyTwoFactor tok code meta) t t'"
| "verify_tx cr cfg ch user meta s d t = Inr (sess, t') \<Longrightarrow> commit cr cfg P (Q_VerifyTwoFactor tok code meta) t t'"
| "ExtendSession d i ex t = Inr (x, t') \<Longrightarrow> commit cr cfg P (Q_Authenticate tok) t t'"
| "DeleteSessionByTokenHash d th t = Inr (n, t') \<Longrightarrow> commit cr cfg P (Q_Logout tok) t t'"
| "AdvanceTwoFactorStep d uid step t = Inr (n, t') \<Longrightarrow> commit cr cfg P (Q_Reauthenticate user sid password code ip) t t'"
| "ConsumeBackupCode d i t = Inr (n, t') \<Longrightarrow> commit cr cfg P (Q_Reauthenticate user sid password code ip) t t'"
| "TouchSessionReauthenticated d sid uid at t = Inr (n, t') \<Longrightarrow>
     commit cr cfg P (Q_Reauthenticate user sid password code ip) t t'"
| "DeleteSessionByID d sid uid t = Inr (n, t') \<Longrightarrow> commit cr cfg P (Q_RevokeSession uid sid) t t'"
| "change_password_tx uid phc keep s d t = Inr (x, t') \<Longrightarrow> commit cr cfg P (Q_ChangePassword uid current new keep) t t'"
| "enable_tx cr uid sec codes s d t = Inr (x, t') \<Longrightarrow> commit cr cfg P (Q_EnableTwoFactor uid) t t'"
| "confirm_tx uid step s d t = Inr (x, t') \<Longrightarrow> commit cr cfg P (Q_ConfirmTwoFactor uid code) t t'"
| "disable_tx uid s d t = Inr (x, t') \<Longrightarrow> commit cr cfg P (Q_DisableTwoFactor uid) t t'"
| "regenerate_tx cr tf codes s d t = Inr (x, t') \<Longrightarrow> commit cr cfg P (Q_RegenerateBackupCodes uid) t t'"
| "DeleteExpiredSessions d t = Inr (n, t') \<Longrightarrow> commit cr cfg P Q_SweepExpired t t'"
| "DeleteExpiredLoginChallenges d t = Inr (n, t') \<Longrightarrow> commit cr cfg P Q_SweepExpired t t'"
| "DeleteExpiredDeviceRequests d t = Inr (n, t') \<Longrightarrow> commit cr cfg P Q_SweepExpired t t'"
| "CreateDeviceRequest d row t = Inr (r, t') \<Longrightarrow> commit cr cfg P (Q_StartDeviceLogin label meta) t t'"
| "CreateDeviceRequest d row t = Inr (r, t') \<Longrightarrow> commit cr cfg P (Q_StartDeviceReauth user sid label meta) t t'"
| "poll_tx cr cfg code s d t = Inr (p, t') \<Longrightarrow> commit cr cfg P (Q_PollDevice code ip) t t'"
| "approve_tx caller row s d t = Inr (x, t') \<Longrightarrow> commit cr cfg P (Q_ApproveDevice caller code) t t'"
| "DenyDeviceRequest d i t = Inr (n, t') \<Longrightarrow> commit cr cfg P (Q_DenyDevice code) t t'"
| "create_tx i name display creator s d t = Inr (p, t') \<Longrightarrow> commit cr cfg P (Q_CreateProject name display creator) t t'"
| "UpdateProject d i name mode t = Inr (p, t') \<Longrightarrow> commit cr cfg P (Q_UpdateProject i display source) t t'"
| "create_env_tx i pid name priority creator s d t = Inr (e, t') \<Longrightarrow> commit cr cfg P (Q_CreateEnvironment pid name opts) t t'"
| "P i pid \<Longrightarrow> rename_tx i pid name s d t = Inr (e, t') \<Longrightarrow> commit cr cfg P (Q_RenameEnvironment i name) t t'"
| "DeleteEnvironmentByID d i t = Inr (n, t') \<Longrightarrow> commit cr cfg P (Q_DeleteEnvironment i) t t'"
| "UpsertProjectMember d pid uid role' t = Inr (m, t') \<Longrightarrow> commit cr cfg P (Q_SetMember pid uid role) t t'"
| "DeleteProjectMember d pid uid t = Inr (n, t') \<Longrightarrow> commit cr cfg P (Q_RemoveMember pid uid) t t'"
| "UpsertEnvironmentAccess d eid pid uid role' t = Inr (a, t') \<Longrightarrow> commit cr cfg P (Q_SetEnvironmentAccess eid' uid role) t t'"
| "DeleteEnvironmentAccess d eid uid t = Inr (n, t') \<Longrightarrow> commit cr cfg P (Q_RemoveEnvironmentAccess eid uid) t t'"
| "P eid pid \<Longrightarrow> settings_tx eid pid settings s d t = Inr (e, t') \<Longrightarrow> commit cr cfg P (Q_UpdateEnvironmentSettings eid settings) t t'"
| "purge_tx i pid s d t = Inr (x, t') \<Longrightarrow> commit cr cfg P (Q_PurgeEnvironment i) t t'"
| "delete_project_tx pid s d t = Inr (b, t') \<Longrightarrow> commit cr cfg P (Q_DeleteProject refused pid) t t'"

definition commits :: "crypto \<Rightarrow> Config \<Rightarrow> (uuid \<Rightarrow> uuid \<Rightarrow> bool) \<Rightarrow> request \<Rightarrow> db \<Rightarrow> db \<Rightarrow> bool" where
  "commits cr cfg P q t t' \<longleftrightarrow> t' = t \<or> commit cr cfg P q t t'"

interpretation com: table_guarantee "commits cr cfg P q" for cr cfg P q
  by unfold_locales (simp add: commits_def)

lemma commits_I: "commit cr cfg P q t t' \<Longrightarrow> commits cr cfg P q t t'"
  by (simp add: commits_def)

lemmas step_intros = guar_intros com.guar_reads com.guar_update com.guar_transaction com.guar_tx_rest commits_I

lemma guar_void: "guar I G p \<Longrightarrow> guar I G (void p)"
  by (simp add: void_def guar_pbind)

lemma guar_failing: "guar I G p \<Longrightarrow> guar I G (failing w p)"
  by (simp add: failing_def guar_pbind)

lemma guar_failing_p: "guar I G p \<Longrightarrow> guar I G (failing_p w p)"
  by (simp add: failing_p_def guar_pbind)

lemma guar_some_rows: "guar I G p \<Longrightarrow> guar I G (some_rows e p)"
  unfolding some_rows_def by (intro guar_intros guar_failing)

lemma reading_programs:
  "guar I (keeps (commits cr cfg P q)) (drawing what g)"
  "guar I (keeps (commits cr cfg P q)) (verifyUserPassword cr uid password)"
  "guar I (keeps (commits cr cfg P q)) (pendingDevice cr code)"
  "guar I (keeps (commits cr cfg P q)) new_id"
  "guar I (keeps (commits cr cfg P q)) (Get i)"
  "guar I (keeps (commits cr cfg P q)) (GetEnvironment i)"
  "guar I (keeps (commits cr cfg P q)) (get_user uid)"
  "guar I (keeps (commits cr cfg P q)) (published pid x)"
  "guar I (keeps (commits cr cfg P q)) (read_user uid)"
  unfolding read_user_def drawing_def verifyUserPassword_def pendingDevice_def new_id_def Get_def GetEnvironment_def
    get_user_def published_def
  by (intro guar_intros guar_failing guar_failing_p com.guar_reads)+

lemmas prog_intros = step_intros guar_void guar_failing guar_failing_p guar_some_rows reading_programs

lemma user_programs:
  "guar I (keeps (commits cr cfg P (Q_CreateUser email name password role))) (CreateUser cr email name password role)"
  "guar I (keeps (commits cr cfg P (Q_SetUserRole uid role))) (SetUserRole uid role)"
  "guar I (keeps (commits cr cfg P (Q_SetUserName uid name))) (SetUserName uid name)"
  "guar I (keeps (commits cr cfg P (Q_SetUserCreateProjects uid b))) (SetUserCreateProjects uid b)"
  "guar I (keeps (commits cr cfg P (Q_DeleteUser uid))) (DeleteUser uid)"
  "guar I (keeps (commits cr cfg P (Q_ResetUserPassword uid password))) (ResetUserPassword cr uid password)"
  "guar I (keeps (commits cr cfg P (Q_ClearUserTwoFactor uid))) (ClearUserTwoFactor uid)"
  unfolding CreateUser_def SetUserRole_def SetUserName_def SetUserCreateProjects_def DeleteUser_def
    ResetUserPassword_def ClearUserTwoFactor_def
  by (intro prog_intros; erule commit.intros)+

lemma guar_checkSecondFactor:
  assumes "\<And>d uid step t n t'. AdvanceTwoFactorStep d uid step t = Inr (n, t') \<Longrightarrow> H t t'"
    and "\<And>d i t n t'. ConsumeBackupCode d i t = Inr (n, t') \<Longrightarrow> H t t'" and "\<And>t. H t t"
  shows "guar I (keeps H) (checkSecondFactor cr uid code)"
proof -
  have q: "guar I (keeps H) (query f)" "guar I (keeps H) clock" for f :: "driver \<Rightarrow> db \<Rightarrow> db_error + 'a"
    using assms(3) by (simp_all add: query_def clock_def guar_act keeps_def)
  have u: "guar I (keeps H) (update (\<lambda>d. AdvanceTwoFactorStep d uid step))"
    "guar I (keeps H) (update (\<lambda>d. ConsumeBackupCode d i))" for step i
    using assms by (auto simp: update_def guar_act keeps_def settle_def split: sum.splits)
  show ?thesis
    unfolding checkSecondFactor_def
    by (intro guar_pbind q; simp split: sum.split db_error.split)
      (intro conjI allI impI guar_intros guar_failing q u)
qed

lemma session_programs:
  "guar I (keeps (commits cr cfg P (Q_Login email password meta))) (Login cr cfg email password meta)"
  "guar I (keeps (commits cr cfg P (Q_Authenticate tok))) (Authenticate cr cfg tok)"
  "guar I (keeps (commits cr cfg P (Q_Logout tok))) (Logout cr tok)"
  "guar I (keeps (commits cr cfg P (Q_RevokeSession uid sid))) (RevokeSession uid sid)"
  "guar I (keeps (commits cr cfg P (Q_ChangePassword uid current new keep))) (ChangePassword cr uid current new keep)"
  "guar I (keeps (commits cr cfg P Q_SweepExpired)) SweepExpired"
  unfolding Login_def createChallenge_def createSession_def Authenticate_def Logout_def RevokeSession_def
    ChangePassword_def SweepExpired_def Let_def case_prod_beta
  by (intro prog_intros; erule commit.intros)+

lemma factor_programs:
  "guar I (keeps (commits cr cfg P (Q_VerifyTwoFactor tok code meta))) (VerifyTwoFactor cr cfg tok code meta)"
  "guar I (keeps (commits cr cfg P (Q_Reauthenticate user sid password code ip))) (Reauthenticate cr user sid password code ip)"
proof -
  have c: "guar I (keeps (commits cr cfg P (Q_VerifyTwoFactor tok code meta))) (checkSecondFactor cr uid code)" for uid
    by (rule guar_checkSecondFactor) (auto simp: commits_def intro: commit.intros)
  show "guar I (keeps (commits cr cfg P (Q_VerifyTwoFactor tok code meta))) (VerifyTwoFactor cr cfg tok code meta)"
    unfolding VerifyTwoFactor_def by (intro prog_intros c; erule commit.intros)
  have r: "guar I (keeps (commits cr cfg P (Q_Reauthenticate user sid password code ip))) (checkSecondFactor cr uid code)" for uid
    by (rule guar_checkSecondFactor) (auto simp: commits_def intro: commit.intros)
  show "guar I (keeps (commits cr cfg P (Q_Reauthenticate user sid password code ip))) (Reauthenticate cr user sid password code ip)"
    unfolding Reauthenticate_def by (intro prog_intros r; erule commit.intros)
qed

lemma enrolment_programs:
  "guar I (keeps (commits cr cfg P (Q_EnableTwoFactor uid))) (EnableTwoFactor cr uid)"
  "guar I (keeps (commits cr cfg P (Q_ConfirmTwoFactor uid code))) (ConfirmTwoFactor cr uid code)"
  "guar I (keeps (commits cr cfg P (Q_DisableTwoFactor uid))) (DisableTwoFactor uid)"
  "guar I (keeps (commits cr cfg P (Q_RegenerateBackupCodes uid))) (RegenerateBackupCodes cr uid)"
  unfolding EnableTwoFactor_def ConfirmTwoFactor_def DisableTwoFactor_def RegenerateBackupCodes_def
  by (intro prog_intros; erule commit.intros)+

lemma guar_device_attempts:
  assumes "\<And>d row t r t'. CreateDeviceRequest d row t = Inr (r, t') \<Longrightarrow> commits cr cfg P q t t'"
  shows "guar I (keeps (commits cr cfg P q)) (device_attempts n row code)"
proof (induction n)
  case (Suc n)
  show ?case
    unfolding device_attempts.simps
    by (intro guar_after guar_pbind reading_programs com.guar_update)
      (auto simp: Suc intro: assms split: sum.split db_error.split)
qed simp

lemma device_programs:
  "guar I (keeps (commits cr cfg P (Q_StartDeviceLogin label meta))) (StartDeviceLogin cr cfg label meta)"
  "guar I (keeps (commits cr cfg P (Q_StartDeviceReauth user sid label meta))) (StartDeviceReauth cr cfg user sid label meta)"
  "guar I (keeps (commits cr cfg P (Q_PollDevice dcode ip))) (PollDevice cr cfg dcode ip)"
  "guar I (keeps (commits cr cfg P (Q_ApproveDevice caller code))) (ApproveDevice cr caller code)"
  "guar I (keeps (commits cr cfg P (Q_DenyDevice code))) (DenyDevice cr code)"
  unfolding StartDeviceLogin_def StartDeviceReauth_def createDeviceRequest_def PollDevice_def ApproveDevice_def
    DenyDevice_def
  by (intro prog_intros guar_device_attempts; erule commit.intros)+

lemma project_programs:
  "guar I (keeps (commits cr cfg P (Q_CreateProject name display creator))) (Create name display creator)"
  "guar I (keeps (commits cr cfg P (Q_UpdateProject i odisplay mode))) (Update i odisplay mode)"
  "guar I (keeps (commits cr cfg P (Q_CreateEnvironment pid name opts))) (CreateEnvironment pid name opts)"
  "guar I (keeps (commits cr cfg P (Q_DeleteEnvironment i))) (DeleteEnvironment i)"
  "guar I (keeps (commits cr cfg P (Q_SetMember pid uid role))) (SetMember pid uid role)"
  "guar I (keeps (commits cr cfg P (Q_RemoveMember pid uid))) (RemoveMember pid uid)"
  "guar I (keeps (commits cr cfg P (Q_SetEnvironmentAccess eid uid role))) (SetEnvironmentAccess eid uid role)"
  "guar I (keeps (commits cr cfg P (Q_RemoveEnvironmentAccess eid uid))) (RemoveEnvironmentAccess eid uid)"
  "guar I (keeps (commits cr cfg P (Q_PurgeEnvironment i))) (purge_DeleteEnvironment i)"
  "guar I (keeps (commits cr cfg P (Q_DeleteProject refused pid))) (DeleteProject refused pid)"
  unfolding purge_DeleteEnvironment_def DeleteProject_def Create_def Update_def CreateEnvironment_def DeleteEnvironment_def SetMember_def
    RemoveMember_def SetEnvironmentAccess_def RemoveEnvironmentAccess_def Let_def
  by (intro prog_intros; erule commit.intros)+

definition reads_ok :: "(sys \<Rightarrow> bool) \<Rightarrow> (uuid \<Rightarrow> uuid \<Rightarrow> bool) \<Rightarrow> bool" where
  "reads_ok I P \<longleftrightarrow>
     (\<forall>s d i env. I s \<longrightarrow> GetEnvironmentByID d i (sy_db s) = Inr env \<longrightarrow> P i (e_ProjectID env))"

lemma guar_after_GetEnvironment:
  assumes "reads_ok I P" "\<And>env. P i (e_ProjectID env) \<Longrightarrow> guar I (keeps (commits cr cfg P q)) (k env)"
  shows "guar I (keeps (commits cr cfg P q)) (after (GetEnvironment i) k)"
proof -
  have eq: "after (GetEnvironment i) k = pbind (act (\<lambda>s. (GetEnvironmentByID (sy_driver s) i (sy_db s), s)))
      (\<lambda>r. case r of Inl e \<Rightarrow> Ret (Inl (or_store ErrNoRows ErrEnvironmentNotFound ''get environment'' e)) | Inr env \<Rightarrow> k env)"
    by (auto simp: after_def GetEnvironment_def failing_p_def query_def act_def fun_eq_iff map_prod_def split: prod.split sum.split)
  show ?thesis
    unfolding eq using assms
    by (intro guar_act_pbind) (auto simp: keeps_def commits_def reads_ok_def split: sum.split)
qed

lemma environment_programs:
  assumes "reads_ok I P"
  shows "guar I (keeps (commits cr cfg P (Q_RenameEnvironment i name))) (RenameEnvironment i name)"
    and "guar I (keeps (commits cr cfg P (Q_UpdateEnvironmentSettings i settings))) (UpdateEnvironmentSettings i settings)"
proof -
  have "guar I (keeps (commits cr cfg P (Q_RenameEnvironment i name)))
      (after (transaction (ProjectStore ''transaction'') (rename_tx i pid name)) (\<lambda>renamed. published pid renamed))"
    if "P i pid" for pid
    by (intro prog_intros) (rule commit.intros(37) [where P = P and i = i and pid = pid, OF that])
  then show "guar I (keeps (commits cr cfg P (Q_RenameEnvironment i name))) (RenameEnvironment i name)"
    unfolding RenameEnvironment_def
    by (rule guar_after [OF guar_Ret guar_after_GetEnvironment [OF assms]])
  have "guar I (keeps (commits cr cfg P (Q_UpdateEnvironmentSettings i settings)))
      (after (transaction (ProjectStore ''transaction'') (settings_tx i pid settings)) (\<lambda>e. published pid e))"
    if "P i pid" for pid
    by (intro prog_intros) (rule commit.intros(43) [where P = P and eid = i and pid = pid, OF that])
  then show "guar I (keeps (commits cr cfg P (Q_UpdateEnvironmentSettings i settings))) (UpdateEnvironmentSettings i settings)"
    unfolding UpdateEnvironmentSettings_def
    by (rule guar_after_GetEnvironment [OF assms])
qed

lemma program_commits: "reads_ok I P \<Longrightarrow> guar I (keeps (commits cr cfg P q)) (program cr cfg q)"
  by (cases q) (simp_all add: guar_void user_programs session_programs factor_programs enrolment_programs
      device_programs project_programs environment_programs)

text \<open>The server: what any action does to the tables is a step some request commits.\<close>

definition step_of :: "crypto \<Rightarrow> Config \<Rightarrow> (uuid \<Rightarrow> uuid \<Rightarrow> bool) \<Rightarrow> (request \<Rightarrow> bool) \<Rightarrow> db \<Rightarrow> db \<Rightarrow> bool" where
  "step_of cr cfg P Q t t' \<longleftrightarrow> t' = t \<or> (\<exists>q. Q q \<and> commit cr cfg P q t t')"

text \<open>A server that takes the requests of \<open>Q\<close> only answers others with nothing.\<close>

definition taking :: "(request \<Rightarrow> bool) \<Rightarrow> (request \<Rightarrow> (sys, unit) prog) \<Rightarrow> request \<Rightarrow> (sys, unit) prog" where
  "taking Q p q = (if Q q then p q else Ret ())"

lemma taking_all [simp]: "taking (\<lambda>_. True) p = p"
  by (simp add: fun_eq_iff taking_def)

lemma server_guaranteed:
  assumes "reads_ok I P"
  shows "guaranteed (taking Q (program cr cfg)) outside I (keeps (step_of cr cfg P Q))"
proof
  fix q
  show "guar I (keeps (step_of cr cfg P Q)) (taking Q (program cr cfg) q)"
    using guar_mono [OF program_commits [OF assms, of cr cfg q], of "keeps (step_of cr cfg P Q)"]
    by (auto simp: taking_def keeps_def commits_def step_of_def)
next
  fix s s' assume "outside s s'"
  then show "keeps (step_of cr cfg P Q) s s'" by (simp add: outside_def keeps_def step_of_def)
qed

lemma reads_ok_any: "reads_ok I (\<lambda>_ _. True)"
  by (simp add: reads_ok_def)

interpretation server: guaranteed "taking Q (program cr cfg)" outside I "keeps (step_of cr cfg (\<lambda>_ _. True) Q)" for cr cfg Q I
  by (rule server_guaranteed [OF reads_ok_any])

end
