(* ===== verification/Table_Frames.thy ===== *)
theory Table_Frames
  imports Requests
begin

text \<open>
  Which tables a statement and a transaction leave alone: identity statements
  keep the product tables, product statements keep the identity tables, and so
  on. The invariants of the server use these frames for every commit that does
  not concern them.
\<close>

section \<open>Which tables a statement leaves alone\<close>

definition same_product :: "db \<Rightarrow> db \<Rightarrow> bool" where
  "same_product t t' \<longleftrightarrow>
     t_projects t' = t_projects t \<and> t_environments t' = t_environments t \<and>
     t_members t' = t_members t \<and> t_access t' = t_access t \<and> t_targets t' = t_targets t"

definition same_factors :: "db \<Rightarrow> db \<Rightarrow> bool" where
  "same_factors t t' \<longleftrightarrow> t_two_factors t' = t_two_factors t \<and> t_backup_codes t' = t_backup_codes t"

definition same_users :: "db \<Rightarrow> db \<Rightarrow> bool" where
  "same_users t t' \<longleftrightarrow> t_users t' = t_users t"

definition same_devices :: "db \<Rightarrow> db \<Rightarrow> bool" where
  "same_devices t t' \<longleftrightarrow> t_devices t' = t_devices t"

definition fewer_devices :: "db \<Rightarrow> db \<Rightarrow> bool" where
  "fewer_devices t t' \<longleftrightarrow> (\<exists>P. t_devices t' = filter P (t_devices t))"

lemmas frame_defs = same_product_def same_factors_def same_users_def same_devices_def fewer_devices_def

named_theorems stmt_frames "the tables a statement leaves alone"

lemma tables_refl [simp]:
  "same_product t t" "same_factors t t" "same_users t t" "same_devices t t"
  by (simp_all add: frame_defs)

lemma tables_trans:
  "same_product t t1 \<Longrightarrow> same_product t1 t' \<Longrightarrow> same_product t t'"
  "same_factors t t1 \<Longrightarrow> same_factors t1 t' \<Longrightarrow> same_factors t t'"
  "same_users t t1 \<Longrightarrow> same_users t1 t' \<Longrightarrow> same_users t t'"
  "same_devices t t1 \<Longrightarrow> same_devices t1 t' \<Longrightarrow> same_devices t t'"
  by (simp_all add: same_product_def same_factors_def same_users_def same_devices_def)

lemma frame_InrE:
  assumes "stmt d n r = Inr x"
  obtains "r = Inr x"
  using stmt_InrD [OF assms] ..

lemmas store_stmt_defs =
  CreateUser_q_def SetUserRole_q_def SetUserName_q_def SetUserCreateProjects_q_def SetUserTwoFactorEnabled_def
  update_user_one_def update_users_def CreateProject_def UpdateProject_def CreateEnvironment_q_def
  CreateEnvironmentTarget_def RenameEnvironment_q_def RenamePromotionSources_def UpdateEnvironmentSettings_q_def
  update_env_one_def DeleteEnvironmentByID_def MarkProjectDeleting_def DeleteDeletingProjectIfEmpty_def UpsertProjectMember_def DeleteProjectMember_def
  UpsertEnvironmentAccess_def DeleteEnvironmentAccess_def

lemma login_frames [stmt_frames]:
  "CreateAccount d i uid pr pw t = Inr (x0, t') \<Longrightarrow> same_product t t' \<and> same_users t t' \<and> same_factors t t' \<and> same_devices t t'"
  "UpdateAccountPassword d uid pw t = Inr (x1, t') \<Longrightarrow> same_product t t' \<and> same_users t t' \<and> same_factors t t' \<and> same_devices t t'"
  "CreateSession d i uid th ex ip ua re t = Inr (x2, t') \<Longrightarrow> same_product t t' \<and> same_users t t' \<and> same_factors t t' \<and> same_devices t t'"
  "ExtendSession d i ex t = Inr (x3, t') \<Longrightarrow> same_product t t' \<and> same_users t t' \<and> same_factors t t' \<and> same_devices t t'"
  "TouchSessionReauthenticated d i uid ti t = Inr (x4, t') \<Longrightarrow> same_product t t' \<and> same_users t t' \<and> same_factors t t' \<and> same_devices t t'"
  "CreateLoginChallenge d i uid th ex t = Inr (x5, t') \<Longrightarrow> same_product t t' \<and> same_users t t' \<and> same_factors t t' \<and> same_devices t t'"
  "IncrementLoginChallengeAttempts d i t = Inr (x6, t') \<Longrightarrow> same_product t t' \<and> same_users t t' \<and> same_factors t t' \<and> same_devices t t'"
  "DeleteLoginChallenge d i t = Inr (x7, t') \<Longrightarrow> same_product t t' \<and> same_users t t' \<and> same_factors t t' \<and> same_devices t t'"
  "DeleteExpiredLoginChallenges d t = Inr (x8, t') \<Longrightarrow> same_product t t' \<and> same_users t t' \<and> same_factors t t' \<and> same_devices t t'"
  by (auto simp: auth_stmt_defs auth_table_defs frame_defs Let_def
      elim!: frame_InrE split: if_splits option.splits)

lemma session_frames [stmt_frames]:
  "DeleteSessionByTokenHash d th t = Inr (x0, t') \<Longrightarrow> same_product t t' \<and> same_users t t' \<and> same_factors t t' \<and> fewer_devices t t'"
  "DeleteSessionByID d i uid t = Inr (x1, t') \<Longrightarrow> same_product t t' \<and> same_users t t' \<and> same_factors t t' \<and> fewer_devices t t'"
  "DeleteUserSessionsExcept d uid i t = Inr (x2, t') \<Longrightarrow> same_product t t' \<and> same_users t t' \<and> same_factors t t' \<and> fewer_devices t t'"
  "DeleteSessionsByUser d uid t = Inr (x3, t') \<Longrightarrow> same_product t t' \<and> same_users t t' \<and> same_factors t t' \<and> fewer_devices t t'"
  "DeleteExpiredSessions d t = Inr (x4, t') \<Longrightarrow> same_product t t' \<and> same_users t t' \<and> same_factors t t' \<and> fewer_devices t t'"
  by (auto simp: auth_stmt_defs auth_table_defs frame_defs Let_def
      elim!: frame_InrE split: if_splits option.splits)

lemma factor_frames [stmt_frames]:
  "UpsertPendingTwoFactor d i uid th t = Inr (x0, t') \<Longrightarrow> same_product t t' \<and> same_users t t' \<and> same_devices t t'"
  "ConfirmTwoFactor_q d uid t = Inr (x1, t') \<Longrightarrow> same_product t t' \<and> same_users t t' \<and> same_devices t t'"
  "AdvanceTwoFactorStep d uid k t = Inr (x2, t') \<Longrightarrow> same_product t t' \<and> same_users t t' \<and> same_devices t t'"
  "DeleteTwoFactorByUserID d uid t = Inr (x3, t') \<Longrightarrow> same_product t t' \<and> same_users t t' \<and> same_devices t t'"
  "CreateBackupCode d i j th t = Inr (x4, t') \<Longrightarrow> same_product t t' \<and> same_users t t' \<and> same_devices t t'"
  "ConsumeBackupCode d i t = Inr (x5, t') \<Longrightarrow> same_product t t' \<and> same_users t t' \<and> same_devices t t'"
  "DeleteBackupCodesByTwoFactorID d i t = Inr (x6, t') \<Longrightarrow> same_product t t' \<and> same_users t t' \<and> same_devices t t'"
  by (auto simp: auth_stmt_defs auth_table_defs frame_defs Let_def
      elim!: frame_InrE split: if_splits option.splits)

lemma device_frames [stmt_frames]:
  "CreateDeviceRequest d row t = Inr (x0, t') \<Longrightarrow> same_product t t' \<and> same_users t t' \<and> same_factors t t'"
  "TouchDeviceRequestPoll d i lp t = Inr (x1, t') \<Longrightarrow> same_product t t' \<and> same_users t t' \<and> same_factors t t'"
  "ApproveDeviceRequest d i ou t = Inr (x2, t') \<Longrightarrow> same_product t t' \<and> same_users t t' \<and> same_factors t t'"
  "DenyDeviceRequest d i t = Inr (x3, t') \<Longrightarrow> same_product t t' \<and> same_users t t' \<and> same_factors t t'"
  "DeleteDeviceRequest d i t = Inr (x4, t') \<Longrightarrow> same_product t t' \<and> same_users t t' \<and> same_factors t t'"
  "DeleteExpiredDeviceRequests d t = Inr (x5, t') \<Longrightarrow> same_product t t' \<and> same_users t t' \<and> same_factors t t'"
  by (auto simp: auth_stmt_defs auth_table_defs frame_defs Let_def
      elim!: frame_InrE split: if_splits option.splits)

lemma user_frames [stmt_frames]:
  "CreateUser_q d i em na ro t = Inr (x0, t') \<Longrightarrow> same_product t t' \<and> same_factors t t' \<and> same_devices t t'"
  "SetUserRole_q d uid ro t = Inr (x1, t') \<Longrightarrow> same_product t t' \<and> same_factors t t' \<and> same_devices t t'"
  "SetUserName_q d uid na t = Inr (x2, t') \<Longrightarrow> same_product t t' \<and> same_factors t t' \<and> same_devices t t'"
  "SetUserCreateProjects_q d uid b t = Inr (x3, t') \<Longrightarrow> same_product t t' \<and> same_factors t t' \<and> same_devices t t'"
  "SetUserTwoFactorEnabled d uid b t = Inr (x4, t') \<Longrightarrow> same_product t t' \<and> same_factors t t' \<and> same_devices t t'"
  by (auto simp: store_stmt_defs frame_defs Let_def
      elim!: frame_InrE split: if_splits option.splits)

lemma product_frames [stmt_frames]:
  "CreateProject d i na em ro t = Inr (x0, t') \<Longrightarrow> same_users t t' \<and> same_factors t t' \<and> same_devices t t'"
  "UpdateProject d i na ro t = Inr (x1, t') \<Longrightarrow> same_users t t' \<and> same_factors t t' \<and> same_devices t t'"
  "CreateEnvironment_q d i pid na ro em t = Inr (x2, t') \<Longrightarrow> same_users t t' \<and> same_factors t t' \<and> same_devices t t'"
  "CreateEnvironmentTarget d i t = Inr (x3, t') \<Longrightarrow> same_users t t' \<and> same_factors t t' \<and> same_devices t t'"
  "RenameEnvironment_q d i na t = Inr (x4, t') \<Longrightarrow> same_users t t' \<and> same_factors t t' \<and> same_devices t t'"
  "RenamePromotionSources d pid na em t = Inr (x5, t') \<Longrightarrow> same_users t t' \<and> same_factors t t' \<and> same_devices t t'"
  "UpdateEnvironmentSettings_q d i ef t = Inr (x6, t') \<Longrightarrow> same_users t t' \<and> same_factors t t' \<and> same_devices t t'"
  "DeleteEnvironmentByID d i t = Inr (x7, t') \<Longrightarrow> same_users t t' \<and> same_factors t t' \<and> same_devices t t'"
  "UpsertProjectMember d pid uid ro t = Inr (x8, t') \<Longrightarrow> same_users t t' \<and> same_factors t t' \<and> same_devices t t'"
  "DeleteProjectMember d pid uid t = Inr (x9, t') \<Longrightarrow> same_users t t' \<and> same_factors t t' \<and> same_devices t t'"
  "UpsertEnvironmentAccess d i pid uid ro t = Inr (x10, t') \<Longrightarrow> same_users t t' \<and> same_factors t t' \<and> same_devices t t'"
  "DeleteEnvironmentAccess d i uid t = Inr (x11, t') \<Longrightarrow> same_users t t' \<and> same_factors t t' \<and> same_devices t t'"
  "MarkProjectDeleting d pid t = Inr (x12, t') \<Longrightarrow> same_users t t' \<and> same_factors t t' \<and> same_devices t t'"
  "DeleteDeletingProjectIfEmpty d pid t = Inr (x13, t') \<Longrightarrow> same_users t t' \<and> same_factors t t' \<and> same_devices t t'"
  by (auto simp: store_stmt_defs frame_defs Let_def
      elim!: frame_InrE split: if_splits option.splits)

subsection \<open>Transactions\<close>

lemma sum_Inr_conv: "(case r of Inl e \<Rightarrow> f e | Inr x \<Rightarrow> g x) = Inr y \<longleftrightarrow>
    (\<exists>e. r = Inl e \<and> f e = Inr y) \<or> (\<exists>x. r = Inr x \<and> g x = Inr y)"
  by (cases r) auto

lemmas frame_eqs = same_product_def same_factors_def same_users_def same_devices_def

lemmas tx_simps = bind_r_Inr map_err_Inr split_paired_Ex sum_Inr_conv Let_def

lemma insertBackupCodes_frame:
  "insertBackupCodes cr e d tf n codes t = Inr (x, t') \<Longrightarrow> same_product t t' \<and> same_users t t' \<and> same_devices t t'"
proof (induction codes arbitrary: n t)
  case (Cons code codes)
  then obtain i h t1 where c: "CreateBackupCode d i tf h t = Inr ((), t1)"
    "insertBackupCodes cr e d tf (n + 1) codes t1 = Inr (x, t')"
    by (auto simp: tx_simps)
  from factor_frames(5) [OF c(1)] Cons.IH [OF c(2)] show ?case
    by (auto intro: tables_trans)
qed auto

lemma createSession_tx_frame:
  "createSession_tx cr cfg user meta s d t = Inr (x, t') \<Longrightarrow>
   same_product t t' \<and> same_users t t' \<and> same_factors t t' \<and> same_devices t t'"
  by (auto simp: createSession_tx_def session_row_def tx_simps dest: login_frames)

lemma session_tx_frames:
  "reset_password_tx uid phc s d t = Inr (x, t') \<Longrightarrow> same_product t t' \<and> same_users t t' \<and> same_factors t t' \<and> fewer_devices t t'"
  "change_password_tx uid phc keep s d t = Inr (x, t') \<Longrightarrow> same_product t t' \<and> same_users t t' \<and> same_factors t t' \<and> fewer_devices t t'"
  "verify_tx cr cfg ch user meta s d t = Inr (y, t') \<Longrightarrow> same_product t t' \<and> same_users t t' \<and> same_factors t t' \<and> same_devices t t'"
  by (auto simp: reset_password_tx_def change_password_tx_def verify_tx_def tx_simps
      dest!: login_frames session_frames createSession_tx_frame intro: tables_trans simp: frame_defs)

lemma factor_tx_frames:
  "enable_tx cr uid sec codes s d t = Inr (x, t') \<Longrightarrow> same_product t t' \<and> same_users t t' \<and> same_devices t t'"
  "regenerate_tx cr tf codes s d t = Inr (x, t') \<Longrightarrow> same_product t t' \<and> same_users t t' \<and> same_devices t t'"
  "clear_tx uid s d t = Inr (x, t') \<Longrightarrow> same_product t t' \<and> same_devices t t'"
  "confirm_tx uid step s d t = Inr (x, t') \<Longrightarrow> same_product t t' \<and> same_devices t t'"
  "disable_tx uid s d t = Inr (x, t') \<Longrightarrow> same_product t t' \<and> same_devices t t'"
  by (auto simp: enable_tx_def regenerate_tx_def clear_tx_def confirm_tx_def disable_tx_def tx_simps
      dest!: factor_frames user_frames insertBackupCodes_frame intro: tables_trans split: if_splits)

lemma device_tx_frames:
  "poll_tx cr cfg code s d t = Inr (p, t') \<Longrightarrow> same_product t t' \<and> same_users t t' \<and> same_factors t t'"
  "approve_tx caller row s d t = Inr (x, t') \<Longrightarrow> same_product t t' \<and> same_users t t' \<and> same_factors t t'"
  by (auto simp: poll_tx_def approve_tx_def tx_simps
      dest!: device_frames login_frames createSession_tx_frame simp: frame_eqs split: if_splits option.splits)

lemma project_tx_frames:
  "create_tx i name display creator s d t = Inr (p, t') \<Longrightarrow> same_users t t' \<and> same_factors t t' \<and> same_devices t t'"
  "create_env_tx i pid name priority creator s d t = Inr (e, t') \<Longrightarrow> same_users t t' \<and> same_factors t t' \<and> same_devices t t'"
  "rename_tx i pid name s d t = Inr (e, t') \<Longrightarrow> same_users t t' \<and> same_factors t t' \<and> same_devices t t'"
  "settings_tx i pid settings s d t = Inr (e, t') \<Longrightarrow> same_users t t' \<and> same_factors t t' \<and> same_devices t t'"
  "purge_tx i pid s d t = Inr (x, t') \<Longrightarrow> same_users t t' \<and> same_factors t t' \<and> same_devices t t'"
  "delete_project_tx pid s d t = Inr (b, t') \<Longrightarrow> same_users t t' \<and> same_factors t t' \<and> same_devices t t'"
  by (auto simp: purge_tx_def delete_project_tx_def create_tx_def create_env_tx_def rename_tx_def settings_tx_def updateEnvironmentSettings_def tx_simps
      dest!: product_frames simp: frame_eqs split: if_splits)

lemma create_user_tx_frame:
  "create_user_tx email name role phc s d t = Inr (u, t') \<Longrightarrow> same_product t t' \<and> same_factors t t' \<and> same_devices t t'"
  by (auto simp: create_user_tx_def tx_simps dest!: user_frames login_frames simp: frame_eqs)

lemma set_role_tx_frame:
  "set_role_tx uid role cur s d t = Inr (u, t') \<Longrightarrow> same_product t t' \<and> same_factors t t' \<and> same_devices t t'"
  by (auto simp: set_role_tx_def ensureAdminRemains_def tx_simps dest!: user_frames simp: frame_eqs split: if_splits)

end
