(* ===== verification/Server_Invariants.thy ===== *)
theory Server_Invariants
  imports Table_Frames
begin

text \<open>
  What holds of the tables in every state a server goes through, whatever
  requests run at the same time: the constraints of the schema, an instance
  admin, environment names that lead to one environment, promotion rules that
  name environments of the project. Each is proved on the commits of
  \<open>commit\<close> and carried to the executions of the server.
\<close>

section \<open>Admins\<close>

text \<open>The identifiers of the instance admins.\<close>

definition admin_ids :: "db \<Rightarrow> uuid list" where
  "admin_ids t = map u_ID (filter (\<lambda>u. u_Role u = ''admin'') (t_users t))"

definition has_admin :: "db \<Rightarrow> bool" where
  "has_admin t \<longleftrightarrow> admin_ids t \<noteq> []"

lemma same_users_admins: "same_users t t' \<Longrightarrow> admin_ids t' = admin_ids t"
  by (simp add: same_users_def admin_ids_def)

lemma admin_ids_update:
  "(\<And>u. u_ID (f u) = u_ID u) \<Longrightarrow> (\<And>u. u_Role (f u) = u_Role u) \<Longrightarrow> admin_ids (update_users f uid t) = admin_ids t"
  by (auto simp: admin_ids_def update_users_def filter_map comp_def intro!: arg_cong [where f = "map u_ID"] map_cong filter_cong)

lemma admin_updates:
  "SetUserName_q d uid name t = Inr (u, t') \<Longrightarrow> admin_ids t' = admin_ids t"
  "SetUserCreateProjects_q d uid b t = Inr (u, t') \<Longrightarrow> admin_ids t' = admin_ids t"
  "SetUserTwoFactorEnabled d uid b t = Inr (y, t') \<Longrightarrow> admin_ids t' = admin_ids t"
  by (auto simp: SetUserName_q_def SetUserCreateProjects_q_def SetUserTwoFactorEnabled_def update_user_one_def
      admin_ids_update elim!: frame_InrE split: option.splits)

lemma ensureAdminRemains_ok: "ensureAdminRemains d t = Inr x \<Longrightarrow> has_admin t"
  by (auto simp: ensureAdminRemains_def CountAdminsForUpdate_def has_admin_def admin_ids_def tx_simps
      elim!: frame_InrE split: if_splits)

lemma demoted_admins:
  assumes "SetUserRole_q d uid role t = Inr (u, t')" "role \<noteq> ''admin''"
  shows "admin_ids t' = filter (\<lambda>i. i \<noteq> uid) (admin_ids t)"
proof -
  have "t_users t' = map (\<lambda>u. if u_ID u = uid then u\<lparr>u_Role := role\<rparr> else u) (t_users t)"
    using assms(1) by (auto simp: SetUserRole_q_def update_user_one_def update_users_def
        elim!: frame_InrE split: if_splits option.splits)
  moreover have "map u_ID (filter (\<lambda>u. u_Role u = ''admin'') (map (\<lambda>u. if u_ID u = uid then u\<lparr>u_Role := role\<rparr> else u) us)) =
      filter (\<lambda>i. i \<noteq> uid) (map u_ID (filter (\<lambda>u. u_Role u = ''admin'') us))" for us
    using assms(2) by (induction us) auto
  ultimately show ?thesis by (simp add: admin_ids_def)
qed

lemma deleted_admins:
  assumes "DeleteUserByID d uid t = Inr (n, t')"
  shows "admin_ids t' = filter (\<lambda>i. i \<noteq> uid) (admin_ids t)"
proof -
  have "t_users t' = filter (\<lambda>u. u_ID u \<noteq> uid) (t_users t)"
    using assms by (auto simp: DeleteUserByID_def Let_def filter_empty_conv filter_id_conv elim!: frame_InrE split: if_splits)
  moreover have "map u_ID (filter (\<lambda>u. u_Role u = ''admin'') (filter (\<lambda>u. u_ID u \<noteq> uid) us)) =
      filter (\<lambda>i. i \<noteq> uid) (map u_ID (filter (\<lambda>u. u_Role u = ''admin'') us))" for us
    by (induction us) auto
  ultimately show ?thesis by (simp add: admin_ids_def)
qed

lemma filter_absent: "x \<notin> set xs \<Longrightarrow> filter (\<lambda>y. y \<noteq> x) xs = xs"
  by (induction xs) auto

text \<open>What the two writing actions leave, given what their reads said.\<close>

lemma set_role_tx_admins:
  assumes "set_role_tx uid role cur s d t = Inr (u, t')" "role \<noteq> ''admin''"
  shows "set (admin_ids t') \<subseteq> set (admin_ids t)"
    and "has_admin t \<Longrightarrow> u_Role cur \<noteq> ''admin'' \<Longrightarrow> uid \<notin> set (admin_ids t) \<Longrightarrow> has_admin t'"
    and "has_admin t \<Longrightarrow> u_Role cur = ''admin'' \<Longrightarrow> has_admin t'"
proof -
  from assms(1) consider "t' = t" | "SetUserRole_q d uid role t = Inr (u, t')"
      "u_Role cur = ''admin'' \<longrightarrow> ensureAdminRemains d t' = Inr ()"
    by (auto simp: set_role_tx_def RoleAdmin_def tx_simps split: if_splits)
  note c = this
  show "set (admin_ids t') \<subseteq> set (admin_ids t)"
    using c by cases (auto dest: demoted_admins [OF _ assms(2)])
  show "has_admin t \<Longrightarrow> u_Role cur \<noteq> ''admin'' \<Longrightarrow> uid \<notin> set (admin_ids t) \<Longrightarrow> has_admin t'"
    using c by cases (auto simp: has_admin_def filter_absent dest!: demoted_admins [OF _ assms(2)])
  show "has_admin t \<Longrightarrow> u_Role cur = ''admin'' \<Longrightarrow> has_admin t'"
    using c ensureAdminRemains_ok by cases auto
qed

lemma delete_user_tx_admins:
  assumes "delete_user_tx uid cur s d t = Inr (x, t')"
  shows "set (admin_ids t') \<subseteq> set (admin_ids t)"
    and "has_admin t \<Longrightarrow> u_Role cur \<noteq> ''admin'' \<Longrightarrow> uid \<notin> set (admin_ids t) \<Longrightarrow> has_admin t'"
    and "u_Role cur = ''admin'' \<Longrightarrow> has_admin t'"
proof -
  from assms obtain n where c: "DeleteUserByID d uid t = Inr (n, t')"
      "u_Role cur = ''admin'' \<longrightarrow> ensureAdminRemains d t' = Inr ()"
    by (auto simp: delete_user_tx_def RoleAdmin_def tx_simps split: if_splits)
  note d = deleted_admins [OF c(1)]
  show "set (admin_ids t') \<subseteq> set (admin_ids t)" by (auto simp: d)
  show "has_admin t \<Longrightarrow> u_Role cur \<noteq> ''admin'' \<Longrightarrow> uid \<notin> set (admin_ids t) \<Longrightarrow> has_admin t'"
    by (simp add: has_admin_def d filter_absent)
  show "u_Role cur = ''admin'' \<Longrightarrow> has_admin t'" using c(2) ensureAdminRemains_ok by blast
qed

lemma read_member:
  assumes "GetUserByID d uid t = Inr cur" "schema_ok t" "u_Role cur \<noteq> ''admin''"
  shows "uid \<notin> set (admin_ids t)"
proof -
  have "cur \<in> set (t_users t)" "u_ID cur = uid"
    using assms(1) by (auto simp: GetUserByID_def elim!: frame_InrE dest: find_SomeD)
  moreover have "v = w" if "v \<in> set (t_users t)" "w \<in> set (t_users t)" "u_ID v = u_ID w" for v w
    using assms(2) that by (auto simp: schema_ok_def keys_ok_def distinct_map inj_on_def)
  ultimately show ?thesis using assms(3) by (auto simp: admin_ids_def)
qed

text \<open>Requests that make a user an admin, and requests that change no admin.\<close>

definition makes_admin :: "request \<Rightarrow> bool" where
  "makes_admin q \<longleftrightarrow>
     (\<exists>email name password. q = Q_CreateUser email name password RoleAdmin) \<or> (\<exists>uid. q = Q_SetUserRole uid RoleAdmin)"

lemma create_user_tx_admins:
  assumes "create_user_tx email name role phc s d t = Inr (u, t')" "role \<noteq> ''admin''"
  shows "admin_ids t' = admin_ids t"
proof -
  from assms(1) obtain i t1 where c: "CreateUser_q d i email name role t = Inr (u, t1)" "same_users t1 t'"
    by (auto simp: create_user_tx_def tx_simps dest!: login_frames(1))
  then have "admin_ids t1 = admin_ids t"
    using assms(2) by (auto simp: CreateUser_q_def admin_ids_def Let_def elim!: frame_InrE split: if_splits)
  then show ?thesis using same_users_admins [OF c(2)] by simp
qed

lemma other_admin_tx:
  "clear_tx uid s d t = Inr (x, t') \<Longrightarrow> admin_ids t' = admin_ids t"
  "confirm_tx uid step s d t = Inr (x, t') \<Longrightarrow> admin_ids t' = admin_ids t"
  "disable_tx uid s d t = Inr (x, t') \<Longrightarrow> admin_ids t' = admin_ids t"
  by (auto simp: clear_tx_def confirm_tx_def disable_tx_def tx_simps dest!: factor_frames admin_updates(3)
      same_users_admins split: if_splits)

lemma commit_admins:
  assumes "commit cr cfg P q t t'" "\<not> makes_admin q"
    and "\<And>uid role. q \<noteq> Q_SetUserRole uid role" "\<And>uid. q \<noteq> Q_DeleteUser uid"
  shows "admin_ids t' = admin_ids t"
  using assms(1)
proof cases
  case 1
  then show ?thesis using create_user_tx_admins assms(2) by (auto simp: makes_admin_def RoleAdmin_def)
qed (use assms(3,4) in \<open>auto simp: session_row_def dest!: login_frames session_frames factor_frames device_frames
    product_frames session_tx_frames factor_tx_frames(1,2) device_tx_frames project_tx_frames same_users_admins
    other_admin_tx admin_updates\<close>)

section \<open>The constraints of the schema\<close>

lemma same_schema: "same_product t t' \<and> same_users t t' \<Longrightarrow> schema_ok t' = schema_ok t"
  by (simp add: frame_eqs schema_ok_def checks_ok_def)

lemma same_schemaD: "same_product t t' \<Longrightarrow> same_users t t' \<Longrightarrow> schema_ok t \<Longrightarrow> schema_ok t'"
  using same_schema by blast

lemma factor_user_schema:
  "clear_tx uid s d t = Inr (x, t') \<Longrightarrow> schema_ok t \<Longrightarrow> schema_ok t'"
  "confirm_tx uid step s d t = Inr (x, t') \<Longrightarrow> schema_ok t \<Longrightarrow> schema_ok t'"
  "disable_tx uid s d t = Inr (x, t') \<Longrightarrow> schema_ok t \<Longrightarrow> schema_ok t'"
  by (auto simp: clear_tx_def confirm_tx_def disable_tx_def tx_simps
      dest!: factor_frames split: if_splits)
    (blast dest: same_schemaD SetUserTwoFactorEnabled_schema)+

lemma user_tx_schema:
  "create_user_tx email name role phc s d t = Inr (u, t') \<Longrightarrow> schema_ok t \<Longrightarrow> schema_ok t'"
  "set_role_tx uid role cur s d t = Inr (u, t') \<Longrightarrow> schema_ok t \<Longrightarrow> schema_ok t'"
  "delete_user_tx uid cur s d t = Inr (x, t') \<Longrightarrow> schema_ok t \<Longrightarrow> schema_ok t'"
proof -
  assume h: "create_user_tx email name role phc s d t = Inr (u, t')" "schema_ok t"
  then obtain i t1 where c: "CreateUser_q d i email name role t = Inr (u, t1)" "same_product t1 t' \<and> same_users t1 t'"
    by (auto simp: create_user_tx_def tx_simps dest!: login_frames(1))
  then show "schema_ok t'" using CreateUser_q_schema [OF c(1) h(2)] same_schema [OF c(2)] by simp
next
  show "set_role_tx uid role cur s d t = Inr (u, t') \<Longrightarrow> schema_ok t \<Longrightarrow> schema_ok t'"
    by (auto simp: set_role_tx_def tx_simps dest: SetUserRole_q_schema split: if_splits)
  show "delete_user_tx uid cur s d t = Inr (x, t') \<Longrightarrow> schema_ok t \<Longrightarrow> schema_ok t'"
    by (auto simp: delete_user_tx_def tx_simps dest: DeleteUserByID_schema split: if_splits)
qed

lemma project_tx_schema:
  "create_tx i name display creator s d t = Inr (p, t') \<Longrightarrow> schema_ok t \<Longrightarrow> schema_ok t'"
  "rename_tx i pid name s d t = Inr (e, t') \<Longrightarrow> schema_ok t \<Longrightarrow> schema_ok t'"
  "settings_tx i pid settings s d t = Inr (e, t') \<Longrightarrow> schema_ok t \<Longrightarrow> schema_ok t'"
  "purge_tx i pid s d t = Inr (x, t') \<Longrightarrow> schema_ok t \<Longrightarrow> schema_ok t'"
  "delete_project_tx pid s d t = Inr (b, t') \<Longrightarrow> schema_ok t \<Longrightarrow> schema_ok t'"
  by (auto simp: purge_tx_def delete_project_tx_def create_tx_def rename_tx_def settings_tx_def updateEnvironmentSettings_def tx_simps
      dest: schema_keeps split: if_splits)

lemma create_env_txE:
  assumes "create_env_tx i pid name priority creator s d t = Inr (e, t')"
  obtains role t1 t2 where "CreateEnvironment_q d i pid name role priority t = Inr (e, t1)"
    "CreateEnvironmentTarget d (e_ID e) t1 = Inr ((), t2)"
    "t' = t2 \<or> (\<exists>a r'. UpsertEnvironmentAccess d (e_ID e) pid creator r' t2 = Inr (a, t'))"
    "GetEnvironmentNameOwner d pid name t = Inl ErrNoRows"
proof -
  define role where "role = Role_String (if priority = ''high'' then Read else Admin)"
  have "\<exists>t1 t2. CreateEnvironment_q d i pid name role priority t = Inr (e, t1) \<and>
      CreateEnvironmentTarget d (e_ID e) t1 = Inr ((), t2) \<and>
      (t' = t2 \<or> (\<exists>a r'. UpsertEnvironmentAccess d (e_ID e) pid creator r' t2 = Inr (a, t'))) \<and>
      GetEnvironmentNameOwner d pid name t = Inl ErrNoRows"
    using assms unfolding create_env_tx_def role_def [symmetric]
    by (auto simp: tx_simps split: if_splits)
  then show thesis using that by blast
qed

lemma create_env_tx_schema:
  assumes "create_env_tx i pid name priority creator s d t = Inr (e, t')" "schema_ok t"
  shows "schema_ok t'"
  using assms(1)
proof (cases rule: create_env_txE)
  case (1 role t1 t2)
  then have "schema_ok t2"
    using CreateEnvironmentTarget_schema CreateEnvironment_q_schema assms(2) by blast
  then show ?thesis using 1(3) UpsertEnvironmentAccess_schema by blast
qed

lemma commit_schema:
  assumes "commit cr cfg P q t t'" "schema_ok t"
  shows "schema_ok t'"
  using assms(1)
proof cases
  case 36
  then show ?thesis using create_env_tx_schema assms by blast
qed (use assms(2) in \<open>auto simp: session_row_def dest!: login_frames session_frames factor_frames device_frames
    session_tx_frames factor_tx_frames(1,2) device_tx_frames intro: same_schemaD user_tx_schema factor_user_schema
    project_tx_schema SetUserName_q_schema SetUserCreateProjects_q_schema UpdateProject_schema DeleteEnvironmentByID_schema
    UpsertProjectMember_schema DeleteProjectMember_schema UpsertEnvironmentAccess_schema DeleteEnvironmentAccess_schema\<close>)

section \<open>An admin remains\<close>

text \<open>Admins are not made: whoever is an admin afterwards was one before.\<close>

definition no_new_admins :: "sys \<Rightarrow> sys \<Rightarrow> bool" where
  "no_new_admins s s' \<longleftrightarrow> set (admin_ids (sy_db s')) \<subseteq> set (admin_ids (sy_db s))"

definition administered :: "sys \<Rightarrow> bool" where
  "administered s \<longleftrightarrow> schema_ok (sy_db s) \<and> has_admin (sy_db s)"

lemma no_new_admins_steps: "no_new_admins\<^sup>*\<^sup>* s s' \<Longrightarrow> no_new_admins s s'"
  by (induction rule: rtranclp_induct) (auto simp: no_new_admins_def)

text \<open>A role read as member is still not admin when the transaction writes.\<close>

lemma rg_after_read_user:
  assumes "\<And>cur s1 s2. administered s1 \<Longrightarrow> (u_Role cur \<noteq> ''admin'' \<longrightarrow> uid \<notin> set (admin_ids (sy_db s1))) \<Longrightarrow>
    rg administered no_new_admins (k cur) s1"
  shows "rg administered no_new_admins (after (read_user uid) k) s"
  unfolding after_def read_user_def tx_first_def
proof (rule rg_act_pbind)
  fix s1 assume "administered s1"
  then show "administered (snd ((case drv_fails (sy_driver s1) ''Begin'' of Some e \<Rightarrow> Inl (AuthStore (Failure e))
        | None \<Rightarrow> map_err (no_rows ErrNotFound) (GetUserByID (sy_driver s1) uid (sy_db s1))), s1)) \<and>
      no_new_admins s1 (snd ((case drv_fails (sy_driver s1) ''Begin'' of Some e \<Rightarrow> Inl (AuthStore (Failure e))
        | None \<Rightarrow> map_err (no_rows ErrNotFound) (GetUserByID (sy_driver s1) uid (sy_db s1))), s1)) \<and>
      rg administered no_new_admins
        (case fst ((case drv_fails (sy_driver s1) ''Begin'' of Some e \<Rightarrow> Inl (AuthStore (Failure e))
          | None \<Rightarrow> map_err (no_rows ErrNotFound) (GetUserByID (sy_driver s1) uid (sy_db s1))), s1) of
           Inl e \<Rightarrow> Ret (Inl e) | Inr x \<Rightarrow> k x)
        (snd ((case drv_fails (sy_driver s1) ''Begin'' of Some e \<Rightarrow> Inl (AuthStore (Failure e))
          | None \<Rightarrow> map_err (no_rows ErrNotFound) (GetUserByID (sy_driver s1) uid (sy_db s1))), s1))"
    using assms [of s1] read_member [of "sy_driver s1" uid "sy_db s1"]
    by (auto simp: no_new_admins_def administered_def split: option.split sum.split)
qed

lemma rg_tx_rest:
  assumes "\<And>s1 d x t'. no_new_admins s s1 \<Longrightarrow> administered s1 \<Longrightarrow> f s1 d (sy_db s1) = Inr (x, t') \<Longrightarrow>
    schema_ok t' \<and> has_admin t' \<and> set (admin_ids t') \<subseteq> set (admin_ids (sy_db s1))"
  shows "rg administered no_new_admins (tx_rest wrap f) s"
  unfolding tx_rest_def rg_act
proof (intro allI impI)
  fix s1 assume "no_new_admins\<^sup>*\<^sup>* s s1" and a: "administered s1"
  note n = no_new_admins_steps [OF this(1)]
  define r where "r = bind_r (f s1 (sy_driver s1) (sy_db s1)) (\<lambda>r. case drv_fails (sy_driver s1) ''Commit'' of
      Some e \<Rightarrow> Inl (wrap (Failure e)) | None \<Rightarrow> Inr r)"
  have "r = Inr (x, t') \<Longrightarrow> f s1 (sy_driver s1) (sy_db s1) = Inr (x, t')" for x t'
    by (auto simp: r_def bind_r_Inr split: option.splits)
  with assms [OF n a, of "sy_driver s1"] a
  have "administered (snd (case settle (sy_db s1) r of (r, t) \<Rightarrow> (r, s1\<lparr>sy_db := t\<rparr>))) \<and>
      no_new_admins s1 (snd (case settle (sy_db s1) r of (r, t) \<Rightarrow> (r, s1\<lparr>sy_db := t\<rparr>)))"
    by (cases r) (simp_all add: settle_def administered_def no_new_admins_def split: prod.split, blast?)
  then show "administered (snd (case settle (sy_db s1) (bind_r (f s1 (sy_driver s1) (sy_db s1)) (\<lambda>r. case drv_fails (sy_driver s1) ''Commit'' of
      Some e \<Rightarrow> Inl (wrap (Failure e)) | None \<Rightarrow> Inr r)) of (r, t) \<Rightarrow> (r, s1\<lparr>sy_db := t\<rparr>))) \<and>
    no_new_admins s1 (snd (case settle (sy_db s1) (bind_r (f s1 (sy_driver s1) (sy_db s1)) (\<lambda>r. case drv_fails (sy_driver s1) ''Commit'' of
      Some e \<Rightarrow> Inl (wrap (Failure e)) | None \<Rightarrow> Inr r)) of (r, t) \<Rightarrow> (r, s1\<lparr>sy_db := t\<rparr>)))"
    unfolding r_def .
qed

lemma rg_SetUserRole:
  assumes "role \<noteq> RoleAdmin"
  shows "rg administered no_new_admins (SetUserRole uid role) s"
proof -
  have role: "role \<noteq> ''admin''" using assms by (simp add: RoleAdmin_def)
  have "rg administered no_new_admins (tx_rest AuthStore (set_role_tx uid role cur)) s1"
    if "u_Role cur \<noteq> ''admin'' \<longrightarrow> uid \<notin> set (admin_ids (sy_db s1))" for cur s1
  proof (rule rg_tx_rest)
    fix s2 d x t'
    assume h: "no_new_admins s1 s2" "administered s2" "set_role_tx uid role cur s2 d (sy_db s2) = Inr (x, t')"
    then have "commit undefined undefined (\<lambda>_ _. True) (Q_SetUserRole uid role) (sy_db s2) t'"
      by (blast intro: commit.intros(2))
    then have "schema_ok t'" using h(2) commit_schema by (auto simp: administered_def)
    moreover have "has_admin t'"
      using set_role_tx_admins(2,3) [OF h(3) role] that h(1,2) by (cases "u_Role cur = ''admin''") (auto simp: administered_def no_new_admins_def)
    ultimately show "schema_ok t' \<and> has_admin t' \<and> set (admin_ids t') \<subseteq> set (admin_ids (sy_db s2))"
      using set_role_tx_admins(1) [OF h(3) role] by blast
  qed
  then show ?thesis unfolding SetUserRole_def by (auto intro!: rg_after_read_user)
qed

lemma rg_DeleteUser: "rg administered no_new_admins (DeleteUser uid) s"
  unfolding DeleteUser_def
proof (rule rg_after_read_user, rule rg_tx_rest)
  fix cur s1 s2 d x t'
  assume r: "u_Role cur \<noteq> ''admin'' \<longrightarrow> uid \<notin> set (admin_ids (sy_db s1))"
    and h: "no_new_admins s1 s2" "administered s2" "delete_user_tx uid cur s2 d (sy_db s2) = Inr (x, t')"
  then have "commit undefined undefined (\<lambda>_ _. True) (Q_DeleteUser uid) (sy_db s2) t'"
    by (blast intro: commit.intros(5))
  then have "schema_ok t'" using h(2) commit_schema by (auto simp: administered_def)
  moreover have "has_admin t'"
    using delete_user_tx_admins(2,3) [OF h(3)] r h(1,2) by (cases "u_Role cur = ''admin''") (auto simp: administered_def no_new_admins_def)
  ultimately show "schema_ok t' \<and> has_admin t' \<and> set (admin_ids t') \<subseteq> set (admin_ids (sy_db s2))"
    using delete_user_tx_admins(1) [OF h(3)] by blast
qed

lemma rg_program:
  assumes "\<not> makes_admin q"
  shows "rg administered no_new_admins (program cr cfg q) s"
proof (cases "(\<exists>uid role. q = Q_SetUserRole uid role) \<or> (\<exists>uid. q = Q_DeleteUser uid)")
  case True
  then show ?thesis
    using assms rg_SetUserRole rg_DeleteUser by (auto simp: makes_admin_def void_def intro!: rg_pbind_Ret [where g = "\<lambda>_. ()"])
next
  case False
  have "guar administered (keeps (commits cr cfg (\<lambda>_ _. True) q)) (program cr cfg q)"
    by (rule program_commits) (simp add: reads_ok_def)
  then have "guar administered (\<lambda>s s'. administered s' \<and> no_new_admins s s') (program cr cfg q)"
  proof (rule guar_mono)
    fix s s' assume a: "administered s" "keeps (commits cr cfg (\<lambda>_ _. True) q) s s'"
    then show "administered s' \<and> no_new_admins s s'"
    proof (cases "sy_db s' = sy_db s")
      case True
      then show ?thesis using a(1) by (simp add: administered_def no_new_admins_def)
    next
      case nc: False
      then have c: "commit cr cfg (\<lambda>_ _. True) q (sy_db s) (sy_db s')" using a(2) by (simp add: keeps_def commits_def)
      have "admin_ids (sy_db s') = admin_ids (sy_db s)" using False by (intro commit_admins [OF c assms]) auto
      moreover have "schema_ok (sy_db s')" using commit_schema [OF c] a(1) by (simp add: administered_def)
      ultimately show ?thesis using a(1) by (simp add: administered_def no_new_admins_def has_admin_def)
    qed
  qed
  then show ?thesis by (rule guar_rg)
qed

interpretation admins: relied "taking (\<lambda>q. \<not> makes_admin q) (program cr cfg)" outside administered no_new_admins for cr cfg
proof
  show "rg administered no_new_admins (taking (\<lambda>q. \<not> makes_admin q) (program cr cfg) q) s" for q s
    using rg_program by (simp add: taking_def)
  show "outside s s' \<Longrightarrow> administered s \<Longrightarrow> administered s' \<and> no_new_admins s s'" for s s'
    by (simp add: outside_def administered_def no_new_admins_def)
qed

section \<open>Environment names\<close>

text \<open>Current and previous names lead to one environment of a project.\<close>

definition names_ok :: "db \<Rightarrow> bool" where
  "names_ok t \<longleftrightarrow>
     (\<forall>a \<in> set (t_environments t). \<forall>b \<in> set (t_environments t).
        e_ProjectID a = e_ProjectID b \<and> set (names_of a) \<inter> set (names_of b) \<noteq> {} \<longrightarrow> e_ID a = e_ID b)"

text \<open>Identifiers are not reused: an environment is always found in the project \<open>home\<close> gives it.\<close>

definition at_home :: "(uuid \<Rightarrow> uuid) \<Rightarrow> db \<Rightarrow> bool" where
  "at_home home t \<longleftrightarrow> (\<forall>e \<in> set (t_environments t). e_ProjectID e = home (e_ID e))"

text \<open>Promotion rules name other environments of the project by their current names.\<close>

definition promotions_ok :: "db \<Rightarrow> bool" where
  "promotions_ok t \<longleftrightarrow>
     (\<forall>e \<in> set (t_environments t). \<forall>n \<in> set (e_PromoteFrom e).
        \<exists>b \<in> set (t_environments t). e_ProjectID b = e_ProjectID e \<and> e_ID b \<noteq> e_ID e \<and> e_Name b = n)"

lemma env_frames:
  "CreateProject d i name dn sm t = Inr (x1, t') \<Longrightarrow> t_environments t' = t_environments t"
  "UpdateProject d i dn sm t = Inr (x1, t') \<Longrightarrow> t_environments t' = t_environments t"
  "CreateEnvironmentTarget d i t = Inr (x2, t') \<Longrightarrow> t_environments t' = t_environments t"
  "UpsertProjectMember d pid uid ro t = Inr (x3, t') \<Longrightarrow> t_environments t' = t_environments t"
  "DeleteProjectMember d pid uid t = Inr (x4, t') \<Longrightarrow> t_environments t' = t_environments t"
  "UpsertEnvironmentAccess d i pid uid ro t = Inr (x5, t') \<Longrightarrow> t_environments t' = t_environments t"
  "DeleteEnvironmentAccess d i uid t = Inr (x4, t') \<Longrightarrow> t_environments t' = t_environments t"
  "DeleteUserByID d i t = Inr (x4, t') \<Longrightarrow> t_environments t' = t_environments t"
  "MarkProjectDeleting d i t = Inr (x6, t') \<Longrightarrow> t_environments t' = t_environments t"
  "DeleteDeletingProjectIfEmpty d i t = Inr (x4, t') \<Longrightarrow> t_environments t' = t_environments t"
  by (auto simp: store_stmt_defs DeleteUserByID_def delete_sessions_def delete_two_factors_def Let_def
      elim!: frame_InrE split: if_splits option.splits)

lemma env_tx_frames:
  "create_tx i name display creator s d t = Inr (p, t') \<Longrightarrow> t_environments t' = t_environments t"
  "delete_user_tx uid cur s d t = Inr (x, t') \<Longrightarrow> t_environments t' = t_environments t"
  "delete_project_tx pid s d t = Inr (b, t') \<Longrightarrow> t_environments t' = t_environments t"
  by (auto simp: create_tx_def delete_user_tx_def delete_project_tx_def tx_simps dest!: env_frames split: if_splits)

lemma create_env_rows:
  assumes "create_env_tx i pid name priority creator s d t = Inr (e, t')"
  shows "t_environments t' = t_environments t @ [e]" "e_ProjectID e = pid" "names_of e = [name]" "e_PromoteFrom e = []"
    "\<forall>x \<in> set (t_environments t). e_ID x \<noteq> e_ID e"
    "\<forall>x \<in> set (t_environments t). e_ProjectID x = pid \<longrightarrow> name \<notin> set (names_of x)"
proof -
  from assms obtain role t1 t2 where c: "CreateEnvironment_q d i pid name role priority t = Inr (e, t1)"
    "t_environments t' = t_environments t1" "GetEnvironmentNameOwner d pid name t = Inl ErrNoRows"
    by (cases rule: create_env_txE) (auto dest!: env_frames)
  from c(1) have "t_environments t1 = t_environments t @ [e]" "e_ProjectID e = pid" "names_of e = [name]"
    "e_PromoteFrom e = []" "\<forall>x \<in> set (t_environments t). e_ID x \<noteq> e_ID e"
    by (auto simp: CreateEnvironment_q_def Let_def names_of_def list_ex_iff elim!: frame_InrE split: if_splits)
  then show "t_environments t' = t_environments t @ [e]" "e_ProjectID e = pid" "names_of e = [name]"
    "e_PromoteFrom e = []" "\<forall>x \<in> set (t_environments t). e_ID x \<noteq> e_ID e"
    using c(2) by auto
  show "\<forall>x \<in> set (t_environments t). e_ProjectID x = pid \<longrightarrow> name \<notin> set (names_of x)"
    using c(3) by (auto simp: GetEnvironmentNameOwner_def one_row_def stmt_def find_None_iff split: option.splits)
qed

lemma names_create:
  assumes "create_env_tx i pid name priority creator s d t = Inr (e, t')" "names_ok t"
  shows "names_ok t'"
proof -
  note r = create_env_rows [OF assms(1)]
  have "e_ProjectID x = pid \<Longrightarrow> x \<in> set (t_environments t) \<Longrightarrow> name \<notin> set (names_of x)" for x using r(6) by blast
  then show ?thesis using assms(2) unfolding names_ok_def r(1) by (auto simp: r(2,3))
qed

lemma promotions_create:
  assumes "create_env_tx i pid name priority creator s d t = Inr (e, t')" "promotions_ok t"
  shows "promotions_ok t'"
  using assms(2) create_env_rows [OF assms(1)] by (fastforce simp: promotions_ok_def)

definition renamed_source :: "uuid \<Rightarrow> string \<Rightarrow> string \<Rightarrow> Environment \<Rightarrow> Environment" where
  "renamed_source pid old new e =
     (if e_ProjectID e = pid \<and> old \<in> set (e_PromoteFrom e)
      then e\<lparr>e_PromoteFrom := map (\<lambda>n. if n = old then new else n) (e_PromoteFrom e)\<rparr> else e)"

lemma renamed_source_simps [simp]:
  "e_ID (renamed_source pid old new e) = e_ID e" "e_ProjectID (renamed_source pid old new e) = e_ProjectID e"
  "e_Name (renamed_source pid old new e) = e_Name e" "names_of (renamed_source pid old new e) = names_of e"
  by (simp_all add: renamed_source_def names_of_def)

lemma renamed_simps [simp]:
  "e_ID (renamed name e) = e_ID e" "e_ProjectID (renamed name e) = e_ProjectID e" "e_Name (renamed name e) = name"
  "set (names_of (renamed name e)) = insert name (set (names_of e))" "e_PromoteFrom (renamed name e) = e_PromoteFrom e"
  by (auto simp: renamed_def names_of_def)

lemma rename_rows:
  assumes "rename_tx i pid name s d t = Inr (e, t')"
  obtains (same) "t' = t"
  | (moved) current where "find (\<lambda>e. e_ID e = i) (t_environments t) = Some current"
      "t_environments t' = map (renamed_source pid (e_Name current) name \<circ> (\<lambda>e. if e_ID e = i then renamed name e else e)) (t_environments t)"
      "\<forall>o' \<in> set (t_environments t). e_ProjectID o' = pid \<and> name \<in> set (names_of o') \<longrightarrow>
         (\<exists>o'' \<in> set (t_environments t). e_ProjectID o'' = pid \<and> name \<in> set (names_of o'') \<and> e_ID o'' = i)"
proof -
  from assms obtain current where cur: "GetEnvironmentByID d i t = Inr current" and
    c: "t' = t \<or> (\<exists>e1 t1. RenameEnvironment_q d i name t = Inr (e1, t1) \<and>
      RenamePromotionSources d pid (e_Name current) name t1 = Inr ((), t') \<and>
      (\<forall>o'. GetEnvironmentNameOwner d pid name t = Inr o' \<longrightarrow> e_ID o' = i) \<and>
      (\<forall>e. GetEnvironmentNameOwner d pid name t = Inl e \<longrightarrow> e = ErrNoRows))"
    by (auto simp: rename_tx_def tx_simps split: if_splits sum.splits)
  have f: "find (\<lambda>e. e_ID e = i) (t_environments t) = Some current"
    using cur by (auto simp: GetEnvironmentByID_def elim!: frame_InrE)
  from c show thesis
  proof
    assume "t' = t"
    then show thesis by (rule same)
  next
    assume "\<exists>e1 t1. RenameEnvironment_q d i name t = Inr (e1, t1) \<and>
      RenamePromotionSources d pid (e_Name current) name t1 = Inr ((), t') \<and>
      (\<forall>o'. GetEnvironmentNameOwner d pid name t = Inr o' \<longrightarrow> e_ID o' = i) \<and>
      (\<forall>e. GetEnvironmentNameOwner d pid name t = Inl e \<longrightarrow> e = ErrNoRows)"
    then obtain e1 t1 where q: "RenameEnvironment_q d i name t = Inr (e1, t1)"
      "RenamePromotionSources d pid (e_Name current) name t1 = Inr ((), t')"
      "\<And>o'. GetEnvironmentNameOwner d pid name t = Inr o' \<Longrightarrow> e_ID o' = i"
      "\<And>e. GetEnvironmentNameOwner d pid name t = Inl e \<Longrightarrow> e = ErrNoRows" by blast
    have t1: "t_environments t1 = map (\<lambda>e. if e_ID e = i then renamed name e else e) (t_environments t)"
      using q(1) by (auto simp: RenameEnvironment_q_def update_env_one_def elim!: frame_InrE split: if_splits option.splits)
    have t': "t_environments t' = map (renamed_source pid (e_Name current) name) (t_environments t1)"
      using q(2) by (auto simp: RenamePromotionSources_def renamed_source_def elim!: frame_InrE)
    have own: "\<forall>o' \<in> set (t_environments t). e_ProjectID o' = pid \<and> name \<in> set (names_of o') \<longrightarrow>
         (\<exists>o'' \<in> set (t_environments t). e_ProjectID o'' = pid \<and> name \<in> set (names_of o'') \<and> e_ID o'' = i)"
    proof (cases "GetEnvironmentNameOwner d pid name t")
      case (Inl e)
      then have "find (\<lambda>e. e_ProjectID e = pid \<and> name \<in> set (names_of e)) (t_environments t) = None"
        using q(4) by (auto simp: GetEnvironmentNameOwner_def stmt_def one_row_def split: option.splits)
      then show ?thesis by (auto simp: find_None_iff)
    next
      case (Inr o')
      then have "e_ID o' = i" "find (\<lambda>e. e_ProjectID e = pid \<and> name \<in> set (names_of e)) (t_environments t) = Some o'"
        using q(3) by (auto simp: GetEnvironmentNameOwner_def elim!: frame_InrE)
      then show ?thesis using find_SomeD by fastforce
    qed
    show thesis
      using moved [OF f _ own] t' t1 by simp
  qed
qed

lemma names_keep:
  assumes "t_environments t' = map g (t_environments t)" "names_ok t"
    and "\<And>e. e \<in> set (t_environments t) \<Longrightarrow> e_ID (g e) = e_ID e \<and> e_ProjectID (g e) = e_ProjectID e \<and> set (names_of (g e)) \<subseteq> set (names_of e)"
  shows "names_ok t'"
  unfolding names_ok_def assms(1)
proof (clarsimp)
  fix a b assume h: "a \<in> set (t_environments t)" "b \<in> set (t_environments t)"
    "e_ProjectID (g a) = e_ProjectID (g b)" "set (names_of (g a)) \<inter> set (names_of (g b)) \<noteq> {}"
  then have "e_ProjectID a = e_ProjectID b" "set (names_of a) \<inter> set (names_of b) \<noteq> {}"
    using assms(3) [OF h(1)] assms(3) [OF h(2)] by auto
  then show "e_ID (g a) = e_ID (g b)"
    using assms(2,3) h by (simp add: names_ok_def)
qed

lemma names_rename:
  assumes "rename_tx i (home i) name s d t = Inr (e, t')" "names_ok t" "at_home home t"
  shows "names_ok t'"
  using assms(1)
proof (cases rule: rename_rows)
  case same
  then show ?thesis using assms(2) by simp
next
  case (moved current)
  let ?g = "renamed_source (home i) (e_Name current) name \<circ> (\<lambda>e. if e_ID e = i then renamed name e else e)"
  have g: "e_ID (?g x) = e_ID x" "e_ProjectID (?g x) = e_ProjectID x"
    "set (names_of (?g x)) = (if e_ID x = i then insert name (set (names_of x)) else set (names_of x))" for x
    by simp_all
  have old: "e_ID a = e_ID b"
    if "a \<in> set (t_environments t)" "b \<in> set (t_environments t)" "e_ProjectID a = e_ProjectID b"
      "n \<in> set (names_of a)" "n \<in> set (names_of b)" for a b n
    using assms(2) that unfolding names_ok_def by blast
  have new: "e_ID b = i" if "b \<in> set (t_environments t)" "e_ProjectID b = home i" "name \<in> set (names_of b)" for b
    using moved(3) that old by metis
  show ?thesis
    unfolding names_ok_def moved(2)
  proof (intro ballI impI, elim conjE)
    fix a' b' assume h: "a' \<in> set (map ?g (t_environments t))" "b' \<in> set (map ?g (t_environments t))"
      "e_ProjectID a' = e_ProjectID b'" "set (names_of a') \<inter> set (names_of b') \<noteq> {}"
    from h(1,2) obtain a b where ab: "a' = ?g a" "b' = ?g b" "a \<in> set (t_environments t)" "b \<in> set (t_environments t)"
      unfolding set_map by blast
    have p: "e_ProjectID a = e_ProjectID b" using h(3) unfolding ab g .
    have hm: "e_ProjectID a = home (e_ID a)" "e_ProjectID b = home (e_ID b)"
      using assms(3) ab by (auto simp: at_home_def)
    from h(4) obtain n where n: "n \<in> set (names_of a')" "n \<in> set (names_of b')" by blast
    have "e_ID a = e_ID b"
      using n old [OF ab(3,4) p] new [OF ab(3)] new [OF ab(4)] p hm unfolding ab g by (auto split: if_splits)
    then show "e_ID a' = e_ID b'" unfolding ab g .
  qed
qed

lemma settings_rows:
  assumes "settings_tx i pid settings s d t = Inr (e, t')"
  obtains current promoteFrom f where "find (\<lambda>e. e_ID e = i) (t_environments t) = Some current"
    "t_environments t' = map (\<lambda>e. if e_ID e = i then f e else e) (t_environments t)"
    "\<And>e. e_ID (f e) = e_ID e" "\<And>e. e_ProjectID (f e) = e_ProjectID e" "\<And>e. names_of (f e) = names_of e"
    "\<And>e. e_Name (f e) = e_Name e" "\<And>e. e_PromoteFrom (f e) = promoteFrom"
    "set_PromoteFrom settings = [] \<and> promoteFrom = [] \<or>
       (\<exists>siblings. ListEnvironments d (e_ProjectID current) t = Inr siblings \<and>
          canonical_names (known_names i siblings) [] (set_PromoteFrom settings) = Inr promoteFrom)"
proof -
  from assms obtain current schedule retention strategy promoteFrom where
    cur: "GetEnvironmentByID d i t = Inr current" and
    u: "UpdateEnvironmentSettings_q d (e_ID current)
             (\<lambda>e. e\<lparr>e_MaxRole := Role_String (set_MaxRole settings), e_DeployPolicy := set_DeployPolicy settings,
                    e_PromoteFrom := promoteFrom, e_Priority := set_Priority settings,
                    e_BackupSchedule := schedule, e_BackupRetentionSeconds := retention,
                    e_BackupStrategy := strategy\<rparr>) t = Inr (e, t')" (is "UpdateEnvironmentSettings_q d _ ?f t = _") and
    p: "set_PromoteFrom settings = [] \<and> promoteFrom = [] \<or>
       (\<exists>siblings. ListEnvironments d (e_ProjectID current) t = Inr siblings \<and>
          canonical_names (known_names (e_ID current) siblings) [] (set_PromoteFrom settings) = Inr promoteFrom)"
    unfolding settings_tx_def updateEnvironmentSettings_def
    by (auto simp: tx_simps split: if_splits prod.splits)
  have f: "find (\<lambda>e. e_ID e = i) (t_environments t) = Some current"
    using cur by (auto simp: GetEnvironmentByID_def elim!: frame_InrE)
  then have ci: "e_ID current = i" by (auto dest: find_SomeD)
  have "t_environments t' = map (\<lambda>e. if e_ID e = i then ?f e else e) (t_environments t)"
    using u unfolding ci by (auto simp: UpdateEnvironmentSettings_q_def update_env_one_def elim!: frame_InrE split: if_splits option.splits)
  from that [OF f this _ _ _ _ _ p [unfolded ci]] show thesis by (simp add: names_of_def)
qed

lemma names_settings: "settings_tx i pid settings s d t = Inr (e, t') \<Longrightarrow> names_ok t \<Longrightarrow> names_ok t'"
  by (erule settings_rows, erule names_keep) auto

lemma delete_env_rows: "DeleteEnvironmentByID d i t = Inr (n, t') \<Longrightarrow> t_environments t' = filter (\<lambda>e. e_ID e \<noteq> i) (t_environments t)"
  by (auto simp: DeleteEnvironmentByID_def Let_def filter_empty_conv filter_id_conv elim!: frame_InrE split: if_splits)

lemma purge_env_rows: "purge_tx i pid s d t = Inr (x, t') \<Longrightarrow> t_environments t' = filter (\<lambda>e. e_ID e \<noteq> i) (t_environments t)"
  by (auto simp: purge_tx_def tx_simps dest!: delete_env_rows env_frames)

lemma names_delete: "t_environments t' = filter P (t_environments t) \<Longrightarrow> names_ok t \<Longrightarrow> names_ok t'"
  by (auto simp: names_ok_def)

definition deletes_environment :: "request \<Rightarrow> bool" where
  "deletes_environment q \<longleftrightarrow> (\<exists>i. q = Q_DeleteEnvironment i \<or> q = Q_PurgeEnvironment i)"

text \<open>The commits that touch the environments.\<close>

lemma commit_environments:
  assumes "commit cr cfg P q t t'"
  obtains (kept) "t_environments t' = t_environments t"
  | (create) i pid name priority creator s d e where "create_env_tx i pid name priority creator s d t = Inr (e, t')"
  | (rename) i pid name s d e where "P i pid" "rename_tx i pid name s d t = Inr (e, t')"
  | (settings) i pid settings s d e where "P i pid" "settings_tx i pid settings s d t = Inr (e, t')"
  | (delete) i where "deletes_environment q" "t_environments t' = filter (\<lambda>e. e_ID e \<noteq> i) (t_environments t)"
proof -
  have eq: "t_environments t' = t_environments t" if "same_product t t'" for t' using that by (simp add: same_product_def)
  show thesis using assms
  proof cases
    case 36
    then show thesis using create by blast
  next
    case 37
    then show thesis using rename by blast
  next
    case 38
    then show thesis using delete delete_env_rows by (auto simp: deletes_environment_def)
  next
    case 44
    then show thesis using delete purge_env_rows by (auto simp: deletes_environment_def)
  next
    case 43
    then show thesis using settings by blast
  qed (rule kept; auto simp: session_row_def dest!: login_frames session_frames factor_frames device_frames user_frames
      session_tx_frames factor_tx_frames device_tx_frames create_user_tx_frame set_role_tx_frame eq env_frames env_tx_frames)+
qed

lemma names_ok_eq: "t_environments t' = t_environments t \<Longrightarrow> names_ok t' = names_ok t"
  "t_environments t' = t_environments t \<Longrightarrow> promotions_ok t' = promotions_ok t"
  by (simp_all add: names_ok_def promotions_ok_def)

lemma commit_names:
  assumes "commit cr cfg (\<lambda>i p. p = home i) q t t'" "names_ok t" "at_home home t"
  shows "names_ok t'"
  using assms(1)
proof (cases rule: commit_environments)
  case kept
  then show ?thesis using assms(2) names_ok_eq by blast
next
  case create
  then show ?thesis using assms(2) names_create by blast
next
  case (rename i)
  then show ?thesis using assms(2,3) names_rename by blast
next
  case settings
  then show ?thesis using assms(2) names_settings by blast
next
  case delete
  then show ?thesis using assms(2) names_delete by blast
qed

lemma names_okD:
  "names_ok t \<Longrightarrow> a \<in> set (t_environments t) \<Longrightarrow> b \<in> set (t_environments t) \<Longrightarrow> e_ProjectID a = e_ProjectID b \<Longrightarrow>
   n \<in> set (names_of a) \<Longrightarrow> n \<in> set (names_of b) \<Longrightarrow> e_ID a = e_ID b"
  unfolding names_ok_def by blast

lemma current_name [simp]: "e_Name e \<in> set (names_of e)"
  by (simp add: names_of_def)

lemma promotions_rename:
  assumes "rename_tx i (home i) name s d t = Inr (e, t')" "promotions_ok t" "names_ok t" "at_home home t" "schema_ok t"
  shows "promotions_ok t'"
  using assms(1)
proof (cases rule: rename_rows)
  case same
  then show ?thesis using assms(2) by simp
next
  case (moved current)
  let ?g = "renamed_source (home i) (e_Name current) name \<circ> (\<lambda>e. if e_ID e = i then renamed name e else e)"
  have cur: "current \<in> set (t_environments t)" "e_ID current = i" "e_ProjectID current = home i"
    using moved(1) assms(4) by (auto simp: at_home_def dest: find_SomeD)
  have g: "e_ID (?g x) = e_ID x" "e_ProjectID (?g x) = e_ProjectID x"
    "e_Name (?g x) = (if e_ID x = i then name else e_Name x)" for x
    by simp_all
  have gp: "\<exists>n0 \<in> set (e_PromoteFrom x). n = (if e_ProjectID x = home i \<and> n0 = e_Name current then name else n0)"
    if "n \<in> set (e_PromoteFrom (?g x))" for x n
  proof (cases "e_ProjectID x = home i \<and> e_Name current \<in> set (e_PromoteFrom x)")
    case True
    then show ?thesis using that by (auto simp: renamed_source_def split: if_splits)
  next
    case False
    then have "n \<in> set (e_PromoteFrom x)" using that by (auto simp: renamed_source_def split: if_splits)
    then show ?thesis using False by (intro bexI [of _ n]) auto
  qed
  show ?thesis
    unfolding promotions_ok_def moved(2)
  proof (intro ballI)
    fix e' n assume h: "e' \<in> set (map ?g (t_environments t))" "n \<in> set (e_PromoteFrom e')"
    then obtain e where e: "e \<in> set (t_environments t)" "e' = ?g e" unfolding set_map by blast
    from gp h(2) e(2) obtain n0 where n0: "n0 \<in> set (e_PromoteFrom e)"
      "n = (if e_ProjectID e = home i \<and> n0 = e_Name current then name else n0)" by blast
    from assms(2) e(1) n0(1) obtain b where b: "b \<in> set (t_environments t)" "e_ProjectID b = e_ProjectID e" "e_ID b \<noteq> e_ID e"
      "e_Name b = n0" unfolding promotions_ok_def by blast
    have one: "b = current" if "e_ID b = i"
      using env_ids_unique [OF assms(5) b(1) cur(1)] that cur(2) by simp
    have two: "e_ID b = i" if "e_ProjectID b = home i" "e_Name b = e_Name current"
      using names_okD [OF assms(3) b(1) cur(1) _ current_name] current_name [of current] that cur by simp
    have "e_Name (?g b) = n"
    proof (cases "e_ID b = i")
      case True
      then have "b = current" by (rule one)
      then show ?thesis unfolding g n0(2) using b(2,4) cur by simp
    next
      case False
      then have "\<not> (e_ProjectID b = home i \<and> e_Name b = e_Name current)" using two by blast
      then show ?thesis unfolding g n0(2) using b(2,4) False by auto
    qed
    then show "\<exists>b' \<in> set (map ?g (t_environments t)). e_ProjectID b' = e_ProjectID e' \<and> e_ID b' \<noteq> e_ID e' \<and> e_Name b' = n"
      unfolding e(2) set_map bex_simps g(1,2) using b by (intro bexI [of _ b] conjI)
  qed
qed

lemma mget_known_inner:
  "mget (foldl (\<lambda>known name. mput name c known) known ns) n = Some c' \<Longrightarrow> c' = c \<or> mget known n = Some c'"
  by (induction ns arbitrary: known) (fastforce simp: split: if_splits)+

lemma mget_known_outer:
  "mget (foldl (\<lambda>known e. if e_ID e \<noteq> self then foldl (\<lambda>known name. mput name (e_Name e) known) known (names_of e) else known) known sibs) n = Some c
   \<Longrightarrow> (\<exists>e \<in> set sibs. e_ID e \<noteq> self \<and> e_Name e = c) \<or> mget known n = Some c"
proof (induction sibs arbitrary: known)
  case (Cons e sibs)
  from Cons.IH [OF Cons.prems [unfolded foldl.simps]] show ?case
    by (auto split: if_splits dest!: mget_known_inner)
qed simp

lemma known_names_current: "mget (known_names self sibs) n = Some c \<Longrightarrow> \<exists>e \<in> set sibs. e_ID e \<noteq> self \<and> e_Name e = c"
  unfolding known_names_def using mget_known_outer by fastforce

lemma canonical_names_known:
  "canonical_names known seen names = Inr cs \<Longrightarrow> c \<in> set cs \<Longrightarrow> \<exists>n. mget known n = Some c"
  by (induction known seen names arbitrary: cs rule: canonical_names.induct)
    (auto simp: bind_r_Inr split: option.splits if_splits)

lemma promotions_settings:
  assumes "settings_tx i pid settings s d t = Inr (e, t')" "promotions_ok t" "schema_ok t"
  shows "promotions_ok t'"
  using assms(1)
proof (cases rule: settings_rows)
  case (1 current promoteFrom f)
  have cur: "current \<in> set (t_environments t)" "e_ID current = i"
    using 1(1) by (auto dest: find_SomeD)
  have src: "\<exists>b \<in> set (t_environments t). e_ProjectID b = e_ProjectID current \<and> e_ID b \<noteq> i \<and> e_Name b = n"
    if nin: "n \<in> set promoteFrom" for n
  proof -
    from 1(8) nin obtain sibs where s: "ListEnvironments d (e_ProjectID current) t = Inr sibs"
      "canonical_names (known_names i sibs) [] (set_PromoteFrom settings) = Inr promoteFrom" by auto
    then obtain b where "b \<in> set sibs" "e_ID b \<noteq> i" "e_Name b = n"
      using canonical_names_known [OF _ nin] known_names_current by blast
    moreover have "set sibs \<subseteq> {e \<in> set (t_environments t). e_ProjectID e = e_ProjectID current}"
      using s(1) by (auto simp: ListEnvironments_def elim!: frame_InrE)
    ultimately show ?thesis by auto
  qed
  let ?g = "\<lambda>e. if e_ID e = i then f e else e"
  have g: "e_ID (?g x) = e_ID x" "e_ProjectID (?g x) = e_ProjectID x" "e_Name (?g x) = e_Name x" for x
    by (simp_all add: 1)
  show ?thesis
    unfolding promotions_ok_def 1(2)
  proof (intro ballI)
    fix e' n assume h: "e' \<in> set (map ?g (t_environments t))" "n \<in> set (e_PromoteFrom e')"
    then obtain e where e: "e \<in> set (t_environments t)" "e' = ?g e" unfolding set_map by blast
    have "\<exists>b \<in> set (t_environments t). e_ProjectID b = e_ProjectID e \<and> e_ID b \<noteq> e_ID e \<and> e_Name b = n"
    proof (cases "e_ID e = i")
      case True
      then have "e = current" using env_ids_unique [OF assms(3) e(1) cur(1)] cur(2) by simp
      then show ?thesis using src [of n] h(2) e(2) True 1(7) by auto
    next
      case False
      then show ?thesis using assms(2) e h(2) by (auto simp: promotions_ok_def)
    qed
    then obtain b where b: "b \<in> set (t_environments t)" "e_ProjectID b = e_ProjectID e" "e_ID b \<noteq> e_ID e" "e_Name b = n"
      by blast
    then show "\<exists>b' \<in> set (map ?g (t_environments t)). e_ProjectID b' = e_ProjectID e' \<and> e_ID b' \<noteq> e_ID e' \<and> e_Name b' = n"
      unfolding e(2) set_map bex_simps g by (intro bexI [of _ b] conjI)
  qed
qed

lemma commit_promotions:
  assumes "commit cr cfg (\<lambda>i p. p = home i) q t t'" "\<not> deletes_environment q"
    "promotions_ok t" "names_ok t" "at_home home t" "schema_ok t"
  shows "promotions_ok t'"
  using assms(1)
proof (cases rule: commit_environments)
  case kept
  then show ?thesis using assms(3) names_ok_eq by blast
next
  case create
  then show ?thesis using assms(3) promotions_create by blast
next
  case (rename i)
  then show ?thesis using assms promotions_rename by blast
next
  case settings
  then show ?thesis using assms promotions_settings by blast
next
  case delete
  then show ?thesis using assms(2) by blast
qed

section \<open>In every state of a server\<close>

definition wit_crypto :: crypto where
  "wit_crypto =
     \<lparr>cr_hashToken = id, cr_hash = (@), cr_verify = (=), cr_encrypt = Some, cr_decrypt = Some,
      cr_totp = (\<lambda>code secret step. step = 2), cr_ParseAddress = Some, cr_ToLower = id, cr_ToUpper = id\<rparr>"

definition wit_config :: Config where
  "wit_config = \<lparr>cfg_Secret = [], SessionTTL = 60, SessionUpdateAge = 60, ChallengeTTL = 60, ReauthWindow = 60, DeviceTTL = 60\<rparr>"

definition wit_state :: "db \<Rightarrow> sys" where
  "wit_state t =
     \<lparr>sy_db = t, sy_limiter = [], sy_feed = New 1, sy_driver = wit_driver, sy_now = (62135596800 + 60) * second,
      sy_entropy = \<lparr>en_token = Some ''tok'', en_uuid = (\<lambda>n. Some ''new''), en_salt = (\<lambda>n. Some ''s''), en_codes = Some [],
        en_totp = Some ''t'', en_bytes = (\<lambda>n. [0])\<rparr>\<rparr>"

definition wit_admins :: db where
  "wit_admins = wit_db\<lparr>t_users := [wit_user\<lparr>u_Role := ''admin''\<rparr>, wit_user\<lparr>u_ID := ''v'', u_Email := ''v@x'', u_Role := ''admin''\<rparr>]\<rparr>"

lemma wit_state_db [simp]: "sy_db (wit_state t) = t"
  by (simp add: wit_state_def)

lemmas wit_checks = schema_ok_def keys_ok_def checks_ok_def user_check_def name_check_def settings_check_def role_check_def
  member_check_def is_digit_def

lemmas wit_tables = wit_admins_def wit_db_def wit_env_def wit_user_def

lemma wit_admins_ok: "schema_ok wit_admins" "has_admin wit_admins"
  by (simp_all add: wit_checks has_admin_def admin_ids_def wit_tables)

lemma server_keeps:
  assumes "(serves_in (taking Q (program cr cfg)) outside I)\<^sup>*\<^sup>* ([], s) (ps, s')" "reads_ok I P"
    and "J (sy_db s)" and "\<And>q t t'. Q q \<Longrightarrow> commit cr cfg P q t t' \<Longrightarrow> (\<exists>s. I s \<and> t = sy_db s) \<Longrightarrow> J t \<Longrightarrow> J t'"
  shows "J (sy_db s')"
  by (rule guaranteed.served_inv [OF server_guaranteed [OF assms(2)] assms(1)], rule assms(3))
    (auto simp: keeps_def step_of_def intro: assms(4))

lemma server_keeps_all:
  assumes "(serves (program cr cfg) outside)\<^sup>*\<^sup>* ([], s) (ps, s')"
    and "J (sy_db s)" and "\<And>q t t'. commit cr cfg (\<lambda>_ _. True) q t t' \<Longrightarrow> J t \<Longrightarrow> J t'"
  shows "J (sy_db s')"
  by (rule server_keeps [where Q = "\<lambda>_. True" and I = "\<lambda>_. True" and J = J and s = s, OF _ reads_ok_any assms(2)])
    (use assms(1,3) in \<open>auto simp: serves_in_True\<close>)

text \<open>
  C3. As long as no request makes a user an admin, a server that runs any
  requests at the same time keeps the constraints of the schema and an
  instance admin: demotions and deletions of admins that run side by side
  are decided by the count in their transactions, however old the role is
  that they read first.
\<close>

theorem an_admin_always_remains:
  assumes "(serves (taking (\<lambda>q. \<not> makes_admin q) (program cr cfg)) outside)\<^sup>*\<^sup>* ([], s) (ps, s')"
    and "schema_ok (sy_db s)" "has_admin (sy_db s)"
  shows "schema_ok (sy_db s') \<and> has_admin (sy_db s')"
  using admins.served_kept [OF assms(1)] assms(2,3) by (simp add: administered_def)

theorem an_admin_always_remains_witness:
  "\<exists>ps s'. (serves (taking (\<lambda>q. \<not> makes_admin q) (program wit_crypto wit_config)) outside)\<^sup>*\<^sup>* ([], wit_state wit_admins) (ps, s') \<and>
     map u_Role (t_users (sy_db s')) = [''member'', ''admin''] \<and> schema_ok (sy_db s') \<and> has_admin (sy_db s')"
proof -
  let ?q = "Q_SetUserRole ''u'' ''member''"
  let ?p = "taking (\<lambda>q. \<not> makes_admin q) (program wit_crypto wit_config)"
  have p: "?p ?q = program wit_crypto wit_config ?q"
    by (simp add: taking_def makes_admin_def RoleAdmin_def del: program.simps)
  obtain r s' where r: "alone (?p ?q) (wit_state wit_admins) = (r, s')" by (metis surj_pair)
  then obtain ps where ps: "(serves ?p outside)\<^sup>*\<^sup>* ([], wit_state wit_admins) (ps, s')"
    using served_alone [where program = ?p and outside = outside] by blast
  have "map u_Role (t_users (sy_db (snd (alone (program wit_crypto wit_config ?q) (wit_state wit_admins))))) = [''member'', ''admin'']"
    by code_simp
  then have n: "map u_Role (t_users (sy_db s')) = [''member'', ''admin'']" using r unfolding p by simp
  have "schema_ok (sy_db s')" "has_admin (sy_db s')" using an_admin_always_remains [OF ps] wit_admins_ok by simp_all
  with ps n show ?thesis by (intro exI conjI)
qed

definition no_failures :: "sys \<Rightarrow> bool" where
  "no_failures s \<longleftrightarrow> (\<forall>name. drv_fails (sy_driver s) name = None)"

lemmas role_programs = void_def SetUserRole_def DeleteUser_def read_user_def after_def alone_pbind tx_first_def tx_rest_def
  stmt_def one_row_def settle_def

text \<open>A change of role and a deletion when nothing fails.\<close>

lemma alone_SetUserRole:
  assumes "no_failures s" "find (\<lambda>u. u_ID u = uid) (t_users (sy_db s)) = Some cur" "u_Role cur \<noteq> role" "ValidRole role"
    and "u_Role cur = RoleAdmin \<longrightarrow> has_admin (update_users (u_Role_update (\<lambda>_. role)) uid (sy_db s))"
  shows "alone (program cr cfg (Q_SetUserRole uid role)) s =
    ((), s\<lparr>sy_db := update_users (u_Role_update (\<lambda>_. role)) uid (sy_db s)\<rparr>)"
proof -
  let ?t = "update_users (u_Role_update (\<lambda>_. role)) uid (sy_db s)"
  have "SetUserRole_q (sy_driver s) uid role (sy_db s) = Inr (u_Role_update (\<lambda>_. role) cur, ?t)"
    using assms by (simp add: SetUserRole_q_def stmt_def no_failures_def user_check_def ValidRole_def RoleAdmin_def
        RoleMember_def update_user_one_def)
  moreover have "u_Role cur = RoleAdmin \<longrightarrow> ensureAdminRemains (sy_driver s) ?t = Inr ()"
    using assms(1,5) by (auto simp: ensureAdminRemains_def CountAdminsForUpdate_def stmt_def no_failures_def has_admin_def
        admin_ids_def filter_empty_conv)
  ultimately have "set_role_tx uid role cur s (sy_driver s) (sy_db s) = Inr (u_Role_update (\<lambda>_. role) cur, ?t)"
    using assms(3) by (simp add: set_role_tx_def)
  then show ?thesis
    using assms(1,2,4) by (simp add: role_programs GetUserByID_def no_failures_def)
qed

text \<open>A deletion that has read the role of a member and not yet written.\<close>

definition deleting :: "uuid \<Rightarrow> User \<Rightarrow> (sys, unit) prog" where
  "deleting uid cur = void (tx_rest AuthStore (delete_user_tx uid cur))"

lemma DeleteUser_reads:
  assumes "no_failures s" "find (\<lambda>u. u_ID u = uid) (t_users (sy_db s)) = Some cur"
  obtains f where "program cr cfg (Q_DeleteUser uid) = Atomic f" "f s = (deleting uid cur, s)"
  using assms that
  by (auto simp: deleting_def void_def DeleteUser_def read_user_def after_def tx_first_def act_def GetUserByID_def stmt_def one_row_def
      no_failures_def)

lemma deleting_writes:
  assumes "no_failures s" "u_Role cur \<noteq> RoleAdmin"
  obtains f t where "deleting uid cur = Atomic f" "f s = (Ret (), s\<lparr>sy_db := t\<rparr>)"
    "admin_ids t = filter (\<lambda>i. i \<noteq> uid) (admin_ids (sy_db s))"
proof -
  obtain n t where t: "DeleteUserByID (sy_driver s) uid (sy_db s) = Inr (n, t)"
    using assms(1) by (auto simp: DeleteUserByID_def stmt_def no_failures_def Let_def)
  have "\<exists>f. deleting uid cur = Atomic f \<and> f s = (Ret (), s\<lparr>sy_db := t\<rparr>)"
    using assms t by (simp add: deleting_def void_def tx_rest_def act_def delete_user_tx_def settle_def no_failures_def)
  then show thesis using that deleted_admins [OF t] by blast
qed

definition role_ids :: "string \<Rightarrow> User list \<Rightarrow> uuid set" where
  "role_ids role us = u_ID ` {u \<in> set us. u_Role u = role}"

lemma admin_ids_role: "set (admin_ids t) = role_ids ''admin'' (t_users t)"
  by (simp add: admin_ids_def role_ids_def)

lemma role_ids_simps:
  "role_ids r [] = {}" "role_ids r (u # us) = (if u_Role u = r then {u_ID u} else {}) \<union> role_ids r us"
  by (auto simp: role_ids_def)

lemma has_admin_iff: "has_admin t \<longleftrightarrow> set (admin_ids t) \<noteq> {}"
  by (simp add: has_admin_def)

lemma role_ids_update:
  "role_ids r (map (\<lambda>u. if u_ID u = uid then u_Role_update (\<lambda>_. role) u else u) us) =
     role_ids r us - {uid} \<union> (if role = r \<and> uid \<in> u_ID ` set us then {uid} else {})"
proof (induction us)
  case Nil
  show ?case by (simp add: role_ids_simps)
next
  case (Cons u us)
  show ?case
    unfolding list.map role_ids_simps Cons
    by (cases "u_ID u = uid"; cases "role = r"; cases "u_Role u = r") auto
qed

lemma admins_after:
  "set (admin_ids (update_users (u_Role_update (\<lambda>_. role)) uid t)) =
     set (admin_ids t) - {uid} \<union> (if role = ''admin'' \<and> uid \<in> u_ID ` set (t_users t) then {uid} else {})"
  unfolding admin_ids_role update_users_def using role_ids_update [of "''admin''" uid role "t_users t"] by simp

lemma find_updated:
  "find (\<lambda>u. u_ID u = i) us = Some cur \<Longrightarrow>
     find (\<lambda>u. u_ID u = i) (map (\<lambda>u. if u_ID u = uid then u_Role_update (\<lambda>_. role) u else u) us) =
     Some (if i = uid then u_Role_update (\<lambda>_. role) cur else cur)"
  by (induction us) (auto split: if_splits)

text \<open>
  C40. A promotion between the read and the write of a deletion leaves the
  server without an admin: while a member is being deleted, promote the
  member, demote the only admin (the count sees the promoted member), and
  let the deletion write. It read a member, so it counts nothing.
\<close>

theorem promotion_race_leaves_no_admin:
  assumes "no_failures s" "find (\<lambda>u. u_ID u = a) (t_users (sy_db s)) = Some admin" "u_Role admin = RoleAdmin"
    and "find (\<lambda>u. u_ID u = x) (t_users (sy_db s)) = Some member" "u_Role member = RoleMember"
    and "set (admin_ids (sy_db s)) = {a}"
  shows "\<exists>ps s'. (serves (program cr cfg) outside)\<^sup>*\<^sup>* ([], s) (ps, s') \<and> \<not> has_admin (sy_db s')"
proof -
  let ?serves = "serves (program cr cfg) outside"
  have ax: "a \<noteq> x" using assms(2-5) by (auto simp: RoleAdmin_def RoleMember_def)
  have xin: "x \<in> u_ID ` set (t_users (sy_db s))" using assms(4) by (auto dest!: find_SomeD)
  define s1 where "s1 = s\<lparr>sy_db := update_users (u_Role_update (\<lambda>_. RoleAdmin)) x (sy_db s)\<rparr>"
  define s2 where "s2 = s1\<lparr>sy_db := update_users (u_Role_update (\<lambda>_. RoleMember)) a (sy_db s1)\<rparr>"
  have n: "no_failures s1" "no_failures s2" using assms(1) by (simp_all add: s1_def s2_def no_failures_def)
  have ad1: "set (admin_ids (sy_db s1)) = {a, x}" using admins_after xin assms(6) by (auto simp: s1_def RoleAdmin_def)
  then have ad2: "set (admin_ids (sy_db s2)) = {x}"
    using admins_after [of RoleMember a "sy_db s1"] ax by (auto simp: s2_def RoleMember_def)
  obtain f where f: "program cr cfg (Q_DeleteUser x) = Atomic f" "f s = (deleting x member, s)"
    using DeleteUser_reads [OF assms(1,4)] .
  have r1: "?serves ([], s) ([Atomic f], s)"
    using arrives [of "program cr cfg" outside "[]" s "Q_DeleteUser x"] f(1) by simp
  have r2: "?serves ([Atomic f], s) ([deleting x member], s)"
    using acts [of 0 "[Atomic f]" f s "deleting x member" s "program cr cfg" outside] f(2) by simp
  have "alone (program cr cfg (Q_SetUserRole x RoleAdmin)) s = ((), s1)"
    unfolding s1_def using assms by (intro alone_SetUserRole [OF _ assms(4)]) (simp_all add: ValidRole_def RoleAdmin_def RoleMember_def)
  then obtain p1 where r3: "?serves\<^sup>*\<^sup>* ([deleting x member], s) ([deleting x member] @ [p1], s1)"
    using arrives_beside [where prg = "program cr cfg" and ps = "[deleting x member]"] by blast
  have "find (\<lambda>u. u_ID u = a) (t_users (sy_db s1)) = Some admin"
    using find_updated [OF assms(2), of x RoleAdmin] ax by (simp add: s1_def update_users_def)
  moreover have "has_admin (sy_db s2)" using ad2 by (simp add: has_admin_iff)
  ultimately have "alone (program cr cfg (Q_SetUserRole a RoleMember)) s1 = ((), s2)"
    unfolding s2_def using assms(3) n(1)
    by (intro alone_SetUserRole [where cur = admin]) (simp_all add: ValidRole_def RoleAdmin_def RoleMember_def)
  then obtain p2 where r4: "?serves\<^sup>*\<^sup>* ([deleting x member, p1], s1) ([deleting x member, p1] @ [p2], s2)"
    using arrives_beside [where prg = "program cr cfg" and ps = "[deleting x member, p1]"] by blast
  have "u_Role member \<noteq> RoleAdmin" using assms(5) by (simp add: RoleAdmin_def RoleMember_def)
  from deleting_writes [OF n(2) this, of x] obtain g t where g: "deleting x member = Atomic g" "g s2 = (Ret (), s2\<lparr>sy_db := t\<rparr>)"
    "admin_ids t = filter (\<lambda>i. i \<noteq> x) (admin_ids (sy_db s2))" .
  have r5: "?serves ([deleting x member, p1, p2], s2) ([Ret (), p1, p2], s2\<lparr>sy_db := t\<rparr>)"
    using acts [of 0 "[deleting x member, p1, p2]" g s2 "Ret ()" "s2\<lparr>sy_db := t\<rparr>" "program cr cfg" outside] g(1,2) by simp
  have "\<not> has_admin t" using ad2 by (simp add: has_admin_def g(3) filter_empty_conv)
  moreover have "?serves\<^sup>*\<^sup>* ([], s) ([Ret (), p1, p2], s2\<lparr>sy_db := t\<rparr>)"
  proof -
    have "?serves\<^sup>*\<^sup>* ([], s) ([deleting x member, p1], s1)"
      using converse_rtranclp_into_rtranclp [OF r1 converse_rtranclp_into_rtranclp [OF r2 r3]] by simp
    from rtranclp_trans [OF this r4] have "?serves\<^sup>*\<^sup>* ([], s) ([deleting x member, p1, p2], s2)" by simp
    then show ?thesis using r5 by (rule rtranclp.rtrancl_into_rtrancl)
  qed
  ultimately show ?thesis by (intro exI [of _ "[Ret (), p1, p2]"] exI [of _ "s2\<lparr>sy_db := t\<rparr>"]) simp
qed

definition wit_race :: db where
  "wit_race = wit_db\<lparr>t_users := [wit_user\<lparr>u_Role := ''admin''\<rparr>, wit_user\<lparr>u_ID := ''v'', u_Email := ''v@x'', u_Role := ''member''\<rparr>]\<rparr>"

lemma wit_race_users:
  "no_failures (wit_state wit_race)" "set (admin_ids wit_race) = {''u''}"
  "find (\<lambda>u. u_ID u = ''u'') (t_users wit_race) = Some (wit_user\<lparr>u_Role := RoleAdmin\<rparr>)"
  "find (\<lambda>u. u_ID u = ''v'') (t_users wit_race) = Some (wit_user\<lparr>u_ID := ''v'', u_Email := ''v@x'', u_Role := RoleMember\<rparr>)"
  by (simp_all add: no_failures_def wit_state_def wit_driver_def wit_race_def admin_ids_def wit_tables RoleAdmin_def RoleMember_def)

theorem promotion_race_witness:
  "has_admin wit_race \<and>
   (\<exists>ps s'. (serves (program wit_crypto wit_config) outside)\<^sup>*\<^sup>* ([], wit_state wit_race) (ps, s') \<and> \<not> has_admin (sy_db s'))"
proof
  show "has_admin wit_race" using wit_race_users(2) by (simp add: has_admin_iff)
  show "\<exists>ps s'. (serves (program wit_crypto wit_config) outside)\<^sup>*\<^sup>* ([], wit_state wit_race) (ps, s') \<and> \<not> has_admin (sy_db s')"
    by (rule promotion_race_leaves_no_admin [OF wit_race_users(1), where a = "''u''" and x = "''v''"
          and admin = "wit_user\<lparr>u_Role := RoleAdmin\<rparr>"
          and member = "wit_user\<lparr>u_ID := ''v'', u_Email := ''v@x'', u_Role := RoleMember\<rparr>"])
       (simp_all add: wit_race_users)
qed

text \<open>Reading an environment gives the project it is at home in.\<close>

lemma reads_at_home: "reads_ok (\<lambda>s. at_home home (sy_db s)) (\<lambda>i p. p = home i)"
  unfolding reads_ok_def at_home_def GetEnvironmentByID_def
  by (auto elim!: frame_InrE) (use find_SomeD in fastforce)

text \<open>
  C11. In every state of a server, a name, current or previous, leads to at
  most one environment of a project, whatever creations, renames and
  deletions run at the same time. The hypothesis on the execution is that an
  identifier is not drawn again for an environment of another project.
\<close>

theorem environment_names_are_unambiguous:
  assumes "(serves_in (program cr cfg) outside (\<lambda>s. at_home home (sy_db s)))\<^sup>*\<^sup>* ([], s) (ps, s')"
    and "names_ok (sy_db s)"
  shows "names_ok (sy_db s')"
  by (rule server_keeps [where Q = "\<lambda>_. True" and J = names_ok and s = s and P = "\<lambda>i p. p = home i", OF _ reads_at_home assms(2)])
    (use assms(1) commit_names in auto)

definition wit_names :: db where
  "wit_names = wit_db\<lparr>t_environments := [wit_env ''dev'' ''dev'' ''admin'', (wit_env ''prod'' ''prod'' ''read'')\<lparr>e_PromoteFrom := [''dev'']\<rparr>]\<rparr>"

lemma wit_names_ok: "schema_ok wit_names" "names_ok wit_names" "promotions_ok wit_names"
  by (simp_all add: wit_checks names_ok_def names_of_def promotions_ok_def wit_names_def wit_tables)

lemma wit_names_home: "list_all (\<lambda>s. at_home (\<lambda>_. ''p'') (sy_db s))
    (visits (program wit_crypto wit_config (Q_RenameEnvironment ''dev'' ''stage'')) (wit_state wit_names))"
  by code_simp

lemma wit_names_renamed:
  "map (\<lambda>e. (names_of e, e_PromoteFrom e))
     (t_environments (sy_db (snd (alone (program wit_crypto wit_config (Q_RenameEnvironment ''dev'' ''stage'')) (wit_state wit_names))))) =
   [([''stage'', ''dev''], []), ([''prod''], [''stage''])]"
  by code_simp

theorem environment_names_are_unambiguous_witness:
  "\<exists>ps s'. (serves_in (program wit_crypto wit_config) outside (\<lambda>s. at_home (\<lambda>_. ''p'') (sy_db s)))\<^sup>*\<^sup>* ([], wit_state wit_names) (ps, s') \<and>
     map names_of (t_environments (sy_db s')) = [[''stage'', ''dev''], [''prod'']] \<and> names_ok (sy_db s')"
proof -
  let ?q = "Q_RenameEnvironment ''dev'' ''stage''"
  obtain r s' where r: "alone (program wit_crypto wit_config ?q) (wit_state wit_names) = (r, s')" by (metis surj_pair)
  from served_in_alone [where program = "program wit_crypto wit_config", OF r wit_names_home]
  obtain ps where ps: "(serves_in (program wit_crypto wit_config) outside (\<lambda>s. at_home (\<lambda>_. ''p'') (sy_db s)))\<^sup>*\<^sup>*
      ([], wit_state wit_names) (ps, s')" by blast
  have n: "map names_of (t_environments (sy_db s')) = [[''stage'', ''dev''], [''prod'']]"
    using arg_cong [OF wit_names_renamed, of "map fst"] r by (simp add: comp_def)
  have "names_ok (sy_db s')" using environment_names_are_unambiguous [OF ps] wit_names_ok by simp
  with ps n show ?thesis by (intro exI conjI)
qed

text \<open>
  C12. While no environment is deleted, every promotion rule names other
  environments of its project by their current names: settings store the
  canonical name of a name they are given, and a rename rewrites the rules
  that mention the old name. Deleting an environment leaves its name in the
  rules, so the statement ends there.
\<close>

theorem promotion_rules_follow_renames:
  assumes "(serves_in (taking (\<lambda>q. \<not> deletes_environment q) (program cr cfg)) outside (\<lambda>s. at_home home (sy_db s)))\<^sup>*\<^sup>*
      ([], s) (ps, s')"
    and "schema_ok (sy_db s)" "names_ok (sy_db s)" "promotions_ok (sy_db s)"
  shows "promotions_ok (sy_db s')"
proof -
  have "schema_ok (sy_db s') \<and> names_ok (sy_db s') \<and> promotions_ok (sy_db s')"
    by (rule server_keeps [where J = "\<lambda>t. schema_ok t \<and> names_ok t \<and> promotions_ok t" and s = s, OF assms(1) reads_at_home])
      (use assms(2-4) commit_schema commit_names commit_promotions in auto)
  then show ?thesis by simp
qed

theorem promotion_rules_follow_renames_witness:
  "\<exists>ps s'. (serves_in (taking (\<lambda>q. \<not> deletes_environment q) (program wit_crypto wit_config)) outside
       (\<lambda>s. at_home (\<lambda>_. ''p'') (sy_db s)))\<^sup>*\<^sup>* ([], wit_state wit_names) (ps, s') \<and>
     map e_PromoteFrom (t_environments (sy_db s')) = [[], [''stage'']] \<and> promotions_ok (sy_db s')"
proof -
  let ?q = "Q_RenameEnvironment ''dev'' ''stage''"
  let ?p = "taking (\<lambda>q. \<not> deletes_environment q) (program wit_crypto wit_config)"
  have p: "?p ?q = program wit_crypto wit_config ?q" by (simp add: taking_def deletes_environment_def del: program.simps)
  obtain r s' where r: "alone (?p ?q) (wit_state wit_names) = (r, s')" by (metis surj_pair)
  from served_in_alone [where program = ?p, OF r] wit_names_home
  obtain ps where ps: "(serves_in ?p outside (\<lambda>s. at_home (\<lambda>_. ''p'') (sy_db s)))\<^sup>*\<^sup>* ([], wit_state wit_names) (ps, s')"
    unfolding p by blast
  have n: "map e_PromoteFrom (t_environments (sy_db s')) = [[], [''stage'']]"
    using arg_cong [OF wit_names_renamed, of "map snd"] r unfolding p by (simp add: comp_def)
  have "promotions_ok (sy_db s')" using promotion_rules_follow_renames [OF ps] wit_names_ok by simp
  with ps n show ?thesis by (intro exI conjI)
qed

end
