(* ===== verification/Once_Only.thy ===== *)
theory Once_Only
  imports Server_Invariants
begin

text \<open>
  What a server gives out once: a step of a second factor, a backup code, the
  approval of a device request. Two requests that race for it, among any
  others, do not both get it. The argument is the contract \<open>single_use\<close> of
  \<open>Programs\<close>, interpreted for the two mechanisms.
\<close>

section \<open>Second factors\<close>

text \<open>
  Between two issues of factors and codes, a factor keeps its secret, its last
  used step does not go back, and a used backup code stays used.
\<close>

definition spent_kept :: "uuid \<Rightarrow> db \<Rightarrow> db \<Rightarrow> bool" where
  "spent_kept uid t t' \<longleftrightarrow>
     (\<forall>x' \<in> set (t_two_factors t'). tf_UserID x' = uid \<longrightarrow>
        (\<exists>x \<in> set (t_two_factors t). tf_UserID x = uid \<and> tf_Secret x = tf_Secret x' \<and>
           tf_LastUsedStep x \<le> tf_LastUsedStep x')) \<and>
     (\<forall>c' \<in> set (t_backup_codes t').
        \<exists>c \<in> set (t_backup_codes t). bc_ID c = bc_ID c' \<and> bc_CodeHash c = bc_CodeHash c' \<and>
           (bc_UsedAt c' = None \<longrightarrow> bc_UsedAt c = None))"

definition issues :: "request \<Rightarrow> bool" where
  "issues q \<longleftrightarrow> (case q of Q_EnableTwoFactor _ \<Rightarrow> True | Q_RegenerateBackupCodes _ \<Rightarrow> True | _ \<Rightarrow> False)"

lemma spent_kept_refl [simp]: "spent_kept uid t t"
  by (auto simp: spent_kept_def)

lemma spent_kept_trans: "spent_kept uid t t1 \<Longrightarrow> spent_kept uid t1 t' \<Longrightarrow> spent_kept uid t t'"
  unfolding spent_kept_def by (intro conjI ballI impI) (metis order_trans, metis)

lemma spent_kept_factors:
  assumes "t_two_factors t' = map (\<lambda>x. if P x then f x else x) (t_two_factors t)" "t_backup_codes t' = t_backup_codes t"
    and "\<And>x. P x \<Longrightarrow> tf_UserID (f x) = tf_UserID x \<and> tf_Secret (f x) = tf_Secret x \<and> tf_LastUsedStep x \<le> tf_LastUsedStep (f x)"
  shows "spent_kept uid t t'"
  using assms by (auto simp: spent_kept_def)

lemma spent_kept_fewer:
  assumes "set (t_two_factors t') \<subseteq> set (t_two_factors t)" "set (t_backup_codes t') \<subseteq> set (t_backup_codes t)"
  shows "spent_kept uid t t'"
  using assms by (auto simp: spent_kept_def)

lemma advanced_rows:
  assumes "AdvanceTwoFactorStep d uid' k t = Inr (n, t')"
  shows "t_two_factors t' = map (\<lambda>x. if tf_UserID x = uid' \<and> tf_LastUsedStep x < k then x\<lparr>tf_LastUsedStep := k\<rparr> else x) (t_two_factors t)"
    and "n = length (filter (\<lambda>x. tf_UserID x = uid' \<and> tf_LastUsedStep x < k) (t_two_factors t))"
    and "t_backup_codes t' = t_backup_codes t"
  using assms by (auto simp: AdvanceTwoFactorStep_def update_two_factors_def elim!: frame_InrE)

lemma confirmed_rows:
  assumes "ConfirmTwoFactor_q d uid' t = Inr (n, t')"
  shows "t_two_factors t' = map (\<lambda>x. if tf_UserID x = uid' \<and> tf_ConfirmedAt x = None then x\<lparr>tf_ConfirmedAt := Some (drv_now d)\<rparr> else x)
       (t_two_factors t)"
    and "t_backup_codes t' = t_backup_codes t"
  using assms by (auto simp: ConfirmTwoFactor_q_def update_two_factors_def elim!: frame_InrE)

lemma consumed_rows:
  assumes "ConsumeBackupCode d i t = Inr (n, t')"
  shows "t_backup_codes t' = map (\<lambda>c. if bc_ID c = i \<and> bc_UsedAt c = None then c\<lparr>bc_UsedAt := Some (drv_now d)\<rparr> else c) (t_backup_codes t)"
    and "n = length (filter (\<lambda>c. bc_ID c = i \<and> bc_UsedAt c = None) (t_backup_codes t))"
    and "t_two_factors t' = t_two_factors t"
  using assms by (auto simp: ConsumeBackupCode_def Let_def elim!: frame_InrE)

lemma factor_steps:
  "AdvanceTwoFactorStep d uid' k t = Inr (n, t') \<Longrightarrow> spent_kept uid t t'"
  "ConfirmTwoFactor_q d uid' t = Inr (n, t') \<Longrightarrow> spent_kept uid t t'"
  "ConsumeBackupCode d i t = Inr (n, t') \<Longrightarrow> spent_kept uid t t'"
proof -
  show "AdvanceTwoFactorStep d uid' k t = Inr (n, t') \<Longrightarrow> spent_kept uid t t'"
    by (rule spent_kept_factors [OF advanced_rows(1,3)]) auto
  show "ConfirmTwoFactor_q d uid' t = Inr (n, t') \<Longrightarrow> spent_kept uid t t'"
    by (rule spent_kept_factors [OF confirmed_rows]) auto
  show "ConsumeBackupCode d i t = Inr (n, t') \<Longrightarrow> spent_kept uid t t'"
    by (auto simp: spent_kept_def consumed_rows)
qed

lemma factor_deletes:
  "SetUserTwoFactorEnabled d uid' b t = Inr (x, t') \<Longrightarrow> spent_kept uid t t'"
  "DeleteTwoFactorByUserID d uid' t = Inr (n, t') \<Longrightarrow> spent_kept uid t t'"
  "DeleteUserByID d uid' t = Inr (n, t') \<Longrightarrow> spent_kept uid t t'"
  by (auto simp: auth_stmt_defs store_stmt_defs DeleteUserByID_def delete_two_factors_def delete_sessions_def Let_def
      elim!: frame_InrE split: if_splits option.splits intro!: spent_kept_fewer)

lemma factor_transactions:
  "clear_tx uid' s d t = Inr (x, t') \<Longrightarrow> spent_kept uid t t'"
  "disable_tx uid' s d t = Inr (x, t') \<Longrightarrow> spent_kept uid t t'"
  "confirm_tx uid' step s d t = Inr (x, t') \<Longrightarrow> spent_kept uid t t'"
  "delete_user_tx uid' cur s d t = Inr (x, t') \<Longrightarrow> spent_kept uid t t'"
  by (auto simp: clear_tx_def disable_tx_def confirm_tx_def delete_user_tx_def tx_simps
      dest!: factor_steps [where uid = uid] factor_deletes [where uid = uid]
      intro: spent_kept_trans split: if_splits)

lemma commit_spent:
  assumes "commit cr cfg P q t t'" "\<not> issues q"
  shows "spent_kept uid t t'"
proof -
  have eq: "spent_kept uid t t'" if "same_factors t t'" for t'
    using that by (simp add: same_factors_def spent_kept_fewer)
  show ?thesis using assms(1)
  proof cases
    case 22
    then show ?thesis using assms(2) by (simp add: issues_def)
  next
    case 25
    then show ?thesis using assms(2) by (simp add: issues_def)
  qed (auto simp: session_row_def dest!: login_frames session_frames device_frames user_frames product_frames
      session_tx_frames device_tx_frames create_user_tx_frame set_role_tx_frame project_tx_frames
      intro: eq factor_transactions factor_steps)
qed

text \<open>What an accepted second factor was accepted for: a step of the factor, or a backup code.\<close>

datatype receipt = Step int | Code uuid

primrec receipt_for :: "crypto \<Rightarrow> uuid \<Rightarrow> db \<Rightarrow> string \<Rightarrow> receipt \<Rightarrow> bool" where
  "receipt_for cr uid t code (Step k) \<longleftrightarrow>
     isTOTPCode code \<and>
     (\<exists>x \<in> set (t_two_factors t). tf_UserID x = uid \<and>
        (case cr_decrypt cr (tf_Secret x) of None \<Rightarrow> False | Some secret \<Rightarrow> cr_totp cr code secret k))"
| "receipt_for cr uid t code (Code i) \<longleftrightarrow>
     \<not> isTOTPCode code \<and>
     (\<exists>c \<in> set (t_backup_codes t). bc_ID c = i \<and> bc_UsedAt c = None \<and>
        cr_verify cr (normalizeBackupCode cr code) (bc_CodeHash c))"

primrec spent :: "uuid \<Rightarrow> receipt \<Rightarrow> db \<Rightarrow> bool" where
  "spent uid (Step k) t \<longleftrightarrow> (\<forall>x \<in> set (t_two_factors t). tf_UserID x = uid \<longrightarrow> k \<le> tf_LastUsedStep x)"
| "spent uid (Code i) t \<longleftrightarrow> (\<forall>c \<in> set (t_backup_codes t). bc_ID c = i \<longrightarrow> bc_UsedAt c \<noteq> None)"

definition spending :: "uuid \<Rightarrow> receipt \<Rightarrow> driver \<Rightarrow> db \<Rightarrow> db_error + (nat \<times> db)" where
  "spending uid k d = (case k of Step n \<Rightarrow> AdvanceTwoFactorStep d uid n | Code i \<Rightarrow> ConsumeBackupCode d i)"

definition claim_of :: "uuid \<Rightarrow> receipt \<Rightarrow> sys \<Rightarrow> (auth_error + bool) \<times> sys" where
  "claim_of uid k s = (case settle (sy_db s) (spending uid k (sy_driver s) (sy_db s)) of
      (r, t) \<Rightarrow> (bind_r (map_err AuthStore r) (\<lambda>n. Inr (n = 1)), s\<lparr>sy_db := t\<rparr>))"

lemma claim_program:
  "after (failing AuthStore (update (spending uid k))) (\<lambda>n. Ret (Inr (n = 1))) = act (claim_of uid k)"
  by (auto simp: after_def failing_def update_def act_def fun_eq_iff claim_of_def settle_def bind_r_def map_err_def
      split: sum.split)

lemma spending_kept: "spending uid' k d t = Inr (n, t') \<Longrightarrow> spent_kept uid t t'"
  by (cases k) (auto simp: spending_def intro: factor_steps)

lemma spending_spends: "spending uid k d t = Inr (n, t') \<Longrightarrow> spent uid k t'"
proof (cases k)
  case (Step n')
  assume "spending uid k d t = Inr (n, t')"
  then have "t_two_factors t' = map (\<lambda>x. if tf_UserID x = uid \<and> tf_LastUsedStep x < n' then x\<lparr>tf_LastUsedStep := n'\<rparr> else x) (t_two_factors t)"
    using advanced_rows(1) by (simp add: Step spending_def)
  then show ?thesis unfolding Step spent.simps by (simp only: set_map ball_simps) (simp split: if_split, meson not_less)
next
  case (Code i)
  assume "spending uid k d t = Inr (n, t')"
  then have "t_backup_codes t' = map (\<lambda>c. if bc_ID c = i \<and> bc_UsedAt c = None then c\<lparr>bc_UsedAt := Some (drv_now d)\<rparr> else c) (t_backup_codes t)"
    using consumed_rows(1) by (simp add: Code spending_def)
  then show ?thesis unfolding Code spent.simps by (simp only: set_map ball_simps) (simp split: if_split)
qed

lemma spending_spent: "spending uid k d t = Inr (n, t') \<Longrightarrow> spent uid k t \<Longrightarrow> n = 0"
  by (cases k) (fastforce simp: spending_def filter_empty_conv dest!: advanced_rows(2) consumed_rows(2))+

lemma spent_later: "spent uid k t \<Longrightarrow> spent_kept uid t t' \<Longrightarrow> spent uid k t'"
  by (cases k) (force simp: spent_kept_def)+

lemma claim_cases:
  obtains (failed) e where "claim_of uid k s = (Inl (AuthStore e), s)"
  | (ended) n t where "spending uid k (sy_driver s) (sy_db s) = Inr (n, t)" "claim_of uid k s = (Inr (n = 1), s\<lparr>sy_db := t\<rparr>)"
  by (cases "spending uid k (sy_driver s) (sy_db s)") (auto simp: claim_of_def settle_def)

interpretation factor: single_use "keeps (step_of cr cfg (\<lambda>_ _. True) (\<lambda>q. \<not> issues q))"
    "\<lambda>s. spent_kept uid t (sy_db s)" "\<lambda>k s. spent uid k (sy_db s)" "claim_of uid" "\<lambda>r. r = Inr True" for cr cfg uid t
proof
  fix s s' :: sys
  assume "keeps (step_of cr cfg (\<lambda>_ _. True) (\<lambda>q. \<not> issues q)) s s'"
  then have k: "spent_kept uid (sy_db s) (sy_db s')" by (auto simp: keeps_def step_of_def intro: commit_spent)
  show "spent_kept uid t (sy_db s')" if "spent_kept uid t (sy_db s)" using that k by (rule spent_kept_trans)
  show "spent uid j (sy_db s')" if "spent uid j (sy_db s)" for j using that k by (rule spent_later)
next
  fix s :: sys and k
  have c: "spent_kept uid (sy_db s) (sy_db (snd (claim_of uid k s)))"
    by (cases rule: claim_cases [of uid k s]) (auto intro: spending_kept)
  show "spent_kept uid t (sy_db (snd (claim_of uid k s)))" if "spent_kept uid t (sy_db s)" using that c by (rule spent_kept_trans)
  show "spent uid k (sy_db (snd (claim_of uid k s)))" if "fst (claim_of uid k s) = Inr True"
    using that by (cases rule: claim_cases [of uid k s]) (auto intro: spending_spends)
  show "fst (claim_of uid k s) \<noteq> Inr True" if "spent uid k (sy_db s)"
    using that by (cases rule: claim_cases [of uid k s]) (auto dest: spending_spent)
qed

lemma seeks_query:
  assumes "\<And>s. I s \<Longrightarrow> seeks R I claim yes K (k (q (sy_driver s) (sy_db s)))"
  shows "seeks R I claim yes K (pbind (query q) k)"
  using assms by (auto simp: query_def act_def intro!: seeks_acts)

lemma seeks_failing_query:
  assumes "\<And>s x. I s \<Longrightarrow> q (sy_driver s) (sy_db s) = Inr x \<Longrightarrow> seeks R I claim (\<lambda>r. r = Inr y) K (k x)"
  shows "seeks R I claim (\<lambda>r. r = Inr y) K (after (failing w (query q)) k)"
proof -
  have "after (failing w (query q)) k = pbind (query q) (\<lambda>r. case r of Inl e \<Rightarrow> Ret (Inl (w e)) | Inr x \<Rightarrow> k x)"
    by (auto simp: after_def failing_def query_def act_def fun_eq_iff split: sum.split)
  then show ?thesis using assms by (auto intro!: seeks_query split: sum.split intro: seeks_Ret)
qed

lemma seeks_clock:
  assumes "\<And>now. seeks R I claim yes K (k now)"
  shows "seeks R I claim yes K (pbind clock k)"
  using assms by (auto simp: clock_def act_def intro!: seeks_acts)

lemma spending_simps:
  "spending uid (Step k) = (\<lambda>d. AdvanceTwoFactorStep d uid k)" "spending uid (Code i) = (\<lambda>d. ConsumeBackupCode d i)"
  by (simp_all add: spending_def fun_eq_iff)

lemma seeks_spending:
  "k \<in> K \<Longrightarrow> seeks R I (claim_of uid) yes K (after (failing AuthStore (update (spending uid k))) (\<lambda>n. Ret (Inr (n = 1))))"
  unfolding claim_program by (rule seeks_claim)

lemmas seeks_spend = seeks_spending [of "Step n" for n, unfolded spending_simps] seeks_spending [of "Code i" for i, unfolded spending_simps]

lemma factor_receipt:
  assumes "spent_kept uid t0 t" "GetTwoFactorByUserID d uid t = Inr tf" "isTOTPCode code"
    "cr_decrypt cr (tf_Secret tf) = Some secret" "matchTOTPStep cr secret code now = Some step"
  shows "receipt_for cr uid t0 code (Step step)"
proof -
  have "tf \<in> set (t_two_factors t)" "tf_UserID tf = uid"
    using assms(2) by (auto simp: GetTwoFactorByUserID_def elim!: frame_InrE dest: find_SomeD)
  then obtain x where "x \<in> set (t_two_factors t0)" "tf_UserID x = uid" "tf_Secret x = tf_Secret tf"
    using assms(1) by (auto simp: spent_kept_def)
  moreover have "cr_totp cr code secret step"
    using find_SomeD [OF assms(5) [unfolded matchTOTPStep_def Let_def]] by blast
  ultimately show ?thesis using assms(3,4) by auto
qed

lemma code_receipt:
  assumes "spent_kept uid t0 t" "ListUnusedBackupCodes d uid t = Inr unused" "\<not> isTOTPCode code"
    "find (\<lambda>bc. cr_verify cr (normalizeBackupCode cr code) (bc_CodeHash bc)) unused = Some bc"
  shows "receipt_for cr uid t0 code (Code (bc_ID bc))"
proof -
  have "bc \<in> set (t_backup_codes t)" "bc_UsedAt bc = None" "cr_verify cr (normalizeBackupCode cr code) (bc_CodeHash bc)"
    using assms(2) find_SomeD [OF assms(4)] by (auto simp: ListUnusedBackupCodes_def elim!: frame_InrE)
  then show ?thesis using assms(1,3) by (fastforce simp: spent_kept_def)
qed

lemma checkSecondFactor_seeks:
  "seeks R (\<lambda>s. spent_kept uid t (sy_db s)) (claim_of uid) (\<lambda>r. r = Inr True) {k. receipt_for cr uid t code k}
     (checkSecondFactor cr uid code)" (is "seeks R ?I ?c ?y ?K _")
  unfolding checkSecondFactor_def
proof (rule seeks_query)
  fix s assume i: "?I s"
  have totp: "seeks R ?I ?c ?y ?K (pbind clock (\<lambda>now. case matchTOTPStep cr secret code now of None \<Rightarrow> Ret (Inr False)
      | Some step \<Rightarrow> after (failing AuthStore (update (\<lambda>d. AdvanceTwoFactorStep d uid step))) (\<lambda>n. Ret (Inr (n = 1)))))"
    if "GetTwoFactorByUserID (sy_driver s) uid (sy_db s) = Inr tf" "isTOTPCode code" "cr_decrypt cr (tf_Secret tf) = Some secret"
    for tf secret
    using factor_receipt [OF i that]
    by (intro seeks_clock) (auto split: option.split simp del: One_nat_def receipt_for.simps intro!: seeks_Ret seeks_spend)
  have codes: "seeks R ?I ?c ?y ?K (after (failing AuthStore (query (\<lambda>d. ListUnusedBackupCodes d uid))) (\<lambda>unused.
           case find (\<lambda>bc. cr_verify cr (normalizeBackupCode cr code) (bc_CodeHash bc)) unused of
             None \<Rightarrow> Ret (Inr False)
           | Some bc \<Rightarrow> after (failing AuthStore (update (\<lambda>d. ConsumeBackupCode d (bc_ID bc)))) (\<lambda>n. Ret (Inr (n = 1)))))"
    if "\<not> isTOTPCode code"
    using code_receipt [OF _ _ that]
    by (intro seeks_failing_query) (auto split: option.split simp del: One_nat_def receipt_for.simps intro!: seeks_Ret seeks_spend)
  show "seeks R ?I ?c ?y ?K (case GetTwoFactorByUserID (sy_driver s) uid (sy_db s) of
       Inl ErrNoRows \<Rightarrow> Ret (Inr False)
     | Inl e \<Rightarrow> Ret (Inl (AuthStore e))
     | Inr tf \<Rightarrow>
         if tf_ConfirmedAt tf = None then Ret (Inr False)
         else if isTOTPCode code then
           (case cr_decrypt cr (tf_Secret tf) of
              None \<Rightarrow> Ret (Inl Decrypt)
            | Some secret \<Rightarrow>
                pbind clock (\<lambda>now.
                case matchTOTPStep cr secret code now of
                  None \<Rightarrow> Ret (Inr False)
                | Some step \<Rightarrow>
                    after (failing AuthStore (update (\<lambda>d. AdvanceTwoFactorStep d uid step))) (\<lambda>n.
                    Ret (Inr (n = 1)))))
         else
           after (failing AuthStore (query (\<lambda>d. ListUnusedBackupCodes d uid))) (\<lambda>unused.
           case find (\<lambda>bc. cr_verify cr (normalizeBackupCode cr code) (bc_CodeHash bc)) unused of
             None \<Rightarrow> Ret (Inr False)
           | Some bc \<Rightarrow>
               after (failing AuthStore (update (\<lambda>d. ConsumeBackupCode d (bc_ID bc)))) (\<lambda>n. Ret (Inr (n = 1)))))"
    using totp codes by (simp del: One_nat_def add: seeks_Ret split: sum.split db_error.split option.split)
qed

section \<open>Device requests\<close>

text \<open>
  A row keeps its device code, and an approved row has the user who approved
  it; only opening a request adds a device code.
\<close>

definition granted :: "DeviceRequest_row \<Rightarrow> bool" where
  "granted r \<longleftrightarrow> dr_Status r \<noteq> ''pending'' \<and> dr_Status r \<noteq> ''denied''"

definition rows_of :: "string \<Rightarrow> db \<Rightarrow> nat" where
  "rows_of h t = length (filter (\<lambda>r. dr_DeviceCodeHash r = h) (t_devices t))"

definition devices_kept :: "db \<Rightarrow> db \<Rightarrow> bool" where
  "devices_kept t t' \<longleftrightarrow>
     (\<forall>h. rows_of h t' \<le> rows_of h t) \<and>
     (\<forall>r' \<in> set (t_devices t'). \<exists>r \<in> set (t_devices t). dr_DeviceCodeHash r = dr_DeviceCodeHash r' \<and>
        (granted r' \<longrightarrow> dr_UserID r' \<noteq> None \<or> granted r \<and> dr_UserID r = dr_UserID r'))"

definition approvers_ok :: "db \<Rightarrow> bool" where
  "approvers_ok t \<longleftrightarrow> (\<forall>r \<in> set (t_devices t). granted r \<longrightarrow> dr_UserID r \<noteq> None)"

definition opens :: "request \<Rightarrow> bool" where
  "opens q \<longleftrightarrow> (case q of Q_StartDeviceLogin _ _ \<Rightarrow> True | Q_StartDeviceReauth _ _ _ _ \<Rightarrow> True | _ \<Rightarrow> False)"

lemma rows_of_filter: "length (filter Q (filter P xs)) \<le> length (filter Q xs)"
  by (induction xs) auto

lemma devices_kept_fewer: "t_devices t' = filter P (t_devices t) \<Longrightarrow> devices_kept t t'"
  by (auto simp: devices_kept_def rows_of_def rows_of_filter simp del: filter_filter)

lemma devices_kept_refl [simp]: "devices_kept t t"
  by (rule devices_kept_fewer [where P = "\<lambda>_. True"]) simp

lemma devices_kept_trans: "devices_kept t t1 \<Longrightarrow> devices_kept t1 t' \<Longrightarrow> devices_kept t t'"
  unfolding devices_kept_def by (intro conjI) (meson order_trans, metis)

lemma devices_kept_update:
  assumes "t_devices t' = map (\<lambda>r. if P r then f r else r) (t_devices t)"
    and "\<And>r. dr_DeviceCodeHash (f r) = dr_DeviceCodeHash r"
    and "\<And>r. granted (f r) \<Longrightarrow> dr_UserID (f r) \<noteq> None \<or> granted r \<and> dr_UserID (f r) = dr_UserID r"
  shows "devices_kept t t'"
proof -
  let ?g = "\<lambda>r. if P r then f r else r"
  have "rows_of h t' = rows_of h t" for h
    by (simp add: rows_of_def assms(1,2) filter_map comp_def if_distrib [of dr_DeviceCodeHash] cong: if_cong)
  moreover have "\<exists>ra \<in> set (t_devices t). dr_DeviceCodeHash ra = dr_DeviceCodeHash (?g r) \<and>
        (granted (?g r) \<longrightarrow> dr_UserID (?g r) \<noteq> None \<or>
          granted ra \<and> dr_UserID ra = dr_UserID (?g r))" if "r \<in> set (t_devices t)" for r
    using that assms(2,3) [of r] by (intro bexI [of _ r]) auto
  ultimately show ?thesis
    unfolding devices_kept_def assms(1) set_map ball_simps by auto
qed

lemma approvers_kept: "devices_kept t t' \<Longrightarrow> approvers_ok t \<Longrightarrow> approvers_ok t'"
  unfolding devices_kept_def approvers_ok_def by metis

lemma device_deletes:
  "fewer_devices t t' \<Longrightarrow> devices_kept t t'"
  "same_devices t t' \<Longrightarrow> devices_kept t t'"
  by (auto simp: fewer_devices_def same_devices_def intro: devices_kept_fewer devices_kept_fewer [where P = "\<lambda>_. True"])

lemma device_statements:
  "TouchDeviceRequestPoll d i at t = Inr (x1, t') \<Longrightarrow> devices_kept t t'"
  "ApproveDeviceRequest d i (Some u) t = Inr (x2, t') \<Longrightarrow> devices_kept t t'"
  "DenyDeviceRequest d i t = Inr (x2, t') \<Longrightarrow> devices_kept t t'"
  "DeleteDeviceRequest d i t = Inr (x3, t') \<Longrightarrow> devices_kept t t'"
  "DeleteExpiredDeviceRequests d t = Inr (x2, t') \<Longrightarrow> devices_kept t t'"
  "DeleteUserByID d i t = Inr (x2, t') \<Longrightarrow> devices_kept t t'"
proof -
  show "TouchDeviceRequestPoll d i at t = Inr (x1, t') \<Longrightarrow> devices_kept t t'"
    by (rule devices_kept_update [where P = "\<lambda>r. dr_ID r = i" and f = "\<lambda>r. r\<lparr>dr_PollCount := dr_PollCount r + 1, dr_LastPolledAt := at\<rparr>"])
      (auto simp: granted_def TouchDeviceRequestPoll_def update_devices_def elim!: frame_InrE split: option.splits)
  show "ApproveDeviceRequest d i (Some u) t = Inr (x2, t') \<Longrightarrow> devices_kept t t'"
    by (rule devices_kept_update [where P = "\<lambda>r. dr_ID r = i \<and> dr_Status r = ''pending'' \<and> dr_ExpiresAt r > drv_now d"
          and f = "\<lambda>r. r\<lparr>dr_Status := ''approved'', dr_UserID := Some u\<rparr>"])
      (auto simp: ApproveDeviceRequest_def update_devices_def Let_def elim!: frame_InrE split: if_splits)
  show "DenyDeviceRequest d i t = Inr (x2, t') \<Longrightarrow> devices_kept t t'"
    by (rule devices_kept_update [where P = "\<lambda>r. dr_ID r = i \<and> dr_Status r = ''pending'' \<and> dr_ExpiresAt r > drv_now d"
          and f = "dr_Status_update (\<lambda>_. ''denied'')"])
      (auto simp: granted_def DenyDeviceRequest_def update_devices_def elim!: frame_InrE)
qed (auto simp: DeleteDeviceRequest_def DeleteExpiredDeviceRequests_def DeleteUserByID_def delete_sessions_def delete_two_factors_def
    Let_def elim!: frame_InrE split: if_splits intro: devices_kept_fewer)

lemma device_transactions:
  "poll_tx cr cfg code s d t = Inr (p, t') \<Longrightarrow> devices_kept t t'"
  "approve_tx caller row s d t = Inr (x, t') \<Longrightarrow> devices_kept t t'"
  "delete_user_tx uid cur s d t = Inr (x, t') \<Longrightarrow> devices_kept t t'"
  by (auto simp: poll_tx_def approve_tx_def delete_user_tx_def tx_simps
      dest!: device_statements login_frames(5) createSession_tx_frame device_deletes(2)
      intro: devices_kept_trans split: if_splits option.splits) (blast intro: devices_kept_trans)+

lemma commit_devices:
  assumes "commit cr cfg P q t t'" "\<not> opens q"
  shows "devices_kept t t'"
  using assms(1)
proof cases
  case 29
  then show ?thesis using assms(2) by (simp add: opens_def)
next
  case 30
  then show ?thesis using assms(2) by (simp add: opens_def)
qed (auto simp: session_row_def dest!: login_frames session_frames factor_frames user_frames product_frames
      session_tx_frames factor_tx_frames create_user_tx_frame set_role_tx_frame project_tx_frames
      intro: device_deletes device_transactions device_statements)

lemma opened_pending:
  "CreateDeviceRequest d row t = Inr (r, t') \<Longrightarrow> approvers_ok t \<Longrightarrow> approvers_ok t'"
  by (auto simp: granted_def CreateDeviceRequest_def approvers_ok_def Let_def elim!: frame_InrE split: if_splits)

lemma commit_approvers:
  assumes "commit cr cfg P q t t'" "approvers_ok t"
  shows "approvers_ok t'"
proof (cases "opens q")
  case True
  from assms(1) show ?thesis
  proof cases
    case 29
    then show ?thesis using opened_pending assms(2) by blast
  next
    case 30
    then show ?thesis using opened_pending assms(2) by blast
  qed (use True in \<open>auto simp: opens_def\<close>)
next
  case False
  then show ?thesis using commit_devices approvers_kept assms by blast
qed

subsection \<open>An approval is handed out once\<close>

definition handed_out :: "auth_error + DevicePoll \<Rightarrow> bool" where
  "handed_out r \<longleftrightarrow> (case r of Inr (DeviceApproved _) \<Rightarrow> True | _ \<Rightarrow> False)"

definition poll_of :: "crypto \<Rightarrow> Config \<Rightarrow> string \<Rightarrow> unit \<Rightarrow> sys \<Rightarrow> (auth_error + DevicePoll) \<times> sys" where
  "poll_of cr cfg code u s =
     (case settle (sy_db s) (WithTx (sy_driver s) AuthStore (poll_tx cr cfg code s (sy_driver s)) (sy_db s)) of
        (r, t) \<Rightarrow> (r, s\<lparr>sy_db := t\<rparr>))"

lemma poll_cases:
  obtains (failed) e where "poll_of cr cfg code u s = (Inl e, s)"
  | (polled) p t where "poll_tx cr cfg code s (sy_driver s) (sy_db s) = Inr (p, t)" "poll_of cr cfg code u s = (Inr p, s\<lparr>sy_db := t\<rparr>)"
proof (cases "WithTx (sy_driver s) AuthStore (poll_tx cr cfg code s (sy_driver s)) (sy_db s)")
  case (Inl e)
  then show thesis using failed by (simp add: poll_of_def settle_def)
next
  case (Inr r)
  then have "poll_tx cr cfg code s (sy_driver s) (sy_db s) = Inr (fst r, snd r)"
    by (auto simp: WithTx_def split: option.splits sum.splits)
  then show thesis using polled Inr by (cases r) (simp add: poll_of_def settle_def)
qed

lemma poll_approved:
  assumes "poll_tx cr cfg code s d t = Inr (DeviceApproved x, t')"
  obtains row t1 t2 where "find (\<lambda>r. dr_DeviceCodeHash r = cr_hashToken cr code) (t_devices t) = Some row"
    "TouchDeviceRequestPoll d (dr_ID row) (Some (sy_now s)) t = Inr (t1)" "DeleteDeviceRequest d (dr_ID row) (snd t1) = Inr ((), t2)"
    "t_devices t' = t_devices t2"
proof -
  from assms have "\<exists>row t1 t2. GetDeviceRequestByDeviceCodeHashForUpdate d (cr_hashToken cr code) t = Inr row \<and>
    TouchDeviceRequestPoll d (dr_ID row) (Some (sy_now s)) t = Inr (t1) \<and> DeleteDeviceRequest d (dr_ID row) (snd t1) = Inr ((), t2) \<and>
    t_devices t' = t_devices t2"
    by (auto simp: poll_tx_def tx_simps same_devices_def dest!: createSession_tx_frame split: if_splits option.splits)
  then show thesis
    using that by (auto simp: GetDeviceRequestByDeviceCodeHashForUpdate_def elim!: frame_InrE)
qed

lemma approved_deletes:
  assumes "poll_tx cr cfg code s d t = Inr (DeviceApproved x, t')" "rows_of (cr_hashToken cr code) t \<le> 1"
  shows "rows_of (cr_hashToken cr code) t' = 0"
proof -
  let ?h = "cr_hashToken cr code"
  from assms(1) obtain row t1 t2 where r: "find (\<lambda>r. dr_DeviceCodeHash r = ?h) (t_devices t) = Some row"
    "TouchDeviceRequestPoll d (dr_ID row) (Some (sy_now s)) t = Inr t1" "DeleteDeviceRequest d (dr_ID row) (snd t1) = Inr ((), t2)"
    "t_devices t' = t_devices t2" by (rule poll_approved)
  have row: "row \<in> set (t_devices t)" "dr_DeviceCodeHash row = ?h" using find_SomeD [OF r(1)] by auto
  have "\<exists>f. (\<forall>r. dr_ID (f r) = dr_ID r) \<and> t_devices (snd t1) = map (\<lambda>r. if dr_ID r = dr_ID row then f r else r) (t_devices t)"
    using r(2) by (intro exI [of _ "\<lambda>r. r\<lparr>dr_PollCount := dr_PollCount r + 1, dr_LastPolledAt := Some (sy_now s)\<rparr>"])
      (auto simp: TouchDeviceRequestPoll_def update_devices_def elim!: frame_InrE split: option.splits)
  then have "r' \<in> set (t_devices t) \<and> dr_ID r' \<noteq> dr_ID row" if "r' \<in> set (t_devices t')" for r'
    using r(3,4) that by (auto simp: DeleteDeviceRequest_def elim!: frame_InrE split: if_splits)
  moreover have "r' = row" if "r' \<in> set (t_devices t)" "dr_DeviceCodeHash r' = ?h" for r'
  proof -
    have "r' \<in> set (filter (\<lambda>r. dr_DeviceCodeHash r = ?h) (t_devices t))" "row \<in> set (filter (\<lambda>r. dr_DeviceCodeHash r = ?h) (t_devices t))"
      using that row by auto
    then show ?thesis using assms(2) unfolding rows_of_def
      by (cases "filter (\<lambda>r. dr_DeviceCodeHash r = ?h) (t_devices t)") auto
  qed
  ultimately show ?thesis by (auto simp: rows_of_def filter_empty_conv)
qed

lemma poll_none: "rows_of (cr_hashToken cr code) t = 0 \<Longrightarrow> poll_tx cr cfg code s d t \<noteq> Inr (DeviceApproved x, t')"
  by (auto simp: rows_of_def filter_empty_conv elim!: poll_approved dest!: find_SomeD)

interpretation approval: single_use "keeps (step_of cr cfg (\<lambda>_ _. True) (\<lambda>q. \<not> opens q))"
    "\<lambda>s. rows_of (cr_hashToken cr code) (sy_db s) \<le> 1" "\<lambda>_ s. rows_of (cr_hashToken cr code) (sy_db s) = 0"
    "poll_of cr cfg code" handed_out for cr cfg code
proof
  fix s s' :: sys
  assume "keeps (step_of cr cfg (\<lambda>_ _. True) (\<lambda>q. \<not> opens q)) s s'"
  then have "devices_kept (sy_db s) (sy_db s')" by (auto simp: keeps_def step_of_def intro: commit_devices)
  then have k: "rows_of (cr_hashToken cr code) (sy_db s') \<le> rows_of (cr_hashToken cr code) (sy_db s)"
    by (simp add: devices_kept_def)
  show "rows_of (cr_hashToken cr code) (sy_db s') \<le> 1" if "rows_of (cr_hashToken cr code) (sy_db s) \<le> 1" using that k by simp
  show "rows_of (cr_hashToken cr code) (sy_db s') = 0" if "rows_of (cr_hashToken cr code) (sy_db s) = 0" using that k by simp
next
  fix s :: sys and k :: unit
  let ?h = "cr_hashToken cr code"
  assume i: "rows_of ?h (sy_db s) \<le> 1"
  show "rows_of ?h (sy_db (snd (poll_of cr cfg code k s))) \<le> 1"
  proof (cases rule: poll_cases [of cr cfg code k s])
    case (polled p t)
    then have "devices_kept (sy_db s) t" using device_transactions(1) by blast
    then have "rows_of ?h t \<le> rows_of ?h (sy_db s)" by (simp add: devices_kept_def)
    then show ?thesis using polled(2) i by simp
  qed (use i in simp)
  show "rows_of ?h (sy_db (snd (poll_of cr cfg code k s))) = 0" if "handed_out (fst (poll_of cr cfg code k s))"
    using that by (cases rule: poll_cases [of cr cfg code k s])
      (auto simp: handed_out_def intro: approved_deletes [OF _ i] split: DevicePoll.splits)
next
  fix s :: sys and k :: unit
  assume "rows_of (cr_hashToken cr code) (sy_db s) = 0"
  then show "\<not> handed_out (fst (poll_of cr cfg code k s))"
    by (cases rule: poll_cases [of cr cfg code k s]) (auto simp: handed_out_def dest: poll_none split: DevicePoll.splits)
qed

lemma polls_seek:
  assumes "\<And>s l. R s (s\<lparr>sy_limiter := l\<rparr>)"
  shows "seeks R I (poll_of cr cfg code) handed_out UNIV (PollDevice cr cfg code ip)"
proof -
  have t: "transaction AuthStore (poll_tx cr cfg code) = act (poll_of cr cfg code ())"
    unfolding transaction_def by (rule arg_cong [where f = act]) (simp add: poll_of_def fun_eq_iff)
  have c: "seeks R I (poll_of cr cfg code) handed_out UNIV (if \<not> ok then Ret (Inl ErrRateLimited) else act (poll_of cr cfg code ()))" for ok
    by (simp add: seeks_Ret seeks_claim handed_out_def)
  show ?thesis
    unfolding PollDevice_def t
    by (subst limiter_allow_def, subst act_def, subst pbind.simps, rule seeks_acts)
      (use c assms in \<open>simp add: case_prod_beta r_into_rtranclp\<close>)
qed

section \<open>Once only\<close>

text \<open>
  C4. Two submissions of a second factor for one user, running at the same
  time among any other requests except those that issue factors and codes,
  are both accepted only for different receipts: two different steps of the
  user's factor that the codes verify for, or different backup codes that
  were unused before. A step or backup code is accepted once, also when the
  same code is submitted twice at the same moment.
\<close>

theorem second_factors_are_accepted_once:
  assumes "races (keeps (step_of cr cfg (\<lambda>_ _. True) (\<lambda>q. \<not> issues q)))
      (checkSecondFactor cr uid code1) (checkSecondFactor cr uid code2) s (Inr True) (Inr True) s'"
  shows "\<exists>k1 k2. k1 \<noteq> k2 \<and> receipt_for cr uid (sy_db s) code1 k1 \<and> receipt_for cr uid (sy_db s) code2 k2"
  using factor.race_once [OF assms refl refl spent_kept_refl checkSecondFactor_seeks checkSecondFactor_seeks]
  by blast

text \<open>A user with a factor and a backup code submits both: both are accepted, for different receipts.\<close>

definition wit_factors :: db where
  "wit_factors = wit_db\<lparr>
     t_two_factors := [\<lparr>tf_ID = ''tf'', tf_UserID = ''u'', tf_Secret = ''x'', tf_ConfirmedAt = Some 0, tf_LastUsedStep = 1\<rparr>],
     t_backup_codes := [\<lparr>bc_ID = ''bc'', bc_TwoFactorID = ''tf'', bc_CodeHash = ''abc'', bc_UsedAt = None\<rparr>]\<rparr>"

theorem second_factors_are_accepted_once_witness:
  "\<exists>s' k1 k2. races (keeps (step_of wit_crypto wit_config (\<lambda>_ _. True) (\<lambda>q. \<not> issues q)))
      (checkSecondFactor wit_crypto ''u'' ''123456'') (checkSecondFactor wit_crypto ''u'' ''a-bc'')
      (wit_state wit_factors) (Inr True) (Inr True) s' \<and>
    k1 \<noteq> k2 \<and> receipt_for wit_crypto ''u'' wit_factors ''123456'' k1 \<and> receipt_for wit_crypto ''u'' wit_factors ''a-bc'' k2"
proof -
  let ?R = "keeps (step_of wit_crypto wit_config (\<lambda>_ _. True) (\<lambda>q. \<not> issues q))"
  obtain r1 s1 where 1: "alone (checkSecondFactor wit_crypto ''u'' ''123456'') (wit_state wit_factors) = (r1, s1)" by (metis surj_pair)
  obtain r2 s2 where 2: "alone (checkSecondFactor wit_crypto ''u'' ''a-bc'') s1 = (r2, s2)" by (metis surj_pair)
  have "fst (alone (checkSecondFactor wit_crypto ''u'' ''123456'') (wit_state wit_factors)) = Inr True"
    by code_simp
  moreover have "fst (alone (checkSecondFactor wit_crypto ''u'' ''a-bc'')
      (snd (alone (checkSecondFactor wit_crypto ''u'' ''123456'') (wit_state wit_factors)))) = Inr True" by code_simp
  ultimately have "r1 = Inr True" "r2 = Inr True" using 1 2 by simp_all
  then have r: "races ?R (checkSecondFactor wit_crypto ''u'' ''123456'') (checkSecondFactor wit_crypto ''u'' ''a-bc'')
      (wit_state wit_factors) (Inr True) (Inr True) s2"
    using races_sequential [OF alone_runs [OF 1] alone_runs [OF 2]] by simp
  from second_factors_are_accepted_once [OF r] obtain k1 k2 where "k1 \<noteq> k2"
    "receipt_for wit_crypto ''u'' wit_factors ''123456'' k1" "receipt_for wit_crypto ''u'' wit_factors ''a-bc'' k2"
    unfolding wit_state_db by (elim exE conjE)
  with r show ?thesis by (intro exI conjI)
qed

text \<open>
  C10. Two polls with the device code of one request, running at the same time
  among any other requests except those that open device requests, are not
  both answered with the approval: the session of an approved login is
  handed out once, in the transaction that deletes the request. Device codes
  identify one request, as their unique key says.
\<close>

theorem an_approval_is_handed_out_once:
  assumes "rows_of (cr_hashToken cr code) (sy_db s) \<le> 1"
    and "races (keeps (step_of cr cfg (\<lambda>_ _. True) (\<lambda>q. \<not> opens q))) (PollDevice cr cfg code ip1) (PollDevice cr cfg code ip2) s a b s'"
  shows "\<not> (handed_out a \<and> handed_out b)"
  using approval.race_once [OF assms(2) _ _ assms(1) polls_seek polls_seek]
  by (auto simp: keeps_def step_of_def)

definition wit_device :: db where
  "wit_device = wit_db\<lparr>t_devices := [\<lparr>dr_ID = ''d'', dr_Intent = ''login'', dr_UserCode = ''BCDFGHJK'', dr_DeviceCodeHash = ''dev'',
      dr_Status = ''approved'', dr_SessionID = None, dr_UserID = Some ''u'', dr_ClientLabel = ''CLI'', dr_IpAddress = [],
      dr_UserAgent = [], dr_PollCount = 0, dr_LastPolledAt = None, dr_ExpiresAt = 62135596900 * second, dr_CreatedAt = 0\<rparr>]\<rparr>"

theorem an_approval_is_handed_out_once_witness:
  "\<exists>a b s'. races (keeps (step_of wit_crypto wit_config (\<lambda>_ _. True) (\<lambda>q. \<not> opens q)))
      (PollDevice wit_crypto wit_config ''dev'' ''i'') (PollDevice wit_crypto wit_config ''dev'' ''j'') (wit_state wit_device) a b s' \<and>
    handed_out a \<and> \<not> handed_out b"
proof -
  obtain a s1 where 1: "alone (PollDevice wit_crypto wit_config ''dev'' ''i'') (wit_state wit_device) = (a, s1)" by (metis surj_pair)
  obtain b s2 where 2: "alone (PollDevice wit_crypto wit_config ''dev'' ''j'') s1 = (b, s2)" by (metis surj_pair)
  have r: "races (keeps (step_of wit_crypto wit_config (\<lambda>_ _. True) (\<lambda>q. \<not> opens q))) (PollDevice wit_crypto wit_config ''dev'' ''i'')
      (PollDevice wit_crypto wit_config ''dev'' ''j'') (wit_state wit_device) a b s2"
    using races_sequential [OF alone_runs [OF 1] alone_runs [OF 2]] .
  have "handed_out (fst (alone (PollDevice wit_crypto wit_config ''dev'' ''i'') (wit_state wit_device)))" by code_simp
  then have h: "handed_out a" unfolding 1 by simp
  have "rows_of (cr_hashToken wit_crypto ''dev'') (sy_db (wit_state wit_device)) \<le> 1" by code_simp
  from an_approval_is_handed_out_once [OF this r] h have "\<not> handed_out b" by simp
  with r h show ?thesis by (intro exI conjI)
qed

lemma poll_error:
  assumes "poll_tx cr cfg code s d t = Inl (Auth_Other m)"
  shows "\<exists>r \<in> set (t_devices t). granted r \<and> dr_UserID r = None"
  using assms
  by (auto simp: poll_tx_def bind_r_Inl map_err_Inl granted_def createSession_tx_def drawn_def no_rows_def Let_def  GetDeviceRequestByDeviceCodeHashForUpdate_def split: if_splits option.splits elim!: frame_InrE dest!: find_SomeD)

text \<open>
  C13. In every state of a server, whatever requests run at the same time, an
  approved device request records the user who approved it, so a poll of it
  never ends in the error of an approved login without an approver.
\<close>

theorem approvals_have_approvers:
  assumes "(serves (program cr cfg) outside)\<^sup>*\<^sup>* ([], s) (ps, s')" "approvers_ok (sy_db s)"
  shows "approvers_ok (sy_db s') \<and> poll_tx cr cfg code s' d (sy_db s') \<noteq> Inl (Auth_Other m)"
proof -
  have "approvers_ok (sy_db s')"
    by (rule server_keeps_all [where J = approvers_ok, OF assms]) (rule commit_approvers)
  then show ?thesis using poll_error by (fastforce simp: approvers_ok_def)
qed

definition wit_pending :: db where
  "wit_pending = wit_device\<lparr>t_devices := map (\<lambda>r. r\<lparr>dr_Status := ''pending'', dr_UserID := None\<rparr>) (t_devices wit_device)\<rparr>"

theorem approvals_have_approvers_witness:
  "\<exists>ps s'. (serves (program wit_crypto wit_config) outside)\<^sup>*\<^sup>* ([], wit_state wit_pending) (ps, s') \<and>
     map dr_Status (t_devices (sy_db s')) = [''approved''] \<and> approvers_ok (sy_db s')"
proof -
  let ?q = "Q_ApproveDevice wit_user ''BCDF-GHJK''"
  obtain r s' where r: "alone (program wit_crypto wit_config ?q) (wit_state wit_pending) = (r, s')" by (metis surj_pair)
  from served_alone [where program = "program wit_crypto wit_config", OF r]
  obtain ps where ps: "(serves (program wit_crypto wit_config) outside)\<^sup>*\<^sup>* ([], wit_state wit_pending) (ps, s')" by blast
  have "map dr_Status (t_devices (sy_db (snd (alone (program wit_crypto wit_config ?q) (wit_state wit_pending))))) = [''approved'']"
    by code_simp
  then have n: "map dr_Status (t_devices (sy_db s')) = [''approved'']" unfolding r by simp
  have "approvers_ok (sy_db (wit_state wit_pending))" by code_simp
  from approvals_have_approvers [OF ps this] have "approvers_ok (sy_db s')" by simp
  with ps n show ?thesis by (intro exI conjI)
qed

end
