(* ===== verification/Expressions.thy ===== *)
theory Expressions
  imports Naming
begin

text \<open>
  Manifest expressions (\<^verbatim>\<open>internal/compiler/expression.go\<close>): literal text with
  project values and service outputs, parsed, printed back and resolved. A
  position in the text is modelled by the text from there on; the offset a
  token starts at is kept for the errors.
\<close>

section \<open>Expressions and their catalog (types.go, expression.go)\<close>

record ExpressionPart =
  ep_Kind :: string
  ep_Value :: string
  ep_Name :: string
  ep_Default :: string
  ep_HasDefault :: bool
  ep_Collection :: string
  ep_Service :: string
  ep_Output :: string
  ep_Sensitive :: bool

record Expression =
  ex_Parts :: "ExpressionPart list"

definition zero_part :: ExpressionPart where
  "zero_part = \<lparr>ep_Kind = [], ep_Value = [], ep_Name = [], ep_Default = [], ep_HasDefault = False,
     ep_Collection = [], ep_Service = [], ep_Output = [], ep_Sensitive = False\<rparr>"

text \<open>The services a manifest declares, of which only the keys are read here.\<close>

record ManifestServices =
  ms_Databases :: "string list"
  ms_Buckets :: "string list"

datatype expr_error =
    UnterminatedVariable nat | InvalidVariableName nat | ExpectedVariableEnd nat
  | UnknownCollection nat | ExpectedTriple nat | InvalidServiceKey nat | InvalidOutputName nat
  | UnterminatedOutput nat | ExpectedOutputEnd nat | StrayEnd nat
  | OutputsNotAllowed | UnknownOutput string string | UnknownDatabase string | UnknownBucket string
  | NotPlain string string string | MissingVariable string | UnknownVariable string
  | MissingOutputs string string | MissingOutput string string string | UnknownPart string

definition outputCatalog :: "(string, (string, bool) gomap) gomap" where
  "outputCatalog =
     [(''databases'', [(''host'', False), (''port'', False), (''name'', False), (''username'', True),
        (''password'', True), (''url'', True)]),
      (''buckets'', [(''endpoint'', False), (''internal_endpoint'', False), (''name'', False), (''region'', False),
        (''access_key'', True), (''secret_key'', True)])]"

definition endpointBearing :: "(string, (string, bool) gomap) gomap" where
  "endpointBearing =
     [(''databases'', [(''host'', True), (''port'', True), (''url'', True)]),
      (''buckets'', [(''endpoint'', True), (''internal_endpoint'', True)])]"

definition EndpointBearingOutput :: "string \<Rightarrow> string \<Rightarrow> bool" where
  "EndpointBearingOutput collection output = mget_or False (mget_or [] endpointBearing collection) output"

section \<open>Scanning\<close>

definition isProjectNameStart :: "char \<Rightarrow> bool" where
  "isProjectNameStart c \<longleftrightarrow> c = CHR ''_'' \<or> is_upper c"

definition isProjectNameChar :: "char \<Rightarrow> bool" where
  "isProjectNameChar c \<longleftrightarrow> isProjectNameStart c \<or> is_digit c"

definition isServiceKeyChar :: "char \<Rightarrow> bool" where
  "isServiceKeyChar c \<longleftrightarrow> c = CHR ''-'' \<or> is_lower c \<or> is_digit c"

definition isOutputNameStart :: "char \<Rightarrow> bool" where
  "isOutputNameStart c \<longleftrightarrow> c = CHR ''_'' \<or> is_lower c"

definition isOutputNameChar :: "char \<Rightarrow> bool" where
  "isOutputNameChar c \<longleftrightarrow> isOutputNameStart c \<or> is_digit c"

definition skipped :: "char \<Rightarrow> bool" where
  "skipped c \<longleftrightarrow> (of_char c :: nat) \<in> {32, 9, 10, 12, 13}"

definition skipSpaces :: "string \<Rightarrow> string" where
  "skipSpaces rest = dropWhile skipped rest"

text \<open>A name: its first character and the run of characters that may follow.\<close>

definition scan_name :: "(char \<Rightarrow> bool) \<Rightarrow> (char \<Rightarrow> bool) \<Rightarrow> string \<Rightarrow> string" where
  "scan_name first follows rest =
     (case rest of [] \<Rightarrow> [] | c # cs \<Rightarrow> if first c then c # takeWhile follows cs else [])"

definition scanProjectVariable :: "nat \<Rightarrow> string \<Rightarrow> expr_error + (ExpressionPart \<times> string)" where
  "scanProjectVariable start rest =
     (let name = scan_name isProjectNameStart isProjectNameChar rest;
          rest = drop (length name) rest;
          part = zero_part\<lparr>ep_Kind := ''project_variable'', ep_Name := name\<rparr> in
      if name = [] then
        (if rest = [] then Inl (UnterminatedVariable (start + 1)) else Inl (InvalidVariableName (start + 1)))
      else if rest \<noteq> [] \<and> hd rest = CHR ''}'' then Inr (part, tl rest)
      else if has_prefix '':-'' rest then
        (let body = drop 2 rest;
             dflt = takeWhile (\<lambda>c. c \<noteq> CHR ''}'') body;
             rest = drop (length dflt) body in
         if rest = [] then Inl (UnterminatedVariable (start + 1))
         else Inr (part\<lparr>ep_Default := dflt, ep_HasDefault := True\<rparr>, tl rest))
      else if rest = [] then Inl (UnterminatedVariable (start + 1))
      else Inl (ExpectedVariableEnd (start + 1)))"

definition scanServiceOutput :: "nat \<Rightarrow> string \<Rightarrow> expr_error + (ExpressionPart \<times> string)" where
  "scanServiceOutput start rest =
     (let rest = skipSpaces rest;
          collection = takeWhile is_lower rest;
          rest = drop (length collection) rest in
      if collection \<noteq> ''databases'' \<and> collection \<noteq> ''buckets'' then Inl (UnknownCollection (start + 1))
      else if rest = [] \<or> hd rest \<noteq> CHR ''.'' then Inl (ExpectedTriple (start + 1))
      else
        let rest = tl rest;
            key = scan_name is_lower isServiceKeyChar rest;
            rest = drop (length key) rest in
        if key = [] \<or> length key > 63 then Inl (InvalidServiceKey (start + 1))
        else if rest = [] \<or> hd rest \<noteq> CHR ''.'' then Inl (ExpectedTriple (start + 1))
        else
          let rest = tl rest;
              output = scan_name isOutputNameStart isOutputNameChar rest;
              rest = drop (length output) rest in
          if output = [] then Inl (InvalidOutputName (start + 1))
          else
            let rest = skipSpaces rest in
            if rest = [] then Inl (UnterminatedOutput (start + 1))
            else if \<not> has_prefix ''}}'' rest then Inl (ExpectedOutputEnd (start + 1))
            else Inr (zero_part\<lparr>ep_Kind := ''service_output'', ep_Collection := collection, ep_Service := key,
                        ep_Output := output\<rparr>, drop 2 rest))"

definition checkServiceOutput :: "ExpressionPart \<Rightarrow> ManifestServices \<Rightarrow> expr_error + ExpressionPart" where
  "checkServiceOutput part project =
     (case mget (mget_or [] outputCatalog (ep_Collection part)) (ep_Output part) of
        None \<Rightarrow> Inl (UnknownOutput (ep_Collection part) (ep_Output part))
      | Some sensitive \<Rightarrow>
          let part = part\<lparr>ep_Sensitive := sensitive\<rparr> in
          if ep_Collection part = ''databases'' \<and> ep_Service part \<notin> set (ms_Databases project)
          then Inl (UnknownDatabase (ep_Service part))
          else if ep_Collection part = ''buckets'' \<and> ep_Service part \<notin> set (ms_Buckets project)
          then Inl (UnknownBucket (ep_Service part))
          else Inr part)"

section \<open>What a scan has read\<close>

lemma has_prefix_iff: "has_prefix p s \<longleftrightarrow> (\<exists>r. s = p @ r)"
  unfolding has_prefix_def by (metis append_eq_conv_conj append_take_drop_id)

lemma hd_dot: "\<not> (r = [] \<or> hd r \<noteq> c) \<longleftrightarrow> (\<exists>r'. r = c # r')"
  by (cases r) auto

lemma scan_name_split: "scan_name first follows rest @ drop (length (scan_name first follows rest)) rest = rest"
  by (cases rest) (simp_all add: scan_name_def dropWhile_eq_drop [symmetric])

text \<open>A name is scanned again from any text that goes on with a character outside it.\<close>

definition is_name :: "(char \<Rightarrow> bool) \<Rightarrow> (char \<Rightarrow> bool) \<Rightarrow> string \<Rightarrow> bool" where
  "is_name first follows name \<longleftrightarrow> name \<noteq> [] \<and> first (hd name) \<and> list_all follows (tl name)"

lemma scan_name_is_name: "scan_name first follows rest \<noteq> [] \<Longrightarrow> is_name first follows (scan_name first follows rest)"
  by (auto simp: scan_name_def is_name_def list_all_iff dest: set_takeWhileD split: list.splits if_splits)

lemma scan_name_again:
  assumes "is_name first follows name" "\<not> follows c"
  shows "scan_name first follows (name @ c # rest) = name"
proof -
  obtain x xs where n: "name = x # xs" "first x" "list_all follows xs"
    using assms(1) by (cases name) (auto simp: is_name_def)
  then show ?thesis using assms(2) by (simp add: scan_name_def list_all_iff takeWhile_append2)
qed

definition variable_part :: "string \<Rightarrow> ExpressionPart" where
  "variable_part name = zero_part\<lparr>ep_Kind := ''project_variable'', ep_Name := name\<rparr>"

lemma scanProjectVariable_InrE:
  assumes "scanProjectVariable start rest = Inr (part, next)"
  obtains (plain) name where "rest = name @ CHR ''}'' # next" "is_name isProjectNameStart isProjectNameChar name"
      "part = variable_part name"
  | (default) name dflt where "rest = name @ '':-'' @ dflt @ CHR ''}'' # next" "is_name isProjectNameStart isProjectNameChar name"
      "CHR ''}'' \<notin> set dflt" "part = (variable_part name)\<lparr>ep_Default := dflt, ep_HasDefault := True\<rparr>"
proof -
  let ?n = "scan_name isProjectNameStart isProjectNameChar rest"
  let ?r = "drop (length ?n) rest"
  have n: "?n \<noteq> []" using assms by (auto simp: scanProjectVariable_def Let_def split: if_splits)
  note name = scan_name_is_name [OF n]
  have r: "rest = ?n @ ?r" by (simp add: scan_name_split)
  show thesis
  proof (cases "\<exists>r'. ?r = CHR ''}'' # r'")
    case True
    then obtain r' where r': "?r = CHR ''}'' # r'" by blast
    then have "next = r'" "part = variable_part ?n"
      using assms n by (auto simp: scanProjectVariable_def Let_def variable_part_def)
    then show thesis using plain [OF _ name] r r' by simp
  next
    case False
    then have nb: "\<not> (?r \<noteq> [] \<and> hd ?r = CHR ''}'')" by (cases ?r) auto
    have p: "has_prefix '':-'' ?r"
      using assms n nb by (simp add: scanProjectVariable_def Let_def split: if_splits)
    then obtain body where body: "?r = '':-'' @ body" by (auto simp: has_prefix_iff)
    let ?d = "takeWhile (\<lambda>c. c \<noteq> CHR ''}'') body"
    have d: "drop (length ?d) body \<noteq> []" "next = tl (drop (length ?d) body)"
      "part = (variable_part ?n)\<lparr>ep_Default := ?d, ep_HasDefault := True\<rparr>"
      using assms n nb p body by (simp_all add: scanProjectVariable_def Let_def variable_part_def split: if_splits)
    have "hd (dropWhile (\<lambda>c. c \<noteq> CHR ''}'') body) = CHR ''}''"
      using d(1) hd_dropWhile [of "\<lambda>c. c \<noteq> CHR ''}''" body] by (simp add: dropWhile_eq_drop)
    then have "body = ?d @ CHR ''}'' # next"
      using d takeWhile_dropWhile_id [of "\<lambda>c. c \<noteq> CHR ''}''" body]
      by (metis dropWhile_eq_drop list.collapse)
    moreover have "CHR ''}'' \<notin> set ?d" by (auto dest: set_takeWhileD)
    ultimately show thesis using default [OF _ name _ d(3)] r body by (metis append.assoc)
  qed
qed

lemma not_name_chars:
  "\<not> isProjectNameChar (CHR ''}'')" "\<not> isProjectNameChar (CHR '':'')"
  "\<not> isServiceKeyChar (CHR ''.'')" "\<not> isOutputNameChar (CHR ''}'')" "\<not> is_lower (CHR ''.'')"
  "\<not> skipped (CHR ''}'')" "\<not> skipped (CHR ''d'')" "\<not> skipped (CHR ''b'')"
  by code_simp+

text \<open>The spelling of a part, which \<^verbatim>\<open>Source\<close> prints.\<close>

definition part_source :: "ExpressionPart \<Rightarrow> string" where
  "part_source part =
     (if ep_Kind part = ''project_variable'' then
        (if ep_HasDefault part then ''${'' @ ep_Name part @ '':-'' @ ep_Default part @ ''}''
         else ''${'' @ ep_Name part @ ''}'')
      else if ep_Kind part = ''service_output'' then
        ''{{'' @ ep_Collection part @ ''.'' @ ep_Service part @ ''.'' @ ep_Output part @ ''}}''
      else ep_Value part)"

definition Source :: "Expression \<Rightarrow> string" where
  "Source e = concat (map part_source (ex_Parts e))"

lemma scanned_variable:
  assumes "scanProjectVariable start rest = Inr (part, next)"
  obtains tok where "rest = tok @ next" "part_source part = ''${'' @ tok"
    "\<forall>start' next'. scanProjectVariable start' (tok @ next') = Inr (part, next')"
  using assms
proof (cases rule: scanProjectVariable_InrE)
  case (plain name)
  have "scanProjectVariable start' ((name @ ''}'') @ next') = Inr (part, next')" for start' next'
    using scan_name_again [OF plain(2) not_name_chars(1), of next'] plain(2,3)
    by (simp add: scanProjectVariable_def Let_def variable_part_def is_name_def)
  then show thesis
    using that [of "name @ ''}''"] plain by (simp add: part_source_def variable_part_def zero_part_def)
next
  case (default name dflt)
  have t: "takeWhile (\<lambda>c. c \<noteq> CHR ''}'') (dflt @ CHR ''}'' # next') = dflt" for next'
    using default(3) by (induction dflt) auto
  have "scanProjectVariable start' ((name @ '':-'' @ dflt @ ''}'') @ next') = Inr (part, next')" for start' next'
    using scan_name_again [OF default(2) not_name_chars(2), of "CHR ''-'' # dflt @ CHR ''}'' # next'"] default(2,4) t
    by (simp add: scanProjectVariable_def Let_def variable_part_def is_name_def has_prefix_def)
  then show thesis
    using that [of "name @ '':-'' @ dflt @ ''}''"] default by (simp add: part_source_def variable_part_def zero_part_def)
qed

definition output_part :: "string \<Rightarrow> string \<Rightarrow> string \<Rightarrow> ExpressionPart" where
  "output_part collection key output =
     zero_part\<lparr>ep_Kind := ''service_output'', ep_Collection := collection, ep_Service := key, ep_Output := output\<rparr>"

lemma scanServiceOutput_InrE:
  assumes "scanServiceOutput start rest = Inr (part, next)"
  obtains r0 collection r1 key r2 out where
    "r0 = skipSpaces rest" "collection = takeWhile is_lower r0" "collection \<in> {''databases'', ''buckets''}"
    "drop (length collection) r0 = CHR ''.'' # r1"
    "key = scan_name is_lower isServiceKeyChar r1" "key \<noteq> []" "length key \<le> 63"
    "drop (length key) r1 = CHR ''.'' # r2"
    "out = scan_name isOutputNameStart isOutputNameChar r2" "out \<noteq> []"
    "skipSpaces (drop (length out) r2) = ''}}'' @ next" "part = output_part collection key out"
proof -
  define r0 where "r0 = skipSpaces rest"
  define collection where "collection = takeWhile is_lower r0"
  have 1: "collection \<in> {''databases'', ''buckets''}" "\<not> (drop (length collection) r0 = [] \<or> hd (drop (length collection) r0) \<noteq> CHR ''.'')"
    using assms by (auto simp: scanServiceOutput_def Let_def r0_def [symmetric] collection_def [symmetric] split: if_splits)
  from 1(2) obtain r1 where r1: "drop (length collection) r0 = CHR ''.'' # r1" unfolding hd_dot ..
  define key where "key = scan_name is_lower isServiceKeyChar r1"
  have 2: "key \<noteq> []" "\<not> length key > 63" "\<not> (drop (length key) r1 = [] \<or> hd (drop (length key) r1) \<noteq> CHR ''.'')"
    using assms 1 r1
    by (auto simp: scanServiceOutput_def Let_def r0_def [symmetric] collection_def [symmetric] key_def [symmetric] split: if_splits)
  from 2(3) obtain r2 where r2: "drop (length key) r1 = CHR ''.'' # r2" unfolding hd_dot ..
  define out where "out = scan_name isOutputNameStart isOutputNameChar r2"
  have 3: "out \<noteq> []" "has_prefix ''}}'' (skipSpaces (drop (length out) r2))"
    "next = drop 2 (skipSpaces (drop (length out) r2))" "part = output_part collection key out"
    using assms 1 r1 2 r2
    by (auto simp: scanServiceOutput_def Let_def r0_def [symmetric] collection_def [symmetric] key_def [symmetric]
        out_def [symmetric] output_part_def split: if_splits)
  have "skipSpaces (drop (length out) r2) = ''}}'' @ next"
    using 3(2,3) by (auto simp: has_prefix_iff)
  then show thesis
    using that [OF r0_def collection_def 1(1) r1 key_def 2(1) _ r2 out_def 3(1) _ 3(4)] 2(2) by simp
qed

lemma scanned_output:
  assumes "scanServiceOutput start rest = Inr (part, next)"
  obtains tok where "part_source part = ''{{'' @ tok" "length next < length rest" "ep_Kind part = ''service_output''"
    "\<forall>start' next'. scanServiceOutput start' (tok @ next') = Inr (part, next')"
  using assms
proof (cases rule: scanServiceOutput_InrE)
  case (1 r0 collection r1 key r2 out)
  have len: "length next < length rest"
  proof -
    have "length r0 \<le> length rest" using 1(1) by (simp add: skipSpaces_def length_dropWhile_le)
    moreover have "length r1 < length r0" using arg_cong [OF 1(4), of length] by simp
    moreover have "length r2 < length r1" using arg_cong [OF 1(8), of length] by simp
    moreover have "length next + 2 \<le> length r2"
      using arg_cong [OF 1(11), of length] length_dropWhile_le [of skipped "drop (length out) r2"] by (simp add: skipSpaces_def)
    ultimately show ?thesis by simp
  qed
  have key: "is_name is_lower isServiceKeyChar key" using 1(5,6) scan_name_is_name by blast
  have outn: "is_name isOutputNameStart isOutputNameChar out" using 1(9,10) scan_name_is_name by blast
  have low: "takeWhile is_lower (collection @ CHR ''.'' # r) = collection" for r
  proof -
    have "x \<in> set collection \<Longrightarrow> is_lower x" for x unfolding 1(2) by (blast dest: set_takeWhileD)
    then show ?thesis by (simp add: takeWhile_append2 not_name_chars)
  qed
  have skip: "skipSpaces (collection @ r) = collection @ r" for r
    using 1(3) by (auto simp: skipSpaces_def not_name_chars)
  have "scanServiceOutput start' ((collection @ ''.'' @ key @ ''.'' @ out @ ''}}'') @ next') = Inr (part, next')" for start' next'
    using scan_name_again [OF key not_name_chars(3), of "out @ ''}}'' @ next'"]
      scan_name_again [OF outn not_name_chars(4), of "CHR ''}'' # next'"] 1(3,6,7,10,12) low skip
    by (simp add: scanServiceOutput_def Let_def skipSpaces_def not_name_chars has_prefix_def output_part_def)
  then show thesis
    using that [OF _ len] 1(12) by (simp add: part_source_def output_part_def zero_part_def)
qed

section \<open>Parsing (parseExpression)\<close>

definition literal_part :: "string \<Rightarrow> ExpressionPart" where
  "literal_part v = zero_part\<lparr>ep_Kind := ''literal'', ep_Value := v\<rparr>"

definition flush :: "string \<Rightarrow> ExpressionPart list \<Rightarrow> ExpressionPart list" where
  "flush literal parts = (if length literal > 0 then parts @ [literal_part literal] else parts)"

text \<open>\<open>n\<close> is the length of the whole text, so \<open>n - length rest\<close> is the position.\<close>

function parse_loop ::
    "nat \<Rightarrow> ManifestServices \<Rightarrow> bool \<Rightarrow> string \<Rightarrow> ExpressionPart list \<Rightarrow> string \<Rightarrow> expr_error + ExpressionPart list" where
  "parse_loop n project allowOutputs literal parts rest =
     (if rest = [] then Inr (flush literal parts)
      else if has_prefix ''${'' rest then
        (case scanProjectVariable (n - length rest) (drop 2 rest) of
           Inl e \<Rightarrow> Inl e
         | Inr (part, next) \<Rightarrow> parse_loop n project allowOutputs [] (flush literal parts @ [part]) next)
      else if has_prefix ''{{'' rest then
        (case scanServiceOutput (n - length rest) (drop 2 rest) of
           Inl e \<Rightarrow> Inl e
         | Inr (part, next) \<Rightarrow>
             if \<not> allowOutputs then Inl OutputsNotAllowed
             else (case checkServiceOutput part project of
               Inl e \<Rightarrow> Inl e
             | Inr part \<Rightarrow> parse_loop n project allowOutputs [] (flush literal parts @ [part]) next))
      else if has_prefix ''}}'' rest then Inl (StrayEnd (n - length rest + 1))
      else parse_loop n project allowOutputs (literal @ [hd rest]) parts (tl rest))"
  by pat_completeness auto
termination
proof (relation "measure (\<lambda>(n, project, allow, literal, parts, rest). length rest)", goal_cases)
  case (2 n project allow literal parts rest r part "next")
  then obtain tok where "drop 2 rest = tok @ next" "rest \<noteq> []" by (metis scanned_variable)
  then have "length rest - 2 = length tok + length next" by (metis length_append length_drop)
  then show ?case using 2(2) by (auto simp: has_prefix_iff)
next
  case (3 n project allow literal parts rest r part "next" p')
  then have "length next < length (drop 2 rest)" by (metis scanned_output)
  then show ?case by simp
qed auto

declare parse_loop.simps [simp del]

definition parseExpression :: "string \<Rightarrow> ManifestServices \<Rightarrow> bool \<Rightarrow> expr_error + Expression" where
  "parseExpression raw project allowOutputs =
     bind_r (parse_loop (length raw) project allowOutputs [] [] raw) (\<lambda>parts.
     Inr \<lparr>ex_Parts = (if length parts = 0 then [literal_part raw] else parts)\<rparr>)"

abbreviation sources :: "ExpressionPart list \<Rightarrow> string" where
  "sources parts \<equiv> concat (map part_source parts)"

lemma sources_flush [simp]: "sources (flush literal parts) = sources parts @ literal"
  by (simp add: flush_def literal_part_def part_source_def)

lemma check_source: "checkServiceOutput part project = Inr part' \<Longrightarrow> part_source part' = part_source part \<and> ep_Kind part' = ep_Kind part"
  by (auto simp: checkServiceOutput_def part_source_def Let_def split: option.splits if_splits)

text \<open>The steps of the loop, by what the text starts with.\<close>

lemma parse_loop_cases:
  assumes "parse_loop n project allow literal parts rest = Inr ps"
  obtains (finished) "rest = []" "ps = flush literal parts"
  | (var) r part "next" where "rest = ''${'' @ r" "scanProjectVariable (n - length rest) r = Inr (part, next)"
      "parse_loop n project allow [] (flush literal parts @ [part]) next = Inr ps"
  | (out) r part part' "next" where "rest = ''{{'' @ r" "scanServiceOutput (n - length rest) r = Inr (part, next)" "allow"
      "checkServiceOutput part project = Inr part'" "parse_loop n project allow [] (flush literal parts @ [part']) next = Inr ps"
  | (char) c cs where "rest = c # cs" "\<not> has_prefix ''${'' rest" "\<not> has_prefix ''{{'' rest" "\<not> has_prefix ''}}'' rest"
      "parse_loop n project allow (literal @ [c]) parts cs = Inr ps"
proof (cases "rest = []")
  case True
  then show thesis using assms finished by (simp add: parse_loop.simps)
next
  case ne: False
  show thesis
  proof (cases "has_prefix ''${'' rest")
    case True
    then obtain r where r: "rest = ''${'' @ r" by (auto simp: has_prefix_iff)
    show thesis
      using assms True ne by (subst (asm) parse_loop.simps) (auto simp: r intro!: var [OF r] split: sum.splits)
  next
    case nv: False
    show thesis
    proof (cases "has_prefix ''{{'' rest")
      case True
      then obtain r where r: "rest = ''{{'' @ r" by (auto simp: has_prefix_iff)
      have "\<exists>part next part'. scanServiceOutput (n - length rest) r = Inr (part, next) \<and> allow \<and>
          checkServiceOutput part project = Inr part' \<and> parse_loop n project allow [] (flush literal parts @ [part']) next = Inr ps"
        using assms True ne nv by (subst (asm) parse_loop.simps) (auto simp: r split: sum.splits if_splits)
      then show thesis using out [OF r] by blast
    next
      case no: False
      have ns: "\<not> has_prefix ''}}'' rest" using assms ne nv no by (subst (asm) parse_loop.simps) (auto split: if_splits)
      obtain c cs where c: "rest = c # cs" using ne by (cases rest) auto
      show thesis
        using assms ne nv no ns by (subst (asm) parse_loop.simps) (auto simp: c intro!: char [OF c])
    qed
  qed
qed

lemma parse_step_simps:
  "parse_loop n project allow literal parts [] = Inr (flush literal parts)"
  "scanProjectVariable (n - length (''${'' @ r)) r = Inr (part, next) \<Longrightarrow>
   parse_loop n project allow literal parts (''${'' @ r) = parse_loop n project allow [] (flush literal parts @ [part]) next"
  "scanServiceOutput (n - length (''{{'' @ r)) r = Inr (part, next) \<Longrightarrow> checkServiceOutput part project = Inr part' \<Longrightarrow>
   parse_loop n project True literal parts (''{{'' @ r) = parse_loop n project True [] (flush literal parts @ [part']) next"
  "\<not> has_prefix ''${'' (c # cs) \<Longrightarrow> \<not> has_prefix ''{{'' (c # cs) \<Longrightarrow> \<not> has_prefix ''}}'' (c # cs) \<Longrightarrow>
   parse_loop n project allow literal parts (c # cs) = parse_loop n project allow (literal @ [c]) parts cs"
proof -
  show "parse_loop n project allow literal parts [] = Inr (flush literal parts)" by (subst parse_loop.simps) simp
  show "parse_loop n project allow literal parts (''${'' @ r) = parse_loop n project allow [] (flush literal parts @ [part]) next"
    if "scanProjectVariable (n - length (''${'' @ r)) r = Inr (part, next)"
    using that by (subst parse_loop.simps) (simp add: has_prefix_def)
  show "parse_loop n project True literal parts (''{{'' @ r) = parse_loop n project True [] (flush literal parts @ [part']) next"
    if "scanServiceOutput (n - length (''{{'' @ r)) r = Inr (part, next)" "checkServiceOutput part project = Inr part'"
    using that by (subst parse_loop.simps) (simp add: has_prefix_def)
  show "parse_loop n project allow literal parts (c # cs) = parse_loop n project allow (literal @ [c]) parts cs"
    if "\<not> has_prefix ''${'' (c # cs)" "\<not> has_prefix ''{{'' (c # cs)" "\<not> has_prefix ''}}'' (c # cs)"
    using that by (subst parse_loop.simps) simp
qed

lemma prefix_next: "has_prefix [x, y] (c # cs) \<longleftrightarrow> c = x \<and> take 1 cs = [y]"
  by (cases cs) (auto simp: has_prefix_def)

lemma reparse:
  assumes "parse_loop n project allow literal parts rest = Inr ps"
  shows "\<exists>rest'. sources ps = sources parts @ literal @ rest' \<and> take 1 rest' = take 1 rest \<and>
    (\<forall>m. parse_loop m project allow literal parts rest' = Inr ps)"
  using assms
proof (induction "length rest" arbitrary: literal parts rest rule: less_induct)
  case less
  from less.prems show ?case
  proof (cases rule: parse_loop_cases)
    case finished
    then show ?thesis by (intro exI [of _ "[]"]) (simp add: parse_step_simps)
  next
    case (var r part "next")
    from var(2) obtain tok where tok: "r = tok @ next" "part_source part = ''${'' @ tok"
      "\<forall>start' next'. scanProjectVariable start' (tok @ next') = Inr (part, next')" by (rule scanned_variable)
    have "length next < length rest" using var(1) tok(1) by simp
    from less.hyps [OF this var(3)] obtain next' where n: "sources ps = sources parts @ literal @ part_source part @ next'"
      "\<And>m. parse_loop m project allow [] (flush literal parts @ [part]) next' = Inr ps" by auto
    show ?thesis
    proof (intro exI [of _ "''${'' @ tok @ next'"] conjI allI)
      show "sources ps = sources parts @ literal @ ''${'' @ tok @ next'" using n(1) tok(2) by simp
      show "take 1 (''${'' @ tok @ next') = take 1 rest" using var(1) by simp
      show "parse_loop m project allow literal parts (''${'' @ tok @ next') = Inr ps" for m
        using parse_step_simps(2) [OF tok(3) [rule_format]] n(2) by simp
    qed
  next
    case (out r part part' "next")
    from out(2) obtain tok where tok: "part_source part = ''{{'' @ tok" "length next < length r"
      "\<forall>start' next'. scanServiceOutput start' (tok @ next') = Inr (part, next')" by (rule scanned_output)
    have "length next < length rest" using out(1) tok(2) by simp
    from less.hyps [OF this out(5)] obtain next' where n: "sources ps = sources parts @ literal @ part_source part' @ next'"
      "\<And>m. parse_loop m project allow [] (flush literal parts @ [part']) next' = Inr ps" by auto
    show ?thesis
    proof (intro exI [of _ "''{{'' @ tok @ next'"] conjI allI)
      show "sources ps = sources parts @ literal @ ''{{'' @ tok @ next'" using n(1) tok(1) check_source [OF out(4)] by simp
      show "take 1 (''{{'' @ tok @ next') = take 1 rest" using out(1) by simp
      show "parse_loop m project allow literal parts (''{{'' @ tok @ next') = Inr ps" for m
        using parse_step_simps(3) [OF tok(3) [rule_format] out(4)] n(2) out(3) by simp
    qed
  next
    case (char c cs)
    have "length cs < length rest" using char(1) by simp
    from less.hyps [OF this char(5)] obtain cs' where n: "sources ps = sources parts @ (literal @ [c]) @ cs'"
      "take 1 cs' = take 1 cs" "\<And>m. parse_loop m project allow (literal @ [c]) parts cs' = Inr ps" by auto
    have p: "\<not> has_prefix ''${'' (c # cs')" "\<not> has_prefix ''{{'' (c # cs')" "\<not> has_prefix ''}}'' (c # cs')"
      using char(2-4) unfolding char(1) prefix_next n(2) by simp_all
    then show ?thesis
      using n parse_step_simps(4) [OF p] char(1) by (intro exI [of _ "c # cs'"]) simp
  qed
qed

section \<open>Reading and resolving expressions\<close>

definition ServiceOutput :: "Expression \<Rightarrow> ExpressionPart option" where
  "ServiceOutput e =
     (case ex_Parts e of [part] \<Rightarrow> if ep_Kind part = ''service_output'' then Some part else None | _ \<Rightarrow> None)"

definition HasProjectVariables :: "Expression \<Rightarrow> bool" where
  "HasProjectVariables e = list_ex (\<lambda>part. ep_Kind part = ''project_variable'') (ex_Parts e)"

definition HasReferences :: "Expression \<Rightarrow> bool" where
  "HasReferences e = list_ex (\<lambda>part. ep_Kind part \<noteq> ''literal'') (ex_Parts e)"

definition hasServiceOutputPart :: "Expression \<Rightarrow> bool" where
  "hasServiceOutputPart e = list_ex (\<lambda>part. ep_Kind part = ''service_output'') (ex_Parts e)"

definition Literal :: "Expression \<Rightarrow> string" where
  "Literal e = concat (map ep_Value (filter (\<lambda>part. ep_Kind part = ''literal'') (ex_Parts e)))"

definition resolvePlainPart :: "ExpressionPart \<Rightarrow> (string, string) gomap \<Rightarrow> expr_error + string" where
  "resolvePlainPart part values =
     (if ep_Kind part = ''literal'' then Inr (ep_Value part)
      else if ep_Kind part = ''project_variable'' then
        (case mget values (ep_Name part) of
           Some value \<Rightarrow> Inr value
         | None \<Rightarrow> if \<not> ep_HasDefault part then Inl (MissingVariable (ep_Name part)) else Inr (ep_Default part))
      else Inl (UnknownPart (ep_Kind part)))"

text \<open>The loop over the parts stops at the first error; \<open>outs\<close> says what a service output is.\<close>

fun resolve_parts ::
    "(ExpressionPart \<Rightarrow> expr_error + string) \<Rightarrow> (string, string) gomap \<Rightarrow> ExpressionPart list \<Rightarrow> expr_error + string" where
  "resolve_parts outs values [] = Inr []"
| "resolve_parts outs values (part # parts) =
     bind_r (if ep_Kind part = ''service_output'' then outs part else resolvePlainPart part values) (\<lambda>value.
     bind_r (resolve_parts outs values parts) (\<lambda>result. Inr (value @ result)))"

definition ResolveExpression :: "Expression \<Rightarrow> (string, string) gomap \<Rightarrow> expr_error + string" where
  "ResolveExpression e values =
     resolve_parts (\<lambda>part. Inl (NotPlain (ep_Collection part) (ep_Service part) (ep_Output part))) values (ex_Parts e)"

definition output_value :: "(string, (string, string) gomap) gomap \<Rightarrow> ExpressionPart \<Rightarrow> expr_error + string" where
  "output_value outputs part =
     (case mget outputs (ep_Collection part @ ''.'' @ ep_Service part) of
        None \<Rightarrow> Inl (MissingOutputs (ep_Collection part) (ep_Service part))
      | Some values \<Rightarrow>
          (case mget values (ep_Output part) of
             None \<Rightarrow> Inl (MissingOutput (ep_Collection part) (ep_Service part) (ep_Output part))
           | Some value \<Rightarrow> Inr value))"

definition ResolveExpressionOutputs ::
    "Expression \<Rightarrow> (string, string) gomap \<Rightarrow> (string, (string, string) gomap) gomap \<Rightarrow> expr_error + string" where
  "ResolveExpressionOutputs e values outputs = resolve_parts (output_value outputs) values (ex_Parts e)"

section \<open>Expanding variables in a command (ExpandVariables)\<close>

function expand_loop ::
    "nat \<Rightarrow> (string \<Rightarrow> string option) \<Rightarrow> string \<Rightarrow> string \<Rightarrow> expr_error + string" where
  "expand_loop n lookup expanded rest =
     (if rest = [] then Inr expanded
      else if \<not> has_prefix ''${'' rest then expand_loop n lookup (expanded @ [hd rest]) (tl rest)
      else
        (case scanProjectVariable (n - length rest) (drop 2 rest) of
           Inl e \<Rightarrow> Inl e
         | Inr (part, next) \<Rightarrow>
             (case lookup (ep_Name part) of
                Some value \<Rightarrow> expand_loop n lookup (expanded @ value) next
              | None \<Rightarrow>
                  if \<not> ep_HasDefault part then Inl (UnknownVariable (ep_Name part))
                  else expand_loop n lookup (expanded @ ep_Default part) next)))"
  by pat_completeness auto
termination
proof (relation "measure (\<lambda>(n, lookup, expanded, rest). length rest)", goal_cases)
  case (3 n lookup expanded rest x y z)
  then obtain tok where "drop 2 rest = tok @ z" "rest \<noteq> []" by (metis scanned_variable)
  then have "length rest - 2 = length tok + length z" by (metis length_append length_drop)
  then show ?case using 3(2) by (auto simp: has_prefix_iff)
next
  case (4 n lookup expanded rest x y z)
  then obtain tok where "drop 2 rest = tok @ z" "rest \<noteq> []" by (metis scanned_variable)
  then have "length rest - 2 = length tok + length z" by (metis length_append length_drop)
  then show ?case using 4(2) by (auto simp: has_prefix_iff)
qed auto

declare expand_loop.simps [simp del]

definition ExpandVariables :: "string \<Rightarrow> (string \<Rightarrow> string option) \<Rightarrow> expr_error + string" where
  "ExpandVariables raw lookup = expand_loop (length raw) lookup [] raw"

section \<open>Printing and parsing\<close>

lemma parts_prefix:
  assumes "parse_loop n project allow literal parts rest = Inr ps"
  shows "\<exists>more. ps = parts @ more"
  using assms
proof (induction "length rest" arbitrary: literal parts rest rule: less_induct)
  case less
  from less.prems show ?case
  proof (cases rule: parse_loop_cases)
    case finished
    then show ?thesis by (simp add: flush_def)
  next
    case (var r part "next")
    from var(2) obtain tok where "r = tok @ next" by (rule scanned_variable)
    then show ?thesis using less.hyps [OF _ var(3)] var(1) by (auto simp: flush_def split: if_splits)
  next
    case (out r part part' "next")
    from out(2) have "length next < length r" by (rule scanned_output)
    then show ?thesis using less.hyps [OF _ out(5)] out(1) by (auto simp: flush_def split: if_splits)
  next
    case (char c cs)
    then show ?thesis using less.hyps [OF _ char(5)] by simp
  qed
qed

lemma source_exact:
  assumes "parse_loop n project allow literal parts rest = Inr ps" "\<forall>part \<in> set ps. ep_Kind part \<noteq> ''service_output''"
  shows "sources ps = sources parts @ literal @ rest"
  using assms
proof (induction "length rest" arbitrary: literal parts rest rule: less_induct)
  case less
  from less.prems(1) show ?case
  proof (cases rule: parse_loop_cases)
    case finished
    then show ?thesis by simp
  next
    case (var r part "next")
    from var(2) obtain tok where tok: "r = tok @ next" "part_source part = ''${'' @ tok" by (rule scanned_variable)
    then show ?thesis using less.hyps [OF _ var(3) less.prems(2)] var(1) by simp
  next
    case (out r part part' "next")
    have "part' \<in> set ps" using parts_prefix [OF out(5)] by auto
    moreover have "ep_Kind part' = ''service_output''"
      using check_source [OF out(4)] scanned_output [OF out(2)] by metis
    ultimately show ?thesis using less.prems(2) by blast
  next
    case (char c cs)
    then show ?thesis using less.hyps [OF _ char(5) less.prems(2)] by simp
  qed
qed

lemma parse_none: "parse_loop n project allow [] [] rest = Inr [] \<Longrightarrow> rest = []"
  using source_exact [of n project allow "[]" "[]" rest "[]"] by simp

text \<open>
  C18. \<^verbatim>\<open>Source\<close> prints an expression so that it parses again to the same
  expression, and it is the manifest's own text when no service output is in
  it (inside \<^verbatim>\<open>{{ }}\<close> spaces are not kept).
\<close>

theorem source_reparses:
  assumes "parseExpression raw project allowOutputs = Inr e"
  shows "parseExpression (Source e) project allowOutputs = Inr e \<and> (\<not> hasServiceOutputPart e \<longrightarrow> Source e = raw)"
proof -
  from assms obtain ps where ps: "parse_loop (length raw) project allowOutputs [] [] raw = Inr ps"
    "ex_Parts e = (if ps = [] then [literal_part raw] else ps)"
    by (auto simp: parseExpression_def bind_r_Inr)
  show ?thesis
  proof (cases "ps = []")
    case True
    then have "raw = []" using ps(1) parse_none by blast
    then show ?thesis using assms True ps(2) by (simp add: Source_def part_source_def literal_part_def)
  next
    case False
    then have e: "e = \<lparr>ex_Parts = ps\<rparr>" using ps(2) by (cases e) simp
    from reparse [OF ps(1)] have "parse_loop (length (Source e)) project allowOutputs [] [] (Source e) = Inr ps"
      by (auto simp: Source_def e)
    moreover have "Source e = raw" if "\<not> hasServiceOutputPart e"
      using source_exact [OF ps(1)] that by (auto simp: Source_def hasServiceOutputPart_def list_ex_iff e)
    ultimately show ?thesis using False by (simp add: parseExpression_def e)
  qed
qed

definition wit_services :: ManifestServices where
  "wit_services = \<lparr>ms_Databases = [''data''], ms_Buckets = []\<rparr>"

definition wit_raw :: string where
  "wit_raw = ''a$ ${ONE}${TWO:-x}{{ databases.data.url }}''"

theorem source_reparses_witness:
  "\<exists>e. parseExpression wit_raw wit_services True = Inr e \<and> Source e = ''a$ ${ONE}${TWO:-x}{{databases.data.url}}'' \<and>
     parseExpression ''a$ ${ONE}${TWO:-x}{{databases.data.url}}'' wit_services True = Inr e"
proof -
  have s: "(case parseExpression wit_raw wit_services True of Inl _ \<Rightarrow> [] | Inr e \<Rightarrow> Source e) =
      ''a$ ${ONE}${TWO:-x}{{databases.data.url}}''" by code_simp
  then obtain e where e: "parseExpression wit_raw wit_services True = Inr e" by (auto split: sum.splits)
  with s have "Source e = ''a$ ${ONE}${TWO:-x}{{databases.data.url}}''" by simp
  with e source_reparses [OF e] show ?thesis by auto
qed

section \<open>Expanding and resolving\<close>

definition as_unknown :: "expr_error \<Rightarrow> expr_error" where
  "as_unknown e = (case e of MissingVariable n \<Rightarrow> UnknownVariable n | _ \<Rightarrow> e)"

lemma resolve_append:
  "resolve_parts outs values (xs @ ys) =
     bind_r (resolve_parts outs values xs) (\<lambda>a. bind_r (resolve_parts outs values ys) (\<lambda>b. Inr (a @ b)))"
proof (induction xs)
  case Nil
  show ?case by (cases "resolve_parts outs values ys") simp_all
next
  case (Cons x xs)
  show ?case
    by (cases "if ep_Kind x = ''service_output'' then outs x else resolvePlainPart x values";
        cases "resolve_parts outs values xs"; cases "resolve_parts outs values ys") (simp_all add: Cons)
qed

lemma resolve_flush: "resolve_parts outs values parts = Inr done' \<Longrightarrow>
    resolve_parts outs values (flush literal parts) = Inr (done' @ literal)"
  by (simp add: flush_def resolve_append literal_part_def resolvePlainPart_def zero_part_def)

lemma variable_kinds:
  "scanProjectVariable start rest = Inr (part, next) \<Longrightarrow> ep_Kind part = ''project_variable''"
  by (erule scanProjectVariable_InrE) (simp_all add: variable_part_def)

lemma expand_resolves:
  assumes "parse_loop n project False literal parts rest = Inr ps" "resolve_parts outs values parts = Inr done'"
  shows "expand_loop n (mget values) (done' @ literal) rest = map_err as_unknown (resolve_parts outs values ps)"
  using assms
proof (induction "length rest" arbitrary: literal parts rest done' rule: less_induct)
  case less
  from less.prems(1) show ?case
  proof (cases rule: parse_loop_cases)
    case finished
    then show ?thesis using less.prems(2) resolve_flush by (subst expand_loop.simps) simp
  next
    case (var r part "next")
    from var(2) obtain tok where tok: "r = tok @ next" by (rule scanned_variable)
    note f = resolve_flush [OF less.prems(2), of literal]
    have k: "ep_Kind part = ''project_variable''" using variable_kinds [OF var(2)] .
    have go: "expand_loop n (mget values) ((done' @ literal) @ v) next = map_err as_unknown (resolve_parts outs values ps)"
      if "resolvePlainPart part values = Inr v" for v
      using less.hyps [OF _ var(3), of "(done' @ literal) @ v"] that f k var(1) tok by (simp add: resolve_append)
    have stop: "resolve_parts outs values ps = Inl (MissingVariable (ep_Name part))"
      if "resolvePlainPart part values = Inl (MissingVariable (ep_Name part))"
      using parts_prefix [OF var(3)] that f k by (auto simp: resolve_append)
    have "expand_loop n (mget values) (done' @ literal) rest =
        (case mget values (ep_Name part) of
           Some value \<Rightarrow> expand_loop n (mget values) ((done' @ literal) @ value) next
         | None \<Rightarrow> if \<not> ep_HasDefault part then Inl (UnknownVariable (ep_Name part))
                   else expand_loop n (mget values) ((done' @ literal) @ ep_Default part) next)"
      using var(2) unfolding var(1) by (subst expand_loop.simps) (simp add: has_prefix_def)
    then show ?thesis
      using go stop k by (auto simp: resolvePlainPart_def as_unknown_def split: option.splits)
  next
    case (out r part part' "next")
    then show ?thesis by simp
  next
    case (char c cs)
    have "expand_loop n (mget values) (done' @ literal) rest = expand_loop n (mget values) ((done' @ literal) @ [c]) cs"
      using char(2) unfolding char(1) by (subst expand_loop.simps) simp
    then show ?thesis using less.hyps [OF _ char(5) less.prems(2)] char(1) by simp
  qed
qed

text \<open>
  C19. Expanding the variables of a text and resolving the expression it
  parses to give the same text, or name the same missing value: the two
  surfaces that read \<^verbatim>\<open>${NAME}\<close> do not drift.
\<close>

theorem expand_is_parse_and_resolve:
  assumes "parseExpression raw project False = Inr e"
  shows "ExpandVariables raw (mget values) = map_err as_unknown (ResolveExpression e values)"
proof -
  from assms obtain ps where ps: "parse_loop (length raw) project False [] [] raw = Inr ps"
    "ex_Parts e = (if ps = [] then [literal_part raw] else ps)"
    by (auto simp: parseExpression_def bind_r_Inr)
  let ?outs = "\<lambda>part. Inl (NotPlain (ep_Collection part) (ep_Service part) (ep_Output part))"
  have r: "ExpandVariables raw (mget values) = map_err as_unknown (resolve_parts ?outs values ps)"
    using expand_resolves [OF ps(1), of "?outs" "values" "[]"] by (simp add: ExpandVariables_def)
  show ?thesis
  proof (cases "ps = []")
    case True
    then have "raw = []" using ps(1) parse_none by blast
    then show ?thesis using r True ps(2)
      by (simp add: ResolveExpression_def literal_part_def resolvePlainPart_def zero_part_def)
  next
    case False
    then show ?thesis using r ps(2) by (simp add: ResolveExpression_def)
  qed
qed

theorem expand_is_parse_and_resolve_witness:
  "ExpandVariables ''$ ${A}-${B:-2}'' (mget [(''A'', ''1'')]) = Inr ''$ 1-2'' \<and>
   (\<exists>e. parseExpression ''$ ${A}-${B:-2}'' wit_services False = Inr e \<and>
      map_err as_unknown (ResolveExpression e [(''A'', ''1'')]) = Inr ''$ 1-2'')"
proof -
  have x: "ExpandVariables ''$ ${A}-${B:-2}'' (mget [(''A'', ''1'')]) = Inr ''$ 1-2''" by code_simp
  have "(case parseExpression ''$ ${A}-${B:-2}'' wit_services False of Inl _ \<Rightarrow> False | Inr e \<Rightarrow> True)" by code_simp
  then obtain e where e: "parseExpression ''$ ${A}-${B:-2}'' wit_services False = Inr e" by (auto split: sum.splits)
  with x expand_is_parse_and_resolve [OF e, of "[(''A'', ''1'')]"] show ?thesis by auto
qed

end
