(* ===== verification/Spec2Isabelle.thy ===== *)
theory Spec2Isabelle
  imports Cluster_Machine Observe_Sources Once_Only Expressions
begin

text \<open>
  A verification library for Skali, a self-hosted platform that runs
  applications on a K3s cluster (\<^verbatim>\<open>src/\<close>, written in Go).

  \<^bold>\<open>The program.\<close> A host daemon on every node coordinates the cluster through one
  document, the cluster state: which hosts belong to it, which revision is
  converged, which operation is under way. The control plane (\<^verbatim>\<open>skalid\<close>) serves
  an HTTP API over a relational store: users log in, hold roles on projects
  and environments, and change them; a store in memory observes what runs in
  the cluster and broadcasts changes to the pages that show it; schedules
  fire backups. Every status of the product is a small state machine whose
  shape the tests of the repository verify.

  \<^bold>\<open>The theories and the code.\<close>

  \<^item> \<^verbatim>\<open>Skali_Prelude\<close>: Go maps as association lists, sorting, transition systems
    (the locale \<^verbatim>\<open>transition_system\<close>), instants, durations and int64 arithmetic.
    \<^verbatim>\<open>Go_Strings\<close>: the part of \<^verbatim>\<open>strings\<close> and \<^verbatim>\<open>strconv\<close> the code uses.
    \<^verbatim>\<open>Go_Time\<close>: the civil calendar of \<^verbatim>\<open>time\<close> in UTC.
  \<^item> \<^verbatim>\<open>Version\<close>, \<^verbatim>\<open>Naming\<close>, \<^verbatim>\<open>Layout\<close>: release tags (\<^verbatim>\<open>internal/version\<close>), names
    (\<^verbatim>\<open>internal/naming\<close>), the declared topology of a cluster (\<^verbatim>\<open>internal/layout\<close>).
  \<^item> \<^verbatim>\<open>Cluster_Types\<close>, \<^verbatim>\<open>Cluster_Plan\<close>, \<^verbatim>\<open>Cluster_Operation\<close>, \<^verbatim>\<open>Cluster_Release\<close>:
    \<^verbatim>\<open>internal/clusterstate\<close>, one theory per file group. The document is the record
    \<^verbatim>\<open>State\<close>; every mutation of the code is a function from a document to a result
    and a document. \<^verbatim>\<open>Cluster_Writers\<close> has the writes of the document by the
    enrollment and poll handlers (\<^verbatim>\<open>server.go\<close>), the command line, the installer and
    the coordinator daemon. \<^verbatim>\<open>Cluster_Machine\<close> makes all of them the steps of a
    transition system and proves the properties of whole histories.
  \<^item> \<^verbatim>\<open>Lifecycle\<close> (\<^verbatim>\<open>internal/lifecycle\<close> and the vocabularies of its users) and
    \<^verbatim>\<open>Module_Health\<close> (\<^verbatim>\<open>internal/module\<close>).
  \<^item> \<^verbatim>\<open>Broadcast\<close> (\<^verbatim>\<open>internal/broadcast\<close>): channels as explicit queues, so a send on
    a closed channel or a second close is a panic of the model.
    \<^verbatim>\<open>Observe_Types\<close>, \<^verbatim>\<open>Observe_Store\<close>, \<^verbatim>\<open>Observe_Sources\<close> (\<^verbatim>\<open>internal/observe\<close>): the store
    of observed objects with its indices, and the freshness of its sources.
  \<^item> \<^verbatim>\<open>Cron\<close> (\<^verbatim>\<open>internal/cron\<close>): parsing, the next fire time, the wording.
  \<^item> \<^verbatim>\<open>Expressions\<close> (\<^verbatim>\<open>internal/compiler/expression.go\<close>): the values of a manifest
    that refer to project variables and service outputs.
  \<^item> \<^verbatim>\<open>Store_Db\<close>, \<^verbatim>\<open>Auth_Store\<close>: the tables of \<^verbatim>\<open>migrations/\<close> and the statements of
    \<^verbatim>\<open>query/*.sql\<close> as functions on lists of rows, with keys, checks, foreign keys
    and cascades; \<^verbatim>\<open>WithTx\<close> of \<^verbatim>\<open>internal/store\<close>.
  \<^item> \<^verbatim>\<open>Authz\<close> (\<^verbatim>\<open>internal/authz\<close>) and \<^verbatim>\<open>Access_Api\<close> (\<^verbatim>\<open>internal/api/access.go\<close>): roles,
    grants, and the middleware in front of every handler.
  \<^item> \<^verbatim>\<open>Programs\<close>: requests that run at the same time, as programs of atomic actions;
    a server of any number of them, the locale \<^verbatim>\<open>guaranteed\<close> for what all their
    actions keep, and the locale \<^verbatim>\<open>relied\<close> for what they keep as long as the others
    guarantee a relation. \<^verbatim>\<open>Rate_Limit\<close>, \<^verbatim>\<open>Auth\<close>, \<^verbatim>\<open>Device\<close> (\<^verbatim>\<open>internal/auth\<close>) and
    \<^verbatim>\<open>Projects\<close> (\<^verbatim>\<open>internal/project\<close>, and the deletions of \<^verbatim>\<open>internal/deploy\<close>) are such
    programs. \<^verbatim>\<open>Requests\<close> composes them: a request, the
    program it runs, and the steps it can commit. \<^verbatim>\<open>Table_Frames\<close> says which
    tables each of them leaves alone; \<^verbatim>\<open>Server_Invariants\<close> and \<^verbatim>\<open>Once_Only\<close> prove
    what holds of a server, the latter through the locale \<^verbatim>\<open>single_use\<close>.

  \<^bold>\<open>What is shown.\<close> The cluster document stays consistent along every history,
  revisions are immutable, the converged revision moves only by a complete
  operation or the commit of an uninstall, and every operation can be completed; plans are exactly the
  difference of two revisions and the scheduler exposes their steps in a safe
  order within its limit. The observation store answers from its indices as if
  it searched (a shared resource is found by its slot where the publishers name
  it after its key and kind), tells every subscriber whose view changed, except
  where a resource moves to another shared key, and its freshness machine is
  sound. Status machines are what their contract says. Schedules
  parse as the grammar says and fire first when they say. Expressions print
  so that they parse again, and the two readers of \<^verbatim>\<open>${NAME}\<close> agree. A request passes the
  middleware exactly when the rows entitle the caller, whatever commits in
  between; the limiter bounds attempts. On a server that runs any requests
  at the same time, some user stays an instance admin as long as no request
  makes an admin (and a promotion beside a deletion can leave none), a name
  leads to one environment of a project, promotion rules follow renames, a step of a second
  factor, a backup code and the approval of a device request are given out
  once, and an approval has its approver.

  \<^bold>\<open>Concurrency.\<close> In the services over the store, a statement outside a
  transaction is one action. A transaction that locks the rows it decides on
  before it reads them, or decides in the statement that writes, is one action
  as well, because the store runs such transactions one after another. The
  transactions of \<^verbatim>\<open>internal/auth/users.go\<close> read the user without a lock under
  READ COMMITTED; each of them is two actions, the read and the rest. Between two actions of a request any number of
  actions of other requests may run. A read-only request is given a history of
  tables, one per statement.

  \<^bold>\<open>Bounds and fuel.\<close> No definition runs on fuel. Loops are structural recursion
  or carry a termination proof; the search of the next fire time ends because
  every round moves forward within the five-year horizon, and \<^verbatim>\<open>Parse\<close>, whose step
  loop can wrap around int64, is proved to return on every input. Integers are
  wrapped to 64 bits where the code can overflow (versions, cron steps, byte
  counts); attempt counters are unbounded.

  \<^bold>\<open>Parameters.\<close> Code outside the repository is an argument: the driver (failures
  by statement, the clock of the database, collation and case folding of text),
  the hash, cipher and one-time password libraries, address parsing, the random
  source. A failing statement or draw is a value the model handles on every
  path.

  \<^bold>\<open>Not modelled.\<close> Rendering and applying Kubernetes objects, informers and
  reconciliation (objects of the client library); processes, files and network
  on hosts (\<^verbatim>\<open>internal/hostdaemon\<close>, \<^verbatim>\<open>internal/bundle\<close>, \<^verbatim>\<open>internal/installer\<close>); the
  manifest compiler beyond its expressions (YAML and JSON schema library values); deployments, runs,
  backups, databases and buckets beyond their status machines; the command
  line beyond its writes of the document, the HTTP client and the handlers behind
  the middleware; the reset of the development seed; password
  encodings and token generation, which wrap the cipher libraries. Bookkeeping
  columns (\<^verbatim>\<open>created_at\<close>, most \<^verbatim>\<open>updated_at\<close>) are left out of the rows.
\<close>

end
